(* ===== verification/Nd_Prelude.thy ===== *)
theory Nd_Prelude
  imports Main "HOL-Library.Word" "HOL-Library.Monad_Syntax"
begin

text \<open>
  Shared vocabulary of the development: the machine types of \<^verbatim>\<open>include/nd_common/nd_define.h\<close>,
  the error codes of \<^verbatim>\<open>include/nd_common/_nderr.h\<close>, C memory blocks as byte lists with
  bounds-checked reads and writes, and byte-order conversion.

  A C memory block is a list of bytes and a pointer into it is an offset. An operation that would
  touch memory outside its block has no defined result in C; it is \<open>None\<close> here. So a definition of
  type \<open>'a option\<close> returns \<open>Some\<close> exactly when the C code stays inside its blocks, while the error
  returns of the code itself (\<open>-1\<close>, \<open>NULL\<close>) are ordinary values.
\<close>

unbundle bit_operations_syntax

type_synonym byte = "8 word"
type_synonym u16 = "16 word"
type_synonym u32 = "32 word"
type_synonym ndtime_t = "32 word"

named_theorems mem_simps "bounds-checked memory access"
named_theorems buf_simps "contents of buffers after an operation"

section \<open>Error codes\<close>

text \<open>The members of the error enumeration that the modelled code tests or sets, with the
  values their position in \<^verbatim>\<open>_nderr.h\<close> gives them.\<close>

abbreviation (input) NDERR_SUCCESS :: nat where "NDERR_SUCCESS \<equiv> 0"
abbreviation (input) NDERR_INVALID_HANDLE :: nat where "NDERR_INVALID_HANDLE \<equiv> 1"
abbreviation (input) NDERR_TIMEOUT :: nat where "NDERR_TIMEOUT \<equiv> 2"
abbreviation (input) NDERR_NOSOURCE :: nat where "NDERR_NOSOURCE \<equiv> 3"
abbreviation (input) NDERR_OPENFILE :: nat where "NDERR_OPENFILE \<equiv> 4"
abbreviation (input) NDERR_LIMITED :: nat where "NDERR_LIMITED \<equiv> 6"
abbreviation (input) NDERR_USER :: nat where "NDERR_USER \<equiv> 7"
abbreviation (input) NDERR_IO :: nat where "NDERR_IO \<equiv> 9"
abbreviation (input) NDERR_WOULD_BLOCK :: nat where "NDERR_WOULD_BLOCK \<equiv> 10"
abbreviation (input) NDERR_CLOSED :: nat where "NDERR_CLOSED \<equiv> 11"
abbreviation (input) NDERR_BADPACKET :: nat where "NDERR_BADPACKET \<equiv> 12"
abbreviation (input) NDERR_BADSOCKET :: nat where "NDERR_BADSOCKET \<equiv> 13"
abbreviation (input) NDERR_READ :: nat where "NDERR_READ \<equiv> 14"
abbreviation (input) NDERR_WRITE :: nat where "NDERR_WRITE \<equiv> 15"
abbreviation (input) NDERR_NO_PRIVILAGE :: nat where "NDERR_NO_PRIVILAGE \<equiv> 16"
abbreviation (input) NDERR_RESET :: nat where "NDERR_RESET \<equiv> 17"
abbreviation (input) NDERR_VERSION :: nat where "NDERR_VERSION \<equiv> 18"
abbreviation (input) NDERR_USER_BREAK :: nat where "NDERR_USER_BREAK \<equiv> 19"
abbreviation (input) NDERR_UNHANDLED_MSG :: nat where "NDERR_UNHANDLED_MSG \<equiv> 20"

section \<open>Sizes\<close>

text \<open>Subtraction on \<open>size_t\<close> (64 bits) wraps below zero.\<close>

definition size_sub :: "nat \<Rightarrow> nat \<Rightarrow> nat" where
  "size_sub a b = (if b \<le> a then a - b else a + 2 ^ 64 - b)"

lemma size_sub_le [simp]: "b \<le> a \<Longrightarrow> size_sub a b = a - b"
  by (simp add: size_sub_def)

text \<open>\<open>ND_ROUNDUP8\<close>: the next multiple of 8.\<close>

definition ND_ROUNDUP8 :: "nat \<Rightarrow> nat" where
  "ND_ROUNDUP8 n = (n + 7) div 8 * 8"

lemma ND_ROUNDUP8_ge: "n \<le> ND_ROUNDUP8 n"
  unfolding ND_ROUNDUP8_def by presburger

section \<open>Memory blocks\<close>

text \<open>\<open>memcpy\<close> into and out of a block; \<open>None\<close> when the range leaves the block. A copy inside one
  block reads its whole source before it writes.\<close>

definition mem_write :: "'a list \<Rightarrow> nat \<Rightarrow> 'a list \<Rightarrow> 'a list option" where
  "mem_write buf off xs =
     (if off + length xs \<le> length buf
      then Some (take off buf @ xs @ drop (off + length xs) buf) else None)"

definition mem_read :: "'a list \<Rightarrow> nat \<Rightarrow> nat \<Rightarrow> 'a list option" where
  "mem_read buf off n = (if off + n \<le> length buf then Some (take n (drop off buf)) else None)"

text \<open>The elements from offset \<open>s\<close> up to offset \<open>e\<close>.\<close>

definition seg :: "'a list \<Rightarrow> nat \<Rightarrow> nat \<Rightarrow> 'a list" where
  "seg buf s e = take (e - s) (drop s buf)"

lemma mem_write_Some [mem_simps]:
  "off + length xs \<le> length buf \<Longrightarrow>
   mem_write buf off xs = Some (take off buf @ xs @ drop (off + length xs) buf)"
  by (simp add: mem_write_def)

lemma mem_write_None [mem_simps]:
  "length buf < off + length xs \<Longrightarrow> mem_write buf off xs = None"
  by (simp add: mem_write_def)

lemma mem_write_eq_None_iff:
  "mem_write buf off xs = None \<longleftrightarrow> length buf < off + length xs"
  by (simp add: mem_write_def not_le)

lemma mem_write_length: "mem_write buf off xs = Some buf' \<Longrightarrow> length buf' = length buf"
  by (auto simp: mem_write_def split: if_splits)

lemma mem_read_Some [mem_simps]:
  "off + n \<le> length buf \<Longrightarrow> mem_read buf off n = Some (seg buf off (off + n))"
  by (simp add: mem_read_def seg_def)

lemma length_seg [simp]: "e \<le> length buf \<Longrightarrow> length (seg buf s e) = e - s"
  by (simp add: seg_def)

lemma seg_empty [simp]: "e \<le> s \<Longrightarrow> seg buf s e = []"
  by (simp add: seg_def)

lemma seg_full: "seg buf 0 (length buf) = buf"
  by (simp add: seg_def)

lemma seg_take: "seg buf s e = drop s (take e buf)"
  by (simp add: seg_def drop_take)

lemma seg_append:
  assumes "s \<le> m" and "m \<le> e"
  shows "seg buf s m @ seg buf m e = seg buf s e"
proof -
  have "e - s = (m - s) + (e - m)" and "m = s + (m - s)"
    using assms by simp_all
  then show ?thesis
    unfolding seg_def by (metis add.commute drop_drop take_add)
qed

lemma take_seg: "s + n \<le> e \<Longrightarrow> take n (seg buf s e) = seg buf s (s + n)"
  by (simp add: seg_def)

lemma drop_seg: "drop n (seg buf s e) = seg buf (s + n) e"
  by (simp add: seg_def drop_take add.commute diff_diff_left)

lemma seg_mem_write_append:
  assumes "mem_write buf e xs = Some buf'" and "s \<le> e"
  shows "seg buf' s (e + length xs) = seg buf s e @ xs"
  using assms by (auto simp: mem_write_def seg_take split: if_splits)

lemma seg_mem_write_after:
  assumes "mem_write buf off xs = Some buf'" and "e \<le> off"
  shows "seg buf' s e = seg buf s e"
  using assms by (auto simp: mem_write_def seg_take split: if_splits)

lemma seg_mem_write_before:
  assumes "mem_write buf off xs = Some buf'" and "off + length xs \<le> s"
  shows "seg buf' s e = seg buf s e"
  using assms by (auto simp: mem_write_def seg_def split: if_splits)

lemma seg_mem_write_exact:
  assumes "mem_write buf off xs = Some buf'"
  shows "seg buf' off (off + length xs) = xs"
  using seg_mem_write_append [OF assms, of off] by simp

section \<open>Byte order\<close>

text \<open>The host is little-endian. \<open>u32_of_le\<close> and \<open>le_of_u32\<close> reinterpret four bytes of memory as an
  unsigned 32-bit integer and back; \<open>u16_of_le\<close> and \<open>le_of_u16\<close> the same for 16 bits.
  \<open>htons\<close> swaps the two bytes, and \<open>ntohs\<close> is the same function.\<close>

definition u32_of_le :: "byte \<Rightarrow> byte \<Rightarrow> byte \<Rightarrow> byte \<Rightarrow> u32" where
  "u32_of_le a b c d = ucast a OR push_bit 8 (ucast b) OR push_bit 16 (ucast c) OR push_bit 24 (ucast d)"

definition le_of_u32 :: "u32 \<Rightarrow> byte list" where
  "le_of_u32 w = [ucast w, ucast (drop_bit 8 w), ucast (drop_bit 16 w), ucast (drop_bit 24 w)]"

definition u16_of_le :: "byte \<Rightarrow> byte \<Rightarrow> u16" where
  "u16_of_le a b = ucast a OR push_bit 8 (ucast b)"

definition le_of_u16 :: "u16 \<Rightarrow> byte list" where
  "le_of_u16 w = [ucast w, ucast (drop_bit 8 w)]"

definition htons :: "u16 \<Rightarrow> u16" where
  "htons w = u16_of_le (ucast (drop_bit 8 w)) (ucast w)"

definition ntohl :: "u32 \<Rightarrow> u32" where
  "ntohl w = u32_of_le (ucast (drop_bit 24 w)) (ucast (drop_bit 16 w)) (ucast (drop_bit 8 w)) (ucast w)"

lemma uint_of_nat_eq: "n < 2 ^ LENGTH('a) \<Longrightarrow> uint (of_nat n :: 'a::len word) = int n"
  by (simp add: unsigned_of_nat take_bit_nat_eq_self)

lemma unat_of_nat_eq: "n < 2 ^ LENGTH('a) \<Longrightarrow> unat (of_nat n :: 'a::len word) = n"
  by (simp add: unsigned_of_nat take_bit_nat_eq_self)

lemma unat_u16_le: "unat (w :: u16) \<le> 65535"
proof -
  have "unat w < 2 ^ LENGTH(16)" by (rule unsigned_less)
  then show ?thesis by simp
qed

lemma byte_no_bit: "8 \<le> n \<Longrightarrow> \<not> bit (a :: byte) n"
  using bit_imp_le_length by fastforce

lemma u32_byte_sel [simp]:
  "ucast (u32_of_le a b c d) = a" "ucast (drop_bit 8 (u32_of_le a b c d)) = b"
  "ucast (drop_bit 16 (u32_of_le a b c d)) = c" "ucast (drop_bit 24 (u32_of_le a b c d)) = d"
  unfolding u32_of_le_def by (rule bit_word_eqI, auto simp: bit_simps byte_no_bit)+

lemma u16_byte_sel [simp]:
  "ucast (u16_of_le a b) = a" "ucast (drop_bit 8 (u16_of_le a b)) = b"
  unfolding u16_of_le_def by (rule bit_word_eqI, auto simp: bit_simps byte_no_bit)+

lemma le_of_u32_of_le [simp]: "le_of_u32 (u32_of_le a b c d) = [a, b, c, d]"
  by (simp add: le_of_u32_def)

lemma le_of_u16_of_le [simp]: "le_of_u16 (u16_of_le a b) = [a, b]"
  by (simp add: le_of_u16_def)

lemma length_le_of_u32 [simp]: "length (le_of_u32 w) = 4"
  by (simp add: le_of_u32_def)

lemma u32_of_le_bytes [simp]:
  "u32_of_le (ucast w) (ucast (drop_bit 8 w)) (ucast (drop_bit 16 w)) (ucast (drop_bit 24 w)) = w"
proof (rule bit_word_eqI)
  fix n
  assume "n < LENGTH(32)"
  then consider "n < 8" | "8 \<le> n" "n < 16" | "16 \<le> n" "n < 24" | "24 \<le> n" "n < 32"
    by fastforce
  then show "bit (u32_of_le (ucast w) (ucast (drop_bit 8 w)) (ucast (drop_bit 16 w))
      (ucast (drop_bit 24 w))) n = bit w n"
    by cases (auto simp: u32_of_le_def bit_simps)
qed

lemma u16_of_le_bytes [simp]: "u16_of_le (ucast w) (ucast (drop_bit 8 w)) = w"
  unfolding u16_of_le_def by (rule bit_word_eqI) (auto simp: bit_simps)

lemma htons_htons [simp]: "htons (htons w) = w"
  by (simp add: htons_def)

lemma ntohl_ntohl [simp]: "ntohl (ntohl w) = w"
  by (simp add: ntohl_def)

section \<open>Interleavings\<close>

lemma shuffles_append_left: "zs \<in> shuffles xs ys \<Longrightarrow> as @ zs \<in> shuffles (as @ xs) ys"
  by (induction as) (simp_all add: Cons_in_shuffles_leftI)

lemma shuffles_append_right: "zs \<in> shuffles xs ys \<Longrightarrow> as @ zs \<in> shuffles xs (as @ ys)"
  by (induction as) (simp_all add: Cons_in_shuffles_rightI)

lemma shuffles_append:
  "zs \<in> shuffles xs ys \<Longrightarrow> zs' \<in> shuffles xs' ys' \<Longrightarrow> zs @ zs' \<in> shuffles (xs @ xs') (ys @ ys')"
proof (induction xs ys arbitrary: zs rule: shuffles.induct)
  case (3 x xs y ys)
  then show ?case
    by (fastforce simp: Cons_in_shuffles_leftI Cons_in_shuffles_rightI)
qed (simp_all add: shuffles_append_left shuffles_append_right)

end
