(* ===== verification/Byte_Fifo.thy ===== *)
theory Byte_Fifo
  imports Nd_Prelude
begin

text \<open>
  The contract both buffers of \<^verbatim>\<open>src/nd_common/src/recbuf.c\<close> promise to the network code: a FIFO
  queue of bytes. \<open>accepts b n\<close> and \<open>refuses b n\<close> say for which lengths an all-or-nothing write
  succeeds and for which it returns \<open>-1\<close>; \<open>contents\<close> is the queue. The client theorem is that any
  interleaving of writes and reads delivers the accepted bytes unchanged and in order.
\<close>

datatype fifo_op = Put "byte list" | Get nat

text \<open>Run a list of writes and reads; the result holds the accepted input, the delivered output
  and the final buffer. A refused write or read (\<open>-1\<close>) contributes nothing.\<close>

fun fifo_run ::
  "('b \<Rightarrow> byte list \<Rightarrow> (int \<times> 'b) option) \<Rightarrow> ('b \<Rightarrow> nat \<Rightarrow> (int \<times> byte list \<times> 'b) option) \<Rightarrow>
   fifo_op list \<Rightarrow> 'b \<Rightarrow> (byte list \<times> byte list \<times> 'b) option" where
  "fifo_run put get [] b = Some ([], [], b)"
| "fifo_run put get (Put xs # ops) b = do {
     (r, b') \<leftarrow> put b xs;
     (ins, outs, b'') \<leftarrow> fifo_run put get ops b';
     Some ((if r = -1 then [] else xs) @ ins, outs, b'')
   }"
| "fifo_run put get (Get n # ops) b = do {
     (r, ys, b') \<leftarrow> get b n;
     (ins, outs, b'') \<leftarrow> fifo_run put get ops b';
     Some (ins, ys @ outs, b'')
   }"

locale byte_fifo =
  fixes invar :: "'b \<Rightarrow> bool"
    and contents :: "'b \<Rightarrow> byte list"
    and accepts :: "'b \<Rightarrow> nat \<Rightarrow> bool"
    and refuses :: "'b \<Rightarrow> nat \<Rightarrow> bool"
    and put :: "'b \<Rightarrow> byte list \<Rightarrow> (int \<times> 'b) option"
    and get :: "'b \<Rightarrow> nat \<Rightarrow> (int \<times> byte list \<times> 'b) option"
  assumes put_accept: "invar b \<Longrightarrow> accepts b (length xs) \<Longrightarrow>
      \<exists>b'. put b xs = Some (int (length xs), b') \<and> invar b' \<and> contents b' = contents b @ xs"
    and put_refuse: "invar b \<Longrightarrow> refuses b (length xs) \<Longrightarrow> put b xs = Some (-1, b)"
    and put_cases: "invar b \<Longrightarrow> put b xs = Some (r, b') \<Longrightarrow>
      accepts b (length xs) \<or> refuses b (length xs)"
    and get_enough: "invar b \<Longrightarrow> n \<le> length (contents b) \<Longrightarrow>
      \<exists>b'. get b n = Some (int n, take n (contents b), b') \<and> invar b' \<and>
           contents b' = drop n (contents b)"
    and get_short: "invar b \<Longrightarrow> length (contents b) < n \<Longrightarrow> get b n = Some (-1, [], b)"
begin

lemma put_step:
  assumes "invar b" and "put b xs = Some (r, b')"
  shows "invar b' \<and> contents b' = contents b @ (if r = -1 then [] else xs)"
  using put_cases [OF assms]
proof
  assume "accepts b (length xs)"
  from put_accept [OF assms(1) this] assms(2) show ?thesis by auto
next
  assume "refuses b (length xs)"
  from put_refuse [OF assms(1) this] assms show ?thesis by simp
qed

lemma get_step:
  assumes "invar b" and "get b n = Some (r, ys, b')"
  shows "invar b' \<and> contents b = ys @ contents b'"
proof (cases "n \<le> length (contents b)")
  case True
  with get_enough [OF assms(1) True] assms(2) show ?thesis by auto
next
  case False
  with get_short [OF assms(1)] assms show ?thesis by simp
qed

lemma get_total:
  assumes "invar b"
  obtains r ys b' where "get b n = Some (r, ys, b')"
  using get_enough [OF assms, of n] get_short [OF assms, of n] by (metis not_le)

text \<open>Nothing is lost, duplicated or reordered.\<close>

lemma run_stream:
  assumes "invar b" and "fifo_run put get ops b = Some (ins, outs, b')"
  shows "invar b' \<and> contents b @ ins = outs @ contents b'"
  using assms
proof (induction ops arbitrary: b ins outs)
  case Nil
  then show ?case by simp
next
  case (Cons x ops)
  show ?case
  proof (cases x)
    case (Put xs)
    with Cons.prems(2) obtain r b1 i1 where
      p: "put b xs = Some (r, b1)" and r1: "fifo_run put get ops b1 = Some (i1, outs, b')"
      and i: "ins = (if r = -1 then [] else xs) @ i1"
      by (auto split: bind_splits prod.splits)
    from put_step [OF Cons.prems(1) p] Cons.IH [OF _ r1] i show ?thesis by auto
  next
    case (Get n)
    with Cons.prems(2) obtain r ys b1 o1 where
      g: "get b n = Some (r, ys, b1)" and r1: "fifo_run put get ops b1 = Some (ins, o1, b')"
      and o: "outs = ys @ o1"
      by (auto split: bind_splits prod.splits)
    from get_step [OF Cons.prems(1) g] Cons.IH [OF _ r1] o show ?thesis by auto
  qed
qed

text \<open>A run that does not end stops at a write that is neither accepted nor refused.\<close>

lemma run_stuck:
  assumes "invar b" and "fifo_run put get ops b = None"
  shows "\<exists>ops1 xs ops2 ins outs b1. ops = ops1 @ Put xs # ops2 \<and> fifo_run put get ops1 b = Some (ins, outs, b1) \<and> invar b1 \<and>
    \<not> accepts b1 (length xs) \<and> \<not> refuses b1 (length xs)"
  using assms
proof (induction ops arbitrary: b)
  case (Cons x ops)
  show ?case
  proof (cases "\<exists>xs. x = Put xs \<and> put b xs = None")
    case True
    then obtain xs where "x = Put xs" "put b xs = None" by blast
    with put_accept [OF Cons.prems(1), of xs] put_refuse [OF Cons.prems(1), of xs] Cons.prems(1) show ?thesis
      by (intro exI [of _ "[]"] exI [of _ xs] exI [of _ ops]) auto
  next
    case False
    obtain b1 where b1: "invar b1" "fifo_run put get ops b1 = None"
        "\<And>ops1 ins outs b2. fifo_run put get ops1 b1 = Some (ins, outs, b2) \<Longrightarrow> \<exists>ins outs. fifo_run put get (x # ops1) b = Some (ins, outs, b2)"
    proof (cases x)
      case (Put xs)
      with False obtain r b1 where p: "put b xs = Some (r, b1)" by (cases "put b xs") auto
      show thesis
        by (rule that [of b1]) (use Put p Cons.prems put_step [OF Cons.prems(1) p] in \<open>auto split: bind_splits\<close>)
    next
      case (Get n)
      obtain r ys b1 where g: "get b n = Some (r, ys, b1)" using get_total [OF Cons.prems(1)] .
      show thesis
        by (rule that [of b1]) (use Get g Cons.prems get_step [OF Cons.prems(1) g] in \<open>auto split: bind_splits\<close>)
    qed
    from Cons.IH [OF b1(1,2)] obtain ops1 xs ops2 ins outs b2 where "ops = ops1 @ Put xs # ops2" and
      r: "fifo_run put get ops1 b1 = Some (ins, outs, b2)" and e: "invar b2" "\<not> accepts b2 (length xs)" "\<not> refuses b2 (length xs)" by blast
    moreover obtain ins' outs' where "fifo_run put get (x # ops1) b = Some (ins', outs', b2)" using b1(3) [OF r] by blast
    ultimately show ?thesis
      by (intro exI [of _ "x # ops1"] exI [of _ xs] exI [of _ ops2] exI [of _ ins'] exI [of _ outs'] exI [of _ b2]) simp
  qed
qed simp

text \<open>A run never leaves the buffer when every write is either accepted or refused.\<close>

lemma run_defined:
  assumes "invar b" and dec: "\<And>b n. invar b \<Longrightarrow> accepts b n \<or> refuses b n"
  shows "fifo_run put get ops b \<noteq> None"
  using assms(1)
proof (induction ops arbitrary: b)
  case Nil
  then show ?case by simp
next
  case (Cons x ops)
  show ?case
  proof (cases x)
    case (Put xs)
    obtain r b1 where p: "put b xs = Some (r, b1)"
      using dec [OF Cons.prems, of "length xs"] put_accept [OF Cons.prems, of xs]
        put_refuse [OF Cons.prems, of xs] by blast
    then show ?thesis
      using Put Cons.IH [of b1] put_step [OF Cons.prems p] by (auto split: bind_splits)
  next
    case (Get n)
    obtain r ys b1 where g: "get b n = Some (r, ys, b1)"
      using get_total [OF Cons.prems] by blast
    then show ?thesis
      using Get Cons.IH [of b1] get_step [OF Cons.prems g] by (auto split: bind_splits)
  qed
qed

end

end
