(* ===== verification/Ring_Buffer.thy ===== *)
theory Ring_Buffer
  imports Byte_Fifo
begin

text \<open>
  The circular buffer \<^verbatim>\<open>ndrecybuf_t\<close> of \<^verbatim>\<open>include/nd_common/nd_recbuf.h\<close> and
  \<^verbatim>\<open>src/nd_common/src/recbuf.c\<close>. The pointers \<open>m_pstart\<close> and \<open>m_pend\<close> are offsets into \<open>m_buf\<close>;
  the debug-only field \<open>m_nInit\<close> and the debug assertions have no counterpart. Equal offsets mean an
  empty buffer, so at most \<open>C_BUF_SIZE - 1\<close> bytes are stored.
\<close>

definition C_BUF_SIZE :: nat where "C_BUF_SIZE = 0x10000"

record ndrecybuf =
  m_pstart :: nat
  m_pend :: nat
  m_buf :: "byte list"

datatype eNDRecyRead = EBUF_ALL | EBUF_SPECIFIED

definition cbuf_capacity :: "ndrecybuf \<Rightarrow> nat" where
  "cbuf_capacity b = C_BUF_SIZE"

definition ndcbuf_reset :: "ndrecybuf \<Rightarrow> ndrecybuf" where
  "ndcbuf_reset b = b\<lparr>m_pstart := 0, m_pend := 0\<rparr>"

definition ndcbuf_init :: "ndrecybuf \<Rightarrow> ndrecybuf" where
  "ndcbuf_init b = ndcbuf_reset b"

definition ndcbuf_add_data :: "ndrecybuf \<Rightarrow> nat \<Rightarrow> ndrecybuf" where
  "ndcbuf_add_data b len = b\<lparr>m_pend := m_pend b + len\<rparr>"

definition cbuf_order :: "ndrecybuf \<Rightarrow> bool" where
  "cbuf_order b = (m_pend b \<ge> m_pstart b)"

definition cbuf_tail :: "ndrecybuf \<Rightarrow> nat" where
  "cbuf_tail b = C_BUF_SIZE"

definition ndcbuf_datalen :: "ndrecybuf \<Rightarrow> nat" where
  "ndcbuf_datalen b =
     (if cbuf_order b then size_sub (m_pend b) (m_pstart b)
      else size_sub C_BUF_SIZE (size_sub (m_pstart b) (m_pend b)))"

definition ndcbuf_freespace :: "ndrecybuf \<Rightarrow> nat" where
  "ndcbuf_freespace b =
     (let ret = (if cbuf_order b
                 then size_sub (cbuf_capacity b) (size_sub (m_pend b) (m_pstart b))
                 else size_sub (m_pstart b) (m_pend b))
      in size_sub ret 1)"

definition ndcbuf_sub_data :: "ndrecybuf \<Rightarrow> nat \<Rightarrow> ndrecybuf" where
  "ndcbuf_sub_data b len =
     (let b = b\<lparr>m_pstart := m_pstart b + len\<rparr>
      in if m_pstart b = m_pend b then ndcbuf_reset b else b)"

text \<open>\<^verbatim>\<open>_cbuf_write\<close>: copy \<open>data\<close> behind the stored bytes, wrapping once at the tail.\<close>

definition cbuf_write :: "ndrecybuf \<Rightarrow> byte list \<Rightarrow> (int \<times> ndrecybuf) option" where
  "cbuf_write b data =
     (let ret = length data; taillen = size_sub (cbuf_tail b) (m_pend b) in
      if taillen \<ge> ret then do {
        buf \<leftarrow> mem_write (m_buf b) (m_pend b) data;
        let e = m_pend b + ret;
        Some (int ret, b\<lparr>m_buf := buf, m_pend := (if e \<ge> cbuf_tail b then 0 else e)\<rparr>)
      } else do {
        buf \<leftarrow> mem_write (m_buf b) (m_pend b) (take taillen data);
        let data = drop taillen data;
        buf \<leftarrow> mem_write buf 0 data;
        Some (int ret, b\<lparr>m_buf := buf, m_pend := length data\<rparr>)
      })"

text \<open>\<^verbatim>\<open>_cbuf_read\<close>: copy \<open>sz\<close> bytes out and drop them.\<close>

definition cbuf_read :: "ndrecybuf \<Rightarrow> nat \<Rightarrow> (int \<times> byte list \<times> ndrecybuf) option" where
  "cbuf_read b sz =
     (if cbuf_order b then do {
        out \<leftarrow> mem_read (m_buf b) (m_pstart b) sz;
        let b = b\<lparr>m_pstart := m_pstart b + sz\<rparr>;
        Some (int sz, out, if m_pstart b = m_pend b then ndcbuf_reset b else b)
      } else
        let ret = sz; taillen = size_sub (cbuf_tail b) (m_pstart b) in
        if taillen \<ge> sz then do {
          out \<leftarrow> mem_read (m_buf b) (m_pstart b) sz;
          let s = m_pstart b + sz;
          Some (int ret, out, b\<lparr>m_pstart := (if s \<ge> cbuf_tail b then 0 else s)\<rparr>)
        } else do {
          out1 \<leftarrow> mem_read (m_buf b) (m_pstart b) taillen;
          let sz = sz - taillen;
          out2 \<leftarrow> mem_read (m_buf b) 0 sz;
          let b = b\<lparr>m_pstart := sz\<rparr>;
          Some (int ret, out1 @ out2, if m_pstart b = m_pend b then ndcbuf_reset b else b)
        })"

definition ndcbuf_read ::
  "ndrecybuf \<Rightarrow> nat \<Rightarrow> eNDRecyRead \<Rightarrow> (int \<times> byte list \<times> ndrecybuf) option" where
  "ndcbuf_read b sz flag =
     (let datalen = ndcbuf_datalen b in
      case flag of
        EBUF_SPECIFIED \<Rightarrow> if datalen < sz then Some (-1, [], b) else cbuf_read b sz
      | EBUF_ALL \<Rightarrow> cbuf_read b (if datalen < sz then datalen else sz))"

definition ndcbuf_write ::
  "ndrecybuf \<Rightarrow> byte list \<Rightarrow> eNDRecyRead \<Rightarrow> (int \<times> ndrecybuf) option" where
  "ndcbuf_write b data flag =
     (let spacelen = ndcbuf_freespace b; datalen = length data in
      case flag of
        EBUF_SPECIFIED \<Rightarrow> if spacelen < datalen then Some (-1, b) else cbuf_write b data
      | EBUF_ALL \<Rightarrow> cbuf_write b (if spacelen < datalen then take spacelen data else data))"

section \<open>Invariant and contents\<close>

definition cbuf_ok :: "ndrecybuf \<Rightarrow> bool" where
  "cbuf_ok b \<longleftrightarrow> length (m_buf b) = C_BUF_SIZE \<and> m_pstart b < C_BUF_SIZE \<and> m_pend b < C_BUF_SIZE"

definition cbuf_data :: "ndrecybuf \<Rightarrow> byte list" where
  "cbuf_data b =
     (if m_pstart b \<le> m_pend b then seg (m_buf b) (m_pstart b) (m_pend b)
      else seg (m_buf b) (m_pstart b) C_BUF_SIZE @ seg (m_buf b) 0 (m_pend b))"

lemmas cbuf_defs = cbuf_order_def cbuf_tail_def cbuf_capacity_def ndcbuf_reset_def Let_def

lemma cbuf_ok_init: "length (m_buf b) = C_BUF_SIZE \<Longrightarrow> cbuf_ok (ndcbuf_init b) \<and> cbuf_data (ndcbuf_init b) = []"
  by (simp add: cbuf_ok_def cbuf_data_def ndcbuf_init_def ndcbuf_reset_def C_BUF_SIZE_def)

lemma length_cbuf_data: "cbuf_ok b \<Longrightarrow> length (cbuf_data b) = ndcbuf_datalen b"
  by (auto simp: cbuf_ok_def cbuf_data_def ndcbuf_datalen_def cbuf_defs)

lemma freespace_datalen: "cbuf_ok b \<Longrightarrow> ndcbuf_freespace b + ndcbuf_datalen b = C_BUF_SIZE - 1"
  by (auto simp: cbuf_ok_def ndcbuf_freespace_def ndcbuf_datalen_def cbuf_defs)


section \<open>Writes and reads\<close>

lemma cbuf_write_correct:
  assumes ok: "cbuf_ok b" and fits: "length xs \<le> ndcbuf_freespace b"
  shows "\<exists>b'. cbuf_write b xs = Some (int (length xs), b') \<and> cbuf_ok b' \<and>
              cbuf_data b' = cbuf_data b @ xs"
proof (cases "m_pend b + length xs \<le> C_BUF_SIZE")
  case True
  obtain buf where buf: "mem_write (m_buf b) (m_pend b) xs = Some buf"
    using True ok by (simp add: mem_write_def cbuf_ok_def)
  let ?e = "m_pend b + length xs"
  let ?b' = "b\<lparr>m_buf := buf, m_pend := (if ?e \<ge> C_BUF_SIZE then 0 else ?e)\<rparr>"
  have len: "length buf = C_BUF_SIZE"
    using mem_write_length [OF buf] ok by (simp add: cbuf_ok_def)
  have "cbuf_write b xs = Some (int (length xs), ?b')"
    using True ok buf by (auto simp: cbuf_write_def cbuf_defs cbuf_ok_def)
  moreover have "cbuf_ok ?b'"
    using len ok by (simp add: cbuf_ok_def C_BUF_SIZE_def)
  moreover have "cbuf_data ?b' = cbuf_data b @ xs"
  proof (cases "m_pstart b \<le> m_pend b")
    case ord: True
    have "seg buf (m_pstart b) ?e = seg (m_buf b) (m_pstart b) (m_pend b) @ xs"
      using seg_mem_write_append [OF buf ord] .
    then show ?thesis
      using ord True fits ok
      by (auto simp: cbuf_data_def ndcbuf_freespace_def cbuf_defs cbuf_ok_def)
  next
    case wrap: False
    have e: "?e < m_pstart b"
      using wrap fits ok by (auto simp: ndcbuf_freespace_def cbuf_defs cbuf_ok_def)
    then show ?thesis
      using wrap ok seg_mem_write_append [OF buf, of 0] seg_mem_write_before [OF buf, of "m_pstart b"]
      by (simp add: cbuf_data_def cbuf_ok_def)
  qed
  ultimately show ?thesis by blast
next
  case False
  have ord: "m_pstart b \<le> m_pend b"
    using False fits ok by (auto simp: ndcbuf_freespace_def cbuf_defs cbuf_ok_def split: if_splits)
  define k where "k = C_BUF_SIZE - m_pend b"
  have k: "k < length xs" "m_pend b + k = C_BUF_SIZE"
    using False ok by (auto simp: k_def cbuf_ok_def)
  obtain buf1 where b1: "mem_write (m_buf b) (m_pend b) (take k xs) = Some buf1"
    using k ok by (simp add: mem_write_def cbuf_ok_def)
  have l1: "length buf1 = C_BUF_SIZE"
    using mem_write_length [OF b1] ok by (simp add: cbuf_ok_def)
  have small: "length xs - k < m_pstart b"
    using ord fits ok k by (auto simp: ndcbuf_freespace_def cbuf_defs cbuf_ok_def)
  obtain buf2 where b2: "mem_write buf1 0 (drop k xs) = Some buf2"
    using k small l1 ok by (simp add: mem_write_def cbuf_ok_def)
  let ?b' = "b\<lparr>m_buf := buf2, m_pend := length xs - k\<rparr>"
  have "cbuf_write b xs = Some (int (length xs), ?b')"
    using False ok b1 b2 k by (simp add: cbuf_write_def cbuf_defs cbuf_ok_def k_def)
  moreover have "cbuf_ok ?b'"
    using mem_write_length [OF b2] l1 small ok by (simp add: cbuf_ok_def)
  moreover have "cbuf_data ?b' = cbuf_data b @ xs"
    using ord small k seg_mem_write_exact [OF b2] seg_mem_write_append [OF b1 ord]
      seg_mem_write_before [OF b2, of "m_pstart b" C_BUF_SIZE]
    by (simp add: cbuf_data_def)
  ultimately show ?thesis by blast
qed

lemma cbuf_read_in_order:
  assumes ok: "cbuf_ok b" and ord: "m_pstart b \<le> m_pend b" and n: "m_pstart b + n \<le> m_pend b"
  shows "\<exists>b'. cbuf_read b n = Some (int n, take n (cbuf_data b), b') \<and> cbuf_ok b' \<and>
              cbuf_data b' = drop n (cbuf_data b)"
proof -
  let ?b = "b\<lparr>m_pstart := m_pstart b + n\<rparr>"
  let ?b' = "if m_pstart ?b = m_pend ?b then ndcbuf_reset ?b else ?b"
  have "cbuf_read b n = Some (int n, take n (cbuf_data b), ?b')"
    using ok ord n by (simp add: cbuf_read_def cbuf_defs cbuf_data_def cbuf_ok_def mem_simps take_seg)
  moreover have "cbuf_ok ?b'"
    using ok n by (simp add: cbuf_ok_def ndcbuf_reset_def)
  moreover have "cbuf_data ?b' = drop n (cbuf_data b)"
    using ord n by (simp add: cbuf_data_def ndcbuf_reset_def drop_seg)
  ultimately show ?thesis by blast
qed

lemma cbuf_read_at_tail:
  assumes ok: "cbuf_ok b" and wrap: "m_pend b < m_pstart b" and n: "m_pstart b + n \<le> C_BUF_SIZE"
  shows "\<exists>b'. cbuf_read b n = Some (int n, take n (cbuf_data b), b') \<and> cbuf_ok b' \<and>
              cbuf_data b' = drop n (cbuf_data b)"
proof -
  let ?s = "m_pstart b + n"
  let ?b' = "b\<lparr>m_pstart := (if ?s \<ge> C_BUF_SIZE then 0 else ?s)\<rparr>"
  have t: "n \<le> C_BUF_SIZE - m_pstart b"
    using n by simp
  have "cbuf_read b n = Some (int n, take n (cbuf_data b), ?b')"
    using ok wrap n t by (simp add: cbuf_read_def cbuf_defs cbuf_data_def cbuf_ok_def mem_simps take_seg)
  moreover have "cbuf_ok ?b'"
    using ok n by (simp add: cbuf_ok_def)
  moreover have "cbuf_data ?b' = drop n (cbuf_data b)"
    using ok wrap n t by (simp add: cbuf_data_def cbuf_ok_def drop_seg)
  ultimately show ?thesis by blast
qed

lemma cbuf_read_across_tail:
  assumes ok: "cbuf_ok b" and wrap: "m_pend b < m_pstart b" and far: "C_BUF_SIZE < m_pstart b + n"
    and n: "n \<le> C_BUF_SIZE - m_pstart b + m_pend b"
  shows "\<exists>b'. cbuf_read b n = Some (int n, take n (cbuf_data b), b') \<and> cbuf_ok b' \<and>
              cbuf_data b' = drop n (cbuf_data b)"
proof -
  define k where "k = C_BUF_SIZE - m_pstart b"
  have k: "k < n" "m_pstart b + k = C_BUF_SIZE" "n - k \<le> m_pend b"
    using ok far n by (auto simp: k_def cbuf_ok_def)
  let ?b = "b\<lparr>m_pstart := n - k\<rparr>"
  let ?b' = "if m_pstart ?b = m_pend ?b then ndcbuf_reset ?b else ?b"
  have len: "length (seg (m_buf b) (m_pstart b) C_BUF_SIZE) = k"
    using ok by (simp add: cbuf_ok_def k_def)
  have "cbuf_read b n = Some (int n, take n (cbuf_data b), ?b')"
    using ok wrap k len
    by (simp add: cbuf_read_def cbuf_defs cbuf_data_def cbuf_ok_def mem_simps take_seg k_def [symmetric])
  moreover have "cbuf_ok ?b'"
    using ok k by (simp add: cbuf_ok_def ndcbuf_reset_def)
  moreover have "cbuf_data ?b' = drop n (cbuf_data b)"
    using wrap k len by (simp add: cbuf_data_def ndcbuf_reset_def drop_seg)
  ultimately show ?thesis by blast
qed

lemma cbuf_read_correct:
  assumes ok: "cbuf_ok b" and enough: "n \<le> length (cbuf_data b)"
  shows "\<exists>b'. cbuf_read b n = Some (int n, take n (cbuf_data b), b') \<and> cbuf_ok b' \<and>
              cbuf_data b' = drop n (cbuf_data b)"
proof (cases "m_pstart b \<le> m_pend b")
  case True
  then show ?thesis
    using cbuf_read_in_order [OF ok] enough ok by (simp add: cbuf_data_def cbuf_ok_def)
next
  case False
  then have "n \<le> C_BUF_SIZE - m_pstart b + m_pend b"
    using enough ok by (simp add: cbuf_data_def cbuf_ok_def)
  with False show ?thesis
    using cbuf_read_at_tail [OF ok] cbuf_read_across_tail [OF ok] by (metis not_le)
qed

lemma ndcbuf_write_SPECIFIED_refuse:
  "ndcbuf_freespace b < length xs \<Longrightarrow> ndcbuf_write b xs EBUF_SPECIFIED = Some (-1, b)"
  by (simp add: ndcbuf_write_def)

lemma ndcbuf_read_SPECIFIED_short:
  "cbuf_ok b \<Longrightarrow> length (cbuf_data b) < n \<Longrightarrow> ndcbuf_read b n EBUF_SPECIFIED = Some (-1, [], b)"
  by (simp add: ndcbuf_read_def length_cbuf_data)

interpretation ring: byte_fifo cbuf_ok cbuf_data
  "\<lambda>b n. n \<le> ndcbuf_freespace b" "\<lambda>b n. ndcbuf_freespace b < n"
  "\<lambda>b xs. ndcbuf_write b xs EBUF_SPECIFIED" "\<lambda>b n. ndcbuf_read b n EBUF_SPECIFIED"
proof (unfold_locales, goal_cases)
  case (1 b xs)
  then show ?case using cbuf_write_correct [of b xs] by (simp add: ndcbuf_write_def)
next
  case (2 b xs)
  then show ?case by (simp add: ndcbuf_write_SPECIFIED_refuse)
next
  case (3 b xs r b')
  show ?case by (rule le_less_linear)
next
  case (4 b n)
  then show ?case
    using cbuf_read_correct [of b n] by (simp add: ndcbuf_read_def length_cbuf_data)
next
  case (5 b n)
  then show ?case by (simp add: ndcbuf_read_SPECIFIED_short)
qed

section \<open>Properties\<close>

text \<open>C9. Any sequence of all-or-nothing writes and reads on a well-formed circular buffer stays
  inside the 64 KiB block, keeps the buffer well formed, and delivers exactly the accepted bytes in
  order: what was stored plus what was accepted is what was delivered plus what is still stored.\<close>

theorem ring_buffer_fifo:
  assumes "cbuf_ok b"
  shows "\<exists>ins outs b'.
    fifo_run (\<lambda>b xs. ndcbuf_write b xs EBUF_SPECIFIED) (\<lambda>b n. ndcbuf_read b n EBUF_SPECIFIED) ops b
      = Some (ins, outs, b') \<and>
    cbuf_ok b' \<and> cbuf_data b @ ins = outs @ cbuf_data b'"
proof -
  obtain ins outs b' where
    r: "fifo_run (\<lambda>b xs. ndcbuf_write b xs EBUF_SPECIFIED) (\<lambda>b n. ndcbuf_read b n EBUF_SPECIFIED) ops b
      = Some (ins, outs, b')"
    using ring.run_defined [OF assms le_less_linear, of ops] by auto
  with ring.run_stream [OF assms r] show ?thesis by blast
qed

definition cbuf_fresh :: ndrecybuf where
  "cbuf_fresh = ndcbuf_init \<lparr>m_pstart = 0, m_pend = 0, m_buf = replicate C_BUF_SIZE 0\<rparr>"

lemma cbuf_fresh_ok: "cbuf_ok cbuf_fresh" and cbuf_fresh_data: "cbuf_data cbuf_fresh = []"
  using cbuf_ok_init [of "\<lparr>m_pstart = 0, m_pend = 0, m_buf = replicate C_BUF_SIZE 0\<rparr>"]
  by (simp_all add: cbuf_fresh_def)

theorem ring_buffer_fifo_witness:
  "cbuf_ok cbuf_fresh \<and> (\<exists>ins outs b'.
    fifo_run (\<lambda>b xs. ndcbuf_write b xs EBUF_SPECIFIED) (\<lambda>b n. ndcbuf_read b n EBUF_SPECIFIED)
      [Put [1, 2, 3], Get 2, Put [4], Get 5] cbuf_fresh = Some (ins, outs, b') \<and>
    cbuf_ok b' \<and> ins = outs @ cbuf_data b')"
  using ring_buffer_fifo [OF cbuf_fresh_ok, of "[Put [1, 2, 3], Get 2, Put [4], Get 5]"]
  by (simp add: cbuf_fresh_ok cbuf_fresh_data)

text \<open>A best-effort write (\<open>EBUF_ALL\<close>) stores the longest prefix that fits and returns its
  length; a best-effort read returns the longest available prefix. The stored length never
  exceeds the capacity minus one.\<close>

theorem ring_buffer_best_effort:
  assumes ok: "cbuf_ok b"
  shows "let k = min (length xs) (C_BUF_SIZE - 1 - length (cbuf_data b));
             m = min n (length (cbuf_data b))
         in (\<exists>b'. ndcbuf_write b xs EBUF_ALL = Some (int k, b') \<and> cbuf_ok b' \<and>
                  cbuf_data b' = cbuf_data b @ take k xs \<and> length (cbuf_data b') \<le> C_BUF_SIZE - 1) \<and>
            (\<exists>b'. ndcbuf_read b n EBUF_ALL = Some (int m, take m (cbuf_data b), b') \<and> cbuf_ok b' \<and>
                  cbuf_data b' = drop m (cbuf_data b))"
proof -
  have free: "ndcbuf_freespace b = C_BUF_SIZE - 1 - length (cbuf_data b)"
    using freespace_datalen [OF ok] length_cbuf_data [OF ok] by simp
  let ?k = "min (length xs) (ndcbuf_freespace b)" and ?m = "min n (length (cbuf_data b))"
  have "ndcbuf_write b xs EBUF_ALL = cbuf_write b (take ?k xs)"
    by (simp add: ndcbuf_write_def Let_def min_def)
  with cbuf_write_correct [OF ok, of "take ?k xs"]
  have w: "\<exists>b'. ndcbuf_write b xs EBUF_ALL = Some (int ?k, b') \<and> cbuf_ok b' \<and>
      cbuf_data b' = cbuf_data b @ take ?k xs"
    by (simp add: min.commute)
  have "ndcbuf_read b n EBUF_ALL = cbuf_read b ?m"
    using length_cbuf_data [OF ok] by (simp add: ndcbuf_read_def min_def)
  with cbuf_read_correct [OF ok, of ?m]
  have r: "\<exists>b'. ndcbuf_read b n EBUF_ALL = Some (int ?m, take ?m (cbuf_data b), b') \<and> cbuf_ok b' \<and>
      cbuf_data b' = drop ?m (cbuf_data b)"
    by simp
  have "length (cbuf_data b) + ?k \<le> C_BUF_SIZE - 1"
    using freespace_datalen [OF ok] length_cbuf_data [OF ok] by simp
  with w r show ?thesis
    unfolding free [symmetric] Let_def by fastforce
qed

theorem ring_buffer_best_effort_witness:
  "cbuf_ok cbuf_fresh \<and>
   (\<exists>b'. ndcbuf_write cbuf_fresh [1, 2, 3] EBUF_ALL = Some (3, b') \<and> cbuf_ok b' \<and>
         cbuf_data b' = [1, 2, 3])"
  using ring_buffer_best_effort [OF cbuf_fresh_ok, of "[1, 2, 3]" 0]
  by (auto simp: cbuf_fresh_ok cbuf_fresh_data Let_def C_BUF_SIZE_def)

text \<open>\<open>ndcbuf_sub_data\<close> advances the read pointer without wrapping it. While the stored bytes do
  not wrap it drops a prefix, as intended; once they wrap, dropping past the end of the block moves
  the pointer out of the block and the buffer is no longer well formed.\<close>

theorem ndcbuf_sub_data_only_in_order:
  assumes ok: "cbuf_ok b" and n: "0 < n" "n \<le> length (cbuf_data b)"
  shows "(cbuf_order b \<longrightarrow> cbuf_ok (ndcbuf_sub_data b n) \<and>
            cbuf_data (ndcbuf_sub_data b n) = drop n (cbuf_data b)) \<and>
         (\<not> cbuf_order b \<and> C_BUF_SIZE \<le> m_pstart b + n \<longrightarrow> \<not> cbuf_ok (ndcbuf_sub_data b n))"
proof (intro conjI impI)
  assume "cbuf_order b"
  with ok n show "cbuf_ok (ndcbuf_sub_data b n)"
    by (auto simp: cbuf_ok_def cbuf_data_def ndcbuf_sub_data_def cbuf_defs)
next
  assume "cbuf_order b"
  with ok n show "cbuf_data (ndcbuf_sub_data b n) = drop n (cbuf_data b)"
    by (auto simp: cbuf_ok_def cbuf_data_def ndcbuf_sub_data_def cbuf_defs drop_seg)
next
  assume "\<not> cbuf_order b \<and> C_BUF_SIZE \<le> m_pstart b + n"
  with ok show "\<not> cbuf_ok (ndcbuf_sub_data b n)"
    by (auto simp: cbuf_ok_def ndcbuf_sub_data_def cbuf_defs)
qed

theorem ndcbuf_sub_data_only_in_order_witness:
  "\<exists>b. cbuf_ok b \<and> 3 \<le> length (cbuf_data b) \<and> \<not> cbuf_order b \<and> \<not> cbuf_ok (ndcbuf_sub_data b 3)"
proof -
  obtain buf :: "byte list" where buf: "length buf = C_BUF_SIZE"
    using that [OF length_replicate] .
  let ?b = "\<lparr>m_pstart = 65534, m_pend = 5, m_buf = buf\<rparr> :: ndrecybuf"
  have "65534 < C_BUF_SIZE" "5 < C_BUF_SIZE" by (simp_all add: C_BUF_SIZE_def)
  then have ok: "cbuf_ok ?b" using buf by (simp add: cbuf_ok_def)
  have len: "3 \<le> length (cbuf_data ?b)"
    using length_cbuf_data [OF ok] by (simp add: ndcbuf_datalen_def cbuf_order_def C_BUF_SIZE_def)
  have far: "\<not> cbuf_order ?b" "C_BUF_SIZE \<le> m_pstart ?b + 3"
    by (simp_all add: cbuf_order_def C_BUF_SIZE_def)
  have "\<not> cbuf_ok (ndcbuf_sub_data ?b 3)"
    using ndcbuf_sub_data_only_in_order [OF ok zero_less_numeral len] far by iprover
  then show ?thesis using ok len far(1) by iprover
qed

end
