(* ===== verification/Line_Buffer.thy ===== *)
theory Line_Buffer
  imports Ring_Buffer
begin

text \<open>
  The linear buffer \<^verbatim>\<open>struct nd_linebuf\<close> of \<^verbatim>\<open>include/nd_common/nd_recbuf.h\<close> and
  \<^verbatim>\<open>src/nd_common/src/recbuf.c\<close>, the receive and send buffer of every connection.
  \<open>lb_start\<close> and \<open>lb_end\<close> are the offsets of \<open>__start\<close> and \<open>__end\<close> from \<open>__buf\<close>, and \<open>lb_buf\<close> is
  \<open>None\<close> for a null \<open>__buf\<close>. \<open>malloc\<close> is a parameter \<open>mal\<close>: \<open>None\<close> for failure, otherwise a block with
  unspecified contents whose length is the requested one (\<open>malloc_sized\<close>). Debug assertions have no
  counterpart; \<open>sizeof(size_t)\<close> is 8.
\<close>

type_synonym malloc_fn = "nat \<Rightarrow> byte list option"

definition malloc_sized :: "malloc_fn \<Rightarrow> bool" where
  "malloc_sized mal \<longleftrightarrow> (\<forall>n blk. mal n = Some blk \<longrightarrow> length blk = n)"

record nd_linebuf =
  auto_inc :: bool
  is_alloced :: bool
  buf_capacity :: nat
  lb_start :: nat
  lb_end :: nat
  lb_buf :: "byte list option"

definition lbuf_capacity :: "nd_linebuf \<Rightarrow> nat" where
  "lbuf_capacity b = buf_capacity b"

definition lbuf_datalen :: "nd_linebuf \<Rightarrow> nat" where
  "lbuf_datalen b = size_sub (lb_end b) (lb_start b)"

definition lbuf_free_capacity :: "nd_linebuf \<Rightarrow> nat" where
  "lbuf_free_capacity b = size_sub (lbuf_capacity b) (lbuf_datalen b)"

definition lbuf_freespace :: "nd_linebuf \<Rightarrow> nat" where
  "lbuf_freespace b = size_sub (lbuf_capacity b) (lb_end b)"

text \<open>A store through a pointer into \<open>__buf\<close>, and a read of a range of it.\<close>

definition lbuf_store :: "nd_linebuf \<Rightarrow> nat \<Rightarrow> byte list \<Rightarrow> nd_linebuf option" where
  "lbuf_store b off xs = do {
     buf \<leftarrow> lb_buf b;
     buf \<leftarrow> mem_write buf off xs;
     Some (b\<lparr>lb_buf := Some buf\<rparr>)
   }"

definition lbuf_load :: "nd_linebuf \<Rightarrow> nat \<Rightarrow> nat \<Rightarrow> byte list option" where
  "lbuf_load b off n = do { buf \<leftarrow> lb_buf b; mem_read buf off n }"

definition lbuf_reset :: "nd_linebuf \<Rightarrow> nd_linebuf option" where
  "lbuf_reset b =
     (let b = b\<lparr>lb_start := 0, lb_end := 0\<rparr>
      in if lb_buf b \<noteq> None then lbuf_store b 0 [0] else Some b)"

definition ndlbuf_auto_inc_enable :: "nd_linebuf \<Rightarrow> nd_linebuf" where
  "ndlbuf_auto_inc_enable b = b\<lparr>auto_inc := True\<rparr>"

definition ndlbuf_auto_inc_disable :: "nd_linebuf \<Rightarrow> nd_linebuf" where
  "ndlbuf_auto_inc_disable b = b\<lparr>auto_inc := False\<rparr>"

definition ndlbuf_set_zero_tail :: "nd_linebuf \<Rightarrow> nd_linebuf option" where
  "ndlbuf_set_zero_tail b =
     (if lb_end b < buf_capacity b then lbuf_store b (lb_end b) [0] else Some b)"

definition lbuf_init :: "malloc_fn \<Rightarrow> nd_linebuf \<Rightarrow> nat \<Rightarrow> (int \<times> nd_linebuf) option" where
  "lbuf_init mal b data_size =
     (case mal data_size of
        None \<Rightarrow> Some (-1, b\<lparr>lb_buf := None\<rparr>)
      | Some blk \<Rightarrow> do {
          b \<leftarrow> lbuf_reset (b\<lparr>lb_buf := Some blk, buf_capacity := data_size,
                            auto_inc := False, is_alloced := True\<rparr>);
          Some (0, b)
        })"

text \<open>\<open>valid\<close> is the allocator's answer to \<open>ND_ALLOC_MM_VALID\<close> for the structure and its block.\<close>

definition lbuf_destroy :: "bool \<Rightarrow> nd_linebuf \<Rightarrow> nd_linebuf option" where
  "lbuf_destroy valid b =
     (if valid then do {
        b \<leftarrow> lbuf_reset (b\<lparr>lb_buf := None\<rparr>);
        Some (b\<lparr>buf_capacity := 0, is_alloced := False\<rparr>)
      } else Some b)"

definition lbuf_move_ahead :: "nd_linebuf \<Rightarrow> nd_linebuf option" where
  "lbuf_move_ahead b =
     (let ahead = lb_start b; len = lbuf_datalen b in
      if len = 0 then lbuf_reset b
      else if ahead \<ge> 8 then do {
        src \<leftarrow> lbuf_load b (lb_start b) len;
        b \<leftarrow> lbuf_store b 0 src;
        let b = b\<lparr>lb_start := 0, lb_end := len\<rparr>;
        if lb_end b < buf_capacity b then lbuf_store b (lb_end b) [0] else Some b
      } else Some b)"

definition lbuf_tryto_move_ahead :: "nd_linebuf \<Rightarrow> nd_linebuf option" where
  "lbuf_tryto_move_ahead b =
     (if lb_start b \<ge> lbuf_capacity b div 4 then lbuf_move_ahead b else Some b)"

definition lbuf_sub_data :: "nd_linebuf \<Rightarrow> nat \<Rightarrow> nd_linebuf option" where
  "lbuf_sub_data b len =
     (let b = b\<lparr>lb_start := lb_start b + len\<rparr>
      in if lb_start b \<ge> lb_end b then lbuf_reset b else lbuf_tryto_move_ahead b)"

definition lbuf_add_data :: "nd_linebuf \<Rightarrow> nat \<Rightarrow> nd_linebuf option" where
  "lbuf_add_data b len =
     (let b = b\<lparr>lb_end := lb_end b + len\<rparr>
      in if lb_end b < buf_capacity b then lbuf_store b (lb_end b) [0] else Some b)"

definition lbuf_read ::
  "nd_linebuf \<Rightarrow> nat \<Rightarrow> eNDRecyRead \<Rightarrow> (int \<times> byte list \<times> nd_linebuf) option" where
  "lbuf_read b sz flag =
     (let datalen = lbuf_datalen b in
      if flag = EBUF_SPECIFIED \<and> datalen < sz then Some (-1, [], b)
      else do {
        let sz = (if datalen < sz then datalen else sz);
        out \<leftarrow> lbuf_load b (lb_start b) sz;
        b \<leftarrow> lbuf_sub_data b sz;
        Some (int sz, out, b)
      })"

text \<open>\<open>_lbuf_realloc\<close>: the stored bytes are copied to the front of the new block, then
  \<open>_lbuf_reset\<close> clears the first byte of that block, then \<open>__end\<close> is set behind the copy.\<close>

definition lbuf_realloc :: "malloc_fn \<Rightarrow> nd_linebuf \<Rightarrow> nat \<Rightarrow> (int \<times> nd_linebuf) option" where
  "lbuf_realloc mal b newsize =
     (let dl = lbuf_datalen b in
      if buf_capacity b \<ge> newsize then Some (-1, b)
      else case mal newsize of
        None \<Rightarrow> Some (-1, b)
      | Some newaddr \<Rightarrow> do {
          (newaddr, b, dl) \<leftarrow>
            (if dl > 0 then do {
               (r, out, b) \<leftarrow> lbuf_read b newsize EBUF_ALL;
               newaddr \<leftarrow> mem_write newaddr 0 out;
               Some (newaddr, b, nat r)
             } else Some (newaddr, b, dl));
          b \<leftarrow> lbuf_reset (b\<lparr>is_alloced := True, lb_buf := Some newaddr, buf_capacity := newsize\<rparr>);
          let b = b\<lparr>lb_end := lb_end b + dl\<rparr>;
          b \<leftarrow> lbuf_store b (lb_end b) [0];
          Some (0, b)
        })"

definition tryto_inc_capacity :: "malloc_fn \<Rightarrow> nd_linebuf \<Rightarrow> nat \<Rightarrow> (int \<times> nd_linebuf) option" where
  "tryto_inc_capacity mal b increase_size =
     (if \<not> auto_inc b then Some (-1, b)
      else
        let size_new = buf_capacity b + increase_size;
            size_new = (if size_new > buf_capacity b * 2 then ND_ROUNDUP8 size_new
                        else buf_capacity b * 2)
        in lbuf_realloc mal b size_new)"

text \<open>The common tail of \<open>_lbuf_write\<close>: copy to \<open>__end\<close> and account for the bytes.\<close>

definition lbuf_append :: "nd_linebuf \<Rightarrow> byte list \<Rightarrow> (int \<times> nd_linebuf) option" where
  "lbuf_append b data = do {
     b \<leftarrow> lbuf_store b (lb_end b) data;
     b \<leftarrow> lbuf_add_data b (length data);
     Some (int (length data), b)
   }"

definition lbuf_write ::
  "malloc_fn \<Rightarrow> nd_linebuf \<Rightarrow> byte list \<Rightarrow> eNDRecyRead \<Rightarrow> (int \<times> nd_linebuf) option" where
  "lbuf_write mal b data flag =
     (let datalen = length data; space_len = lbuf_freespace b in
      if space_len < datalen then
        (case flag of
           EBUF_SPECIFIED \<Rightarrow>
             if lbuf_free_capacity b < datalen then
               (if \<not> auto_inc b then Some (-1, b)
                else do {
                  (r, b) \<leftarrow> tryto_inc_capacity mal b datalen;
                  if r = -1 then Some (-1, b) else lbuf_append b data
                })
             else do { b \<leftarrow> lbuf_move_ahead b; lbuf_append b data }
         | EBUF_ALL \<Rightarrow> do {
             b \<leftarrow> lbuf_move_ahead b;
             let space_len = lbuf_free_capacity b;
             if space_len < datalen then do {
               (r, b) \<leftarrow> tryto_inc_capacity mal b datalen;
               lbuf_append b (if r = -1 then take space_len data else data)
             } else lbuf_append b data
           })
      else lbuf_append b data)"

section \<open>Invariant and contents\<close>

definition lbuf_ok :: "nd_linebuf \<Rightarrow> bool" where
  "lbuf_ok b \<longleftrightarrow> (\<exists>buf. lb_buf b = Some buf \<and> length buf = buf_capacity b) \<and> 0 < buf_capacity b \<and>
     lb_start b \<le> lb_end b \<and> lb_end b \<le> buf_capacity b \<and> (lb_start b = lb_end b \<longrightarrow> lb_end b = 0)"

definition lbuf_data :: "nd_linebuf \<Rightarrow> byte list" where
  "lbuf_data b = (case lb_buf b of None \<Rightarrow> [] | Some buf \<Rightarrow> seg buf (lb_start b) (lb_end b))"

text \<open>Whether \<open>_lbuf_move_ahead\<close> really brings the stored bytes to the front.\<close>

definition lbuf_movable :: "nd_linebuf \<Rightarrow> bool" where
  "lbuf_movable b \<longleftrightarrow> lb_start b = 0 \<or> 8 \<le> lb_start b"

lemmas lbuf_size_defs = lbuf_capacity_def lbuf_datalen_def lbuf_free_capacity_def lbuf_freespace_def

lemma lbuf_okE:
  assumes "lbuf_ok b"
  obtains buf where "lb_buf b = Some buf" "length buf = buf_capacity b" "0 < buf_capacity b"
    "lb_start b \<le> lb_end b" "lb_end b \<le> buf_capacity b" "lb_start b = lb_end b \<longrightarrow> lb_end b = 0"
  using assms unfolding lbuf_ok_def by blast

lemma length_lbuf_data: "lbuf_ok b \<Longrightarrow> length (lbuf_data b) = lbuf_datalen b"
  by (elim lbuf_okE) (simp add: lbuf_data_def lbuf_datalen_def)

lemma lbuf_free_capacity_eq: "lbuf_ok b \<Longrightarrow> lbuf_free_capacity b = buf_capacity b - length (lbuf_data b)"
  by (simp add: length_lbuf_data) (auto simp: lbuf_size_defs lbuf_ok_def)

lemma lbuf_freespace_eq: "lbuf_ok b \<Longrightarrow> lbuf_freespace b = buf_capacity b - lb_end b"
  by (auto simp: lbuf_size_defs lbuf_ok_def)

text \<open>Two buffers agree on everything but the block and the two pointers.\<close>

definition same_frame :: "nd_linebuf \<Rightarrow> nd_linebuf \<Rightarrow> bool" where
  "same_frame b b' \<longleftrightarrow> buf_capacity b' = buf_capacity b \<and> auto_inc b' = auto_inc b \<and>
     is_alloced b' = is_alloced b"

lemma lbuf_store_ok:
  assumes "lbuf_ok b" and "off + length xs \<le> buf_capacity b"
  obtains b' buf buf' where "lbuf_store b off xs = Some b'" "lb_buf b = Some buf"
    "mem_write buf off xs = Some buf'" "b' = b\<lparr>lb_buf := Some buf'\<rparr>" "length buf' = buf_capacity b"
  using assms by (elim lbuf_okE) (auto simp: lbuf_store_def mem_simps)

lemma lbuf_reset_spec [buf_simps]:
  assumes "\<exists>buf. lb_buf b = Some buf \<and> length buf = buf_capacity b" and "0 < buf_capacity b"
  shows "\<exists>b'. lbuf_reset b = Some b' \<and> lbuf_ok b' \<and> lbuf_data b' = [] \<and> same_frame b b' \<and> lb_start b' = 0"
  using assms
  by (auto simp: lbuf_reset_def lbuf_store_def Let_def mem_simps lbuf_ok_def lbuf_data_def same_frame_def)

section \<open>Each operation on a well-formed buffer\<close>

lemma lbuf_add_data_spec:
  assumes ok: "lbuf_ok b" and room: "lb_end b + n \<le> buf_capacity b"
    and buf: "lb_buf b = Some buf"
  shows "\<exists>buf'. lbuf_add_data b n = Some (b\<lparr>lb_end := lb_end b + n, lb_buf := Some buf'\<rparr>) \<and>
                length buf' = buf_capacity b \<and>
                seg buf' (lb_start b) (lb_end b + n) = seg buf (lb_start b) (lb_end b + n)"
proof (cases "lb_end b + n < buf_capacity b")
  case True
  have l: "length buf = buf_capacity b"
    using ok buf by (auto simp: lbuf_ok_def)
  obtain buf' where m: "mem_write buf (lb_end b + n) [0] = Some buf'"
    using True l by (simp add: mem_write_def)
  then have "lbuf_add_data b n = Some (b\<lparr>lb_end := lb_end b + n, lb_buf := Some buf'\<rparr>)"
    using True buf by (simp add: lbuf_add_data_def lbuf_store_def)
  then show ?thesis
    using mem_write_length [OF m] l seg_mem_write_after [OF m order_refl] by auto
next
  case False
  then have "lbuf_add_data b n = Some (b\<lparr>lb_end := lb_end b + n, lb_buf := Some buf\<rparr>)"
    using buf by (simp add: lbuf_add_data_def)
  then show ?thesis
    using ok buf by (auto simp: lbuf_ok_def)
qed

lemma lbuf_append_spec:
  assumes ok: "lbuf_ok b" and room: "lb_end b + length xs \<le> buf_capacity b"
  shows "\<exists>b'. lbuf_append b xs = Some (int (length xs), b') \<and> lbuf_ok b' \<and>
              lbuf_data b' = lbuf_data b @ xs \<and> same_frame b b' \<and> lb_start b' = lb_start b"
proof -
  obtain buf buf1 where b: "lb_buf b = Some buf" and m: "mem_write buf (lb_end b) xs = Some buf1"
    and st: "lbuf_store b (lb_end b) xs = Some (b\<lparr>lb_buf := Some buf1\<rparr>)" and l1: "length buf1 = buf_capacity b"
    using lbuf_store_ok [OF ok room] by metis
  let ?b1 = "b\<lparr>lb_buf := Some buf1\<rparr>"
  have ok1: "lbuf_ok ?b1"
    using ok l1 by (simp add: lbuf_ok_def)
  obtain buf2 where
    ad: "lbuf_add_data ?b1 (length xs) = Some (?b1\<lparr>lb_end := lb_end b + length xs, lb_buf := Some buf2\<rparr>)"
    and l2: "length buf2 = buf_capacity b"
    and s2: "seg buf2 (lb_start b) (lb_end b + length xs) = seg buf1 (lb_start b) (lb_end b + length xs)"
    using lbuf_add_data_spec [OF ok1, of "length xs" buf1] room by auto
  have le: "lb_start b \<le> lb_end b"
    using ok by (simp add: lbuf_ok_def)
  show ?thesis
    using st ad l2 ok room seg_mem_write_append [OF m le] s2 b le
    by (auto simp: lbuf_append_def lbuf_ok_def lbuf_data_def same_frame_def)
qed

lemma lbuf_append_overflow:
  assumes "lbuf_ok b" and "buf_capacity b < lb_end b + length xs"
  shows "lbuf_append b xs = None"
  using assms by (elim lbuf_okE) (simp add: lbuf_append_def lbuf_store_def mem_simps)

lemma lbuf_move_ahead_far:
  assumes ok: "lbuf_ok b" and len: "lb_start b < lb_end b" and far: "8 \<le> lb_start b"
  shows "\<exists>b'. lbuf_move_ahead b = Some b' \<and> lbuf_ok b' \<and> lbuf_data b' = lbuf_data b \<and>
              same_frame b b' \<and> lb_start b' = 0"
proof -
  define n where "n = lb_end b - lb_start b"
  obtain buf where b: "lb_buf b = Some buf" and l: "length buf = buf_capacity b"
    and e: "lb_end b \<le> buf_capacity b"
    using ok by (elim lbuf_okE)
  let ?src = "seg buf (lb_start b) (lb_end b)"
  have n: "length ?src = n" "lb_start b + n = lb_end b" "0 < n" "n < buf_capacity b" "lbuf_datalen b = n"
    using l e len far by (auto simp: n_def lbuf_datalen_def)
  obtain buf1 where m: "mem_write buf 0 ?src = Some buf1"
    using n l by (simp add: mem_write_def)
  have l1: "length buf1 = buf_capacity b"
    using mem_write_length [OF m] l by simp
  obtain buf2 where m2: "mem_write buf1 n [0] = Some buf2"
    using n l1 by (simp add: mem_write_def)
  let ?b' = "b\<lparr>lb_buf := Some buf2, lb_start := 0, lb_end := n\<rparr>"
  have "lbuf_load b (lb_start b) n = Some ?src"
    using b n e l by (simp add: lbuf_load_def mem_simps)
  then have "lbuf_move_ahead b = Some ?b'"
    using far n b m m2 by (simp add: lbuf_move_ahead_def lbuf_store_def Let_def)
  moreover have "seg buf2 0 n = ?src"
    using seg_mem_write_after [OF m2 order_refl, of 0] seg_mem_write_exact [OF m] n by simp
  ultimately show ?thesis
    using mem_write_length [OF m2] l1 n b by (auto simp: lbuf_ok_def lbuf_data_def same_frame_def)
qed

lemma lbuf_move_ahead_spec:
  assumes ok: "lbuf_ok b"
  shows "\<exists>b'. lbuf_move_ahead b = Some b' \<and> lbuf_ok b' \<and> lbuf_data b' = lbuf_data b \<and>
              same_frame b b' \<and> lb_start b' = (if lbuf_movable b then 0 else lb_start b)"
proof (cases "lb_start b = lb_end b")
  case True
  then have z: "lb_start b = 0" "lb_end b = 0"
    using ok by (auto simp: lbuf_ok_def)
  then have "lbuf_move_ahead b = lbuf_reset b" "lbuf_data b = []" "lbuf_movable b"
    by (auto simp: lbuf_move_ahead_def lbuf_datalen_def lbuf_data_def lbuf_movable_def split: option.splits)
  then show ?thesis
    using lbuf_reset_spec [of b] ok by (auto simp: lbuf_ok_def)
next
  case False
  then have lt: "lb_start b < lb_end b"
    using ok by (auto simp: lbuf_ok_def)
  show ?thesis
  proof (cases "8 \<le> lb_start b")
    case True
    then show ?thesis
      using lbuf_move_ahead_far [OF ok lt True] by (simp add: lbuf_movable_def)
  next
    case near: False
    then have "lbuf_move_ahead b = Some b"
      using lt by (simp add: lbuf_move_ahead_def lbuf_datalen_def)
    then show ?thesis
      using near ok by (simp add: lbuf_movable_def same_frame_def)
  qed
qed

lemma lbuf_tryto_move_ahead_spec:
  assumes ok: "lbuf_ok b"
  shows "\<exists>b'. lbuf_tryto_move_ahead b = Some b' \<and> lbuf_ok b' \<and> lbuf_data b' = lbuf_data b \<and> same_frame b b'"
  using lbuf_move_ahead_spec [OF ok] ok by (auto simp: lbuf_tryto_move_ahead_def same_frame_def)

lemma lbuf_sub_data_spec:
  assumes ok: "lbuf_ok b"
  shows "\<exists>b'. lbuf_sub_data b n = Some b' \<and> lbuf_ok b' \<and> lbuf_data b' = drop n (lbuf_data b) \<and> same_frame b b'"
proof (cases "lb_end b \<le> lb_start b + n")
  case True
  then have "lbuf_sub_data b n = lbuf_reset (b\<lparr>lb_start := lb_start b + n\<rparr>)"
    by (simp add: lbuf_sub_data_def)
  moreover have "drop n (lbuf_data b) = []"
    using True ok by (auto simp: lbuf_data_def lbuf_ok_def drop_seg)
  ultimately show ?thesis
    using lbuf_reset_spec [of "b\<lparr>lb_start := lb_start b + n\<rparr>"] ok by (auto simp: lbuf_ok_def same_frame_def)
next
  case False
  let ?b = "b\<lparr>lb_start := lb_start b + n\<rparr>"
  have "lbuf_ok ?b" and "lbuf_data ?b = drop n (lbuf_data b)"
    using False ok by (auto simp: lbuf_ok_def lbuf_data_def drop_seg)
  then show ?thesis
    using lbuf_tryto_move_ahead_spec [of ?b] False by (auto simp: lbuf_sub_data_def same_frame_def)
qed

lemma lbuf_load_spec:
  assumes ok: "lbuf_ok b" and n: "n \<le> length (lbuf_data b)"
  shows "lbuf_load b (lb_start b) n = Some (take n (lbuf_data b))"
  using assms
  by (elim lbuf_okE) (auto simp: length_lbuf_data lbuf_load_def lbuf_data_def mem_simps take_seg lbuf_datalen_def)

lemma lbuf_read_spec:
  assumes ok: "lbuf_ok b" and n: "n \<le> length (lbuf_data b)"
  shows "\<exists>b'. lbuf_read b n flag = Some (int n, take n (lbuf_data b), b') \<and> lbuf_ok b' \<and>
              lbuf_data b' = drop n (lbuf_data b) \<and> same_frame b b'"
  using lbuf_sub_data_spec [OF ok, of n] lbuf_load_spec [OF ok n] n length_lbuf_data [OF ok]
  by (auto simp: lbuf_read_def Let_def)

lemma lbuf_read_all_spec:
  assumes ok: "lbuf_ok b" and n: "length (lbuf_data b) \<le> n"
  shows "\<exists>b'. lbuf_read b n EBUF_ALL = Some (int (length (lbuf_data b)), lbuf_data b, b') \<and> lbuf_ok b' \<and>
              lbuf_data b' = [] \<and> same_frame b b'"
proof -
  have "lbuf_read b n EBUF_ALL = lbuf_read b (length (lbuf_data b)) EBUF_ALL"
    using n length_lbuf_data [OF ok] by (auto simp: lbuf_read_def Let_def)
  then show ?thesis
    using lbuf_read_spec [OF ok order_refl, of EBUF_ALL] by simp
qed

lemma lbuf_read_short:
  "lbuf_ok b \<Longrightarrow> length (lbuf_data b) < n \<Longrightarrow> lbuf_read b n EBUF_SPECIFIED = Some (-1, [], b)"
  by (simp add: lbuf_read_def length_lbuf_data)

section \<open>Writes\<close>

text \<open>The three regions of an all-or-nothing write on a buffer that does not grow.\<close>

definition lbuf_accepts :: "nd_linebuf \<Rightarrow> nat \<Rightarrow> bool" where
  "lbuf_accepts b n \<longleftrightarrow> n \<le> lbuf_freespace b \<or> (n \<le> lbuf_free_capacity b \<and> lbuf_movable b)"

definition lbuf_refuses :: "nd_linebuf \<Rightarrow> nat \<Rightarrow> bool" where
  "lbuf_refuses b n \<longleftrightarrow> lbuf_freespace b < n \<and> lbuf_free_capacity b < n"

lemma lbuf_moved_room:
  assumes ok: "lbuf_ok b" and "lb_start b = 0"
  shows "buf_capacity b - lb_end b = lbuf_free_capacity b"
  using assms by (auto simp: lbuf_size_defs lbuf_ok_def)

lemma same_frame_free_capacity:
  "lbuf_ok b \<Longrightarrow> lbuf_ok b' \<Longrightarrow> same_frame b b' \<Longrightarrow> lbuf_data b' = lbuf_data b \<Longrightarrow>
   lbuf_free_capacity b' = lbuf_free_capacity b"
  by (simp add: lbuf_free_capacity_eq same_frame_def)

lemma lbuf_free_capacity_le: "lbuf_ok b \<Longrightarrow> lbuf_free_capacity b \<le> buf_capacity b"
  by (simp add: lbuf_free_capacity_eq)

lemma lbuf_move_append_spec:
  assumes ok: "lbuf_ok b" and mv: "lbuf_movable b" and room: "length xs \<le> lbuf_free_capacity b"
  shows "\<exists>b'. do { b \<leftarrow> lbuf_move_ahead b; lbuf_append b xs } = Some (int (length xs), b') \<and>
              lbuf_ok b' \<and> lbuf_data b' = lbuf_data b @ xs \<and> same_frame b b'"
proof -
  obtain b1 where m: "lbuf_move_ahead b = Some b1" "lbuf_ok b1" "lbuf_data b1 = lbuf_data b"
      "same_frame b b1" "lb_start b1 = 0"
    using lbuf_move_ahead_spec [OF ok] mv by auto
  have "lb_end b1 + length xs \<le> buf_capacity b1"
    using lbuf_moved_room [OF m(2,5)] same_frame_free_capacity [OF ok m(2,4,3)] room m(2)
    by (auto simp: lbuf_ok_def)
  from lbuf_append_spec [OF m(2) this] m show ?thesis
    by (auto simp: same_frame_def)
qed

lemma lbuf_move_append_overflow:
  assumes ok: "lbuf_ok b" and mv: "\<not> lbuf_movable b" and big: "lbuf_freespace b < length xs"
  shows "do { b \<leftarrow> lbuf_move_ahead b; lbuf_append b xs } = None"
proof -
  have "lb_start b < lb_end b"
    using ok mv by (auto simp: lbuf_ok_def lbuf_movable_def)
  with mv have "lbuf_move_ahead b = Some b"
    by (simp add: lbuf_move_ahead_def lbuf_datalen_def lbuf_movable_def)
  with lbuf_append_overflow [OF ok] big lbuf_freespace_eq [OF ok] show ?thesis by simp
qed

lemma lbuf_write_accept:
  assumes ok: "lbuf_ok b" and acc: "lbuf_accepts b (length xs)"
  shows "\<exists>b'. lbuf_write mal b xs EBUF_SPECIFIED = Some (int (length xs), b') \<and> lbuf_ok b' \<and>
              lbuf_data b' = lbuf_data b @ xs \<and> same_frame b b'"
proof (cases "length xs \<le> lbuf_freespace b")
  case True
  then have "lb_end b + length xs \<le> buf_capacity b"
    using ok lbuf_freespace_eq [OF ok] by (auto simp: lbuf_ok_def)
  from lbuf_append_spec [OF ok this] True show ?thesis by (auto simp: lbuf_write_def Let_def)
next
  case False
  with acc have "length xs \<le> lbuf_free_capacity b" "lbuf_movable b"
    by (auto simp: lbuf_accepts_def)
  with lbuf_move_append_spec [OF ok] False show ?thesis by (simp add: lbuf_write_def Let_def)
qed

lemma lbuf_write_refuse:
  assumes "\<not> auto_inc b" and "lbuf_refuses b (length xs)"
  shows "lbuf_write mal b xs EBUF_SPECIFIED = Some (-1, b)"
  using assms by (simp add: lbuf_write_def lbuf_refuses_def)

lemma lbuf_write_cases:
  assumes ok: "lbuf_ok b" and na: "\<not> auto_inc b" and w: "lbuf_write mal b xs EBUF_SPECIFIED = Some (r, b')"
  shows "lbuf_accepts b (length xs) \<or> lbuf_refuses b (length xs)"
proof (rule ccontr)
  assume "\<not> ?thesis"
  then have "lbuf_freespace b < length xs" "length xs \<le> lbuf_free_capacity b" "\<not> lbuf_movable b"
    by (auto simp: lbuf_accepts_def lbuf_refuses_def)
  with lbuf_move_append_overflow [OF ok] w show False by (simp add: lbuf_write_def Let_def)
qed

lemma lbuf_write_result:
  assumes ok: "lbuf_ok b" and na: "\<not> auto_inc b" and w: "lbuf_write mal b xs EBUF_SPECIFIED = Some (r, b')"
  shows "lbuf_ok b' \<and> same_frame b b' \<and>
    (r = int (length xs) \<and> lbuf_data b' = lbuf_data b @ xs \<or>
     r = -1 \<and> b' = b \<and> lbuf_free_capacity b < length xs)"
  using lbuf_write_cases [OF ok na w]
proof
  assume "lbuf_accepts b (length xs)"
  from lbuf_write_accept [OF ok this, of mal] w show ?thesis by auto
next
  assume rf: "lbuf_refuses b (length xs)"
  from lbuf_write_refuse [OF na this, of mal] w rf ok show ?thesis
    by (simp add: lbuf_refuses_def same_frame_def)
qed

lemma lbuf_write_all_fits:
  assumes ok: "lbuf_ok b" and fits: "length xs \<le> lbuf_free_capacity b" and w: "lbuf_write mal b xs EBUF_ALL = Some (r, b')"
  shows "lbuf_ok b' \<and> same_frame b b' \<and> r = int (length xs) \<and> lbuf_data b' = lbuf_data b @ xs"
proof (cases "length xs \<le> lbuf_freespace b")
  case True
  then have "lb_end b + length xs \<le> buf_capacity b"
    using ok lbuf_freespace_eq [OF ok] by (auto simp: lbuf_ok_def)
  from lbuf_append_spec [OF ok this] True w show ?thesis by (auto simp: lbuf_write_def Let_def)
next
  case False
  show ?thesis
  proof (cases "lbuf_movable b")
    case True
    obtain b1 where b1: "lbuf_move_ahead b = Some b1" "lbuf_ok b1" "lbuf_data b1 = lbuf_data b" "same_frame b b1"
      using lbuf_move_ahead_spec [OF ok] by blast
    then have "lbuf_free_capacity b1 = lbuf_free_capacity b" using same_frame_free_capacity [OF ok] by blast
    then have "lbuf_write mal b xs EBUF_ALL = do { b \<leftarrow> lbuf_move_ahead b; lbuf_append b xs }"
      using False fits b1 by (simp add: lbuf_write_def Let_def)
    with lbuf_move_append_spec [OF ok True fits] w show ?thesis by auto
  next
    case nm: False
    obtain b1 where b1: "lbuf_move_ahead b = Some b1" "lbuf_ok b1" "lbuf_data b1 = lbuf_data b" "same_frame b b1"
      using lbuf_move_ahead_spec [OF ok] by blast
    then have "lbuf_free_capacity b1 = lbuf_free_capacity b" using same_frame_free_capacity [OF ok] by blast
    then have "lbuf_write mal b xs EBUF_ALL = do { b \<leftarrow> lbuf_move_ahead b; lbuf_append b xs }"
      using False fits b1 by (simp add: lbuf_write_def Let_def)
    with lbuf_move_append_overflow [OF ok nm] False w show ?thesis by simp
  qed
qed

lemma lbuf_write_roomy:
  assumes ok: "lbuf_ok b" and "length (lbuf_data b) + length xs + 7 \<le> buf_capacity b"
  shows "lbuf_accepts b (length xs)"
proof -
  have "length (lbuf_data b) = lb_end b - lb_start b"
    using ok by (simp add: length_lbuf_data) (auto simp: lbuf_size_defs lbuf_ok_def)
  then show ?thesis
    using assms unfolding lbuf_accepts_def lbuf_freespace_eq [OF ok] lbuf_free_capacity_eq [OF ok]
      lbuf_movable_def by linarith
qed

interpretation line: byte_fifo "\<lambda>b. lbuf_ok b \<and> \<not> auto_inc b" lbuf_data lbuf_accepts lbuf_refuses
  "\<lambda>b xs. lbuf_write mal b xs EBUF_SPECIFIED" "\<lambda>b n. lbuf_read b n EBUF_SPECIFIED"
  for mal
proof (unfold_locales, goal_cases)
  case (1 b xs)
  then show ?case using lbuf_write_accept [of b xs mal] by (auto simp: same_frame_def)
next
  case (2 b xs)
  then show ?case by (simp add: lbuf_write_refuse)
next
  case (3 b xs r b')
  then show ?case using lbuf_write_cases by blast
next
  case (4 b n)
  then show ?case using lbuf_read_spec [of b n] by (auto simp: same_frame_def)
next
  case (5 b n)
  then show ?case by (simp add: lbuf_read_short)
qed

lemma lbuf_realloc_spec:
  assumes ok: "lbuf_ok b" and sized: "malloc_sized mal" and grow: "buf_capacity b < n"
    and blk: "mal n = Some blk"
  shows "\<exists>b'. lbuf_realloc mal b n = Some (0, b') \<and> lbuf_ok b' \<and> buf_capacity b' = n \<and>
              auto_inc b' = auto_inc b \<and> lb_start b' = 0 \<and>
              lbuf_data b' = (case lbuf_data b of [] \<Rightarrow> [] | x # xs \<Rightarrow> 0 # xs)"
proof -
  let ?d = "lbuf_data b"
  have lblk: "length blk = n"
    using sized blk by (auto simp: malloc_sized_def)
  have dl: "length ?d = lbuf_datalen b" "length ?d < n"
    using length_lbuf_data [OF ok] ok grow by (auto simp: lbuf_ok_def lbuf_datalen_def)
  obtain b1 where r: "lbuf_read b n EBUF_ALL = Some (int (length ?d), ?d, b1)" "same_frame b b1"
    using lbuf_read_all_spec [OF ok] dl by (meson less_imp_le_nat)
  obtain blk1 where m1: "mem_write blk 0 ?d = Some blk1"
    using dl lblk by (simp add: mem_write_def)
  obtain blk2 where m2: "mem_write blk1 0 [0] = Some blk2"
    using mem_write_length [OF m1] lblk dl by (simp add: mem_write_def)
  obtain blk3 where m3: "mem_write blk2 (length ?d) [0] = Some blk3"
    using mem_write_length [OF m1] mem_write_length [OF m2] lblk dl by (simp add: mem_write_def)
  obtain c where c: "lbuf_realloc mal b n =
      Some (0, c\<lparr>is_alloced := True, buf_capacity := n, lb_start := 0, lb_end := length ?d, lb_buf := Some blk3\<rparr>)"
    "same_frame b c"
  proof (cases "?d = []")
    case True
    with m1 have "blk1 = blk"
      by (simp add: mem_write_def split: if_splits)
    with True dl grow blk m2 m3
    have "lbuf_realloc mal b n =
      Some (0, b\<lparr>is_alloced := True, buf_capacity := n, lb_start := 0, lb_end := length ?d, lb_buf := Some blk3\<rparr>)"
      by (simp add: lbuf_realloc_def lbuf_reset_def lbuf_store_def Let_def)
    then show ?thesis using that by (simp add: same_frame_def)
  next
    case False
    with dl grow blk r m1 m2 m3
    have "lbuf_realloc mal b n =
      Some (0, b1\<lparr>is_alloced := True, buf_capacity := n, lb_start := 0, lb_end := length ?d, lb_buf := Some blk3\<rparr>)"
      by (auto simp: lbuf_realloc_def lbuf_reset_def lbuf_store_def Let_def)
    then show ?thesis using that r by blast
  qed
  have "seg blk3 0 (length ?d) = seg blk2 0 (length ?d)"
    by (rule seg_mem_write_after [OF m3 order_refl])
  also have "\<dots> = (case ?d of [] \<Rightarrow> [] | x # xs \<Rightarrow> 0 # xs)"
    using m1 m2 by (cases ?d) (auto simp: mem_write_def seg_def split: if_splits)
  finally show ?thesis
    using c mem_write_length [OF m1] mem_write_length [OF m2] mem_write_length [OF m3] lblk dl
    by (auto simp: lbuf_ok_def lbuf_data_def same_frame_def)
qed

lemma inc_capacity_enough:
  "cap + n \<le> (if cap + n > cap * 2 then ND_ROUNDUP8 (cap + n) else cap * 2)"
  using ND_ROUNDUP8_ge by auto

lemma tryto_inc_capacity_spec:
  assumes ok: "lbuf_ok b" and ai: "auto_inc b" and n: "0 < n" and sized: "malloc_sized mal"
    and mem: "\<And>k. mal k \<noteq> None"
  shows "\<exists>b'. tryto_inc_capacity mal b n = Some (0, b') \<and> lbuf_ok b' \<and>
              buf_capacity b + n \<le> buf_capacity b' \<and> auto_inc b' \<and> lb_start b' = 0 \<and>
              lbuf_data b' = (case lbuf_data b of [] \<Rightarrow> [] | x # xs \<Rightarrow> 0 # xs)"
proof -
  let ?n = "if buf_capacity b + n > buf_capacity b * 2 then ND_ROUNDUP8 (buf_capacity b + n)
            else buf_capacity b * 2"
  have g: "buf_capacity b < ?n"
    using inc_capacity_enough [of "buf_capacity b" n] n by linarith
  obtain blk where "mal ?n = Some blk" using mem by blast
  from lbuf_realloc_spec [OF ok sized g this] inc_capacity_enough [of "buf_capacity b" n] ai
  show ?thesis by (auto simp: tryto_inc_capacity_def Let_def)
qed

section \<open>Properties\<close>

definition lbuf_run :: "malloc_fn \<Rightarrow> fifo_op list \<Rightarrow> nd_linebuf \<Rightarrow> (byte list \<times> byte list \<times> nd_linebuf) option" where
  "lbuf_run mal = fifo_run (\<lambda>b xs. lbuf_write mal b xs EBUF_SPECIFIED) (\<lambda>b n. lbuf_read b n EBUF_SPECIFIED)"

text \<open>C8. A linear buffer that does not grow is a FIFO byte stream for every sequence of all-or-nothing writes and reads: when the sequence ends,
  bytes stored before plus bytes accepted equal bytes delivered plus bytes stored after, and the buffer is well formed. The only way for a
  sequence not to end is a write past the end of the block, and then the data did not fit behind the stored bytes, would have fit after a move to
  the front, and the stored bytes started one to seven bytes from the front.\<close>

theorem line_buffer_fifo:
  assumes "lbuf_ok b" and "\<not> auto_inc b"
  shows "case lbuf_run mal ops b of
      Some (ins, outs, b') \<Rightarrow> lbuf_ok b' \<and> lbuf_data b @ ins = outs @ lbuf_data b'
    | None \<Rightarrow> \<exists>ops1 xs ops2 ins outs b1. ops = ops1 @ Put xs # ops2 \<and> lbuf_run mal ops1 b = Some (ins, outs, b1) \<and>
        lbuf_freespace b1 < length xs \<and> length xs \<le> lbuf_free_capacity b1 \<and> 0 < lb_start b1 \<and> lb_start b1 < 8"
proof (cases "lbuf_run mal ops b")
  case None
  with line.run_stuck [of b mal ops] assms show ?thesis
    unfolding lbuf_run_def by (fastforce simp: lbuf_accepts_def lbuf_refuses_def lbuf_movable_def not_le not_less)
next
  case (Some a)
  then obtain ins outs b' where "lbuf_run mal ops b = Some (ins, outs, b')" by (cases a) auto
  with line.run_stream [of b mal ops ins outs b'] assms show ?thesis
    unfolding lbuf_run_def by simp
qed

definition lbuf_small :: nd_linebuf where
  "lbuf_small = \<lparr>auto_inc = False, is_alloced = True, buf_capacity = 16, lb_start = 0, lb_end = 0,
     lb_buf = Some (replicate 16 0)\<rparr>"

lemma lbuf_small_ok: "lbuf_ok lbuf_small" and lbuf_small_auto: "\<not> auto_inc lbuf_small"
  and lbuf_small_data: "lbuf_data lbuf_small = []"
  by (simp_all add: lbuf_small_def lbuf_ok_def lbuf_data_def)

theorem line_buffer_fifo_witness:
  "\<exists>b'. lbuf_run (\<lambda>_. None) [Put [1, 2, 3], Get 2] lbuf_small = Some ([1, 2, 3], [1, 2], b') \<and> lbuf_ok b' \<and> lbuf_data b' = [3]"
proof -
  obtain b' where r: "lbuf_run (\<lambda>_. None) [Put [1, 2, 3], Get 2] lbuf_small = Some ([1, 2, 3], [1, 2], b')"
    by (simp add: lbuf_run_def lbuf_small_def lbuf_write_def lbuf_read_def lbuf_append_def lbuf_size_defs lbuf_store_def
        lbuf_add_data_def lbuf_load_def lbuf_sub_data_def lbuf_tryto_move_ahead_def mem_write_def mem_read_def)
  from line_buffer_fifo [OF lbuf_small_ok lbuf_small_auto, of "[Put [1, 2, 3], Get 2]" "\<lambda>_. None"] r show ?thesis
    by (simp add: lbuf_small_data)
qed

text \<open>C10. Exactly when a write leaves the block. On a well-formed buffer that does not grow,
  \<open>_lbuf_write\<close> copies past the end of the block if and only if the data does not fit behind
  \<open>__end\<close>, the buffer holds bytes that start between 1 and 7 bytes from the front (so
  \<open>_lbuf_move_ahead\<close> moves nothing), and, for \<open>EBUF_SPECIFIED\<close>, the data would fit after a move.\<close>

theorem lbuf_write_overflow_iff:
  assumes ok: "lbuf_ok b" and na: "\<not> auto_inc b"
  shows "lbuf_write mal b xs flag = None \<longleftrightarrow>
    lbuf_freespace b < length xs \<and> 0 < lb_start b \<and> lb_start b < 8 \<and>
    (flag = EBUF_SPECIFIED \<longrightarrow> length xs \<le> lbuf_free_capacity b)"
proof (cases flag)
  case EBUF_SPECIFIED
  show ?thesis
  proof (cases "lbuf_accepts b (length xs) \<or> lbuf_refuses b (length xs)")
    case True
    then have "lbuf_write mal b xs flag \<noteq> None"
      using lbuf_write_accept [OF ok, of xs mal] lbuf_write_refuse [OF na, of xs mal] EBUF_SPECIFIED by auto
    with True EBUF_SPECIFIED show ?thesis
      by (auto simp: lbuf_accepts_def lbuf_refuses_def lbuf_movable_def)
  next
    case False
    with lbuf_move_append_overflow [OF ok, of xs] EBUF_SPECIFIED show ?thesis
      by (auto simp: lbuf_write_def Let_def lbuf_accepts_def lbuf_refuses_def lbuf_movable_def)
  qed
next
  case EBUF_ALL
  show ?thesis
  proof (cases "length xs \<le> lbuf_freespace b")
    case True
    then have "lb_end b + length xs \<le> buf_capacity b"
      using ok lbuf_freespace_eq [OF ok] by (auto simp: lbuf_ok_def)
    from lbuf_append_spec [OF ok this] True EBUF_ALL show ?thesis
      by (auto simp: lbuf_write_def Let_def)
  next
    case False
    let ?ys = "if lbuf_free_capacity b < length xs then take (lbuf_free_capacity b) xs else xs"
    obtain b1 where m: "lbuf_move_ahead b = Some b1" "lbuf_ok b1" "lbuf_data b1 = lbuf_data b" "same_frame b b1"
      using lbuf_move_ahead_spec [OF ok] by auto
    have f: "lbuf_free_capacity b1 = lbuf_free_capacity b" "\<not> auto_inc b1"
      using same_frame_free_capacity [OF ok m(2,4,3)] m(4) na by (auto simp: same_frame_def)
    have eq: "lbuf_write mal b xs flag = do { b \<leftarrow> lbuf_move_ahead b; lbuf_append b ?ys }"
      using EBUF_ALL False m f by (simp add: lbuf_write_def Let_def tryto_inc_capacity_def)
    show ?thesis
    proof (cases "lbuf_movable b")
      case True
      then show ?thesis
        using lbuf_move_append_spec [OF ok True, of ?ys] eq
        by (auto simp: lbuf_movable_def split: if_splits)
    next
      case nm: False
      then have "lbuf_freespace b < lbuf_free_capacity b"
        using ok by (auto simp: lbuf_movable_def lbuf_size_defs lbuf_ok_def)
      then have "lbuf_freespace b < length ?ys"
        using False by auto
      with lbuf_move_append_overflow [OF ok nm this] eq False nm EBUF_ALL show ?thesis
        by (auto simp: lbuf_movable_def)
    qed
  qed
qed

theorem lbuf_write_overflow_witness:
  "let b = lbuf_small\<lparr>lb_start := 4, lb_end := 16\<rparr>
   in lbuf_ok b \<and> lbuf_free_capacity b = 4 \<and> lbuf_write (\<lambda>_. None) b [1, 2] EBUF_SPECIFIED = None"
proof -
  let ?b = "lbuf_small\<lparr>lb_start := 4, lb_end := 16\<rparr>"
  have ok: "lbuf_ok ?b" and na: "\<not> auto_inc ?b" and fc: "lbuf_free_capacity ?b = 4"
    and fs: "lbuf_freespace ?b = 0"
    by (simp_all add: lbuf_small_def lbuf_ok_def lbuf_size_defs)
  with lbuf_write_overflow_iff [OF ok na, of "\<lambda>_. None" "[1, 2]" EBUF_SPECIFIED] show ?thesis
    by simp
qed

text \<open>Growing a buffer loses its first byte: \<open>_lbuf_realloc\<close> copies the stored bytes to the new
  block and only then calls \<open>_lbuf_reset\<close>, which clears the first byte of that block. The length and
  all other bytes are kept.\<close>

theorem lbuf_realloc_clears_first_byte:
  assumes "lbuf_ok b" and "malloc_sized mal" and "buf_capacity b < n" and "mal n \<noteq> None"
    and "lbuf_data b = x # xs"
  shows "\<exists>b'. lbuf_realloc mal b n = Some (0, b') \<and> lbuf_ok b' \<and> buf_capacity b' = n \<and>
              lbuf_data b' = 0 # xs"
  using lbuf_realloc_spec [OF assms(1-3)] assms(4,5) by fastforce

theorem lbuf_realloc_clears_first_byte_witness:
  "let b = lbuf_small\<lparr>lb_end := 2, lb_buf := Some (7 # 8 # replicate 14 0)\<rparr>
   in lbuf_data b = [7, 8] \<and>
      (\<exists>b'. lbuf_realloc (\<lambda>n. Some (replicate n 0)) b 32 = Some (0, b') \<and> lbuf_data b' = [0, 8])"
proof -
  let ?b = "lbuf_small\<lparr>lb_end := 2, lb_buf := Some (7 # 8 # replicate 14 0)\<rparr>"
  have ok: "lbuf_ok ?b" and d: "lbuf_data ?b = [7, 8]" and c: "buf_capacity ?b < 32"
    by (simp_all add: lbuf_small_def lbuf_ok_def lbuf_data_def seg_def)
  have s: "malloc_sized (\<lambda>n. Some (replicate n 0))"
    by (simp add: malloc_sized_def)
  from lbuf_realloc_clears_first_byte [OF ok s c _ d] d show ?thesis
    by (auto simp: Let_def)
qed

text \<open>A growing buffer accepts every write, whatever its size: with memory available,
  \<open>EBUF_SPECIFIED\<close> returns the data length, and the new bytes stand behind the stored ones (whose
  first byte is cleared when the buffer had to grow).\<close>

theorem lbuf_write_auto_inc:
  assumes ok: "lbuf_ok b" and ai: "auto_inc b" and sized: "malloc_sized mal" and mem: "\<And>k. mal k \<noteq> None"
    and region: "lbuf_movable b \<or> length xs \<le> lbuf_freespace b \<or> lbuf_free_capacity b < length xs"
  shows "\<exists>b'. lbuf_write mal b xs EBUF_SPECIFIED = Some (int (length xs), b') \<and> lbuf_ok b' \<and> auto_inc b' \<and>
    (lbuf_data b' = lbuf_data b @ xs \<or>
     lbuf_free_capacity b < length xs \<and> lbuf_data b' = (case lbuf_data b of [] \<Rightarrow> [] | y # ys \<Rightarrow> 0 # ys) @ xs)"
proof (cases "lbuf_accepts b (length xs)")
  case True
  with lbuf_write_accept [OF ok True, of mal] ai show ?thesis by (auto simp: same_frame_def)
next
  case False
  then have big: "lbuf_freespace b < length xs" "lbuf_free_capacity b < length xs"
    using region by (auto simp: lbuf_accepts_def)
  have n: "0 < length xs" using big by auto
  obtain b1 where i: "tryto_inc_capacity mal b (length xs) = Some (0, b1)" "lbuf_ok b1"
      "buf_capacity b + length xs \<le> buf_capacity b1" "auto_inc b1" "lb_start b1 = 0"
      "lbuf_data b1 = (case lbuf_data b of [] \<Rightarrow> [] | x # xs \<Rightarrow> 0 # xs)"
    using tryto_inc_capacity_spec [OF ok ai n sized mem] by blast
  have "length (lbuf_data b1) = length (lbuf_data b)"
    using i(6) by (simp split: list.splits)
  then have "lb_end b1 \<le> buf_capacity b"
    using i(5) length_lbuf_data [OF i(2)] length_lbuf_data [OF ok] ok i(2)
    by (auto simp: lbuf_datalen_def lbuf_ok_def)
  then have "lb_end b1 + length xs \<le> buf_capacity b1"
    using i(3) by linarith
  from lbuf_append_spec [OF i(2) this] i big ai show ?thesis
    by (auto simp: lbuf_write_def Let_def same_frame_def)
qed

theorem lbuf_write_auto_inc_witness:
  "let b = lbuf_small\<lparr>auto_inc := True\<rparr>
   in \<exists>b'. lbuf_write (\<lambda>n. Some (replicate n 0)) b (replicate 20 1) EBUF_SPECIFIED = Some (20, b') \<and>
           lbuf_ok b' \<and> lbuf_data b' = replicate 20 1"
proof -
  let ?b = "lbuf_small\<lparr>auto_inc := True\<rparr>"
  have ok: "lbuf_ok ?b" and d: "lbuf_data ?b = []" and ai: "auto_inc ?b" and mv: "lbuf_movable ?b"
    by (simp_all add: lbuf_small_def lbuf_ok_def lbuf_data_def lbuf_movable_def)
  have s: "malloc_sized (\<lambda>n. Some (replicate n 0))"
    by (simp add: malloc_sized_def)
  obtain b' where "lbuf_write (\<lambda>n. Some (replicate n 0)) ?b (replicate 20 1) EBUF_SPECIFIED =
      Some (int (length (replicate 20 (1::byte))), b')" "lbuf_ok b'" "lbuf_data b' = replicate 20 1"
    using lbuf_write_auto_inc [OF ok ai s, of "replicate 20 1"] mv d by fastforce
  then show ?thesis
    unfolding Let_def length_replicate by (metis of_nat_numeral)
qed

end
