(* ===== verification/Tea.thy ===== *)
theory Tea
  imports Nd_Prelude
begin

text \<open>
  The Tiny Encryption Algorithm of \<^verbatim>\<open>src/nd_crypt/src/tea.c\<close> and the padded buffer cipher of
  \<^verbatim>\<open>src/nd_crypt/src/ndcrypt.c\<close> (\<open>crypt_stuff\<close>, \<open>nd_TEAencrypt\<close>, \<open>nd_TEAdecrypt\<close>). \<open>TEAint32\<close> is
  \<open>unsigned int\<close>, a 32-bit word; a key is four of them. The two loops of \<open>tean\<close> run until a wrapping
  sum meets a limit, so they are \<open>partial_function (option)\<close> and their termination is a theorem.
  Lengths are naturals (the callers pass positive \<open>int\<close>s).
\<close>

datatype tea_k = TeaK u32 u32 u32 u32

fun key_at :: "tea_k \<Rightarrow> u32 \<Rightarrow> u32" where
  "key_at (TeaK a b c d) i = (if i = 0 then a else if i = 1 then b else if i = 2 then c else d)"

definition DELTA :: u32 where "DELTA = 0x9e3779b9"

definition tea_mix :: "u32 \<Rightarrow> u32" where
  "tea_mix x = push_bit 4 x XOR drop_bit 5 x"

definition tea_enc_round :: "tea_k \<Rightarrow> u32 \<times> u32 \<times> u32 \<Rightarrow> u32 \<times> u32 \<times> u32" where
  "tea_enc_round k s = (case s of (y, z, sm) \<Rightarrow>
     let y = y + (tea_mix z + (z XOR sm) + key_at k (sm AND 3));
         sm = sm + DELTA;
         z = z + (tea_mix y + (y XOR sm) + key_at k (drop_bit 11 sm AND 3))
     in (y, z, sm))"

definition tea_dec_round :: "tea_k \<Rightarrow> u32 \<times> u32 \<times> u32 \<Rightarrow> u32 \<times> u32 \<times> u32" where
  "tea_dec_round k s = (case s of (y, z, sm) \<Rightarrow>
     let z = z - (tea_mix y + (y XOR sm) + key_at k (drop_bit 11 sm AND 3));
         sm = sm - DELTA;
         y = y - (tea_mix z + (z XOR sm) + key_at k (sm AND 3))
     in (y, z, sm))"

partial_function (option) tea_enc_loop :: "tea_k \<Rightarrow> u32 \<Rightarrow> u32 \<times> u32 \<times> u32 \<Rightarrow> (u32 \<times> u32) option" where
  "tea_enc_loop k limit s = (case s of (y, z, sm) \<Rightarrow>
     if sm \<noteq> limit then tea_enc_loop k limit (tea_enc_round k (y, z, sm)) else Some (y, z))"

partial_function (option) tea_dec_loop :: "tea_k \<Rightarrow> u32 \<times> u32 \<times> u32 \<Rightarrow> (u32 \<times> u32) option" where
  "tea_dec_loop k s = (case s of (y, z, sm) \<Rightarrow>
     if sm \<noteq> 0 then tea_dec_loop k (tea_dec_round k (y, z, sm)) else Some (y, z))"

definition tean :: "tea_k \<Rightarrow> u32 \<times> u32 \<Rightarrow> int \<Rightarrow> (u32 \<times> u32) option" where
  "tean k v N = (case v of (y, z) \<Rightarrow>
     if N > 0 then tea_enc_loop k (DELTA * of_int N) (y, z, 0)
     else tea_dec_loop k (y, z, DELTA * of_int (-N)))"

definition ROUNDS :: int where "ROUNDS = 32"

definition tea_enc :: "tea_k \<Rightarrow> u32 \<times> u32 \<Rightarrow> (u32 \<times> u32) option" where
  "tea_enc k v = tean k v ROUNDS"

definition tea_dec :: "tea_k \<Rightarrow> u32 \<times> u32 \<Rightarrow> (u32 \<times> u32) option" where
  "tea_dec k v = tean k v (- ROUNDS)"

section \<open>Buffers\<close>

text \<open>\<open>crypt_stuff\<close>: fill from \<open>datalen\<close> to \<open>stufflen\<close> with blanks, the last byte holding the number
  of bytes filled. The boolean is whether a non-null pointer is returned.\<close>

definition crypt_stuff :: "byte list \<Rightarrow> nat \<Rightarrow> nat \<Rightarrow> (bool \<times> byte list) option" where
  "crypt_stuff src datalen stufflen =
     (if stufflen < 1 \<or> stufflen \<le> datalen then Some (False, src)
      else do {
        let k = stufflen - datalen;
        src \<leftarrow> mem_write src datalen (replicate (k - 1) 0x20 @ [of_nat k]);
        Some (True, src)
      })"

definition tea_block :: "(u32 \<times> u32 \<Rightarrow> (u32 \<times> u32) option) \<Rightarrow> byte list \<Rightarrow> byte list option" where
  "tea_block f bs = (case bs of
     [a, b, c, d, e, g, h, i] \<Rightarrow> do {
       (y, z) \<leftarrow> f (u32_of_le a b c d, u32_of_le e g h i);
       Some (le_of_u32 y @ le_of_u32 z)
     }
   | _ \<Rightarrow> None)"

text \<open>The loop over \<open>n\<close> consecutive 8-byte units; running past the block is \<open>None\<close>.\<close>

fun tea_blocks :: "(u32 \<times> u32 \<Rightarrow> (u32 \<times> u32) option) \<Rightarrow> nat \<Rightarrow> byte list \<Rightarrow> byte list option" where
  "tea_blocks f 0 bs = Some bs"
| "tea_blocks f (Suc n) bs = do {
     blk \<leftarrow> tea_block f (take 8 bs);
     rest \<leftarrow> tea_blocks f n (drop 8 bs);
     Some (blk @ rest)
   }"

definition nd_TEAencrypt :: "byte list \<Rightarrow> nat \<Rightarrow> tea_k \<Rightarrow> (int \<times> byte list) option" where
  "nd_TEAencrypt data data_len key =
     (let vlen = 8; stuff_len = data_len mod vlen; n = data_len div vlen in
      do {
        (n, new_len, data) \<leftarrow>
          (if stuff_len \<noteq> 0 then do {
             let n = n + 1;
             let new_len = n * vlen;
             (_, data) \<leftarrow> crypt_stuff data data_len new_len;
             Some (n, new_len, data)
           } else Some (n, data_len, data));
        data \<leftarrow> tea_blocks (tea_enc key) n data;
        Some (int new_len, data)
      })"

definition nd_TEAdecrypt :: "byte list \<Rightarrow> nat \<Rightarrow> tea_k \<Rightarrow> (int \<times> byte list) option" where
  "nd_TEAdecrypt data data_len key =
     (let vlen = 8 in
      if data_len mod vlen \<noteq> 0 then Some (-1, data)
      else do {
        data \<leftarrow> tea_blocks (tea_dec key) (data_len div vlen) data;
        Some (int data_len, data)
      })"

section \<open>Rounds\<close>

lemma tea_round_inverse: "tea_dec_round k (tea_enc_round k s) = s"
  by (cases s) (simp add: tea_enc_round_def tea_dec_round_def Let_def)

lemma tea_round_inverse': "tea_enc_round k (tea_dec_round k s) = s"
  by (cases s) (simp add: tea_enc_round_def tea_dec_round_def Let_def)

lemma enc_round_sum: "snd (snd (tea_enc_round k (y, z, sm))) = sm + DELTA"
  by (simp add: tea_enc_round_def Let_def)

lemma enc_rounds_sum: "snd (snd ((tea_enc_round k ^^ n) s)) = snd (snd s) + of_nat n * DELTA"
proof (induction n)
  case (Suc n)
  then show ?case
    by (cases "(tea_enc_round k ^^ n) s") (auto simp: enc_round_sum algebra_simps)
qed simp

text \<open>\<open>DELTA\<close> is odd, so its multiples below \<open>2 ^ 32\<close> are distinct.\<close>

lemma DELTA_inverse: "DELTA * 0x144cbc89 = 1"
  by (simp add: DELTA_def)

lemma DELTA_mult_inject:
  assumes eq: "of_nat i * DELTA = of_nat j * DELTA" and i: "i < 2 ^ 32" and j: "j < 2 ^ 32"
  shows "i = j"
proof -
  have "of_nat i * DELTA * 0x144cbc89 = of_nat j * DELTA * 0x144cbc89"
    by (simp only: eq)
  then have "(of_nat i :: u32) = of_nat j"
    by (simp only: mult.assoc DELTA_inverse mult_1_right)
  then have "unat (of_nat i :: u32) = unat (of_nat j :: u32)"
    by (rule arg_cong)
  then show ?thesis
    using i j by (simp add: unat_of_nat)
qed

lemma tea_enc_loop_rounds:
  assumes "i + n < 2 ^ 32" and "snd (snd s) = of_nat i * DELTA"
  shows "tea_enc_loop k (of_nat (i + n) * DELTA) s =
    (case (tea_enc_round k ^^ n) s of (y, z, _) \<Rightarrow> Some (y, z))"
  using assms
proof (induction n arbitrary: i s)
  case 0
  then show ?case by (cases s) (simp add: tea_enc_loop.simps)
next
  case (Suc n)
  obtain y z sm where s: "s = (y, z, sm)" by (cases s)
  have "sm \<noteq> of_nat (i + Suc n) * DELTA"
    using DELTA_mult_inject [of i "i + Suc n"] Suc.prems s by auto
  then have "tea_enc_loop k (of_nat (i + Suc n) * DELTA) s =
      tea_enc_loop k (of_nat (Suc i + n) * DELTA) (tea_enc_round k s)"
    using s by (subst tea_enc_loop.simps) simp
  moreover have "snd (snd (tea_enc_round k s)) = of_nat (Suc i) * DELTA"
    using Suc.prems(2) s by (simp add: enc_round_sum algebra_simps)
  moreover have "(tea_enc_round k ^^ Suc n) s = (tea_enc_round k ^^ n) (tea_enc_round k s)"
    by (simp add: funpow_swap1)
  ultimately show ?case
    using Suc.IH [of "Suc i" "tea_enc_round k s"] Suc.prems(1) by simp
qed

lemma tea_dec_loop_rounds:
  assumes "n < 2 ^ 32" and "snd (snd s) = of_nat n * DELTA"
  shows "tea_dec_loop k s = (case (tea_dec_round k ^^ n) s of (y, z, _) \<Rightarrow> Some (y, z))"
  using assms
proof (induction n arbitrary: s)
  case 0
  then show ?case by (cases s) (simp add: tea_dec_loop.simps)
next
  case (Suc n)
  obtain y z sm where s: "s = (y, z, sm)" by (cases s)
  have "sm \<noteq> 0"
    using DELTA_mult_inject [of "Suc n" 0] Suc.prems s by auto
  then have "tea_dec_loop k s = tea_dec_loop k (tea_dec_round k s)"
    using s by (subst tea_dec_loop.simps) simp
  moreover have "snd (snd (tea_dec_round k s)) = of_nat n * DELTA"
    using Suc.prems(2) s by (simp add: tea_dec_round_def Let_def algebra_simps)
  ultimately show ?case
    using Suc.IH [of "tea_dec_round k s"] Suc.prems(1) by (simp add: funpow_swap1)
qed

lemma tean_enc: 
  assumes "0 < n" and "n < 2 ^ 32"
  shows "tean k (y, z) (int n) = (case (tea_enc_round k ^^ n) (y, z, 0) of (y, z, _) \<Rightarrow> Some (y, z))"
  using tea_enc_loop_rounds [of 0 n "(y, z, 0)" k] assms by (simp add: tean_def mult.commute)

lemma tean_dec:
  assumes "n < 2 ^ 32"
  shows "tean k (y, z) (- int n) =
    (case (tea_dec_round k ^^ n) (y, z, of_nat n * DELTA) of (y, z, _) \<Rightarrow> Some (y, z))"
  using tea_dec_loop_rounds [of n "(y, z, of_nat n * DELTA)" k] assms
  by (simp add: tean_def mult.commute)

lemma tea_dec_rounds_enc_rounds: "(tea_dec_round k ^^ n) ((tea_enc_round k ^^ n) s) = s"
  by (induction n arbitrary: s) (simp_all add: funpow_swap1 tea_round_inverse)

lemma tean_inverse:
  assumes n: "0 < n" "n < 2 ^ 32"
  shows "\<exists>c. tean k v (int n) = Some c \<and> tean k c (- int n) = Some v"
proof -
  obtain y z where v: "v = (y, z)" by (cases v)
  obtain y' z' sm' where r: "(tea_enc_round k ^^ n) (y, z, 0) = (y', z', sm')"
    by (metis prod_cases3)
  then have "sm' = of_nat n * DELTA"
    using enc_rounds_sum [where k = k and n = n and s = "(y, z, 0)"] by simp
  moreover have "(tea_dec_round k ^^ n) (y', z', sm') = (y, z, 0)"
    using tea_dec_rounds_enc_rounds [of n k "(y, z, 0)"] r by simp
  ultimately have "tean k (y', z') (- int n) = Some (y, z)"
    using tean_dec [OF n(2), of k y' z'] by simp
  with tean_enc [OF n, of k y z] r v show ?thesis by auto
qed

lemma tea_enc_dec: "\<exists>c. tea_enc k v = Some c \<and> tea_dec k c = Some v"
  using tean_inverse [of 32 k v] by (simp add: tea_enc_def tea_dec_def ROUNDS_def)

section \<open>Buffer round trip\<close>

lemma list8:
  assumes "length bs = 8"
  obtains a b c d e g h i where "bs = [a, b, c, d, e, g, h, i]"
  using assms by (auto simp: numeral_eq_Suc length_Suc_conv)

lemma tea_block_le:
  "tea_block f (le_of_u32 y @ le_of_u32 z) = do { (y, z) \<leftarrow> f (y, z); Some (le_of_u32 y @ le_of_u32 z) }"
  by (simp add: tea_block_def le_of_u32_def)

lemma tea_block_inverse:
  assumes "length bs = 8"
  shows "\<exists>bs'. tea_block (tea_enc k) bs = Some bs' \<and> length bs' = 8 \<and> tea_block (tea_dec k) bs' = Some bs"
proof -
  obtain a b c d e g h i where bs: "bs = [a, b, c, d, e, g, h, i]"
    using list8 [OF assms] .
  let ?y = "u32_of_le a b c d" and ?z = "u32_of_le e g h i"
  have bs': "bs = le_of_u32 ?y @ le_of_u32 ?z" by (simp add: bs)
  obtain c0 c1 where c: "tea_enc k (?y, ?z) = Some (c0, c1)" "tea_dec k (c0, c1) = Some (?y, ?z)"
    using tea_enc_dec [of k "(?y, ?z)"] by auto
  then show ?thesis
    unfolding bs' tea_block_le by (simp add: tea_block_le)
qed

lemma tea_blocks_inverse:
  "8 * n \<le> length bs \<Longrightarrow>
   \<exists>bs'. tea_blocks (tea_enc k) n bs = Some bs' \<and> length bs' = length bs \<and>
         drop (8 * n) bs' = drop (8 * n) bs \<and> tea_blocks (tea_dec k) n bs' = Some bs"
proof (induction n arbitrary: bs)
  case 0
  then show ?case by simp
next
  case (Suc n)
  obtain blk where b: "tea_block (tea_enc k) (take 8 bs) = Some blk" "length blk = 8"
      "tea_block (tea_dec k) blk = Some (take 8 bs)"
    using tea_block_inverse [of "take 8 bs" k] Suc.prems by auto
  obtain rest where r: "tea_blocks (tea_enc k) n (drop 8 bs) = Some rest" "length rest = length (drop 8 bs)"
      "drop (8 * n) rest = drop (8 * n) (drop 8 bs)" "tea_blocks (tea_dec k) n rest = Some (drop 8 bs)"
  proof -
    have "8 * n \<le> length (drop 8 bs)" using Suc.prems by simp
    from Suc.IH [OF this] that show thesis by blast
  qed
  show ?case
  proof (intro exI [of _ "blk @ rest"] conjI)
    show "tea_blocks (tea_enc k) (Suc n) bs = Some (blk @ rest)" using b r by simp
    show "length (blk @ rest) = length bs" using b r Suc.prems by simp
    show "drop (8 * Suc n) (blk @ rest) = drop (8 * Suc n) bs" using b(2) r(3) by (simp add: add.commute)
    have "take 8 (blk @ rest) = blk" "drop 8 (blk @ rest) = rest" using b(2) by simp_all
    then show "tea_blocks (tea_dec k) (Suc n) (blk @ rest) = Some bs"
      using b(3) r(4) by (simp only: tea_blocks.simps bind.bind_lunit append_take_drop_id)
  qed
qed

lemma crypt_stuff_spec:
  assumes "n < m" and "m \<le> length d"
  shows "\<exists>d'. crypt_stuff d n m = Some (True, d') \<and> length d' = length d \<and> take n d' = take n d \<and>
              d' ! (m - 1) = of_nat (m - n) \<and> drop m d' = drop m d"
proof -
  let ?p = "replicate (m - n - 1) 0x20 @ [of_nat (m - n) :: byte]"
  have l: "length ?p = m - n" using assms by simp
  obtain d' where w: "mem_write d n ?p = Some d'"
    using assms l by (simp add: mem_write_def)
  then have d': "d' = take n d @ ?p @ drop m d"
    using assms l by (auto simp: mem_write_def split: if_splits)
  have "m - 1 = n + (m - n - 1)" and "length (take n d) = n" using assms by auto
  then have "d' ! (m - 1) = (?p @ drop m d) ! (m - n - 1)"
    unfolding d' by (metis nth_append_length_plus)
  then have "d' ! (m - 1) = of_nat (m - n)"
    by (simp add: nth_append)
  moreover have "crypt_stuff d n m = Some (True, d')"
    using assms w by (simp add: crypt_stuff_def Let_def)
  moreover have "take n d' = take n d" "drop m d' = drop m d"
    using assms unfolding d' by simp_all
  ultimately show ?thesis
    using mem_write_length [OF w] by simp
qed

lemma ROUNDUP8_mod: "n mod 8 = 0 \<Longrightarrow> ND_ROUNDUP8 n = n"
  unfolding ND_ROUNDUP8_def by presburger

lemma ROUNDUP8_step:
  assumes "n mod 8 \<noteq> 0"
  shows "ND_ROUNDUP8 n = (n div 8 + 1) * 8"
proof -
  have "n + 7 = (n mod 8 - 1) + 8 * (n div 8 + 1)"
    using assms div_mult_mod_eq [of n 8] by arith
  moreover have "n mod 8 - 1 < 8"
    using mod_less_divisor [of 8 n] by arith
  ultimately have "(n + 7) div 8 = n div 8 + 1"
    by simp
  then show ?thesis by (simp only: ND_ROUNDUP8_def)
qed

lemma nd_TEAencrypt_blocks:
  assumes fits: "ND_ROUNDUP8 n \<le> length d"
  shows "\<exists>d1. nd_TEAencrypt d n key =
           do { d' \<leftarrow> tea_blocks (tea_enc key) (ND_ROUNDUP8 n div 8) d1; Some (int (ND_ROUNDUP8 n), d') } \<and>
         length d1 = length d \<and> take n d1 = take n d \<and> drop (ND_ROUNDUP8 n) d1 = drop (ND_ROUNDUP8 n) d \<and>
         (n mod 8 \<noteq> 0 \<longrightarrow> d1 ! (ND_ROUNDUP8 n - 1) = of_nat (ND_ROUNDUP8 n - n))"
proof (cases "n mod 8 = 0")
  case True
  then show ?thesis
    by (intro exI [of _ d]) (simp add: nd_TEAencrypt_def ROUNDUP8_mod)
next
  case False
  let ?m = "(n div 8 + 1) * 8"
  have "n < ?m" by presburger
  with fits False obtain d1 where "crypt_stuff d n ?m = Some (True, d1)" "length d1 = length d"
      "take n d1 = take n d" "d1 ! (?m - 1) = of_nat (?m - n)" "drop ?m d1 = drop ?m d"
    using crypt_stuff_spec [of n ?m d] ROUNDUP8_step by auto
  with False show ?thesis
    by (intro exI [of _ d1]) (simp add: nd_TEAencrypt_def ROUNDUP8_step Let_def add.commute)
qed

lemma nd_TEA_spec:
  assumes fits: "ND_ROUNDUP8 n \<le> length d"
  shows "\<exists>d'. nd_TEAencrypt d n key = Some (int (ND_ROUNDUP8 n), d') \<and> length d' = length d \<and>
     drop (ND_ROUNDUP8 n) d' = drop (ND_ROUNDUP8 n) d \<and>
     (\<exists>d2. nd_TEAdecrypt d' (ND_ROUNDUP8 n) key = Some (int (ND_ROUNDUP8 n), d2) \<and> length d2 = length d \<and>
        take n d2 = take n d \<and> drop (ND_ROUNDUP8 n) d2 = drop (ND_ROUNDUP8 n) d \<and>
        (n mod 8 \<noteq> 0 \<longrightarrow> d2 ! (ND_ROUNDUP8 n - 1) = of_nat (ND_ROUNDUP8 n - n)))"
proof -
  let ?m = "ND_ROUNDUP8 n"
  have m8: "?m mod 8 = 0" "8 * (?m div 8) = ?m"
    unfolding ND_ROUNDUP8_def by presburger+
  obtain d1 where e: "nd_TEAencrypt d n key =
        do { d' \<leftarrow> tea_blocks (tea_enc key) (?m div 8) d1; Some (int ?m, d') }"
    and d1: "length d1 = length d" "take n d1 = take n d" "drop ?m d1 = drop ?m d"
      "n mod 8 \<noteq> 0 \<longrightarrow> d1 ! (?m - 1) = of_nat (?m - n)"
    using nd_TEAencrypt_blocks [OF fits, of key] by blast
  obtain d' where b: "tea_blocks (tea_enc key) (?m div 8) d1 = Some d'" "length d' = length d1"
      "drop ?m d' = drop ?m d1" "tea_blocks (tea_dec key) (?m div 8) d' = Some d1"
    using tea_blocks_inverse [of "?m div 8" d1 key] fits d1 m8 by auto
  have "nd_TEAdecrypt d' ?m key = Some (int ?m, d1)"
    using b m8 by (simp add: nd_TEAdecrypt_def)
  moreover have "nd_TEAencrypt d n key = Some (int ?m, d')"
    using e b(1) by simp
  ultimately show ?thesis
    using b(2,3) d1 by (simp only: option.inject prod.inject ex_simps simp_thms)
qed

text \<open>Decryption reads and writes only the bytes it is given.\<close>

lemma tea_block_length: "tea_block f bs = Some bs' \<Longrightarrow> length bs' = 8"
  by (auto simp: tea_block_def split: list.splits bind_splits)

lemma tea_blocks_prefix:
  "8 * n \<le> length bs \<Longrightarrow> tea_blocks f n bs = Some bs' \<Longrightarrow>
   \<exists>es. tea_blocks f n (take (8 * n) bs @ ys) = Some (es @ ys) \<and> es = take (8 * n) bs' \<and> length es = 8 * n"
proof (induction n arbitrary: bs bs')
  case (Suc n)
  obtain blk rest where b: "tea_block f (take 8 bs) = Some blk" and r: "tea_blocks f n (drop 8 bs) = Some rest"
    and bs': "bs' = blk @ rest"
    using Suc.prems(2) by (auto split: bind_splits)
  have "8 * n \<le> length (drop 8 bs)" using Suc.prems(1) by simp
  from Suc.IH [OF this r] obtain es where es:
    "tea_blocks f n (take (8 * n) (drop 8 bs) @ ys) = Some (es @ ys)" "es = take (8 * n) rest" "length es = 8 * n"
    by blast
  have split: "take (8 * Suc n) bs = take 8 bs @ take (8 * n) (drop 8 bs)"
    by (simp add: take_add)
  have "take 8 (take (8 * Suc n) bs @ ys) = take 8 bs"
      "drop 8 (take (8 * Suc n) bs @ ys) = take (8 * n) (drop 8 bs) @ ys"
    unfolding split using Suc.prems(1) by simp_all
  then have "tea_blocks f (Suc n) (take (8 * Suc n) bs @ ys) = Some ((blk @ es) @ ys)"
    using b es(1) by (simp only: tea_blocks.simps bind.bind_lunit append_assoc)
  moreover have "blk @ es = take (8 * Suc n) bs'" "length (blk @ es) = 8 * Suc n"
    using es tea_block_length [OF b] bs' by simp_all
  ultimately show ?case by blast
qed simp

lemma nd_TEAdecrypt_local:
  assumes d: "nd_TEAdecrypt d n key = Some (r, d2)" and n: "n \<le> length d"
  shows "\<exists>e2. nd_TEAdecrypt (take n d @ ys) n key = Some (r, e2) \<and> take n e2 = take n d2 \<and> length e2 = n + length ys"
proof (cases "n mod 8 = 0")
  case True
  then have n8: "8 * (n div 8) = n" by auto
  obtain bs where bs: "tea_blocks (tea_dec key) (n div 8) d = Some bs" "r = int n" "d2 = bs"
    using d True by (auto simp: nd_TEAdecrypt_def split: bind_splits)
  from tea_blocks_prefix [OF _ bs(1), of ys] n n8 obtain es where
    "tea_blocks (tea_dec key) (n div 8) (take n d @ ys) = Some (es @ ys)" "es = take n bs" "length es = n"
    by auto
  with True bs show ?thesis by (simp add: nd_TEAdecrypt_def)
next
  case False
  with d n show ?thesis by (auto simp: nd_TEAdecrypt_def)
qed

section \<open>Properties\<close>

text \<open>Every number of rounds from 1 to \<open>2 ^ 32 - 1\<close> terminates in both directions, and running
  \<open>tean\<close> with \<open>-N\<close> undoes \<open>tean\<close> with \<open>N\<close> for every key and block.\<close>

theorem tean_round_trip:
  assumes "0 < n" and "n < 2 ^ 32"
  shows "\<exists>c. tean k v (int n) = Some c \<and> tean k c (- int n) = Some v"
  using assms by (rule tean_inverse)

theorem tean_round_trip_witness:
  "\<exists>c. tean (TeaK 1 2 3 4) (5, 6) 32 = Some c \<and> tean (TeaK 1 2 3 4) c (- 32) = Some (5, 6)"
  using tean_round_trip [of 32 "TeaK 1 2 3 4" "(5, 6)"] by simp

text \<open>C11. \<open>nd_TEAencrypt\<close> pads to a multiple of 8 (recording the pad length in the last byte), stays
  inside a buffer that has room for the padding and does not touch what lies behind it;
  \<open>nd_TEAdecrypt\<close> with the same key restores the plaintext.\<close>

theorem nd_TEA_round_trip:
  assumes "ND_ROUNDUP8 n \<le> length d"
  shows "\<exists>d'. nd_TEAencrypt d n key = Some (int (ND_ROUNDUP8 n), d') \<and> length d' = length d \<and>
     drop (ND_ROUNDUP8 n) d' = drop (ND_ROUNDUP8 n) d \<and>
     (\<exists>d2. nd_TEAdecrypt d' (ND_ROUNDUP8 n) key = Some (int (ND_ROUNDUP8 n), d2) \<and>
        take n d2 = take n d \<and> drop (ND_ROUNDUP8 n) d2 = drop (ND_ROUNDUP8 n) d \<and>
        (n mod 8 \<noteq> 0 \<longrightarrow> d2 ! (ND_ROUNDUP8 n - 1) = of_nat (ND_ROUNDUP8 n - n)))"
  using nd_TEA_spec [OF assms] by blast

theorem nd_TEA_round_trip_witness:
  "\<exists>d'. nd_TEAencrypt ([1, 2, 3] @ replicate 5 0) 3 (TeaK 1 2 3 4) = Some (8, d') \<and>
     (\<exists>d2. nd_TEAdecrypt d' 8 (TeaK 1 2 3 4) = Some (8, d2) \<and> take 3 d2 = [1, 2, 3] \<and> d2 ! 7 = 5)"
  using nd_TEA_round_trip [of 3 "[1, 2, 3] @ replicate 5 0" "TeaK 1 2 3 4"]
  by (auto simp: ND_ROUNDUP8_def)

text \<open>A length that is not a multiple of 8 is rejected by \<open>nd_TEAdecrypt\<close> with \<open>-1\<close> and the
  buffer is left alone; a multiple of 8 inside the buffer always succeeds.\<close>

theorem nd_TEAdecrypt_result:
  assumes "n \<le> length d"
  shows "if n mod 8 = 0 then \<exists>d'. nd_TEAdecrypt d n key = Some (int n, d') \<and> length d' = length d
         else nd_TEAdecrypt d n key = Some (-1, d)"
proof -
  have dec_total: "\<exists>c. tea_dec k v = Some c" for k v
    using tean_dec [of 32 k "fst v" "snd v"]
    by (auto simp: tea_dec_def ROUNDS_def split: prod.splits)
  have "8 * k \<le> length d \<Longrightarrow> \<exists>d'. tea_blocks (tea_dec key) k d = Some d' \<and> length d' = length d" for k d
  proof (induction k arbitrary: d)
    case (Suc k)
    obtain a b c e f g h i where t: "take 8 d = [a, b, c, e, f, g, h, i]"
    proof -
      have "length (take 8 d) = 8" using Suc.prems by simp
      then show thesis using that by (rule list8)
    qed
    obtain y z where "tea_dec key (u32_of_le a b c e, u32_of_le f g h i) = Some (y, z)"
      using dec_total by (metis surj_pair)
    then have "tea_block (tea_dec key) (take 8 d) = Some (le_of_u32 y @ le_of_u32 z)"
      by (simp add: t tea_block_def)
    moreover obtain r where "tea_blocks (tea_dec key) k (drop 8 d) = Some r" "length r = length d - 8"
    proof -
      have "8 * k \<le> length (drop 8 d)" using Suc.prems by simp
      from Suc.IH [OF this] that show thesis by auto
    qed
    ultimately show ?case using Suc.prems by simp
  qed simp
  from this [of "n div 8" d] show ?thesis
    using assms by (auto simp: nd_TEAdecrypt_def)
qed

theorem nd_TEAdecrypt_result_witness:
  "nd_TEAdecrypt [1, 2, 3] 3 (TeaK 1 2 3 4) = Some (-1, [1, 2, 3])"
  using nd_TEAdecrypt_result [of 3 "[1, 2, 3]" "TeaK 1 2 3 4"] by simp

end
