(* ===== verification/Net_Packet.thy ===== *)
theory Net_Packet
  imports Tea
begin

text \<open>
  The packet format of the nd-protocol: \<^verbatim>\<open>include/nd_net/nd_netpack.h\<close> (headers and constants),
  \<^verbatim>\<open>include/nd_net/nd_msgentry.h\<close> (byte order, keep-alive packet), \<open>nd_checksum\<close> of
  \<^verbatim>\<open>src/nd_net/src/nd_socket.c\<close>, and packet encryption (\<open>nd_packet_encrypt_key\<close>,
  \<open>nd_packet_decrypt_key\<close>, \<open>nd_net_set_crypt\<close>) of \<^verbatim>\<open>src/nd_net/src/nd_netui.c\<close>. The encryption
  functions are installed at run time, so the client lemmas are proved once for any cipher that meets
  the interface \<open>net_cipher\<close>, which TEA interprets.
\<close>

section \<open>Header\<close>

definition NDNETMSG_VERSION :: byte where "NDNETMSG_VERSION = 2"
definition ND_PACKET_SIZE :: nat where "ND_PACKET_SIZE = 0x10000"
definition ND_PACKET_HDR_SIZE :: nat where "ND_PACKET_HDR_SIZE = 4"
definition ND_PACKET_DATA_SIZE :: nat where "ND_PACKET_DATA_SIZE = ND_PACKET_SIZE - ND_PACKET_HDR_SIZE"
definition ND_USERMSG_HDRLEN :: nat where "ND_USERMSG_HDRLEN = 6"

record nd_packhdr =
  hlength :: u16
  version :: byte
  ndsys_msg :: bool
  encrypt :: bool
  stuff :: bool
  stuff_len :: "5 word"

record nd_packetbuf =
  hdr :: nd_packhdr
  data :: "byte list"

text \<open>The four bytes of the header in memory on a little-endian host: the length, the version, and the
  bit fields from the lowest bit up.\<close>

definition hdr_flags :: "bool \<Rightarrow> bool \<Rightarrow> bool \<Rightarrow> 5 word \<Rightarrow> byte" where
  "hdr_flags sys enc stf sl =
     of_bool sys OR push_bit 1 (of_bool enc) OR push_bit 2 (of_bool stf) OR push_bit 3 (ucast sl)"

definition hdr_bytes :: "nd_packhdr \<Rightarrow> byte list" where
  "hdr_bytes h = le_of_u16 (hlength h) @
     [version h, hdr_flags (ndsys_msg h) (encrypt h) (stuff h) (stuff_len h)]"

fun bytes_hdr :: "byte list \<Rightarrow> nd_packhdr option" where
  "bytes_hdr (a # b # c # d # _) = Some \<lparr>hlength = u16_of_le a b, version = c,
     ndsys_msg = bit d 0, encrypt = bit d 1, stuff = bit d 2, stuff_len = ucast (drop_bit 3 d)\<rparr>"
| "bytes_hdr _ = None"

definition pkt_bytes :: "nd_packetbuf \<Rightarrow> byte list" where
  "pkt_bytes p = hdr_bytes (hdr p) @ data p"

definition pkt_of_bytes :: "byte list \<Rightarrow> nd_packetbuf option" where
  "pkt_of_bytes bs = do { h \<leftarrow> bytes_hdr bs; Some \<lparr>hdr = h, data = drop 4 bs\<rparr> }"

definition nd_hdr_init :: nd_packhdr where
  "nd_hdr_init = \<lparr>hlength = 0, version = NDNETMSG_VERSION, ndsys_msg = False, encrypt = False,
     stuff = False, stuff_len = 0\<rparr>"

definition nd_set_pack_len :: "nd_packhdr \<Rightarrow> u16 \<Rightarrow> nd_packhdr" where
  "nd_set_pack_len h len = h\<lparr>hlength := len\<rparr>"

definition nd_packet_hton :: "nd_packhdr \<Rightarrow> nd_packhdr" where
  "nd_packet_hton h = h\<lparr>hlength := htons (hlength h)\<rparr>"

definition nd_packet_ntoh :: "nd_packhdr \<Rightarrow> nd_packhdr" where
  "nd_packet_ntoh h = h\<lparr>hlength := htons (hlength h)\<rparr>"

text \<open>\<open>nd_net_getpack_size\<close> reads the length of a header that is still in network byte order.\<close>

definition nd_net_getpack_size :: "nd_packhdr \<Rightarrow> nat" where
  "nd_net_getpack_size h = unat (htons (hlength h))"

definition nd_usermsghdr_init :: "byte list" where
  "nd_usermsghdr_init = hdr_bytes \<lparr>hlength = of_nat ND_USERMSG_HDRLEN, version = NDNETMSG_VERSION,
     ndsys_msg = False, encrypt = False, stuff = False, stuff_len = 0\<rparr> @ [0, 0]"

section \<open>Checksum and the keep-alive packet\<close>

text \<open>The argument is the block of \<open>length\<close> bytes at \<open>buf\<close>; \<open>unsigned long\<close> has 64 bits.\<close>

fun sum_words :: "byte list \<Rightarrow> 64 word" where
  "sum_words (a # b # bs) = ucast (u16_of_le a b) + sum_words bs"
| "sum_words [a] = ucast a"
| "sum_words [] = 0"

definition nd_checksum :: "byte list \<Rightarrow> u16" where
  "nd_checksum bs =
     (let sm = sum_words bs;
          sm = drop_bit 16 sm + (sm AND 0xffff);
          sm = sm + drop_bit 16 sm
      in ucast (NOT sm))"

record nd_sysresv_pack =
  rhdr :: nd_packhdr
  msgid :: u16
  checksum :: u16

definition SYSRESV_PACK_SIZE :: nat where "SYSRESV_PACK_SIZE = 8"
definition ERSV_ALIVE_ID :: u16 where "ERSV_ALIVE_ID = 0xfb0e"
definition ERSV_VERSION_ERROR :: u16 where "ERSV_VERSION_ERROR = 0xfb0f"

definition sysresv_bytes :: "nd_sysresv_pack \<Rightarrow> byte list" where
  "sysresv_bytes p = hdr_bytes (rhdr p) @ le_of_u16 (msgid p) @ le_of_u16 (checksum p)"

definition nd_make_alive_pack :: nd_sysresv_pack where
  "nd_make_alive_pack =
     (let h = nd_hdr_init\<lparr>hlength := of_nat SYSRESV_PACK_SIZE, ndsys_msg := True, stuff_len := 5\<rparr>;
          p = \<lparr>rhdr = h, msgid = ERSV_ALIVE_ID, checksum = 0\<rparr>
      in p\<lparr>checksum := nd_checksum (sysresv_bytes p)\<rparr>)"

section \<open>Packet encryption\<close>

text \<open>A cipher works in place on a block: it gets the block, the length and the key bytes and returns a
  length and the new block (\<open>None\<close>: it left the block).\<close>

type_synonym nd_netcrypt = "byte list \<Rightarrow> nat \<Rightarrow> byte list \<Rightarrow> (int \<times> byte list) option"

record net_crypt =
  net_encrypt :: "nd_netcrypt option"
  net_decrypt :: "nd_netcrypt option"
  crypt_unit_len :: nat

definition CRYPT_KEK_SIZE :: nat where "CRYPT_KEK_SIZE = 16"

record nd_cryptkey =
  key_size :: int
  key :: "byte list"

definition init_crypt_key :: "nd_cryptkey \<Rightarrow> nd_cryptkey" where
  "init_crypt_key k = k\<lparr>key_size := 0\<rparr>"

definition is_valid_crypt :: "nd_cryptkey \<Rightarrow> bool" where
  "is_valid_crypt k \<longleftrightarrow> key_size k > 0"

definition nd_net_set_crypt :: "nd_netcrypt option \<Rightarrow> nd_netcrypt option \<Rightarrow> nat \<Rightarrow> net_crypt" where
  "nd_net_set_crypt e d u = \<lparr>net_encrypt = e, net_decrypt = d, crypt_unit_len = u\<rparr>"

definition nd_packet_encrypt_key :: "net_crypt \<Rightarrow> nd_cryptkey \<Rightarrow> nd_packetbuf \<Rightarrow> (int \<times> nd_packetbuf) option" where
  "nd_packet_encrypt_key g k msgbuf =
     (let datalen = uint (hlength (hdr msgbuf)) - int ND_PACKET_HDR_SIZE in
      if datalen \<le> 0 \<or> datalen > int (size_sub ND_PACKET_DATA_SIZE (crypt_unit_len g)) then Some (0, msgbuf)
      else case net_encrypt g of
        None \<Rightarrow> Some (0, msgbuf)
      | Some enc \<Rightarrow>
          if \<not> is_valid_crypt k then Some (0, msgbuf)
          else do {
            (new_len, d) \<leftarrow> enc (data msgbuf) (nat datalen) (key k);
            let msgbuf = msgbuf\<lparr>data := d\<rparr>;
            if new_len = 0 then Some (0, msgbuf)
            else do {
              let h = (hdr msgbuf)\<lparr>encrypt := True\<rparr>;
              let h = (if new_len > datalen then
                         let s = word_of_int (new_len - datalen)
                         in h\<lparr>stuff := True, stuff_len := s, hlength := hlength h + ucast s\<rparr>
                       else h);
              Some (new_len, msgbuf\<lparr>hdr := h\<rparr>)
            }
          })"

definition nd_packet_decrypt_key :: "net_crypt \<Rightarrow> nd_cryptkey \<Rightarrow> nd_packetbuf \<Rightarrow> (int \<times> nd_packetbuf) option" where
  "nd_packet_decrypt_key g k msgbuf =
     (let len = uint (hlength (hdr msgbuf)); datalen = len - int ND_PACKET_HDR_SIZE in
      if datalen \<le> 0 \<or> datalen > int (size_sub ND_PACKET_DATA_SIZE (crypt_unit_len g)) then Some (0, msgbuf)
      else case net_decrypt g of
        None \<Rightarrow> Some (len, msgbuf)
      | Some dec \<Rightarrow>
          if \<not> is_valid_crypt k then Some (len, msgbuf)
          else do {
            (new_len, d) \<leftarrow> dec (data msgbuf) (nat datalen) (key k);
            let msgbuf = msgbuf\<lparr>data := d\<rparr>;
            if new_len \<le> 0 \<or> new_len \<noteq> datalen then Some (-1, msgbuf)
            else do {
              let msgbuf = msgbuf\<lparr>hdr := (hdr msgbuf)\<lparr>encrypt := False\<rparr>\<rparr>;
              if stuff (hdr msgbuf) then do {
                bs \<leftarrow> mem_read d (nat datalen - 1) 1;
                let last_byte = sint (hd bs);
                if uint (stuff_len (hdr msgbuf)) \<noteq> last_byte then Some (0, msgbuf)
                else if len > last_byte then Some (len - last_byte, msgbuf)
                else Some (0, msgbuf)
              }
              else Some (len, msgbuf)
            }
          })"

text \<open>The libraries install TEA with a unit of \<open>sizeof(tea_v) = 8\<close> bytes; the key bytes are read as
  four 32-bit integers.\<close>

fun tea_key_of :: "byte list \<Rightarrow> tea_k option" where
  "tea_key_of [a0, b0, c0, d0, a1, b1, c1, d1, a2, b2, c2, d2, a3, b3, c3, d3] =
     Some (TeaK (u32_of_le a0 b0 c0 d0) (u32_of_le a1 b1 c1 d1)
                (u32_of_le a2 b2 c2 d2) (u32_of_le a3 b3 c3 d3))"
| "tea_key_of _ = None"

definition tea_net_encrypt :: nd_netcrypt where
  "tea_net_encrypt d n k = do { tk \<leftarrow> tea_key_of k; nd_TEAencrypt d n tk }"

definition tea_net_decrypt :: nd_netcrypt where
  "tea_net_decrypt d n k = do { tk \<leftarrow> tea_key_of k; nd_TEAdecrypt d n tk }"

definition tea_net_crypt :: net_crypt where
  "tea_net_crypt = nd_net_set_crypt (Some tea_net_encrypt) (Some tea_net_decrypt) 8"

section \<open>Header lemmas\<close>

lemma length_hdr_bytes [simp]: "length (hdr_bytes h) = 4"
  by (simp add: hdr_bytes_def le_of_u16_def)

lemma bytes_hdr_take: "4 \<le> length bs \<Longrightarrow> bytes_hdr (bs @ cs) = bytes_hdr bs"
  by (cases bs rule: bytes_hdr.cases) simp_all

lemma hdr_flags_sel [simp]:
  "bit (hdr_flags a b c s) 0 = a" "bit (hdr_flags a b c s) (Suc 0) = b" "bit (hdr_flags a b c s) 2 = c"
  "ucast (drop_bit 3 (hdr_flags a b c s)) = s"
     apply (simp_all add: hdr_flags_def bit_simps)
  apply (rule bit_word_eqI)
  apply (auto simp: bit_simps)
  done

lemma hdr_flags_bits:
  "hdr_flags (bit d 0) (bit d 1) (bit d 2) (ucast (drop_bit 3 d)) = d"
proof (rule bit_word_eqI)
  fix n
  assume "n < LENGTH(8)"
  then consider "n = 0" | "n = 1" | "n = 2" | "3 \<le> n" "n < 8" by fastforce
  then show "bit (hdr_flags (bit d 0) (bit d 1) (bit d 2) (ucast (drop_bit 3 d))) n = bit d n"
    by cases (auto simp: hdr_flags_def bit_simps)
qed

lemma bytes_hdr_of_hdr [simp]: "bytes_hdr (hdr_bytes h @ bs) = Some h"
  by (simp add: hdr_bytes_def le_of_u16_def)

lemma hdr_bytes_of_bytes: "bytes_hdr bs = Some h \<Longrightarrow> hdr_bytes h = take 4 bs"
  by (cases bs rule: bytes_hdr.cases) (auto simp: hdr_bytes_def hdr_flags_bits [simplified])

lemma pack_len: "n < 65532 \<Longrightarrow> uint (of_nat (4 + n) :: u16) = 4 + int n"
  by (subst uint_of_nat_eq) simp_all

section \<open>What the packet layer needs of a cipher\<close>

locale net_cipher =
  fixes enc :: nd_netcrypt and dec :: nd_netcrypt and crypt_unit :: nat and padded :: "nat \<Rightarrow> nat"
    and good_key :: "byte list \<Rightarrow> bool"
  assumes padded_ge: "n \<le> padded n"
    and padded_lt: "padded n < n + crypt_unit"
    and unit_small: "crypt_unit < 32"
    and decrypts: "good_key k \<Longrightarrow> padded n \<le> length d \<Longrightarrow>
      \<exists>d'. enc d n k = Some (int (padded n), d') \<and> length d' = length d \<and>
        drop (padded n) d' = drop (padded n) d \<and>
        (\<exists>d2. dec d' (padded n) k = Some (int (padded n), d2) \<and> length d2 = length d \<and>
           take n d2 = take n d \<and> drop (padded n) d2 = drop (padded n) d \<and>
           (n < padded n \<longrightarrow> d2 ! (padded n - 1) = of_nat (padded n - n)))"
    and local: "dec d n k = Some (r, d2) \<Longrightarrow> n \<le> length d \<Longrightarrow>
      \<exists>e2. dec (take n d @ ys) n k = Some (r, e2) \<and> take n e2 = take n d2 \<and> length e2 = n + length ys"
begin

definition setting :: net_crypt where
  "setting = nd_net_set_crypt (Some enc) (Some dec) crypt_unit"

definition stuffed :: "nd_packhdr \<Rightarrow> nat \<Rightarrow> nd_packhdr" where
  "stuffed h n = (if padded n = n then h\<lparr>encrypt := True\<rparr>
     else h\<lparr>encrypt := True, stuff := True, stuff_len := of_nat (padded n - n), hlength := of_nat (4 + padded n)\<rparr>)"

lemma setting_sel [simp]:
  "net_encrypt setting = Some enc" "net_decrypt setting = Some dec" "crypt_unit_len setting = crypt_unit"
  by (simp_all add: setting_def nd_net_set_crypt_def)

lemma data_room: "size_sub ND_PACKET_DATA_SIZE crypt_unit = 65532 - crypt_unit"
  using unit_small by (simp add: size_sub_def ND_PACKET_DATA_SIZE_def ND_PACKET_SIZE_def ND_PACKET_HDR_SIZE_def)

lemma unit_pos: "0 < crypt_unit"
  using padded_ge [of 0] padded_lt [of 0] by simp

lemma stuffed_len: "hlength h = of_nat (4 + n) \<Longrightarrow> hlength (stuffed h n) = of_nat (4 + padded n)"
  by (simp add: stuffed_def)

lemma encrypt_packet:
  assumes k: "is_valid_crypt k" "good_key (key k)" and n: "0 < n" "n + crypt_unit \<le> 65532"
    and len: "hlength (hdr p) = of_nat (4 + n)" and room: "length (data p) = ND_PACKET_DATA_SIZE"
    and e: "enc (data p) n (key k) = Some (int (padded n), d')"
  shows "nd_packet_encrypt_key setting k p = Some (int (padded n), \<lparr>hdr = stuffed (hdr p) n, data = d'\<rparr>)"
proof -
  have u: "uint (hlength (hdr p)) = 4 + int n"
    unfolding len using n unit_pos by (intro pack_len) linarith
  have new: "hlength (hdr p) + ucast (word_of_int (int (padded n) - int n) :: 5 word) = of_nat (4 + padded n)"
    if "n < padded n"
  proof -
    have "unat (word_of_int (int (padded n) - int n) :: 5 word) = padded n - n"
      using that padded_lt [of n] unit_small
      by (simp flip: of_nat_diff add: unat_of_nat_eq)
    then have "ucast (word_of_int (int (padded n) - int n) :: 5 word) = (of_nat (padded n - n) :: u16)"
      by (metis of_nat_unat)
    then show ?thesis using that unfolding len by simp
  qed
  show ?thesis
    using n k e padded_ge [of n] new
    by (auto simp: nd_packet_encrypt_key_def u Let_def data_room ND_PACKET_HDR_SIZE_def stuffed_def
        intro!: nd_packetbuf.equality nd_packhdr.equality)
qed

lemma decrypt_packet:
  assumes k: "is_valid_crypt k" "good_key (key k)" and n: "0 < n" "padded n + crypt_unit \<le> 65532"
    and len: "hlength h = of_nat (4 + n)" and st: "\<not> stuff h" and ld: "length d2 = ND_PACKET_DATA_SIZE"
    and dec: "dec d' (padded n) (key k) = Some (int (padded n), d2)"
    and last: "n < padded n \<longrightarrow> d2 ! (padded n - 1) = of_nat (padded n - n)"
  shows "nd_packet_decrypt_key setting k \<lparr>hdr = stuffed h n, data = d'\<rparr> =
     Some (int (4 + n), \<lparr>hdr = (stuffed h n)\<lparr>encrypt := False\<rparr>, data = d2\<rparr>)"
proof -
  have pn: "0 < padded n" using n padded_ge [of n] by linarith
  have u: "uint (hlength (stuffed h n)) = 4 + int (padded n)"
    unfolding stuffed_len [OF len] using n unit_pos by (intro pack_len) linarith
  have st': "stuff (stuffed h n) \<longleftrightarrow> padded n \<noteq> n"
    using st by (simp add: stuffed_def)
  have pad: "uint (stuff_len (stuffed h n)) = int (padded n - n)" "sint (d2 ! (padded n - 1)) = int (padded n - n)"
    "n < padded n" "mem_read d2 (padded n - 1) 1 = Some [d2 ! (padded n - 1)]"
    if "padded n \<noteq> n"
  proof -
    have lt: "n < padded n" "padded n - n < 32"
      using that padded_ge [of n] padded_lt [of n] unit_small by linarith+
    have "stuff_len (stuffed h n) = of_nat (padded n - n)"
      using that by (simp only: stuffed_def if_False) simp
    then show "uint (stuff_len (stuffed h n)) = int (padded n - n)"
      using lt(2) by (simp only: uint_of_nat_eq len_num1 len_bit0 len_bit1) (simp add: uint_of_nat_eq)
    have "sint (of_nat (padded n - n) :: byte) = int (padded n - n)"
      using lt(2) by (simp add: signed_of_nat signed_take_bit_int_eq_self)
    then show "sint (d2 ! (padded n - 1)) = int (padded n - n)" using last lt(1) by simp
    have "padded n - 1 < length d2"
      using n ld unit_pos pn by (simp add: ND_PACKET_DATA_SIZE_def ND_PACKET_SIZE_def ND_PACKET_HDR_SIZE_def)
    then show "mem_read d2 (padded n - 1) 1 = Some [d2 ! (padded n - 1)]"
      by (simp add: mem_read_def Cons_nth_drop_Suc [symmetric])
    show "n < padded n" by (rule lt)
  qed
  show ?thesis
    using k n pn dec pad u st'
    by (auto simp: nd_packet_decrypt_key_def Let_def data_room ND_PACKET_HDR_SIZE_def
        intro!: nd_packetbuf.equality nd_packhdr.equality)
qed

text \<open>What a receiver gets that has only the encrypted bytes of the packet, in front of other data.\<close>

lemma transfer_packet:
  assumes k: "is_valid_crypt k" "good_key (key k)" and n: "0 < n" "padded n + crypt_unit \<le> 65532"
    and len: "hlength (hdr p) = of_nat (4 + n)" and st: "\<not> stuff (hdr p)"
    and room: "length (data p) = ND_PACKET_DATA_SIZE"
  shows "\<exists>d'. nd_packet_encrypt_key setting k p = Some (int (padded n), \<lparr>hdr = stuffed (hdr p) n, data = d'\<rparr>) \<and>
    length d' = ND_PACKET_DATA_SIZE \<and>
    (\<forall>ys. padded n + length ys = ND_PACKET_DATA_SIZE \<longrightarrow>
       (\<exists>d2. nd_packet_decrypt_key setting k \<lparr>hdr = stuffed (hdr p) n, data = take (padded n) d' @ ys\<rparr> =
          Some (int (4 + n), \<lparr>hdr = (stuffed (hdr p) n)\<lparr>encrypt := False\<rparr>, data = d2\<rparr>) \<and>
          take n d2 = take n (data p)))"
proof -
  have ds: "ND_PACKET_DATA_SIZE = 65532"
    by (simp add: ND_PACKET_DATA_SIZE_def ND_PACKET_SIZE_def ND_PACKET_HDR_SIZE_def)
  have fits: "padded n \<le> length (data p)" using n room ds by linarith
  obtain d' d2 where e: "enc (data p) n (key k) = Some (int (padded n), d')" "length d' = ND_PACKET_DATA_SIZE"
    and d: "dec d' (padded n) (key k) = Some (int (padded n), d2)" "take n d2 = take n (data p)"
      "n < padded n \<longrightarrow> d2 ! (padded n - 1) = of_nat (padded n - n)"
    using decrypts [OF k(2) fits] unfolding room by blast
  have n': "n + crypt_unit \<le> 65532" using n(2) padded_ge [of n] by linarith
  have "\<exists>d2. nd_packet_decrypt_key setting k \<lparr>hdr = stuffed (hdr p) n, data = take (padded n) d' @ ys\<rparr> =
          Some (int (4 + n), \<lparr>hdr = (stuffed (hdr p) n)\<lparr>encrypt := False\<rparr>, data = d2\<rparr>) \<and>
          take n d2 = take n (data p)" if ys: "padded n + length ys = ND_PACKET_DATA_SIZE" for ys
  proof -
    have "padded n \<le> length d'" using fits e(2) room by simp
    from local [OF d(1) this, of ys] ys obtain e2 where e2:
      "dec (take (padded n) d' @ ys) (padded n) (key k) = Some (int (padded n), e2)"
      "take (padded n) e2 = take (padded n) d2" "length e2 = ND_PACKET_DATA_SIZE" by auto
    have "e2 ! (padded n - 1) = d2 ! (padded n - 1)" if "n < padded n"
      using arg_cong [OF e2(2), of "\<lambda>xs. xs ! (padded n - 1)"] that by simp
    then have last: "n < padded n \<longrightarrow> e2 ! (padded n - 1) = of_nat (padded n - n)" using d(3) by simp
    have "take n e2 = take n d2"
      using arg_cong [OF e2(2), of "take n"] padded_ge [of n] by (simp add: min_absorb1)
    with decrypt_packet [OF k n len st e2(3,1) last] d(2) show ?thesis by auto
  qed
  with encrypt_packet [OF k n(1) n' len room e(1)] e(2) show ?thesis by blast
qed

lemma decrypt_oversized:
  assumes n: "n + crypt_unit \<le> 65532" "65532 < padded n + crypt_unit" and len: "hlength h = of_nat (4 + n)"
  shows "nd_packet_decrypt_key setting k \<lparr>hdr = stuffed h n, data = d\<rparr> =
     Some (0, \<lparr>hdr = stuffed h n, data = d\<rparr>)"
proof -
  have "padded n < 65532" using n padded_lt [of n] by linarith
  then have "uint (hlength (stuffed h n)) = 4 + int (padded n)"
    unfolding stuffed_len [OF len] by (rule pack_len)
  then show ?thesis
    using n by (simp add: nd_packet_decrypt_key_def Let_def data_room ND_PACKET_HDR_SIZE_def)
qed

end

lemma tea_key_of_16: "length k = 16 \<Longrightarrow> \<exists>tk. tea_key_of k = Some tk"
  by (auto simp: numeral_eq_Suc length_Suc_conv)

lemma ROUNDUP8_bounds: "n \<le> ND_ROUNDUP8 n" "ND_ROUNDUP8 n < n + 8" "ND_ROUNDUP8 n mod 8 = 0"
  unfolding ND_ROUNDUP8_def using div_mult_mod_eq [of "n + 7" 8] mod_less_divisor [of 8 "n + 7"] by simp_all

interpretation tea: net_cipher tea_net_encrypt tea_net_decrypt 8 ND_ROUNDUP8 "\<lambda>k. length k = 16"
proof
  show "n \<le> ND_ROUNDUP8 n" "ND_ROUNDUP8 n < n + 8" for n
    by (rule ROUNDUP8_bounds)+
  show "(8 :: nat) < 32" by simp
  fix k :: "byte list" and n and d :: "byte list"
  assume "length k = 16" and fits: "ND_ROUNDUP8 n \<le> length d"
  then obtain tk where tk: "tea_key_of k = Some tk" using tea_key_of_16 by blast
  have pad: "n mod 8 \<noteq> 0" if "n < ND_ROUNDUP8 n" using that ROUNDUP8_mod by fastforce
  show "\<exists>d'. tea_net_encrypt d n k = Some (int (ND_ROUNDUP8 n), d') \<and> length d' = length d \<and>
        drop (ND_ROUNDUP8 n) d' = drop (ND_ROUNDUP8 n) d \<and>
        (\<exists>d2. tea_net_decrypt d' (ND_ROUNDUP8 n) k = Some (int (ND_ROUNDUP8 n), d2) \<and> length d2 = length d \<and>
           take n d2 = take n d \<and> drop (ND_ROUNDUP8 n) d2 = drop (ND_ROUNDUP8 n) d \<and>
           (n < ND_ROUNDUP8 n \<longrightarrow> d2 ! (ND_ROUNDUP8 n - 1) = of_nat (ND_ROUNDUP8 n - n)))"
    using nd_TEA_spec [OF fits, of tk] pad
    unfolding tea_net_encrypt_def tea_net_decrypt_def tk bind.bind_lunit by blast
next
  fix d :: "byte list" and n k r d2 ys
  assume "tea_net_decrypt d n k = Some (r, d2)" "n \<le> length d"
  then show "\<exists>e2. tea_net_decrypt (take n d @ ys) n k = Some (r, e2) \<and> take n e2 = take n d2 \<and> length e2 = n + length ys"
    using nd_TEAdecrypt_local unfolding tea_net_decrypt_def by (auto split: bind_splits)
qed

lemma tea_setting: "tea.setting = tea_net_crypt"
  by (simp add: tea.setting_def tea_net_crypt_def)

section \<open>Properties\<close>

text \<open>A header written to the wire in network byte order is read back unchanged, and the framing
  function \<open>nd_net_getpack_size\<close> sees its length.\<close>

theorem packet_header_wire:
  "\<exists>q. pkt_of_bytes (hdr_bytes (nd_packet_hton h) @ d) = Some q \<and> nd_packet_ntoh (hdr q) = h \<and>
       data q = d \<and> nd_net_getpack_size (hdr q) = unat (hlength h)"
  by (simp add: pkt_of_bytes_def nd_packet_hton_def nd_packet_ntoh_def nd_net_getpack_size_def)

text \<open>C17. Packet encryption with TEA round-trips: for every payload of 1 to 65520 bytes the encrypted
  packet carries the padded length, and decryption with the same key returns the original length and
  payload.\<close>

theorem packet_crypt_round_trip:
  assumes "is_valid_crypt k" and "length (key k) = CRYPT_KEK_SIZE" and "0 < n" and "n \<le> 65520"
    and "hlength (hdr p) = of_nat (4 + n)" and "\<not> stuff (hdr p)" and "length (data p) = ND_PACKET_DATA_SIZE"
  shows "\<exists>p' p2. nd_packet_encrypt_key tea_net_crypt k p = Some (int (ND_ROUNDUP8 n), p') \<and>
     hlength (hdr p') = of_nat (4 + ND_ROUNDUP8 n) \<and> encrypt (hdr p') \<and>
     nd_packet_decrypt_key tea_net_crypt k p' = Some (int (4 + n), p2) \<and>
     \<not> encrypt (hdr p2) \<and> take n (data p2) = take n (data p)"
proof -
  have m: "ND_ROUNDUP8 n + 8 \<le> 65532"
    using ROUNDUP8_bounds [of n] assms(4) by presburger
  moreover have "65532 \<le> length (data p)"
    using assms(7) by (simp add: ND_PACKET_DATA_SIZE_def ND_PACKET_SIZE_def ND_PACKET_HDR_SIZE_def)
  ultimately have fits: "ND_ROUNDUP8 n \<le> length (data p)" by linarith
  have k: "length (key k) = 16" using assms(2) by (simp add: CRYPT_KEK_SIZE_def)
  obtain d' d2 where e: "tea_net_encrypt (data p) n (key k) = Some (int (ND_ROUNDUP8 n), d')"
    and d: "tea_net_decrypt d' (ND_ROUNDUP8 n) (key k) = Some (int (ND_ROUNDUP8 n), d2)"
      "length d2 = ND_PACKET_DATA_SIZE" "take n d2 = take n (data p)"
      "n < ND_ROUNDUP8 n \<longrightarrow> d2 ! (ND_ROUNDUP8 n - 1) = of_nat (ND_ROUNDUP8 n - n)"
    using tea.decrypts [OF k fits] unfolding assms(7) by blast
  have "n + 8 \<le> 65532" using assms(4) by linarith
  note enc = tea.encrypt_packet [OF assms(1) k assms(3) this assms(5,7) e]
  note dec = tea.decrypt_packet [OF assms(1) k assms(3) m assms(5,6) d(2,1,4)]
  show ?thesis
    unfolding tea_setting [symmetric] enc option.inject prod.inject
    using dec tea.stuffed_len [OF assms(5)] d(3) by (auto simp: tea.stuffed_def)
qed

definition sample_key :: nd_cryptkey where
  "sample_key = \<lparr>key_size = 16, key = replicate 16 1\<rparr>"

definition sample_packet :: "nat \<Rightarrow> nd_packetbuf" where
  "sample_packet n = \<lparr>hdr = nd_hdr_init\<lparr>hlength := of_nat (4 + n)\<rparr>, data = replicate ND_PACKET_DATA_SIZE 7\<rparr>"

lemma sample_key_ok [simp]: "is_valid_crypt sample_key" "length (key sample_key) = CRYPT_KEK_SIZE"
  by (simp_all add: sample_key_def is_valid_crypt_def CRYPT_KEK_SIZE_def)

lemma sample_packet_ok [simp]:
  "hlength (hdr (sample_packet n)) = of_nat (4 + n)" "\<not> stuff (hdr (sample_packet n))"
  "length (data (sample_packet n)) = ND_PACKET_DATA_SIZE" "\<not> encrypt (hdr (sample_packet n))"
  by (simp_all add: sample_packet_def nd_hdr_init_def)

theorem packet_crypt_round_trip_witness:
  "\<exists>p' p2. nd_packet_encrypt_key tea_net_crypt sample_key (sample_packet 3) = Some (8, p') \<and>
     hlength (hdr p') = 12 \<and> encrypt (hdr p') \<and>
     nd_packet_decrypt_key tea_net_crypt sample_key p' = Some (7, p2) \<and> take 3 (data p2) = [7, 7, 7]"
proof -
  have "min 3 ND_PACKET_DATA_SIZE = 3"
    by (simp add: ND_PACKET_DATA_SIZE_def ND_PACKET_SIZE_def ND_PACKET_HDR_SIZE_def)
  then have "take 3 (data (sample_packet 3)) = replicate 3 7"
    by (simp only: sample_packet_def nd_packetbuf.simps take_replicate)
  then have "take 3 (data (sample_packet 3)) = [7, 7, 7]"
    by (simp add: numeral_3_eq_3)
  moreover have "ND_ROUNDUP8 3 = 8" by (simp add: ND_ROUNDUP8_def)
  ultimately show ?thesis
    using packet_crypt_round_trip [of sample_key 3 "sample_packet 3"] by auto
qed

text \<open>A payload of 65521 to 65524 bytes is accepted for encryption, but the encrypted packet it
  gives is one \<open>nd_packet_decrypt_key\<close> refuses (result 0, which the receiver reports as a bad packet):
  both directions compare the data length with the same bound, although encryption pads it.\<close>

theorem packet_crypt_oversized:
  assumes "is_valid_crypt k" and "length (key k) = CRYPT_KEK_SIZE" and "65521 \<le> n" and "n \<le> 65524"
    and "hlength (hdr p) = of_nat (4 + n)" and "length (data p) = ND_PACKET_DATA_SIZE"
  shows "\<exists>p'. nd_packet_encrypt_key tea_net_crypt k p = Some (65528, p') \<and> encrypt (hdr p') \<and>
     nd_packet_decrypt_key tea_net_crypt k p' = Some (0, p')"
proof -
  have m: "ND_ROUNDUP8 n = 65528"
  proof -
    have "(n + 7) div 8 = 8191" using assms(3,4) by linarith
    then show ?thesis by (simp add: ND_ROUNDUP8_def)
  qed
  have fits: "ND_ROUNDUP8 n \<le> length (data p)"
    using assms(6) m by (simp add: ND_PACKET_DATA_SIZE_def ND_PACKET_SIZE_def ND_PACKET_HDR_SIZE_def)
  have k: "length (key k) = 16" using assms(2) by (simp add: CRYPT_KEK_SIZE_def)
  obtain d' where e: "tea_net_encrypt (data p) n (key k) = Some (int (ND_ROUNDUP8 n), d')"
    using tea.decrypts [OF k fits] by blast
  have n: "0 < n" "n + 8 \<le> 65532" "65532 < ND_ROUNDUP8 n + 8" using assms(3,4) m by linarith+
  note enc = tea.encrypt_packet [OF assms(1) k n(1,2) assms(5,6) e]
  note dec = tea.decrypt_oversized [OF n(2,3) assms(5)]
  show ?thesis
    unfolding tea_setting [symmetric] enc using dec m by (auto simp: tea.stuffed_def)
qed

theorem packet_crypt_oversized_witness:
  "\<exists>p'. nd_packet_encrypt_key tea_net_crypt sample_key (sample_packet 65522) = Some (65528, p') \<and>
     nd_packet_decrypt_key tea_net_crypt sample_key p' = Some (0, p')"
  using packet_crypt_oversized [of sample_key 65522 "sample_packet 65522"] by auto

text \<open>Whatever the installed cipher and whatever bytes arrive, a decryption that stays inside the
  packet returns \<open>-1\<close>, \<open>0\<close> or a length that is at most the packet's own.\<close>

theorem nd_packet_decrypt_bounds:
  assumes "nd_packet_decrypt_key g k p = Some (r, p')"
  shows "-1 \<le> r \<and> r \<le> uint (hlength (hdr p)) \<and> hlength (hdr p') = hlength (hdr p)"
  using assms
  by (auto simp: nd_packet_decrypt_key_def Let_def split: if_splits option.splits bind_splits)
    (metis uint_ge_0)

theorem nd_packet_decrypt_bounds_witness:
  "nd_packet_decrypt_key (nd_net_set_crypt None None 8) sample_key (sample_packet 10) = Some (14, sample_packet 10) \<and>
   (14 :: int) \<le> uint (hlength (hdr (sample_packet 10)))"
proof -
  have d: "nd_packet_decrypt_key (nd_net_set_crypt None None 8) sample_key (sample_packet 10) = Some (14, sample_packet 10)"
    by (simp add: nd_packet_decrypt_key_def Let_def nd_net_set_crypt_def size_sub_def ND_PACKET_DATA_SIZE_def
        ND_PACKET_SIZE_def ND_PACKET_HDR_SIZE_def)
  from nd_packet_decrypt_bounds [OF d] d show ?thesis by simp
qed

end
