(* ===== verification/Net_Node.thy ===== *)
theory Net_Node
  imports Net_Packet Line_Buffer
begin

text \<open>
  The state of a network connection: \<^verbatim>\<open>struct nd_tcp_node\<close> / \<^verbatim>\<open>struct netui_info\<close>
  (\<^verbatim>\<open>include/nd_net/nd_netobj.h\<close>, \<^verbatim>\<open>nd_tcp.h\<close>) with the object base it inherits
  (\<^verbatim>\<open>include/nd_common/nd_handle.h\<close>), the error classification and destroy callbacks of
  \<^verbatim>\<open>src/nd_common/src/nd_handle.c\<close>, and the operating system as the connection sees it.

  The operating system is an explicit environment \<open>net_os\<close>: a clock, a script of outcomes for each
  of \<open>send\<close>, \<open>recv\<close> and \<open>select\<close> (every theorem quantifies over all scripts; an exhausted script means
  the call would block), the bytes the kernel has accepted so far (\<open>wire_out\<close>), \<open>malloc\<close>, the calls of user
  callbacks so far (\<open>cb_log\<close>) and the contents of an uninitialised local packet (\<open>stack_junk\<close>).
  The function pointers of a node that the library itself installs are modelled by the function they
  point to; where it installs one of two (\<open>packet_write\<close>) the choice is a datatype. The send lock is
  left out: each operation is one step of the model.
\<close>

section \<open>Operating system\<close>

definition ESOCKETTIMEOUT :: int where "ESOCKETTIMEOUT = 11"

datatype send_res = SendOk nat | SendErr int
datatype recv_res = RecvData "byte list" | RecvErr int
datatype ready_res = Ready int | ReadyErr int

record net_os =
  clock :: "nat \<Rightarrow> ndtime_t"
  ticks :: nat
  send_script :: "send_res list"
  recv_script :: "recv_res list"
  ready_script :: "ready_res list"
  os_errno :: int
  wire_out :: "byte list"
  os_malloc :: malloc_fn
  cb_log :: "(nat \<times> nat) list"
  stack_junk :: "byte list"

definition nd_time :: "net_os \<Rightarrow> ndtime_t \<times> net_os" where
  "nd_time os = (clock os (ticks os), os\<lparr>ticks := ticks os + 1\<rparr>)"

text \<open>\<open>send\<close> takes a prefix of the data or fails; \<open>recv\<close> hands out at most \<open>space\<close> bytes (none at the
  end of the stream) and keeps the rest; \<open>select\<close> reports readiness.\<close>

definition os_send :: "net_os \<Rightarrow> byte list \<Rightarrow> int \<times> net_os" where
  "os_send os bs = (case send_script os of
     [] \<Rightarrow> (-1, os\<lparr>os_errno := ESOCKETTIMEOUT\<rparr>)
   | SendOk n # s \<Rightarrow> (int (min n (length bs)), os\<lparr>send_script := s, wire_out := wire_out os @ take n bs\<rparr>)
   | SendErr e # s \<Rightarrow> (-1, os\<lparr>send_script := s, os_errno := e\<rparr>))"

definition os_recv :: "net_os \<Rightarrow> nat \<Rightarrow> int \<times> byte list \<times> net_os" where
  "os_recv os space = (case recv_script os of
     [] \<Rightarrow> (-1, [], os\<lparr>os_errno := ESOCKETTIMEOUT\<rparr>)
   | RecvData bs # s \<Rightarrow> (int (min space (length bs)), take space bs,
       os\<lparr>recv_script := (if space < length bs then RecvData (drop space bs) # s else s)\<rparr>)
   | RecvErr e # s \<Rightarrow> (-1, [], os\<lparr>recv_script := s, os_errno := e\<rparr>))"

definition os_select :: "net_os \<Rightarrow> int \<times> net_os" where
  "os_select os = (case ready_script os of
     [] \<Rightarrow> (0, os)
   | Ready r # s \<Rightarrow> (r, os\<lparr>ready_script := s\<rparr>)
   | ReadyErr e # s \<Rightarrow> (-1, os\<lparr>ready_script := s, os_errno := e\<rparr>))"

section \<open>The node\<close>

datatype END_OBJECT_TYPE = NDHANDLE_TCPNODE | NDHANDLE_UDPNODE | NDHANDLE_LISTEN | NDHANDLE_OTHER

abbreviation (input) ETS_DEAD :: nat where "ETS_DEAD \<equiv> 0"
abbreviation (input) ETS_ACCEPT :: nat where "ETS_ACCEPT \<equiv> 1"
abbreviation (input) ETS_CONNECTED :: nat where "ETS_CONNECTED \<equiv> 2"
abbreviation (input) ETS_TRYTO_CLOSE :: nat where "ETS_TRYTO_CLOSE \<equiv> 3"
abbreviation (input) ETS_RESET :: nat where "ETS_RESET \<equiv> 4"
abbreviation (input) ETS_CLOSED :: nat where "ETS_CLOSED \<equiv> 5"

text \<open>Packet writers: \<open>nd_tcpnode_send\<close>, or \<open>_tcp_connector_send\<close> after \<open>nd_connector_open\<close>.\<close>

datatype packet_writer = PW_tcpnode_send | PW_tcp_connector_send

record release_cb =
  cb_func :: nat
  cb_param :: nat
  cb_type :: int

record nd_tcp_node =
  htype :: END_OBJECT_TYPE
  myerrno :: nat
  release_cbs :: "release_cb list"
  status :: nat
  fd :: int
  protocol :: nat
  error_privilage_close :: bool
  unreg_msg_close :: bool
  user_define_packet :: bool
  sys_error :: int
  level :: "6 word"
  read_again :: bool
  is_crypt_packet :: bool
  is_session :: bool
  is_log_send :: bool
  is_log_recv :: bool
  save_send_stream :: bool
  save_recv_stream :: bool
  user_def_data_hook :: bool
  is_ipv6 :: bool
  without_alive :: bool
  session_id :: u16
  start_time :: ndtime_t
  last_recv :: ndtime_t
  send_len :: nat
  recv_len :: nat
  packet_write :: packet_writer
  writable_callback :: "nat option"
  writable_param :: nat
  crypt_key :: nd_cryptkey
  last_push :: ndtime_t
  disconn_timeout :: ndtime_t
  send_pack_times :: int
  recv_pack_times :: int
  recv_buffer :: nd_linebuf
  send_buffer :: nd_linebuf

section \<open>Object errors\<close>

definition nd_object_seterror :: "nd_tcp_node \<Rightarrow> u32 \<Rightarrow> nd_tcp_node" where
  "nd_object_seterror h errcode = h\<lparr>myerrno := unat (ucast errcode :: u16)\<rparr>"

definition nd_object_check_error :: "nd_tcp_node \<Rightarrow> nat" where
  "nd_object_check_error h =
     (if myerrno h = NDERR_SUCCESS \<or> myerrno h = NDERR_WOULD_BLOCK \<or> myerrno h = NDERR_NO_PRIVILAGE \<or>
         myerrno h \<ge> NDERR_USER_BREAK then 0 else myerrno h)"

definition nd_tryto_clear_err :: "nd_tcp_node \<Rightarrow> nat \<times> nd_tcp_node" where
  "nd_tryto_clear_err h =
     (if myerrno h = NDERR_INVALID_HANDLE \<or> myerrno h = NDERR_TIMEOUT \<or> myerrno h = NDERR_OPENFILE \<or>
         myerrno h = NDERR_USER \<or> myerrno h = NDERR_IO \<or> myerrno h = NDERR_RESET \<or>
         myerrno h = NDERR_WRITE \<or> myerrno h = NDERR_CLOSED \<or> myerrno h = NDERR_READ
      then (myerrno h, h) else (0, h\<lparr>myerrno := 0\<rparr>))"

section \<open>Destroy callbacks\<close>

text \<open>A callback is user code; the model records that it was called. \<open>list_add\<close> inserts at the head.\<close>

definition nd_object_add_destroy_cb :: "nd_tcp_node \<Rightarrow> nat \<Rightarrow> nat \<Rightarrow> int \<Rightarrow> int \<times> nd_tcp_node" where
  "nd_object_add_destroy_cb h callback param ty =
     (0, h\<lparr>release_cbs := \<lparr>cb_func = callback, cb_param = param, cb_type = ty\<rparr> # release_cbs h\<rparr>)"

fun del_first_cb :: "nat \<Rightarrow> nat \<Rightarrow> release_cb list \<Rightarrow> (nat \<times> nat) list \<times> release_cb list" where
  "del_first_cb f p [] = ([], [])"
| "del_first_cb f p (c # cs) =
     (if cb_func c = f \<and> cb_param c = p then ([(f, p)], cs)
      else let (l, cs) = del_first_cb f p cs in (l, c # cs))"

definition nd_object_del_destroy_cb ::
  "nd_tcp_node \<Rightarrow> nat \<Rightarrow> nat \<Rightarrow> net_os \<Rightarrow> int \<times> nd_tcp_node \<times> net_os" where
  "nd_object_del_destroy_cb h callback param os =
     (if release_cbs h = [] then (-1, h, os)
      else let (calls, cbs) = del_first_cb callback param (release_cbs h)
           in (0, h\<lparr>release_cbs := cbs\<rparr>, os\<lparr>cb_log := cb_log os @ calls\<rparr>))"

definition nd_object_on_destroy :: "nd_tcp_node \<Rightarrow> int \<Rightarrow> net_os \<Rightarrow> nd_tcp_node \<times> net_os" where
  "nd_object_on_destroy h ty os =
     (if release_cbs h = [] then (h, os)
      else
        let called = filter (\<lambda>c. ty = -1 \<or> cb_type c = ty) (release_cbs h)
        in (h\<lparr>release_cbs := []\<rparr>, os\<lparr>cb_log := cb_log os @ map (\<lambda>c. (cb_func c, cb_param c)) called\<rparr>))"

section \<open>Connection state queries\<close>

abbreviation (input) PROTOCOL_UDT :: nat where "PROTOCOL_UDT \<equiv> 1"
abbreviation (input) NETSTAT_ESTABLISHED :: nat where "NETSTAT_ESTABLISHED \<equiv> 0x10"

definition nd_connector_valid :: "nd_tcp_node \<Rightarrow> bool" where
  "nd_connector_valid h \<longleftrightarrow>
     (if fd h = 0 \<or> nd_object_check_error h \<noteq> 0 then False
      else case htype h of
        NDHANDLE_TCPNODE \<Rightarrow> status h = ETS_CONNECTED
      | NDHANDLE_UDPNODE \<Rightarrow> (if protocol h = PROTOCOL_UDT then status h AND NETSTAT_ESTABLISHED \<noteq> 0 else True)
      | _ \<Rightarrow> False)"

definition check_connect_valid :: "nd_tcp_node \<Rightarrow> bool" where
  "check_connect_valid h \<longleftrightarrow> fd h > 0 \<and> status h = ETS_CONNECTED"

end
