(* ===== verification/Tcp.thy ===== *)
theory Tcp
  imports Net_Node
begin

text \<open>
  The TCP connection of \<^verbatim>\<open>src/nd_net/src/nd_tcp.c\<close>: reading into the receive buffer, sending
  with the unsent rest kept in the send buffer, flushing, the periodic update with keep-alive and
  disconnect timeout, and the life cycle (init, connect, reset, close, deinit). An operation that
  would touch memory outside a buffer has no value (\<open>None\<close>). \<open>sys_sock_read\<close> and \<open>sys_sock_write\<close> are
  \<open>_sys_socket_read\<close> and \<open>_sys_socket_write\<close>, as \<open>_tcp_connector_init\<close> installs them.
\<close>

type_synonym 'a net = "('a \<times> nd_tcp_node \<times> net_os) option"

definition SENDBUF_PUSH :: nat where "SENDBUF_PUSH = 128"
definition SENDBUF_TMVAL :: ndtime_t where "SENDBUF_TMVAL = 50"
definition ND_NETBUF_SIZE :: nat where "ND_NETBUF_SIZE = 0x10000"
definition ND_ALIVE_TIMEOUT :: u32 where "ND_ALIVE_TIMEOUT = 30000"
definition ND_DFT_DISSCONN_TIMEOUT :: ndtime_t where "ND_DFT_DISSCONN_TIMEOUT = 30 * 60 * 1000"

text \<open>The flag word is the set of its bits; \<open>ESF_NORMAL\<close> is the empty set.\<close>

datatype send_flag = ESF_WRITEBUF | ESF_URGENCY | ESF_POST | ESF_ENCRYPT

type_synonym send_flags = "send_flag set"

section \<open>System calls\<close>

definition sys_socket_read :: "nd_tcp_node \<Rightarrow> nat \<Rightarrow> net_os \<Rightarrow> int \<times> byte list \<times> nd_tcp_node \<times> net_os" where
  "sys_socket_read node len os =
     (let (ret, bs, os) = os_recv os len in
      if ret > 0 then
        let (t, os) = nd_time os
        in (ret, bs, node\<lparr>recv_len := recv_len node + nat ret, last_recv := t\<rparr>, os)
      else if ret = -1 then
        let node = node\<lparr>sys_error := os_errno os\<rparr> in
        if sys_error node = ESOCKETTIMEOUT then (0, bs, node\<lparr>myerrno := NDERR_WOULD_BLOCK\<rparr>, os)
        else (-1, bs, node\<lparr>myerrno := NDERR_IO\<rparr>, os)
      else (-1, bs, node\<lparr>myerrno := NDERR_CLOSED\<rparr>, os))"

definition sys_socket_write :: "nd_tcp_node \<Rightarrow> byte list \<Rightarrow> net_os \<Rightarrow> int \<times> nd_tcp_node \<times> net_os" where
  "sys_socket_write node bs os =
     (let (ret, os) = os_send os bs in
      if ret > 0 then
        let (t, os) = nd_time os
        in (ret, node\<lparr>send_len := send_len node + nat ret, last_push := t\<rparr>, os)
      else if ret = -1 then
        let node = node\<lparr>sys_error := os_errno os\<rparr> in
        if sys_error node = ESOCKETTIMEOUT then (0, node\<lparr>myerrno := NDERR_WOULD_BLOCK\<rparr>, os)
        else (-1, node\<lparr>myerrno := NDERR_IO\<rparr>, os)
      else (ret, node\<lparr>myerrno := NDERR_WOULD_BLOCK\<rparr>, os))"

definition wait_result :: "nd_tcp_node \<Rightarrow> int \<Rightarrow> net_os \<Rightarrow> int \<times> nd_tcp_node \<times> net_os" where
  "wait_result node ret os =
     (if ret = -1 then
        let node = node\<lparr>sys_error := os_errno os\<rparr> in
        if sys_error node = ESOCKETTIMEOUT then (0, node\<lparr>myerrno := NDERR_WOULD_BLOCK\<rparr>, os)
        else (-1, node\<lparr>myerrno := NDERR_IO\<rparr>, os)
      else if ret = 0 then (0, node\<lparr>myerrno := NDERR_WOULD_BLOCK\<rparr>, os)
      else (ret, node, os))"

definition wait_read_msg :: "nd_tcp_node \<Rightarrow> net_os \<Rightarrow> int \<times> nd_tcp_node \<times> net_os" where
  "wait_read_msg node os = (let (ret, os) = os_select os in wait_result node ret os)"

definition wait_write_msg :: "nd_tcp_node \<Rightarrow> net_os \<Rightarrow> int \<times> nd_tcp_node \<times> net_os" where
  "wait_write_msg node os = (let (ret, os) = os_select os in wait_result node ret os)"

section \<open>Sending\<close>

definition sendbuf_write :: "nd_tcp_node \<Rightarrow> byte list \<Rightarrow> net_os \<Rightarrow> int net" where
  "sendbuf_write node bs os = do {
     (r, b) \<leftarrow> lbuf_write (os_malloc os) (send_buffer node) bs EBUF_SPECIFIED;
     Some (r, node\<lparr>send_buffer := b\<rparr>, os)
   }"

definition tcpnode_send_with_save :: "nd_tcp_node \<Rightarrow> byte list \<Rightarrow> net_os \<Rightarrow> int net" where
  "tcpnode_send_with_save node msg os =
     (let datalen = int (length msg);
          (ret, node, os) = sys_socket_write node msg os
      in
      if ret = -1 then
        (if sys_error node \<noteq> ESOCKETTIMEOUT then Some (-1, node, os)
         else do {
           (ret, node, os) \<leftarrow> sendbuf_write node msg os;
           Some (ret, (if ret = datalen then node\<lparr>myerrno := NDERR_SUCCESS\<rparr> else node), os)
         })
      else if ret = datalen then Some (datalen, node, os)
      else do {
        (wlen, node, os) \<leftarrow> sendbuf_write node (drop (nat ret) msg) os;
        Some (if wlen > 0 then wlen + ret else ret, node, os)
      })"

text \<open>Hand the stored bytes to the socket once and drop what it took.\<close>

definition tcpnode_flush_once :: "nd_tcp_node \<Rightarrow> net_os \<Rightarrow> int net" where
  "tcpnode_flush_once node os = do {
     stored \<leftarrow> lbuf_load (send_buffer node) (lb_start (send_buffer node)) (lbuf_datalen (send_buffer node));
     let (ret, node, os) = sys_socket_write node stored os;
     if ret > 0 then do {
       b \<leftarrow> lbuf_sub_data (send_buffer node) (nat ret);
       Some (ret, node\<lparr>send_buffer := b\<rparr>, os)
     } else Some (ret, node, os)
   }"

definition tcpnode_push_and_send :: "nd_tcp_node \<Rightarrow> byte list \<Rightarrow> bool \<Rightarrow> net_os \<Rightarrow> int net" where
  "tcpnode_push_and_send node msg is_write_all os = do {
     (node, os) \<leftarrow>
       (if lbuf_datalen (send_buffer node) \<noteq> 0
        then do { (_, node, os) \<leftarrow> tcpnode_flush_once node os; Some (node, os) }
        else Some (node, os));
     if lbuf_datalen (send_buffer node) = 0 then tcpnode_send_with_save node msg os
     else if is_write_all \<and> lbuf_free_capacity (send_buffer node) < length msg
     then Some (-1, node\<lparr>myerrno := NDERR_WOULD_BLOCK\<rparr>, os)
     else sendbuf_write node msg os
   }"

definition tcpnode_send :: "nd_tcp_node \<Rightarrow> byte list \<Rightarrow> send_flags \<Rightarrow> bool \<Rightarrow> net_os \<Rightarrow> int net" where
  "tcpnode_send node msg flag is_write_all os =
     (if lbuf_datalen (send_buffer node) = 0 then tcpnode_send_with_save node msg os
      else if ESF_POST \<in> flag \<and> length msg > lbuf_free_capacity (send_buffer node)
      then Some (0, node\<lparr>myerrno := NDERR_WOULD_BLOCK\<rparr>, os)
      else tcpnode_push_and_send node msg is_write_all os)"

text \<open>\<open>nd_tcpnode_send\<close> gets the packet with its header in network byte order; the number of bytes to
  send is the length field. A packet longer than the memory it lies in has no value.\<close>

definition nd_tcpnode_send :: "nd_tcp_node \<Rightarrow> byte list \<Rightarrow> send_flags \<Rightarrow> net_os \<Rightarrow> int net" where
  "nd_tcpnode_send node msg_buf flag os = do {
     h \<leftarrow> bytes_hdr msg_buf;
     msg \<leftarrow> mem_read msg_buf 0 (nd_net_getpack_size h);
     if is_session node then do {
       (ret, node, os) \<leftarrow> tcpnode_send node msg (flag - {ESF_URGENCY}) True os;
       Some (ret, (if ret = -1 then node\<lparr>myerrno := NDERR_WRITE, status := ETS_RESET\<rparr> else node), os)
     } else tcpnode_send node msg flag True os
   }"

definition nd_tcpnode_stream_send :: "nd_tcp_node \<Rightarrow> byte list \<Rightarrow> send_flags \<Rightarrow> net_os \<Rightarrow> int net" where
  "nd_tcpnode_stream_send node bs flag os = tcpnode_send node bs flag False os"

section \<open>Receiving\<close>

definition nd_tcpnode_read :: "nd_tcp_node \<Rightarrow> net_os \<Rightarrow> int net" where
  "nd_tcpnode_read node os =
     (let space_len = lbuf_freespace (recv_buffer node); node = node\<lparr>read_again := False\<rparr> in
      if space_len = 0 \<and> int (lbuf_datalen (recv_buffer node)) > 0
      then Some (int (lbuf_datalen (recv_buffer node)), node\<lparr>read_again := True\<rparr>, os)
      else do {
        node \<leftarrow> (if space_len = 0
                 then do { b \<leftarrow> lbuf_move_ahead (recv_buffer node); Some (node\<lparr>recv_buffer := b\<rparr>) }
                 else Some node);
        let space_len = lbuf_freespace (recv_buffer node);
        let (read_len, bs, node, os) = sys_socket_read node space_len os;
        if read_len > 0 then do {
          b \<leftarrow> lbuf_store (recv_buffer node) (lb_end (recv_buffer node)) bs;
          b \<leftarrow> lbuf_add_data b (nat read_len);
          let node = node\<lparr>recv_buffer := b, read_again := (read_len \<ge> int space_len)\<rparr>;
          Some (int (lbuf_datalen b), node, os)
        } else Some (read_len, node, os)
      })"

definition tcpnode_wait_msg :: "nd_tcp_node \<Rightarrow> ndtime_t \<Rightarrow> net_os \<Rightarrow> int net" where
  "tcpnode_wait_msg node tmout os =
     (let (ret, node, os) = (if tmout \<noteq> 0 then wait_read_msg node os else (1, node, os)) in
      if ret \<le> 0 then Some (ret, node, os)
      else do {
        (read_len, node, os) \<leftarrow> nd_tcpnode_read node os;
        if read_len \<le> 0 then Some (read_len, node, os)
        else do {
          let b = recv_buffer node;
          let data_len = lbuf_datalen b;
          if data_len < ND_PACKET_HDR_SIZE then do {
            b \<leftarrow> lbuf_move_ahead b;
            Some (0, node\<lparr>recv_buffer := b\<rparr>, os)
          } else do {
            hb \<leftarrow> lbuf_load b (lb_start b) 4;
            h \<leftarrow> bytes_hdr hb;
            let used_len = nd_net_getpack_size h;
            if used_len \<ge> ND_PACKET_SIZE then Some (-1, node\<lparr>myerrno := NDERR_BADPACKET\<rparr>, os)
            else if used_len \<le> data_len then Some (int used_len, node, os)
            else Some (0, node, os)
          }
        }
      })"

section \<open>Flushing\<close>

definition tcpnode_push_sendbuf :: "nd_tcp_node \<Rightarrow> net_os \<Rightarrow> int net" where
  "tcpnode_push_sendbuf node os =
     (if lbuf_datalen (send_buffer node) = 0 then Some (0, node, os)
      else if \<not> check_connect_valid node then Some (-1, node\<lparr>myerrno := NDERR_BADSOCKET\<rparr>, os)
      else tcpnode_flush_once node os)"

text \<open>The \<open>RESEND\<close> loop; a run that does not end is \<open>None\<close>.\<close>

partial_function (option) push_force_loop :: "nd_tcp_node \<Rightarrow> net_os \<Rightarrow> int net" where
  "push_force_loop node os = do {
     (ret, node, os) \<leftarrow> tcpnode_flush_once (node\<lparr>myerrno := NDERR_SUCCESS\<rparr>) os;
     if ret \<le> 0 then Some (ret, node, os)
     else if lbuf_datalen (send_buffer node) > 0 then
       (let (w, os) = os_select os
        in if w = 1 then push_force_loop node os else Some (ret, node, os))
     else Some (ret, node, os)
   }"

definition tcpnode_push_force :: "nd_tcp_node \<Rightarrow> net_os \<Rightarrow> int net" where
  "tcpnode_push_force node os =
     (if lbuf_datalen (send_buffer node) = 0 then Some (0, node, os)
      else if \<not> check_connect_valid node then Some (-1, node\<lparr>myerrno := NDERR_BADSOCKET\<rparr>, os)
      else push_force_loop node os)"

definition nd_tcpnode_tryto_flush_sendbuf :: "nd_tcp_node \<Rightarrow> net_os \<Rightarrow> int net" where
  "nd_tcpnode_tryto_flush_sendbuf node os =
     (if lbuf_datalen (send_buffer node) \<ge> SENDBUF_PUSH then tcpnode_push_sendbuf node os
      else let (t, os) = nd_time os in
        if t - last_push node \<ge> SENDBUF_TMVAL then tcpnode_push_sendbuf node os
        else Some (0, node, os))"

section \<open>Update\<close>

definition tcpnode_try_callback_write :: "nd_tcp_node \<Rightarrow> net_os \<Rightarrow> net_os" where
  "tcpnode_try_callback_write node os = (case writable_callback node of
     None \<Rightarrow> os
   | Some f \<Rightarrow> let (r, os) = os_select os
       in if r > 0 then os\<lparr>cb_log := cb_log os @ [(f, writable_param node)]\<rparr> else os)"

definition alive_packet_net :: "byte list" where
  "alive_packet_net =
     sysresv_bytes (nd_make_alive_pack\<lparr>rhdr := nd_packet_hton (rhdr nd_make_alive_pack)\<rparr>)"

definition tcp_node_update :: "nd_tcp_node \<Rightarrow> net_os \<Rightarrow> int net" where
  "tcp_node_update node os =
     (let (now, os) = nd_time os; alive_timeout = drop_bit 1 (disconn_timeout node) in
      if fd node = 0 \<or> nd_object_check_error node \<noteq> 0 \<or> status node \<noteq> ETS_CONNECTED
      then Some (-1, node, os)
      else do {
        (r, node, os) \<leftarrow> tcpnode_push_sendbuf node os;
        (ret, node, os) \<leftarrow>
          (if r = 0 \<and> \<not> without_alive node \<and>
              now - last_push node > (if alive_timeout \<noteq> 0 then alive_timeout else ND_ALIVE_TIMEOUT)
           then nd_tcpnode_send node alive_packet_net {ESF_URGENCY} os
           else Some (0, node, os));
        let os = tcpnode_try_callback_write node os;
        if now - last_recv node > disconn_timeout node
        then Some (-1, node\<lparr>myerrno := NDERR_TIMEOUT\<rparr>, os)
        else Some (ret, node, os)
      })"

section \<open>Life cycle\<close>

definition reset_buffers :: "nd_tcp_node \<Rightarrow> nd_tcp_node option" where
  "reset_buffers node = do {
     r \<leftarrow> lbuf_reset (recv_buffer node);
     s \<leftarrow> lbuf_reset (send_buffer node);
     Some (node\<lparr>recv_buffer := r, send_buffer := s\<rparr>)
   }"

text \<open>\<open>sock\<close> is the descriptor \<open>nd_socket_tcp_connect\<close> or \<open>nd_proxy_connect\<close> returns, \<open>v6\<close> whether the
  remote address is an IPv6 one.\<close>

definition nd_tcpnode_connect :: "nd_tcp_node \<Rightarrow> int \<Rightarrow> bool \<Rightarrow> net_os \<Rightarrow> int net" where
  "nd_tcpnode_connect node sock v6 os = do {
     let (t, os) = nd_time os;
     node \<leftarrow> reset_buffers (node\<lparr>sys_error := 0, myerrno := NDERR_SUCCESS, last_push := t\<rparr>);
     let node = node\<lparr>fd := sock\<rparr>;
     if fd node \<le> 0 then Some (-1, node\<lparr>myerrno := NDERR_OPENFILE\<rparr>, os)
     else do {
       let (t, os) = nd_time os;
       let node = node\<lparr>status := ETS_CONNECTED, start_time := t\<rparr>;
       Some (0, (if v6 then node\<lparr>is_ipv6 := True\<rparr> else node), os)
     }
   }"

definition nd_tcpnode_close :: "nd_tcp_node \<Rightarrow> nd_tcp_node" where
  "nd_tcpnode_close node =
     (let node = node\<lparr>status := ETS_DEAD\<rparr> in if fd node = 0 then node else node\<lparr>fd := 0\<rparr>)"

definition nd_tcpnode_reset :: "nd_tcp_node \<Rightarrow> net_os \<Rightarrow> (nd_tcp_node \<times> net_os) option" where
  "nd_tcpnode_reset node os = do {
     let node = (if fd node \<noteq> 0 then node\<lparr>fd := 0\<rparr> else node);
     let (node, os) = nd_object_on_destroy node 0 os;
     let node = node\<lparr>level := 0, myerrno := NDERR_SUCCESS, sys_error := 0\<rparr>;
     let (t, os) = nd_time os;
     node \<leftarrow> reset_buffers (node\<lparr>last_recv := t, last_push := t\<rparr>);
     Some (node, os)
   }"

definition zero_linebuf :: nd_linebuf where
  "zero_linebuf = \<lparr>auto_inc = False, is_alloced = False, buf_capacity = 0, lb_start = 0, lb_end = 0, lb_buf = None\<rparr>"

definition zero_tcp_node :: nd_tcp_node where
  "zero_tcp_node = \<lparr>htype = NDHANDLE_OTHER, myerrno = 0, release_cbs = [], status = 0, fd = 0, protocol = 0,
     error_privilage_close = False, unreg_msg_close = False, user_define_packet = False, sys_error = 0,
     level = 0, read_again = False, is_crypt_packet = False, is_session = False, is_log_send = False,
     is_log_recv = False, save_send_stream = False, save_recv_stream = False, user_def_data_hook = False,
     is_ipv6 = False, without_alive = False, session_id = 0, start_time = 0, last_recv = 0, send_len = 0,
     recv_len = 0, packet_write = PW_tcpnode_send, writable_callback = None, writable_param = 0,
     crypt_key = \<lparr>key_size = 0, key = replicate 16 0\<rparr>, last_push = 0, disconn_timeout = 0,
     send_pack_times = 0, recv_pack_times = 0, recv_buffer = zero_linebuf, send_buffer = zero_linebuf\<rparr>"

definition tcp_connector_init :: "nd_tcp_node \<Rightarrow> net_os \<Rightarrow> nd_tcp_node \<times> net_os" where
  "tcp_connector_init node os =
     (let node = node\<lparr>myerrno := NDERR_SUCCESS, packet_write := PW_tcpnode_send, status := ETS_DEAD\<rparr>;
          (t, os) = nd_time os; node = node\<lparr>start_time := t\<rparr>;
          (t, os) = nd_time os;
          node = node\<lparr>last_push := t, disconn_timeout := ND_DFT_DISSCONN_TIMEOUT,
            crypt_key := init_crypt_key (crypt_key node), htype := NDHANDLE_TCPNODE, release_cbs := []\<rparr>
      in (node, os))"

definition nd_tcpnode_init :: "net_os \<Rightarrow> (nd_tcp_node \<times> net_os) option" where
  "nd_tcpnode_init os = do {
     let (node, os) = tcp_connector_init zero_tcp_node os;
     (_, r) \<leftarrow> lbuf_init (os_malloc os) (recv_buffer node) ND_NETBUF_SIZE;
     (_, s) \<leftarrow> lbuf_init (os_malloc os) (send_buffer node) ND_NETBUF_SIZE;
     Some (node\<lparr>recv_buffer := r, send_buffer := s\<rparr>, os)
   }"

definition nd_tcpnode_deinit :: "nd_tcp_node \<Rightarrow> net_os \<Rightarrow> (nd_tcp_node \<times> net_os) option" where
  "nd_tcpnode_deinit node os = do {
     r \<leftarrow> lbuf_destroy True (recv_buffer node);
     s \<leftarrow> lbuf_destroy True (send_buffer node);
     Some (nd_object_on_destroy (node\<lparr>status := ETS_DEAD, recv_buffer := r, send_buffer := s\<rparr>) 0 os)
   }"

section \<open>Invariant and outgoing stream\<close>

definition node_ok :: "nd_tcp_node \<Rightarrow> bool" where
  "node_ok n \<longleftrightarrow> lbuf_ok (send_buffer n) \<and> \<not> auto_inc (send_buffer n) \<and>
     lbuf_ok (recv_buffer n) \<and> \<not> auto_inc (recv_buffer n)"

text \<open>The bytes given to the kernel followed by the bytes still waiting in the send buffer.\<close>

definition out_stream :: "nd_tcp_node \<Rightarrow> net_os \<Rightarrow> byte list" where
  "out_stream n os = wire_out os @ lbuf_data (send_buffer n)"

text \<open>Two states of a node that differ only in what sending changes.\<close>

definition send_erase :: "nd_tcp_node \<Rightarrow> nd_tcp_node" where
  "send_erase n = n\<lparr>myerrno := 0, sys_error := 0, send_len := 0, last_push := 0, send_buffer := zero_linebuf\<rparr>"

definition same_node :: "nd_tcp_node \<Rightarrow> nd_tcp_node \<Rightarrow> bool" where
  "same_node n n' \<longleftrightarrow> send_erase n' = send_erase n"

lemma same_node_refl [simp]: "same_node n n"
  by (simp add: same_node_def)

lemma same_node_trans: "same_node a b \<Longrightarrow> same_node b c \<Longrightarrow> same_node a c"
  by (simp add: same_node_def)

lemma same_node_upd [simp]:
  "same_node n (m\<lparr>myerrno := e\<rparr>) = same_node n m" "same_node n (m\<lparr>sys_error := s\<rparr>) = same_node n m"
  "same_node n (m\<lparr>send_len := l\<rparr>) = same_node n m" "same_node n (m\<lparr>last_push := t\<rparr>) = same_node n m"
  "same_node n (m\<lparr>send_buffer := b\<rparr>) = same_node n m"
  by (simp_all add: same_node_def send_erase_def)

lemma send_erase_sel:
  "recv_buffer (send_erase n) = recv_buffer n" "status (send_erase n) = status n" "fd (send_erase n) = fd n"
  "is_session (send_erase n) = is_session n" "without_alive (send_erase n) = without_alive n"
  "htype (send_erase n) = htype n" "crypt_key (send_erase n) = crypt_key n"
  "disconn_timeout (send_erase n) = disconn_timeout n" "last_recv (send_erase n) = last_recv n"
  "user_define_packet (send_erase n) = user_define_packet n" "packet_write (send_erase n) = packet_write n"
  by (simp_all add: send_erase_def)

lemma same_node_sel:
  assumes "same_node n n'"
  shows "recv_buffer n' = recv_buffer n" "status n' = status n" "fd n' = fd n" "is_session n' = is_session n"
    "without_alive n' = without_alive n" "htype n' = htype n" "crypt_key n' = crypt_key n"
    "disconn_timeout n' = disconn_timeout n" "last_recv n' = last_recv n"
    "user_define_packet n' = user_define_packet n" "packet_write n' = packet_write n"
  using assms unfolding same_node_def by (metis send_erase_sel)+

lemma os_send_cases:
  assumes "os_send os bs = (r, os')"
  obtains (err) "r = -1" "wire_out os' = wire_out os" "os_malloc os' = os_malloc os" "recv_script os' = recv_script os"
  | (ok) k where "k \<le> length bs" "r = int k" "wire_out os' = wire_out os @ take k bs"
      "os_malloc os' = os_malloc os" "recv_script os' = recv_script os"
proof (cases "send_script os")
  case Nil
  then show ?thesis using assms err by (auto simp: os_send_def)
next
  case (Cons a s)
  show ?thesis
  proof (cases a)
    case (SendOk n)
    show ?thesis
      by (rule ok [of "min n (length bs)"]) (use Cons SendOk assms in \<open>auto simp: os_send_def min_def\<close>)
  next
    case (SendErr e)
    then show ?thesis using Cons assms err by (auto simp: os_send_def)
  qed
qed

lemma sys_socket_write_cases:
  assumes "sys_socket_write n bs os = (r, n', os')"
  obtains (err) "r = -1" "wire_out os' = wire_out os" "sys_error n' \<noteq> ESOCKETTIMEOUT" "same_node n n'"
      "send_buffer n' = send_buffer n" "os_malloc os' = os_malloc os" "recv_script os' = recv_script os"
  | (ok) k where "k \<le> length bs" "r = int k" "wire_out os' = wire_out os @ take k bs" "same_node n n'"
      "send_buffer n' = send_buffer n" "os_malloc os' = os_malloc os" "recv_script os' = recv_script os"
proof -
  obtain r0 os0 where s: "os_send os bs = (r0, os0)" by (cases "os_send os bs")
  have n': "same_node n n' \<and> send_buffer n' = send_buffer n"
    using assms s by (auto simp: sys_socket_write_def nd_time_def Let_def split: if_splits)
  from s show ?thesis
  proof (cases rule: os_send_cases)
    case err
    then show ?thesis
      using assms s n' that by (auto simp: sys_socket_write_def Let_def split: if_splits)
  next
    case (ok k)
    then show ?thesis
      using assms s n' that by (auto simp: sys_socket_write_def nd_time_def Let_def split: if_splits)
  qed
qed

section \<open>Effect of each send operation on the outgoing stream\<close>

definition stepped :: "nd_tcp_node \<Rightarrow> net_os \<Rightarrow> byte list \<Rightarrow> nd_tcp_node \<Rightarrow> net_os \<Rightarrow> bool" where
  "stepped n os xs n' os' \<longleftrightarrow> node_ok n' \<and> same_node n n' \<and>
     buf_capacity (send_buffer n') = buf_capacity (send_buffer n) \<and> os_malloc os' = os_malloc os \<and>
     recv_script os' = recv_script os \<and> out_stream n' os' = out_stream n os @ xs"

lemma stepped_trans:
  "stepped n os xs n1 os1 \<Longrightarrow> stepped n1 os1 ys n2 os2 \<Longrightarrow> stepped n os (xs @ ys) n2 os2"
  by (auto simp: stepped_def intro: same_node_trans)

lemma stepped_refl: "node_ok n \<Longrightarrow> stepped n os [] n os"
  by (simp add: stepped_def)

lemma stepped_errno [simp]: "stepped n os xs (n'\<lparr>myerrno := e\<rparr>) os' = stepped n os xs n' os'"
  by (simp add: stepped_def node_ok_def out_stream_def)

lemma stepped_errno0 [simp]: "stepped (n\<lparr>myerrno := e\<rparr>) os xs n' os' = stepped n os xs n' os'"
  by (simp add: stepped_def out_stream_def same_node_def send_erase_def)

lemma sendbuf_write_stepped:
  assumes ok: "node_ok n" and w: "sendbuf_write n bs os = Some (r, n', os')"
  shows "r = int (length bs) \<and> stepped n os bs n' os' \<or>
         r = -1 \<and> n' = n \<and> os' = os \<and> lbuf_free_capacity (send_buffer n) < length bs"
proof -
  obtain b where b: "lbuf_write (os_malloc os) (send_buffer n) bs EBUF_SPECIFIED = Some (r, b)"
    and n': "n' = n\<lparr>send_buffer := b\<rparr>" "os' = os"
    using w by (auto simp: sendbuf_write_def split: bind_splits)
  from ok have "lbuf_ok (send_buffer n)" "\<not> auto_inc (send_buffer n)" by (auto simp: node_ok_def)
  from lbuf_write_result [OF this b] n' ok show ?thesis
    by (auto simp: stepped_def node_ok_def same_frame_def out_stream_def)
qed

lemma send_with_save_stepped:
  assumes ok: "node_ok n" and empty: "lbuf_data (send_buffer n) = []"
    and s: "tcpnode_send_with_save n msg os = Some (r, n', os')"
  shows "r = -1 \<and> stepped n os [] n' os' \<or>
    (\<exists>k\<le>length msg. r = int k \<and> stepped n os (take k msg) n' os' \<and>
       (k < length msg \<longrightarrow> buf_capacity (send_buffer n) < length msg - k))"
proof -
  obtain r1 n1 os1 where w: "sys_socket_write n msg os = (r1, n1, os1)"
    by (cases "sys_socket_write n msg os") auto
  from w show ?thesis
  proof (cases rule: sys_socket_write_cases)
    case err
    with s w ok have "r = -1" "n' = n1" "os' = os1" by (auto simp: tcpnode_send_with_save_def)
    with err ok same_node_sel(1) [OF err(4)] show ?thesis
      by (simp add: stepped_def node_ok_def out_stream_def)
  next
    case (ok k)
    have st: "stepped n os (take k msg) n1 os1"
      using ok assms(1) empty same_node_sel(1) [OF ok(4)] by (simp add: stepped_def node_ok_def out_stream_def)
    then have ok1: "node_ok n1" by (simp add: stepped_def)
    show ?thesis
    proof (cases "k = length msg")
      case True
      with s w ok st show ?thesis by (auto simp: tcpnode_send_with_save_def)
    next
      case False
      with s w ok obtain wl where sb: "sendbuf_write n1 (drop k msg) os1 = Some (wl, n', os')"
        and r: "r = (if wl > 0 then wl + int k else int k)"
        by (auto simp: tcpnode_send_with_save_def split: bind_splits)
      have len: "int (length (drop k msg)) + int k = int (length msg)" "0 < length (drop k msg)"
        using ok(1) False by auto
      from sendbuf_write_stepped [OF ok1 sb] show ?thesis
      proof
        assume a: "wl = int (length (drop k msg)) \<and> stepped n1 os1 (drop k msg) n' os'"
        then have "r = int (length msg)" using r len by simp
        moreover have "stepped n os msg n' os'" using stepped_trans [OF st] a by fastforce
        ultimately show ?thesis by auto
      next
        assume a: "wl = -1 \<and> n' = n1 \<and> os' = os1 \<and> lbuf_free_capacity (send_buffer n1) < length (drop k msg)"
        moreover have "lbuf_free_capacity (send_buffer n1) = buf_capacity (send_buffer n)"
          using lbuf_free_capacity_eq [of "send_buffer n1"] ok1 ok(5) empty by (simp add: node_ok_def)
        ultimately show ?thesis using r st ok(1) by auto
      qed
    qed
  qed
qed

lemma flush_once_stepped:
  assumes ok: "node_ok n"
  shows "\<exists>r n' os'. tcpnode_flush_once n os = Some (r, n', os') \<and> stepped n os [] n' os' \<and> -1 \<le> r \<and>
    lbuf_data (send_buffer n') = drop (nat r) (lbuf_data (send_buffer n))"
proof -
  let ?b = "send_buffer n" and ?d = "lbuf_data (send_buffer n)"
  have b: "lbuf_ok ?b" using ok by (simp add: node_ok_def)
  have ld: "lbuf_load ?b (lb_start ?b) (lbuf_datalen ?b) = Some ?d"
    using lbuf_load_spec [OF b, of "lbuf_datalen ?b"] length_lbuf_data [OF b] by simp
  obtain r1 n1 os1 where w: "sys_socket_write n ?d os = (r1, n1, os1)"
    by (cases "sys_socket_write n ?d os") auto
  from w show ?thesis
  proof (cases rule: sys_socket_write_cases)
    case err
    with ld w ok same_node_sel(1) [OF err(4)] show ?thesis
      by (simp add: tcpnode_flush_once_def stepped_def node_ok_def out_stream_def)
  next
    case (ok k)
    obtain b' where b': "lbuf_sub_data ?b k = Some b'" "lbuf_ok b'" "lbuf_data b' = drop k ?d" "same_frame ?b b'"
      using lbuf_sub_data_spec [OF b] by blast
    show ?thesis
    proof (cases "k = 0")
      case True
      with ld w ok assms same_node_sel(1) [OF ok(4)] show ?thesis
        by (simp add: tcpnode_flush_once_def stepped_def node_ok_def out_stream_def)
    next
      case False
      with ld w ok b' have "tcpnode_flush_once n os = Some (int k, n1\<lparr>send_buffer := b'\<rparr>, os1)"
        by (simp add: tcpnode_flush_once_def)
      moreover have "stepped n os [] (n1\<lparr>send_buffer := b'\<rparr>) os1"
        using ok b' assms same_node_sel(1) [OF ok(4)]
        by (simp add: stepped_def node_ok_def out_stream_def same_frame_def)
      ultimately show ?thesis using b'(3) by simp
    qed
  qed
qed

lemma node_ok_datalen: "node_ok n \<Longrightarrow> lbuf_datalen (send_buffer n) = length (lbuf_data (send_buffer n))"
  by (simp add: node_ok_def length_lbuf_data)

text \<open>The result of a send: refused, or a prefix accepted; a proper prefix only when the rest does not
  even fit an empty send buffer, or for a post that was turned away.\<close>

definition send_result :: "nd_tcp_node \<Rightarrow> net_os \<Rightarrow> byte list \<Rightarrow> send_flags \<Rightarrow> int \<Rightarrow> nd_tcp_node \<Rightarrow> net_os \<Rightarrow> bool" where
  "send_result n os msg flag r n' os' \<longleftrightarrow> r = -1 \<and> stepped n os [] n' os' \<or>
     (\<exists>k\<le>length msg. r = int k \<and> stepped n os (take k msg) n' os' \<and>
        (k < length msg \<longrightarrow> buf_capacity (send_buffer n) < length msg - k \<or> k = 0 \<and> ESF_POST \<in> flag))"

lemma send_result_flushed:
  assumes "stepped n os [] n1 os1" and "send_result n1 os1 msg flag r n' os'"
  shows "send_result n os msg flag r n' os'"
proof -
  have "buf_capacity (send_buffer n1) = buf_capacity (send_buffer n)"
    using assms(1) by (simp add: stepped_def)
  then show ?thesis
    using assms(2) stepped_trans [OF assms(1)] unfolding send_result_def by fastforce
qed

lemma sendbuf_write_result:
  assumes "node_ok n" and "sendbuf_write n msg os = Some (r, n', os')"
  shows "send_result n os msg flag r n' os'"
  using sendbuf_write_stepped [OF assms] stepped_refl [OF assms(1)] by (auto simp: send_result_def)

lemma send_with_save_result:
  assumes "node_ok n" and "lbuf_datalen (send_buffer n) = 0" and "tcpnode_send_with_save n msg os = Some (r, n', os')"
  shows "send_result n os msg flag r n' os'"
  using send_with_save_stepped [OF assms(1) _ assms(3)] node_ok_datalen [OF assms(1)] assms(2)
  unfolding send_result_def by auto

lemma push_and_send_result:
  assumes ok: "node_ok n" and s: "tcpnode_push_and_send n msg wa os = Some (r, n', os')"
  shows "send_result n os msg flag r n' os'"
proof -
  obtain n1 os1 where st: "stepped n os [] n1 os1"
    and p: "(if lbuf_datalen (send_buffer n1) = 0 then tcpnode_send_with_save n1 msg os1
             else if wa \<and> lbuf_free_capacity (send_buffer n1) < length msg
             then Some (-1, n1\<lparr>myerrno := NDERR_WOULD_BLOCK\<rparr>, os1)
             else sendbuf_write n1 msg os1) = Some (r, n', os')"
  proof (cases "lbuf_datalen (send_buffer n) \<noteq> 0")
    case True
    with flush_once_stepped [OF ok, of os] s that show thesis by (auto simp: tcpnode_push_and_send_def)
  next
    case False
    show thesis
      by (rule that [OF stepped_refl [OF ok]]) (use False s in \<open>simp add: tcpnode_push_and_send_def\<close>)
  qed
  then have ok1: "node_ok n1" by (simp add: stepped_def)
  have "send_result n1 os1 msg flag r n' os'"
  proof (cases "lbuf_datalen (send_buffer n1) = 0")
    case True
    with p send_with_save_result [OF ok1] show ?thesis by simp
  next
    case False
    show ?thesis
    proof (cases "wa \<and> lbuf_free_capacity (send_buffer n1) < length msg")
      case True
      with False p stepped_refl [OF ok1] show ?thesis by (auto simp: send_result_def)
    next
      case f2: False
      with False p sendbuf_write_result [OF ok1] show ?thesis by simp
    qed
  qed
  with st show ?thesis by (rule send_result_flushed)
qed

lemma tcpnode_send_result:
  assumes ok: "node_ok n" and s: "tcpnode_send n msg flag wa os = Some (r, n', os')"
  shows "send_result n os msg flag r n' os'"
proof (cases "lbuf_datalen (send_buffer n) = 0")
  case True
  with s send_with_save_result [OF ok] show ?thesis by (simp add: tcpnode_send_def)
next
  case False
  show ?thesis
  proof (cases "ESF_POST \<in> flag \<and> length msg > lbuf_free_capacity (send_buffer n)")
    case True
    with False s stepped_refl [OF ok, of os] show ?thesis by (auto simp: tcpnode_send_def send_result_def)
  next
    case f2: False
    with False s have "tcpnode_push_and_send n msg wa os = Some (r, n', os')"
      by (simp only: tcpnode_send_def if_False)
    then show ?thesis by (rule push_and_send_result [OF ok])
  qed
qed

text \<open>A send stays inside the buffer when seven bytes of slack remain.\<close>

lemma sendbuf_write_defined:
  assumes "node_ok n" and "length (lbuf_data (send_buffer n)) + length msg + 7 \<le> buf_capacity (send_buffer n)"
  shows "sendbuf_write n msg os \<noteq> None"
proof -
  have ok: "lbuf_ok (send_buffer n)" using assms(1) by (simp add: node_ok_def)
  from lbuf_write_accept [OF ok lbuf_write_roomy [OF ok assms(2)], of "os_malloc os"]
  show ?thesis by (auto simp: sendbuf_write_def)
qed

lemma sendbuf_write_empty_defined:
  assumes "node_ok n" and "lbuf_data (send_buffer n) = []"
  shows "sendbuf_write n msg os \<noteq> None"
proof -
  have ok: "lbuf_ok (send_buffer n)" "\<not> auto_inc (send_buffer n)" using assms(1) by (simp_all add: node_ok_def)
  then have "lb_start (send_buffer n) = 0" "lb_end (send_buffer n) = 0"
    using length_lbuf_data [OF ok(1)] assms(2) by (auto simp: lbuf_ok_def lbuf_datalen_def)
  then have "lbuf_accepts (send_buffer n) (length msg) \<or> lbuf_refuses (send_buffer n) (length msg)"
    unfolding lbuf_accepts_def lbuf_refuses_def lbuf_movable_def by linarith
  then show ?thesis
    using lbuf_write_accept [OF ok(1), of msg "os_malloc os"] lbuf_write_refuse [OF ok(2), of msg "os_malloc os"]
    by (auto simp: sendbuf_write_def)
qed

lemma send_with_save_defined:
  assumes ok: "node_ok n" and empty: "lbuf_data (send_buffer n) = []"
  shows "tcpnode_send_with_save n msg os \<noteq> None"
proof -
  obtain r1 n1 os1 where w: "sys_socket_write n msg os = (r1, n1, os1)"
    by (cases "sys_socket_write n msg os") auto
  have n1: "send_buffer n1 = send_buffer n" "recv_buffer n1 = recv_buffer n"
    using w by (cases rule: sys_socket_write_cases; simp add: same_node_sel)+
  then have ok1: "node_ok n1" "lbuf_data (send_buffer n1) = []"
    using ok empty by (simp_all add: node_ok_def)
  obtain a where a: "sendbuf_write n1 msg os1 = Some a"
    using sendbuf_write_empty_defined [OF ok1] by blast
  obtain b where b: "sendbuf_write n1 (drop (nat r1) msg) os1 = Some b"
    using sendbuf_write_empty_defined [OF ok1] by blast
  from a b w show ?thesis
    by (cases a; cases b) (simp add: tcpnode_send_with_save_def Let_def)
qed

lemma tcpnode_send_defined:
  assumes ok: "node_ok n"
    and room: "length (lbuf_data (send_buffer n)) + length msg + 7 \<le> buf_capacity (send_buffer n)"
  shows "tcpnode_send n msg flag wa os \<noteq> None"
proof (cases "lbuf_datalen (send_buffer n) = 0")
  case True
  then show ?thesis
    using send_with_save_defined [OF ok] node_ok_datalen [OF ok] by (simp add: tcpnode_send_def)
next
  case False
  obtain r1 n1 os1 where f: "tcpnode_flush_once n os = Some (r1, n1, os1)" and st: "stepped n os [] n1 os1"
    and d: "lbuf_data (send_buffer n1) = drop (nat r1) (lbuf_data (send_buffer n))"
    using flush_once_stepped [OF ok] by blast
  have ok1: "node_ok n1" and c: "buf_capacity (send_buffer n1) = buf_capacity (send_buffer n)"
    using st by (simp_all add: stepped_def)
  have "length (lbuf_data (send_buffer n1)) + length msg + 7 \<le> buf_capacity (send_buffer n1)"
    using room c d by simp
  note sw = sendbuf_write_defined [OF ok1 this, of os1]
  have se: "lbuf_datalen (send_buffer n1) = 0 \<Longrightarrow> tcpnode_send_with_save n1 msg os1 \<noteq> None"
    using send_with_save_defined [OF ok1] node_ok_datalen [OF ok1] by simp
  have "tcpnode_push_and_send n msg wa os \<noteq> None"
    using f sw se False by (simp add: tcpnode_push_and_send_def)
  then show ?thesis using False by (simp add: tcpnode_send_def)
qed

lemma push_sendbuf_stepped:
  assumes "node_ok n"
  shows "\<exists>r n' os'. tcpnode_push_sendbuf n os = Some (r, n', os') \<and> stepped n os [] n' os' \<and>
    length (lbuf_data (send_buffer n')) \<le> length (lbuf_data (send_buffer n))"
  using flush_once_stepped [OF assms, of os] stepped_refl [OF assms, of os]
  by (auto simp: tcpnode_push_sendbuf_def)

lemma push_force_loop_stepped:
  "node_ok n \<Longrightarrow> \<exists>r n' os'. push_force_loop n os = Some (r, n', os') \<and> stepped n os [] n' os'"
proof (induction "length (lbuf_data (send_buffer n))" arbitrary: n os rule: less_induct)
  case less
  let ?n = "n\<lparr>myerrno := NDERR_SUCCESS\<rparr>"
  have ok0: "node_ok ?n" using less.prems by (simp add: node_ok_def)
  obtain r1 n1 os1 where f: "tcpnode_flush_once ?n os = Some (r1, n1, os1)" and st: "stepped n os [] n1 os1"
    and d: "lbuf_data (send_buffer n1) = drop (nat r1) (lbuf_data (send_buffer n))"
    using flush_once_stepped [OF ok0, of os] by auto
  have ok1: "node_ok n1" using st by (simp add: stepped_def)
  obtain w os2 where sel: "os_select os1 = (w, os2)" by (cases "os_select os1")
  have st2: "stepped n os [] n1 os2"
    using st sel by (auto simp: stepped_def out_stream_def os_select_def split: list.splits ready_res.splits)
  show ?case
  proof (cases "0 < r1 \<and> 0 < lbuf_datalen (send_buffer n1) \<and> w = 1")
    case True
    then have "length (lbuf_data (send_buffer n1)) < length (lbuf_data (send_buffer n))"
      using d node_ok_datalen [OF ok1] by auto
    from less.hyps [OF this ok1, of os2] obtain r n' os' where
      l: "push_force_loop n1 os2 = Some (r, n', os')" and s': "stepped n1 os2 [] n' os'" by blast
    have "push_force_loop n os = Some (r, n', os')"
      by (subst push_force_loop.simps) (use f sel True l in simp)
    then show ?thesis using stepped_trans [OF st2 s'] by auto
  next
    case False
    have "\<exists>r n' os'. push_force_loop n os = Some (r, n', os') \<and> n' = n1 \<and> (os' = os1 \<or> os' = os2)"
      by (subst push_force_loop.simps) (use f sel False in auto)
    then show ?thesis using st st2 by auto
  qed
qed

section \<open>Packets on the outgoing stream\<close>

definition streamed :: "nd_tcp_node \<Rightarrow> net_os \<Rightarrow> byte list \<Rightarrow> nd_tcp_node \<Rightarrow> net_os \<Rightarrow> bool" where
  "streamed n os xs n' os' \<longleftrightarrow> node_ok n' \<and> buf_capacity (send_buffer n') = buf_capacity (send_buffer n) \<and>
     out_stream n' os' = out_stream n os @ xs"

lemma streamed_trans:
  "streamed n os xs n1 os1 \<Longrightarrow> streamed n1 os1 ys n2 os2 \<Longrightarrow> streamed n os (xs @ ys) n2 os2"
  by (simp add: streamed_def)

lemma stepped_streamed: "stepped n os xs n' os' \<Longrightarrow> streamed n os xs n' os'"
  by (simp add: stepped_def streamed_def)

lemma streamed_upd [simp]:
  "streamed n os xs (n'\<lparr>myerrno := e\<rparr>) os' = streamed n os xs n' os'"
  "streamed n os xs (n'\<lparr>status := s\<rparr>) os' = streamed n os xs n' os'"
  by (simp_all add: streamed_def node_ok_def out_stream_def)

lemma send_result_whole:
  assumes "send_result n os msg flag r n' os'" and "length msg \<le> buf_capacity (send_buffer n)"
  shows "r = int (length msg) \<and> stepped n os msg n' os' \<or> (r = -1 \<or> r = 0) \<and> stepped n os [] n' os'"
  using assms(1) unfolding send_result_def
proof
  assume "\<exists>k\<le>length msg. r = int k \<and> stepped n os (take k msg) n' os' \<and>
      (k < length msg \<longrightarrow> buf_capacity (send_buffer n) < length msg - k \<or> k = 0 \<and> ESF_POST \<in> flag)"
  then obtain k where k: "k \<le> length msg" "r = int k" "stepped n os (take k msg) n' os'"
    "k < length msg \<Longrightarrow> buf_capacity (send_buffer n) < length msg - k \<or> k = 0 \<and> ESF_POST \<in> flag" by blast
  show ?thesis
  proof (cases "k < length msg")
    case True
    with k(4) assms(2) have "k = 0" by linarith
    with k show ?thesis by simp
  next
    case False
    with k show ?thesis by simp
  qed
qed simp

lemma nd_tcpnode_send_frame:
  assumes ok: "node_ok n" and cap: "65535 \<le> buf_capacity (send_buffer n)"
    and s: "nd_tcpnode_send n p flag os = Some (r, n', os')"
  shows "\<exists>h m. bytes_hdr p = Some h \<and> mem_read p 0 (nd_net_getpack_size h) = Some m \<and>
    (r = int (length m) \<and> streamed n os m n' os' \<or> (r = -1 \<or> r = 0) \<and> streamed n os [] n' os')"
proof -
  obtain h m n1 f where hm: "bytes_hdr p = Some h" "mem_read p 0 (nd_net_getpack_size h) = Some m"
    and t: "tcpnode_send n m f True os = Some (r, n1, os')"
    and n': "n' = n1 \<or> n' = n1\<lparr>myerrno := NDERR_WRITE, status := ETS_RESET\<rparr>"
    using s by (auto simp: nd_tcpnode_send_def split: bind_splits if_splits)
  have "length m = nd_net_getpack_size h" using hm(2) by (auto simp: mem_read_def split: if_splits)
  then have "length m \<le> 65535"
    using unat_u16_le by (simp add: nd_net_getpack_size_def)
  with cap have "length m \<le> buf_capacity (send_buffer n)" by linarith
  from send_result_whole [OF tcpnode_send_result [OF ok t] this] n' hm show ?thesis
    using stepped_streamed by auto
qed

lemma nd_tcpnode_send_defined:
  assumes "node_ok n" and "bytes_hdr p = Some h" and "mem_read p 0 (nd_net_getpack_size h) = Some m"
    and "length (lbuf_data (send_buffer n)) + length m + 7 \<le> buf_capacity (send_buffer n)"
  shows "nd_tcpnode_send n p flag os \<noteq> None"
  using tcpnode_send_defined [OF assms(1,4), of "flag - {ESF_URGENCY}" True os]
    tcpnode_send_defined [OF assms(1,4), of flag True os] assms(2,3)
  by (auto simp: nd_tcpnode_send_def split: bind_splits)

datatype tcp_op = TSend "byte list" send_flags | TFlush | TForce | TTryFlush | TUpdate

text \<open>The packet a caller hands over: the bytes its header counts. It is accepted when the send reports success, which is any positive result;
  what is accepted is then the whole packet, whatever the result says.\<close>

definition packet_of :: "byte list \<Rightarrow> byte list" where
  "packet_of p = (case bytes_hdr p of None \<Rightarrow> [] | Some h \<Rightarrow> take (nd_net_getpack_size h) p)"

definition sent_packet :: "byte list \<Rightarrow> int \<Rightarrow> byte list list" where
  "sent_packet p r = (if r > 0 then [packet_of p] else [])"

text \<open>One operation of a connection, with the packets it accepted from the caller.\<close>

fun tcp_step :: "tcp_op \<Rightarrow> nd_tcp_node \<Rightarrow> net_os \<Rightarrow> byte list list net" where
  "tcp_step (TSend p flag) n os = do { (r, n, os) \<leftarrow> nd_tcpnode_send n p flag os; Some (sent_packet p r, n, os) }"
| "tcp_step TFlush n os = do { (_, n, os) \<leftarrow> tcpnode_push_sendbuf n os; Some ([], n, os) }"
| "tcp_step TForce n os = do { (_, n, os) \<leftarrow> tcpnode_push_force n os; Some ([], n, os) }"
| "tcp_step TTryFlush n os = do { (_, n, os) \<leftarrow> nd_tcpnode_tryto_flush_sendbuf n os; Some ([], n, os) }"
| "tcp_step TUpdate n os = do { (_, n, os) \<leftarrow> tcp_node_update n os; Some ([], n, os) }"

fun tcp_run :: "tcp_op list \<Rightarrow> nd_tcp_node \<Rightarrow> net_os \<Rightarrow> byte list list net" where
  "tcp_run [] n os = Some ([], n, os)"
| "tcp_run (x # xs) n os = do {
     (ps, n, os) \<leftarrow> tcp_step x n os;
     (qs, n, os) \<leftarrow> tcp_run xs n os;
     Some (ps @ qs, n, os)
   }"

lemma alive_packet_hdr: "\<exists>h. bytes_hdr alive_packet_net = Some h \<and> nd_net_getpack_size h = 8"
  by (simp add: alive_packet_net_def sysresv_bytes_def nd_make_alive_pack_def Let_def nd_packet_hton_def
      nd_net_getpack_size_def SYSRESV_PACK_SIZE_def)

lemma length_alive_packet [simp]: "length alive_packet_net = 8"
  by (simp add: alive_packet_net_def sysresv_bytes_def le_of_u16_def)

lemma streamed_time [simp]: "streamed n (os\<lparr>ticks := t\<rparr>) xs n' os' = streamed n os xs n' os'"
  by (simp add: streamed_def out_stream_def)

lemma streamed_callback [simp]: "streamed n os xs n' (tcpnode_try_callback_write m os') = streamed n os xs n' os'"
  by (auto simp: tcpnode_try_callback_write_def streamed_def out_stream_def os_select_def Let_def
      split: option.splits list.splits ready_res.splits if_splits)

lemma tcp_node_update_frame:
  assumes ok: "node_ok n" and cap: "65535 \<le> buf_capacity (send_buffer n)"
    and s: "tcp_node_update n os = Some (r, n', os')"
  shows "\<exists>k. streamed n os (concat (replicate k alive_packet_net)) n' os'"
proof -
  let ?os = "os\<lparr>ticks := ticks os + 1\<rparr>"
  have none: "\<exists>k. streamed n os (concat (replicate k alive_packet_net)) m os1" if "streamed n os [] m os1" for m os1
    using that by (intro exI [of _ 0]) simp
  show ?thesis
  proof (cases "fd n = 0 \<or> nd_object_check_error n \<noteq> 0 \<or> status n \<noteq> ETS_CONNECTED")
    case True
    with s have "n' = n" "os' = ?os" by (auto simp: tcp_node_update_def nd_time_def)
    with ok show ?thesis by (intro none) (simp add: streamed_def out_stream_def)
  next
    case False
    obtain r1 n1 os1 where p: "tcpnode_push_sendbuf n ?os = Some (r1, n1, os1)"
      and st: "stepped n ?os [] n1 os1"
      using push_sendbuf_stepped [OF ok] by blast
    have st1: "streamed n os [] n1 os1" using stepped_streamed [OF st] by simp
    have ok1: "node_ok n1" and cap1: "65535 \<le> buf_capacity (send_buffer n1)"
      using st cap by (simp_all add: stepped_def)
    obtain r2 n2 os2 where n2: "n1 = n2 \<and> os1 = os2 \<or> nd_tcpnode_send n1 alive_packet_net {ESF_URGENCY} os1 = Some (r2, n2, os2)"
      and n': "n' = n2 \<or> n' = n2\<lparr>myerrno := NDERR_TIMEOUT\<rparr>" and os': "os' = tcpnode_try_callback_write n2 os2"
      using s False p
      by (auto simp: tcp_node_update_def nd_time_def Let_def split: if_splits bind_splits) blast+
    have "\<exists>k. streamed n os (concat (replicate k alive_packet_net)) n2 os2"
      using n2
    proof
      assume "nd_tcpnode_send n1 alive_packet_net {ESF_URGENCY} os1 = Some (r2, n2, os2)"
      from nd_tcpnode_send_frame [OF ok1 cap1 this] alive_packet_hdr
      have "streamed n1 os1 alive_packet_net n2 os2 \<or> streamed n1 os1 [] n2 os2"
        by (auto simp: mem_read_def)
      then show ?thesis
      proof
        assume "streamed n1 os1 alive_packet_net n2 os2"
        from streamed_trans [OF st1 this] show ?thesis by (intro exI [of _ 1]) simp
      next
        assume "streamed n1 os1 [] n2 os2"
        from streamed_trans [OF st1 this] show ?thesis by (intro none) simp
      qed
    qed (use st1 none in simp)
    with n' os' show ?thesis by auto
  qed
qed

lemma tcp_node_update_defined:
  assumes ok: "node_ok n" and room: "length (lbuf_data (send_buffer n)) + 15 \<le> buf_capacity (send_buffer n)"
  shows "tcp_node_update n os \<noteq> None"
proof -
  let ?os = "os\<lparr>ticks := ticks os + 1\<rparr>"
  obtain r1 n1 os1 where p: "tcpnode_push_sendbuf n ?os = Some (r1, n1, os1)" and st: "stepped n ?os [] n1 os1"
    and d: "length (lbuf_data (send_buffer n1)) \<le> length (lbuf_data (send_buffer n))"
    using push_sendbuf_stepped [OF ok, of ?os] by blast
  have ok1: "node_ok n1" "buf_capacity (send_buffer n1) = buf_capacity (send_buffer n)"
    using st by (simp_all add: stepped_def)
  obtain h where h: "bytes_hdr alive_packet_net = Some h" "nd_net_getpack_size h = 8"
    using alive_packet_hdr by blast
  then have m: "mem_read alive_packet_net 0 (nd_net_getpack_size h) = Some alive_packet_net"
    by (simp add: mem_read_def)
  obtain r2 n2 os2 where "nd_tcpnode_send n1 alive_packet_net {ESF_URGENCY} os1 = Some (r2, n2, os2)"
    using nd_tcpnode_send_defined [OF ok1(1) h(1) m, of "{ESF_URGENCY}" os1] room d ok1(2) by auto
  then show ?thesis
    using p by (simp add: tcp_node_update_def nd_time_def Let_def)
qed

text \<open>An operation has room when seven bytes of the send buffer remain free behind the stored bytes and the packet it may append; flushing
  appends nothing. A packet has to lie in its memory as its header counts it.\<close>

fun has_room :: "tcp_op \<Rightarrow> nd_tcp_node \<Rightarrow> bool" where
  "has_room (TSend p flag) n \<longleftrightarrow> (case bytes_hdr p of None \<Rightarrow> False | Some h \<Rightarrow> nd_net_getpack_size h \<le> length p \<and>
     length (lbuf_data (send_buffer n)) + nd_net_getpack_size h + 7 \<le> buf_capacity (send_buffer n))"
| "has_room TUpdate n \<longleftrightarrow> length (lbuf_data (send_buffer n)) + 15 \<le> buf_capacity (send_buffer n)"
| "has_room _ n \<longleftrightarrow> True"

lemma tcp_step_defined:
  assumes ok: "node_ok n" and room: "has_room x n"
  shows "tcp_step x n os \<noteq> None"
proof (cases x)
  case (TSend p flag)
  then obtain h where h: "bytes_hdr p = Some h" "mem_read p 0 (nd_net_getpack_size h) = Some (seg p 0 (nd_net_getpack_size h))"
      "length (seg p 0 (nd_net_getpack_size h)) = nd_net_getpack_size h"
      "length (lbuf_data (send_buffer n)) + nd_net_getpack_size h + 7 \<le> buf_capacity (send_buffer n)"
    using room by (auto simp: mem_read_Some split: option.splits)
  then show ?thesis
    using nd_tcpnode_send_defined [OF ok h(1,2), of flag os] TSend by auto
next
  case TFlush
  then show ?thesis using push_sendbuf_stepped [OF ok, of os] by auto
next
  case TForce
  then show ?thesis using push_force_loop_stepped [OF ok, of os] by (auto simp: tcpnode_push_force_def)
next
  case TTryFlush
  then show ?thesis
    using push_sendbuf_stepped [OF ok, of os] push_sendbuf_stepped [OF ok, of "os\<lparr>ticks := ticks os + 1\<rparr>"]
    by (auto simp: nd_tcpnode_tryto_flush_sendbuf_def nd_time_def)
next
  case TUpdate
  then show ?thesis using tcp_node_update_defined [OF ok, of os] room by auto
qed

text \<open>The frames of a stretch of the stream are the caller's packets, in order, with keep-alive packets
  between them.\<close>

definition frames_of :: "byte list list \<Rightarrow> byte list list \<Rightarrow> bool" where
  "frames_of ps fs \<longleftrightarrow> (\<exists>k. fs \<in> shuffles ps (replicate k alive_packet_net))"

lemma frames_of_append: "frames_of ps fs \<Longrightarrow> frames_of qs gs \<Longrightarrow> frames_of (ps @ qs) (fs @ gs)"
  unfolding frames_of_def by (elim exE) (metis replicate_add shuffles_append)

lemma frames_of_self: "frames_of ps ps"
  unfolding frames_of_def by (intro exI [of _ 0]) simp

lemma frames_of_alive: "frames_of [] (replicate k alive_packet_net)"
  unfolding frames_of_def by (intro exI [of _ k]) simp

lemma tcp_step_frames:
  assumes ok: "node_ok n" and cap: "65535 \<le> buf_capacity (send_buffer n)"
    and s: "tcp_step x n os = Some (ps, n', os')"
  shows "\<exists>fs. frames_of ps fs \<and> streamed n os (concat fs) n' os'"
proof -
  have quiet: "\<exists>fs. frames_of [] fs \<and> streamed n os (concat fs) m os1" if "streamed n os [] m os1" for m os1
    using that by (intro exI [of _ "[]"]) (simp add: frames_of_self)
  show ?thesis
  proof (cases x)
    case (TSend p flag)
    then obtain r where r: "nd_tcpnode_send n p flag os = Some (r, n', os')" "ps = sent_packet p r"
      using s by (auto split: bind_splits)
    from nd_tcpnode_send_frame [OF ok cap r(1)] obtain h m where h: "bytes_hdr p = Some h" "mem_read p 0 (nd_net_getpack_size h) = Some m"
      and m: "r = int (length m) \<and> streamed n os m n' os' \<or> (r = -1 \<or> r = 0) \<and> streamed n os [] n' os'"
      by blast
    then have "packet_of p = m"
      by (auto simp: packet_of_def mem_read_def split: if_splits)
    with m have "streamed n os (concat ps) n' os'"
      unfolding r(2) sent_packet_def by auto
    then show ?thesis using frames_of_self by blast
  next
    case TFlush
    then show ?thesis
      using s push_sendbuf_stepped [OF ok, of os] stepped_streamed quiet by fastforce
  next
    case TForce
    then show ?thesis
      using s push_force_loop_stepped [OF ok, of os] stepped_streamed stepped_refl [OF ok, of os] quiet
      by (fastforce simp: tcpnode_push_force_def split: if_splits)
  next
    case TTryFlush
    let ?os = "os\<lparr>ticks := ticks os + 1\<rparr>"
    have "streamed n os [] n' os'"
      using TTryFlush s push_sendbuf_stepped [OF ok, of os] push_sendbuf_stepped [OF ok, of ?os]
        stepped_streamed stepped_refl [OF ok, of ?os]
      by (fastforce simp: nd_tcpnode_tryto_flush_sendbuf_def nd_time_def split: if_splits bind_splits)
    then show ?thesis using quiet TTryFlush s by (auto split: bind_splits)
  next
    case TUpdate
    then obtain r where "tcp_node_update n os = Some (r, n', os')" "ps = []"
      using s by (auto split: bind_splits)
    with tcp_node_update_frame [OF ok cap] frames_of_alive show ?thesis by blast
  qed
qed

lemma tcp_run_frames:
  "node_ok n \<Longrightarrow> 65535 \<le> buf_capacity (send_buffer n) \<Longrightarrow> tcp_run xs n os = Some (ps, n', os') \<Longrightarrow>
   \<exists>fs. frames_of ps fs \<and> streamed n os (concat fs) n' os'"
proof (induction xs arbitrary: n os ps)
  case Nil
  then show ?case
    by (intro exI [of _ "[]"]) (simp add: frames_of_self streamed_def)
next
  case (Cons x xs)
  from Cons.prems(3) obtain p1 n1 os1 q where st: "tcp_step x n os = Some (p1, n1, os1)"
    and rn: "tcp_run xs n1 os1 = Some (q, n', os')" and ps: "ps = p1 @ q"
    by (auto split: bind_splits)
  obtain fs where fs: "frames_of p1 fs" "streamed n os (concat fs) n1 os1"
    using tcp_step_frames [OF Cons.prems(1,2) st] by blast
  then have "node_ok n1" "65535 \<le> buf_capacity (send_buffer n1)"
    using Cons.prems(2) by (simp_all add: streamed_def)
  from Cons.IH [OF this rn] obtain gs where gs: "frames_of q gs" "streamed n1 os1 (concat gs) n' os'" by blast
  show ?case
    using frames_of_append [OF fs(1) gs(1)] streamed_trans [OF fs(2) gs(2)] ps
    by (intro exI [of _ "fs @ gs"]) simp
qed

lemma tcp_run_stuck:
  "node_ok n \<Longrightarrow> 65535 \<le> buf_capacity (send_buffer n) \<Longrightarrow> tcp_run xs n os = None \<Longrightarrow>
   \<exists>ys x zs ps n1 os1. xs = ys @ x # zs \<and> tcp_run ys n os = Some (ps, n1, os1) \<and> \<not> has_room x n1"
proof (induction xs arbitrary: n os)
  case (Cons x xs)
  show ?case
  proof (cases "tcp_step x n os")
    case None
    with tcp_step_defined [OF Cons.prems(1)] have "\<not> has_room x n" by blast
    then show ?thesis by (intro exI [of _ "[]"]) auto
  next
    case (Some a)
    then obtain p1 n1 os1 where st: "tcp_step x n os = Some (p1, n1, os1)" by (cases a) auto
    then have "node_ok n1" "65535 \<le> buf_capacity (send_buffer n1)" "tcp_run xs n1 os1 = None"
      using tcp_step_frames [OF Cons.prems(1,2) st] Cons.prems(2,3) by (auto simp: streamed_def split: bind_splits)
    from Cons.IH [OF this] obtain ys y zs ps n2 os2 where y: "xs = ys @ y # zs" "tcp_run ys n1 os1 = Some (ps, n2, os2)" "\<not> has_room y n2"
      by blast
    then show ?thesis
      using st by (intro exI [of _ "x # ys"] exI [of _ y] exI [of _ zs]) auto
  qed
qed simp

section \<open>Incoming stream\<close>

fun recv_pending :: "recv_res list \<Rightarrow> byte list" where
  "recv_pending [] = []"
| "recv_pending (RecvData bs # s) = bs @ recv_pending s"
| "recv_pending (RecvErr _ # s) = recv_pending s"

definition in_stream :: "nd_tcp_node \<Rightarrow> net_os \<Rightarrow> byte list" where
  "in_stream n os = lbuf_data (recv_buffer n) @ recv_pending (recv_script os)"

text \<open>Two states of a node that differ only in what receiving changes.\<close>

definition recv_erase :: "nd_tcp_node \<Rightarrow> nd_tcp_node" where
  "recv_erase n = n\<lparr>myerrno := 0, sys_error := 0, recv_len := 0, last_recv := 0, read_again := False,
     recv_buffer := zero_linebuf\<rparr>"

definition received :: "nd_tcp_node \<Rightarrow> net_os \<Rightarrow> nd_tcp_node \<Rightarrow> net_os \<Rightarrow> bool" where
  "received n os n' os' \<longleftrightarrow> node_ok n' \<and> recv_erase n' = recv_erase n \<and>
     buf_capacity (recv_buffer n') = buf_capacity (recv_buffer n) \<and> wire_out os' = wire_out os \<and>
     in_stream n' os' = in_stream n os"

lemma received_trans: "received a o1 b o2 \<Longrightarrow> received b o2 c o3 \<Longrightarrow> received a o1 c o3"
  by (simp add: received_def)

lemma recv_erase_sel:
  "send_buffer (recv_erase n) = send_buffer n" "status (recv_erase n) = status n" "fd (recv_erase n) = fd n"
  "htype (recv_erase n) = htype n" "crypt_key (recv_erase n) = crypt_key n" "protocol (recv_erase n) = protocol n"
  "user_define_packet (recv_erase n) = user_define_packet n"
  by (simp_all add: recv_erase_def)

lemma recv_erase_same:
  assumes "recv_erase n' = recv_erase n"
  shows "send_buffer n' = send_buffer n" "status n' = status n" "fd n' = fd n" "htype n' = htype n"
    "crypt_key n' = crypt_key n" "protocol n' = protocol n" "user_define_packet n' = user_define_packet n"
  using assms by (metis recv_erase_sel)+

lemma sys_socket_read_spec:
  assumes "sys_socket_read n space os = (r, bs, n', os')"
  shows "recv_erase n' = recv_erase n \<and> recv_buffer n' = recv_buffer n \<and> send_buffer n' = send_buffer n \<and>
    wire_out os' = wire_out os \<and> length bs \<le> space \<and> bs @ recv_pending (recv_script os') = recv_pending (recv_script os) \<and>
    (r > 0 \<and> r = int (length bs) \<or> r \<le> 0 \<and> bs = [])"
proof (cases "recv_script os")
  case Nil
  with assms show ?thesis
    by (auto simp: sys_socket_read_def os_recv_def recv_erase_def Let_def split: if_splits)
next
  case (Cons a s)
  show ?thesis
  proof (cases a)
    case (RecvData xs)
    with Cons assms show ?thesis
      by (auto simp: sys_socket_read_def os_recv_def nd_time_def recv_erase_def Let_def min_def split: if_splits)
  next
    case (RecvErr e)
    with Cons assms show ?thesis
      by (auto simp: sys_socket_read_def os_recv_def recv_erase_def Let_def split: if_splits)
  qed
qed

lemma recv_store_spec:
  assumes ok: "lbuf_ok b" and room: "length bs \<le> lbuf_freespace b"
  shows "\<exists>b1 b'. lbuf_store b (lb_end b) bs = Some b1 \<and> lbuf_add_data b1 (length bs) = Some b' \<and>
    lbuf_ok b' \<and> lbuf_data b' = lbuf_data b @ bs \<and> same_frame b b'"
proof -
  have "lb_end b + length bs \<le> buf_capacity b"
    using room lbuf_freespace_eq [OF ok] lbuf_okE [OF ok] by (metis le_diff_conv2 add.commute)
  from lbuf_append_spec [OF ok this] show ?thesis
    by (auto simp: lbuf_append_def split: bind_splits)
qed

lemma nd_tcpnode_read_received:
  assumes ok: "node_ok n"
  shows "\<exists>r n' os'. nd_tcpnode_read n os = Some (r, n', os') \<and> received n os n' os' \<and>
    (r > 0 \<longrightarrow> r = int (length (lbuf_data (recv_buffer n'))))"
proof -
  let ?n = "n\<lparr>read_again := False\<rparr>"
  have okr: "lbuf_ok (recv_buffer n)" "\<not> auto_inc (recv_buffer n)" using ok by (simp_all add: node_ok_def)
  show ?thesis
  proof (cases "lbuf_freespace (recv_buffer n) = 0 \<and> int (lbuf_datalen (recv_buffer n)) > 0")
    case True
    then have "nd_tcpnode_read n os =
        Some (int (lbuf_datalen (recv_buffer n)), n\<lparr>read_again := True\<rparr>, os)"
      by (simp add: nd_tcpnode_read_def Let_def)
    then show ?thesis
      using ok okr by (simp add: received_def recv_erase_def node_ok_def in_stream_def length_lbuf_data)
  next
    case False
    obtain m b where m: "(if lbuf_freespace (recv_buffer n) = 0
          then do { b \<leftarrow> lbuf_move_ahead (recv_buffer ?n); Some (?n\<lparr>recv_buffer := b\<rparr>) } else Some ?n) = Some m"
      and mb: "m = ?n\<lparr>recv_buffer := b\<rparr>" "lbuf_ok b" "lbuf_data b = lbuf_data (recv_buffer n)"
        "same_frame (recv_buffer n) b"
    proof (cases "lbuf_freespace (recv_buffer n) = 0")
      case True
      with lbuf_move_ahead_spec [OF okr(1)] that show thesis by auto
    next
      case f: False
      show thesis by (rule that [of ?n "recv_buffer n"]) (use f okr in \<open>simp_all add: same_frame_def\<close>)
    qed
    obtain r bs n1 os1 where rd: "sys_socket_read m (lbuf_freespace b) os = (r, bs, n1, os1)"
      by (cases "sys_socket_read m (lbuf_freespace b) os") auto
    note sp = sys_socket_read_spec [OF rd]
    have er: "recv_erase n1 = recv_erase n" using sp mb by (simp add: recv_erase_def)
    have pend: "recv_pending (recv_script os) = bs @ recv_pending (recv_script os1)" using sp by simp
    have nr: "nd_tcpnode_read n os =
        (if r > 0 then do {
           b1 \<leftarrow> lbuf_store b (lb_end b) bs;
           b1 \<leftarrow> lbuf_add_data b1 (nat r);
           Some (int (lbuf_datalen b1), n1\<lparr>recv_buffer := b1, read_again := (r \<ge> int (lbuf_freespace b))\<rparr>, os1)
         } else Some (r, n1, os1))"
      using False m rd mb(1) sp by (simp add: nd_tcpnode_read_def Let_def) auto
    show ?thesis
    proof (cases "r > 0")
      case True
      with sp have r: "r = int (length bs)" "length bs \<le> lbuf_freespace b" by auto
      obtain b1 b' where b': "lbuf_store b (lb_end b) bs = Some b1" "lbuf_add_data b1 (length bs) = Some b'"
          "lbuf_ok b'" "lbuf_data b' = lbuf_data b @ bs" "same_frame b b'"
        using recv_store_spec [OF mb(2) r(2)] by blast
      have "nd_tcpnode_read n os = Some (int (lbuf_datalen b'),
          n1\<lparr>recv_buffer := b', read_again := (r \<ge> int (lbuf_freespace b))\<rparr>, os1)"
        using nr True r(1) b' by simp
      moreover have "received n os (n1\<lparr>recv_buffer := b', read_again := (r \<ge> int (lbuf_freespace b))\<rparr>) os1"
        using er b' mb ok sp recv_erase_same(1) [OF er] pend
        by (simp add: received_def node_ok_def in_stream_def same_frame_def) (simp add: recv_erase_def)
      ultimately show ?thesis using b'(3) length_lbuf_data by simp
    next
      case f: False
      with sp have "bs = []" by simp
      then have "received n os n1 os1"
        using er sp mb ok recv_erase_same(1) [OF er] pend
        by (simp add: received_def node_ok_def in_stream_def same_frame_def)
      with nr f show ?thesis by simp
    qed
  qed
qed

section \<open>Properties\<close>

definition sample_os :: "send_res list \<Rightarrow> net_os" where
  "sample_os s = \<lparr>clock = (\<lambda>i. 1000000 + of_nat i), ticks = 0, send_script = s, recv_script = [], ready_script = [],
     os_errno = 0, wire_out = [], os_malloc = (\<lambda>_. None), cb_log = [],
     stack_junk = replicate ND_PACKET_SIZE 0\<rparr>"

definition sample_buf :: "nat \<Rightarrow> byte list \<Rightarrow> nd_linebuf" where
  "sample_buf cap xs = \<lparr>auto_inc = False, is_alloced = True, buf_capacity = cap, lb_start = 0, lb_end = length xs,
     lb_buf = Some (xs @ replicate (cap - length xs) 0)\<rparr>"

definition sample_node :: "nat \<Rightarrow> byte list \<Rightarrow> nd_tcp_node" where
  "sample_node cap xs = zero_tcp_node\<lparr>htype := NDHANDLE_TCPNODE, status := ETS_CONNECTED, fd := 3,
     disconn_timeout := 2000000, send_buffer := sample_buf cap xs, recv_buffer := sample_buf cap []\<rparr>"

lemma sample_buf_ok: "0 < cap \<Longrightarrow> length xs \<le> cap \<Longrightarrow> lbuf_ok (sample_buf cap xs) \<and> lbuf_data (sample_buf cap xs) = xs"
  by (simp add: sample_buf_def lbuf_ok_def lbuf_data_def seg_def)

lemma sample_node_ok:
  assumes "0 < cap" and "length xs \<le> cap"
  shows "node_ok (sample_node cap xs)"
  using sample_buf_ok [OF assms] sample_buf_ok [OF assms(1), of "[]"]
  by (simp add: node_ok_def sample_node_def) (simp add: sample_buf_def)

definition sample_msg :: "byte list" where
  "sample_msg = hdr_bytes (nd_packet_hton (nd_hdr_init\<lparr>hlength := 6\<rparr>)) @ [1, 2]"

lemma sample_msg_hdr: "bytes_hdr sample_msg = Some (nd_packet_hton (nd_hdr_init\<lparr>hlength := 6\<rparr>))"
  "nd_net_getpack_size (nd_packet_hton (nd_hdr_init\<lparr>hlength := 6\<rparr>)) = 6" "length sample_msg = 6"
  by (simp_all add: sample_msg_def nd_net_getpack_size_def nd_packet_hton_def)

text \<open>C3. Stream integrity. For every sequence of packet sends, flushes and updates, and whatever the
  kernel does with each \<open>send\<close> call: when the sequence ends, the bytes handed to the kernel followed by the bytes
  waiting in the send buffer are the old ones followed by whole frames only, namely the complete packets of the
  sends that reported success, in order, with keep-alive packets in between. A packet is never cut, reordered or sent twice. The
  only way for a sequence not to end is an operation without room (\<open>has_room\<close>): fewer than seven bytes of the send buffer would stay free behind
  the packet it may append, or the packet is longer than the memory it was passed in.\<close>

theorem tcp_stream_integrity:
  assumes "node_ok n" and "65535 \<le> buf_capacity (send_buffer n)"
  shows "case tcp_run xs n os of
      Some (ps, n', os') \<Rightarrow> \<exists>k fs. fs \<in> shuffles ps (replicate k alive_packet_net) \<and>
        wire_out os' @ lbuf_data (send_buffer n') = wire_out os @ lbuf_data (send_buffer n) @ concat fs
    | None \<Rightarrow> \<exists>ys x zs ps n1 os1. xs = ys @ x # zs \<and> tcp_run ys n os = Some (ps, n1, os1) \<and> \<not> has_room x n1"
proof (cases "tcp_run xs n os")
  case None
  then show ?thesis using tcp_run_stuck [OF assms] by simp
next
  case (Some a)
  then obtain ps n' os' where "tcp_run xs n os = Some (ps, n', os')" by (cases a) auto
  with tcp_run_frames [OF assms this] show ?thesis
    unfolding frames_of_def streamed_def out_stream_def by auto
qed

lemma sample_run:
  "\<exists>n' os'. tcp_run [TSend sample_msg {}, TUpdate] (sample_node 65536 []) (sample_os [SendOk 6, SendOk 8]) =
      Some ([sample_msg], n', os')"
proof -
  let ?n = "sample_node 65536 []" and ?os = "sample_os [SendOk 6, SendOk 8]"
  have e: "lbuf_datalen (send_buffer ?n) = 0"
    by (simp add: sample_node_def sample_buf_def lbuf_datalen_def size_sub_def)
  have w: "sys_socket_write ?n sample_msg ?os = (6, ?n\<lparr>send_len := 6, last_push := 1000000\<rparr>,
      ?os\<lparr>send_script := [SendOk 8], wire_out := sample_msg, ticks := 1\<rparr>)"
    by (simp add: sys_socket_write_def os_send_def sample_os_def sample_msg_hdr nd_time_def)
       (simp add: sample_node_def zero_tcp_node_def)
  have "nd_tcpnode_send ?n sample_msg {} ?os = Some (6, ?n\<lparr>send_len := 6, last_push := 1000000\<rparr>,
      ?os\<lparr>send_script := [SendOk 8], wire_out := sample_msg, ticks := 1\<rparr>)"
    using w e by (simp add: nd_tcpnode_send_def sample_msg_hdr mem_read_def tcpnode_send_def tcpnode_send_with_save_def)
  moreover have "sent_packet sample_msg 6 = [sample_msg]"
    by (simp add: sent_packet_def packet_of_def sample_msg_hdr)
  moreover have "\<exists>r n' os'. tcp_node_update (?n\<lparr>send_len := 6, last_push := 1000000\<rparr>)
      (?os\<lparr>send_script := [SendOk 8], wire_out := sample_msg, ticks := 1\<rparr>) = Some (r, n', os')"
    using e by (simp add: tcp_node_update_def nd_time_def Let_def tcpnode_push_sendbuf_def sample_os_def)
       (simp add: sample_node_def zero_tcp_node_def nd_object_check_error_def)
  ultimately show ?thesis by auto
qed

theorem tcp_stream_integrity_witness:
  "\<exists>n' os' k fs. tcp_run [TSend sample_msg {}, TUpdate] (sample_node 65536 []) (sample_os [SendOk 6, SendOk 8]) =
      Some ([sample_msg], n', os') \<and> fs \<in> shuffles [sample_msg] (replicate k alive_packet_net) \<and>
      wire_out os' @ lbuf_data (send_buffer n') = concat fs"
proof -
  obtain n' os' where r: "tcp_run [TSend sample_msg {}, TUpdate] (sample_node 65536 []) (sample_os [SendOk 6, SendOk 8]) =
      Some ([sample_msg], n', os')" using sample_run by blast
  have ok: "node_ok (sample_node 65536 [])" by (rule sample_node_ok) simp_all
  have d: "lbuf_data (send_buffer (sample_node 65536 [])) = []" "buf_capacity (send_buffer (sample_node 65536 [])) = 65536"
    using sample_buf_ok [of 65536 "[]"] by (simp_all add: sample_node_def) (simp add: sample_buf_def)
  from tcp_stream_integrity [OF ok, of "[TSend sample_msg {}, TUpdate]" "sample_os [SendOk 6, SendOk 8]"] d r show ?thesis by (simp add: sample_os_def del: tcp_run.simps)
qed

text \<open>C12. A send never writes outside the send buffer when at least seven bytes beyond the stored bytes
  and the message remain free.\<close>

theorem tcp_send_in_bounds:
  assumes "node_ok n" and "length (lbuf_data (send_buffer n)) + length msg + 7 \<le> buf_capacity (send_buffer n)"
  shows "tcpnode_send n msg flag wa os \<noteq> None"
  using assms by (rule tcpnode_send_defined)

theorem tcp_send_in_bounds_witness:
  "tcpnode_send (sample_node 32 [1, 2, 3]) [4, 5] {} True (sample_os [SendOk 1]) \<noteq> None"
  using tcp_send_in_bounds [of "sample_node 32 [1, 2, 3]" "[4, 5]" "{}" True "sample_os [SendOk 1]"]
    sample_node_ok [of 32 "[1, 2, 3]"] sample_buf_ok [of 32 "[1, 2, 3]"]
  by (simp add: sample_node_def) (simp add: sample_buf_def)

text \<open>Heap overflow on the send path. When bytes wait at the front of the send buffer, the kernel
  takes one to seven of them, and the message fits the remaining capacity but not the space behind the
  stored bytes, then the send writes past the end of the buffer: \<open>_lbuf_move_ahead\<close> does not move data
  over a gap of less than eight bytes, and \<open>_lbuf_write\<close> copies as if it had.\<close>

theorem tcp_send_overflow:
  assumes ok: "node_ok n" and st: "lb_start (send_buffer n) = 0"
    and script: "send_script os = SendOk k # s" and k: "1 \<le> k" "k \<le> 7" "k < length (lbuf_data (send_buffer n))"
    and cap: "32 \<le> buf_capacity (send_buffer n)"
    and fits: "length (lbuf_data (send_buffer n)) - k + length msg \<le> buf_capacity (send_buffer n)"
    and tail: "buf_capacity (send_buffer n) < length (lbuf_data (send_buffer n)) + length msg"
    and post: "ESF_POST \<notin> flag"
  shows "tcpnode_send n msg flag wa os = None"
proof -
  let ?b = "send_buffer n" and ?d = "lbuf_data (send_buffer n)"
  let ?b' = "?b\<lparr>lb_start := k\<rparr>"
  have b: "lbuf_ok ?b" "\<not> auto_inc ?b" using ok by (simp_all add: node_ok_def)
  have len: "lb_end ?b = length ?d" "lbuf_datalen ?b = length ?d"
    using b st by (auto simp: length_lbuf_data lbuf_datalen_def lbuf_ok_def)
  have dle: "length ?d \<le> buf_capacity ?b" using b len by (auto simp: lbuf_ok_def)
  have ok': "lbuf_ok ?b'" using b len k unfolding lbuf_ok_def by auto
  have ld: "lbuf_load ?b (lb_start ?b) (lbuf_datalen ?b) = Some ?d"
    using lbuf_load_spec [OF b(1), of "length ?d"] len by simp
  have "8 \<le> buf_capacity ?b div 4" using cap by linarith
  then have sub: "lbuf_sub_data ?b k = Some ?b'"
    using st len k by (simp add: lbuf_sub_data_def lbuf_tryto_move_ahead_def lbuf_capacity_def Let_def)
  obtain n1 os1 where f: "tcpnode_flush_once n os = Some (int k, n1\<lparr>send_buffer := ?b'\<rparr>, os1)"
    using ld script k sub
    by (auto simp: tcpnode_flush_once_def sys_socket_write_def os_send_def nd_time_def Let_def min_def)
  have dl': "length (lbuf_data ?b') = length ?d - k" "lbuf_datalen ?b' = length ?d - k"
    using length_lbuf_data [OF ok'] len k by (simp_all add: lbuf_datalen_def)
  have fs: "lbuf_freespace ?b' < length msg" "length msg \<le> lbuf_free_capacity ?b'" "\<not> lbuf_movable ?b'"
    using tail fits k len dl' lbuf_freespace_eq [OF ok'] lbuf_free_capacity_eq [OF ok'] dle
    by (auto simp: lbuf_movable_def)
  have "lbuf_write (os_malloc os1) ?b' msg EBUF_SPECIFIED = None"
    using lbuf_move_append_overflow [OF ok' fs(3,1)] fs(1,2) by (simp add: lbuf_write_def Let_def)
  then have "tcpnode_push_and_send n msg wa os = None"
    using f len dl' k fs(2) by (auto simp: tcpnode_push_and_send_def sendbuf_write_def)
  then show ?thesis
    using post len k by (auto simp: tcpnode_send_def)
qed

theorem tcp_send_overflow_witness:
  "tcpnode_send (sample_node 32 (replicate 32 9)) [4, 5] {} True (sample_os [SendOk 3]) = None"
  using tcp_send_overflow [of "sample_node 32 (replicate 32 9)" "sample_os [SendOk 3]" 3 "[]" "[4, 5]" "{}" True]
    sample_node_ok [of 32 "replicate 32 9"] sample_buf_ok [of 32 "replicate 32 9"]
  by (simp add: sample_node_def sample_os_def) (simp add: sample_buf_def)

text \<open>C14. \<open>_tcpnode_push_force\<close> terminates for every behaviour of the socket, and does not change the
  outgoing stream: its loop repeats only after the kernel took at least one byte.\<close>

theorem tcpnode_push_force_terminates:
  assumes "node_ok n"
  shows "\<exists>r n' os'. tcpnode_push_force n os = Some (r, n', os') \<and> node_ok n' \<and>
    wire_out os' @ lbuf_data (send_buffer n') = wire_out os @ lbuf_data (send_buffer n)"
  using push_force_loop_stepped [OF assms, of os] assms
  by (auto simp: tcpnode_push_force_def stepped_def out_stream_def node_ok_def)

theorem tcpnode_push_force_terminates_witness:
  "\<exists>r n' os'. tcpnode_push_force (sample_node 32 [1, 2, 3]) (sample_os [SendOk 1, SendOk 1]) = Some (r, n', os') \<and>
    wire_out os' @ lbuf_data (send_buffer n') = [1, 2, 3]"
  using tcpnode_push_force_terminates [OF sample_node_ok, of 32 "[1, 2, 3]" "sample_os [SendOk 1, SendOk 1]"]
    sample_buf_ok [of 32 "[1, 2, 3]"]
  by (auto simp: sample_node_def sample_os_def)

text \<open>C13. Reading never leaves the receive buffer, and no byte of the incoming stream is lost, duplicated
  or reordered: the buffered bytes followed by the bytes still in the kernel stay the same. A positive
  result is the number of buffered bytes.\<close>

theorem nd_tcpnode_read_stream:
  assumes "node_ok n"
  shows "\<exists>r n' os'. nd_tcpnode_read n os = Some (r, n', os') \<and> node_ok n' \<and>
    lbuf_data (recv_buffer n') @ recv_pending (recv_script os') = lbuf_data (recv_buffer n) @ recv_pending (recv_script os) \<and>
    (r > 0 \<longrightarrow> r = int (length (lbuf_data (recv_buffer n'))))"
  using nd_tcpnode_read_received [OF assms, of os] unfolding received_def in_stream_def by auto

theorem nd_tcpnode_read_stream_witness:
  "\<exists>r n' os'. nd_tcpnode_read (sample_node 32 []) ((sample_os [])\<lparr>recv_script := [RecvData [1, 2], RecvData [3]]\<rparr>) = Some (r, n', os') \<and>
    lbuf_data (recv_buffer n') @ recv_pending (recv_script os') = [1, 2, 3]"
  using nd_tcpnode_read_stream [OF sample_node_ok, of 32 "[]" "(sample_os [])\<lparr>recv_script := [RecvData [1, 2], RecvData [3]]\<rparr>"]
    sample_buf_ok [of 32 "[]"]
  by (auto simp: sample_node_def)

lemma nd_tcpnode_send_last_recv:
  assumes "node_ok n" and "nd_tcpnode_send n p flag os = Some (r, n', os')"
  shows "last_recv n' = last_recv n \<and> disconn_timeout n' = disconn_timeout n"
proof -
  obtain m f n1 where t: "tcpnode_send n m f True os = Some (r, n1, os')"
    and n': "n' = n1 \<or> n' = n1\<lparr>myerrno := NDERR_WRITE, status := ETS_RESET\<rparr>"
    using assms(2) by (auto simp: nd_tcpnode_send_def split: bind_splits if_splits)
  have "same_node n n1"
    using tcpnode_send_result [OF assms(1) t] by (auto simp: send_result_def stepped_def)
  from same_node_sel [OF this] n' show ?thesis by auto
qed

text \<open>C15. A connection from which nothing was received for longer than its disconnect timeout is
  reported dead: the update returns \<open>-1\<close> with \<open>NDERR_TIMEOUT\<close>, after which the connection is not
  valid any more.\<close>

theorem tcp_node_update_timeout:
  assumes ok: "node_ok n" and valid: "fd n \<noteq> 0" "nd_object_check_error n = 0" "status n = ETS_CONNECTED"
    and room: "length (lbuf_data (send_buffer n)) + 15 \<le> buf_capacity (send_buffer n)"
    and late: "clock os (ticks os) - last_recv n > disconn_timeout n"
  shows "\<exists>n' os'. tcp_node_update n os = Some (-1, n', os') \<and> myerrno n' = NDERR_TIMEOUT \<and> \<not> nd_connector_valid n'"
proof -
  let ?os = "os\<lparr>ticks := ticks os + 1\<rparr>"
  obtain r1 n1 os1 where p: "tcpnode_push_sendbuf n ?os = Some (r1, n1, os1)" and st: "stepped n ?os [] n1 os1"
    and d: "length (lbuf_data (send_buffer n1)) \<le> length (lbuf_data (send_buffer n))"
    using push_sendbuf_stepped [OF ok, of ?os] by blast
  have ok1: "node_ok n1" and sel: "last_recv n1 = last_recv n" "disconn_timeout n1 = disconn_timeout n"
    and c: "buf_capacity (send_buffer n1) = buf_capacity (send_buffer n)"
    using st same_node_sel [of n n1] by (simp_all add: stepped_def)
  obtain h where h: "bytes_hdr alive_packet_net = Some h" "nd_net_getpack_size h = 8"
    using alive_packet_hdr by blast
  then have m: "mem_read alive_packet_net 0 (nd_net_getpack_size h) = Some alive_packet_net"
    by (simp add: mem_read_def)
  obtain r2 n2 os2 where s: "nd_tcpnode_send n1 alive_packet_net {ESF_URGENCY} os1 = Some (r2, n2, os2)"
    using nd_tcpnode_send_defined [OF ok1 h(1) m, of "{ESF_URGENCY}" os1] room d c by auto
  have invalid: "\<not> nd_connector_valid m" if "myerrno m = NDERR_TIMEOUT" for m
    using that by (simp add: nd_connector_valid_def nd_object_check_error_def)
  have "\<exists>n' os'. tcp_node_update n os = Some (-1, n', os') \<and> myerrno n' = NDERR_TIMEOUT"
    using p s valid late sel nd_tcpnode_send_last_recv [OF ok1 s]
    by (simp add: tcp_node_update_def nd_time_def Let_def)
  then show ?thesis using invalid by blast
qed

theorem tcp_node_update_timeout_witness:
  "\<exists>n' os'. tcp_node_update ((sample_node 64 [])\<lparr>disconn_timeout := 500\<rparr>) (sample_os []) = Some (-1, n', os') \<and>
    myerrno n' = NDERR_TIMEOUT \<and> \<not> nd_connector_valid n'"
proof -
  let ?n = "(sample_node 64 [])\<lparr>disconn_timeout := 500\<rparr>"
  have "node_ok ?n" using sample_node_ok [of 64 "[]"] by (simp add: node_ok_def)
  moreover have "lbuf_data (send_buffer ?n) = []" "buf_capacity (send_buffer ?n) = 64"
    using sample_buf_ok [of 64 "[]"] by (simp_all add: sample_node_def) (simp add: sample_buf_def)
  moreover have "fd ?n \<noteq> 0" "nd_object_check_error ?n = 0" "status ?n = ETS_CONNECTED"
      "clock (sample_os []) (ticks (sample_os [])) - last_recv ?n > disconn_timeout ?n"
    by (simp_all add: sample_node_def zero_tcp_node_def sample_os_def nd_object_check_error_def)
  ultimately show ?thesis using tcp_node_update_timeout [of ?n "sample_os []"] by simp
qed

end
