(* ===== verification/Net_Connector.thy ===== *)
theory Net_Connector
  imports Tcp
begin

text \<open>
  The connection interface of \<^verbatim>\<open>src/nd_net/src/nd_netui.c\<close> and \<^verbatim>\<open>src/nd_net/src/nd_netobj.c\<close>
  for TCP nodes: sending a packet (with optional encryption), fetching packets from the receive buffer,
  the reserved system messages, the receive loop that feeds packets to the message handler, waiting for
  a message, and the connection's options and key. Saving streams to log files is left out (it has no
  effect on the connection) except for what it does to the packet header.
\<close>

record net_globals =
  min_packet_len :: int
  crypt_cfg :: net_crypt

definition nd_net_set_packet_minsize :: "net_globals \<Rightarrow> int \<Rightarrow> int \<times> net_globals" where
  "nd_net_set_packet_minsize g minsize = (min_packet_len g, g\<lparr>min_packet_len := minsize\<rparr>)"

section \<open>Keys and options\<close>

definition nd_connector_set_crypt :: "nd_tcp_node \<Rightarrow> byte list option \<Rightarrow> int \<Rightarrow> nd_tcp_node option" where
  "nd_connector_set_crypt n k sz =
     (if htype n = NDHANDLE_TCPNODE \<or> htype n = NDHANDLE_UDPNODE then
        (case k of
           Some bs \<Rightarrow>
             if sz > 0 \<and> sz \<le> int CRYPT_KEK_SIZE then do {
               src \<leftarrow> mem_read bs 0 (nat sz);
               dst \<leftarrow> mem_write (key (crypt_key n)) 0 src;
               Some (n\<lparr>crypt_key := \<lparr>key_size = sz, key = dst\<rparr>\<rparr>)
             }
             else if sz = 0 then Some (n\<lparr>crypt_key := (crypt_key n)\<lparr>key_size := 0\<rparr>\<rparr>)
             else Some n
         | None \<Rightarrow> Some (n\<lparr>crypt_key := (crypt_key n)\<lparr>key_size := 0\<rparr>\<rparr>))
      else Some n)"

definition nd_connector_get_crypt :: "nd_tcp_node \<Rightarrow> int \<times> byte list option" where
  "nd_connector_get_crypt n =
     (if key_size (crypt_key n) \<noteq> 0 then (key_size (crypt_key n), Some (key (crypt_key n))) else (0, None))"

definition nd_connector_check_crypt :: "nd_tcp_node \<Rightarrow> bool" where
  "nd_connector_check_crypt n \<longleftrightarrow>
     (if htype n = NDHANDLE_TCPNODE \<or> htype n = NDHANDLE_UDPNODE then key_size (crypt_key n) \<noteq> 0 else False)"

definition nd_connector_sendlen :: "nd_tcp_node \<Rightarrow> nat" where
  "nd_connector_sendlen n = lbuf_freespace (send_buffer n)"

definition nd_connector_data_in_window :: "nd_tcp_node \<Rightarrow> nat" where
  "nd_connector_data_in_window n = lbuf_datalen (send_buffer n)"

definition nd_connector_set_timeout :: "nd_tcp_node \<Rightarrow> u32 \<Rightarrow> u32 \<times> nd_tcp_node" where
  "nd_connector_set_timeout n seconds = (disconn_timeout n, n\<lparr>disconn_timeout := seconds * 1000\<rparr>)"

definition nd_net_set_unregmsg_handler :: "nd_tcp_node \<Rightarrow> bool \<Rightarrow> nd_tcp_node" where
  "nd_net_set_unregmsg_handler n isclosed = n\<lparr>unreg_msg_close := isclosed\<rparr>"

definition nd_net_set_unauthorize_handler :: "nd_tcp_node \<Rightarrow> bool \<Rightarrow> nd_tcp_node" where
  "nd_net_set_unauthorize_handler n isclosed = n\<lparr>error_privilage_close := isclosed\<rparr>"

section \<open>Sending a packet\<close>

definition tcp_connector_send :: "nd_tcp_node \<Rightarrow> byte list \<Rightarrow> send_flags \<Rightarrow> net_os \<Rightarrow> int net" where
  "tcp_connector_send n msg flag os =
     (if status n \<noteq> ETS_CONNECTED then Some (-1, n\<lparr>myerrno := NDERR_BADSOCKET\<rparr>, os)
      else nd_tcpnode_send (n\<lparr>myerrno := NDERR_SUCCESS\<rparr>) msg flag os)"

definition do_packet_write :: "nd_tcp_node \<Rightarrow> byte list \<Rightarrow> send_flags \<Rightarrow> net_os \<Rightarrow> int net" where
  "do_packet_write n msg flag os = (case packet_write n of
     PW_tcpnode_send \<Rightarrow> nd_tcpnode_send n msg flag os
   | PW_tcp_connector_send \<Rightarrow> tcp_connector_send n msg flag os)"

definition nd_packet_encrypt :: "net_globals \<Rightarrow> nd_tcp_node \<Rightarrow> nd_packetbuf \<Rightarrow> (int \<times> nd_packetbuf) option" where
  "nd_packet_encrypt g n p = nd_packet_encrypt_key (crypt_cfg g) (crypt_key n) p"

definition nd_packet_decrypt :: "net_globals \<Rightarrow> nd_tcp_node \<Rightarrow> nd_packetbuf \<Rightarrow> (int \<times> nd_packetbuf) option" where
  "nd_packet_decrypt g n p = nd_packet_decrypt_key (crypt_cfg g) (crypt_key n) p"

text \<open>\<open>memcpy(&crypt_buf, msg_buf, nd_pack_len(msg_buf))\<close>: the local packet has the message's bytes in
  front of whatever was on the stack.\<close>

definition copy_packet :: "nd_packetbuf \<Rightarrow> net_os \<Rightarrow> nd_packetbuf option" where
  "copy_packet p os = do {
     src \<leftarrow> mem_read (pkt_bytes p) 0 (unat (hlength (hdr p)));
     dst \<leftarrow> mem_write (stack_junk os) 0 src;
     pkt_of_bytes dst
   }"

definition nd_connector_send ::
  "net_globals \<Rightarrow> nd_tcp_node \<Rightarrow> nd_packetbuf \<Rightarrow> send_flags \<Rightarrow> net_os \<Rightarrow> (int \<times> nd_packetbuf) net" where
  "nd_connector_send g n p flag os =
     (if \<not> nd_connector_valid n then Some ((-1, p), n, os)
      else let (e, n) = nd_tryto_clear_err n in
      if e \<noteq> 0 then Some ((-1, p), n, os)
      else do {
        let p = (if \<not> ndsys_msg (hdr p) \<and> save_send_stream n \<and> ESF_ENCRYPT \<in> flag
                 then p\<lparr>hdr := (hdr p)\<lparr>encrypt := False\<rparr>\<rparr> else p);
        let p = p\<lparr>hdr := (hdr p)\<lparr>version := NDNETMSG_VERSION\<rparr>\<rparr>;
        let n = n\<lparr>send_pack_times := send_pack_times n + 1\<rparr>;
        if ESF_ENCRYPT \<in> flag \<and> \<not> encrypt (hdr p) then do {
          crypt_buf \<leftarrow> copy_packet p os;
          (_, crypt_buf) \<leftarrow> nd_packet_encrypt g n crypt_buf;
          let crypt_buf = crypt_buf\<lparr>hdr := nd_packet_hton (hdr crypt_buf)\<rparr>;
          (ret, n, os) \<leftarrow> do_packet_write n (pkt_bytes crypt_buf) flag os;
          Some ((ret, p), n, os)
        } else do {
          let q = p\<lparr>hdr := nd_packet_hton (hdr p)\<rparr>;
          (ret, n, os) \<leftarrow> do_packet_write n (pkt_bytes q) flag os;
          Some ((ret, q\<lparr>hdr := nd_packet_ntoh (hdr q)\<rparr>), n, os)
        }
      })"

definition nd_connector_send_stream :: "nd_tcp_node \<Rightarrow> byte list \<Rightarrow> send_flags \<Rightarrow> net_os \<Rightarrow> int net" where
  "nd_connector_send_stream n bs flag os =
     (if \<not> nd_connector_valid n then Some (-1, n, os)
      else let (e, n) = nd_tryto_clear_err n in
      if e \<noteq> 0 then Some (-1, n, os) else nd_tcpnode_stream_send n bs flag os)"

definition nd_connector_raw_write :: "nd_tcp_node \<Rightarrow> byte list \<Rightarrow> net_os \<Rightarrow> int \<times> nd_tcp_node \<times> net_os" where
  "nd_connector_raw_write n bs os = sys_socket_write n bs os"

definition nd_netobj_write :: "nd_tcp_node \<Rightarrow> byte list \<Rightarrow> net_os \<Rightarrow> int \<times> nd_tcp_node \<times> net_os" where
  "nd_netobj_write n bs os =
     (let (ret, n, os) = sys_socket_write n bs os in
      if ret > 0 then
        let (t, os) = nd_time os in (ret, n\<lparr>send_len := send_len n + nat ret, last_push := t\<rparr>, os)
      else if ret = -1 then
        let n = n\<lparr>sys_error := os_errno os\<rparr>
        in (ret, n\<lparr>myerrno := if sys_error n = ESOCKETTIMEOUT then NDERR_WOULD_BLOCK else NDERR_IO\<rparr>, os)
      else (ret, n\<lparr>myerrno := NDERR_WOULD_BLOCK\<rparr>, os))"

section \<open>System messages\<close>

text \<open>\<open>nd_net_sysmsg_hander\<close> works in place on the packet at offset \<open>off\<close> of a block \<open>mem\<close> (the receive
  buffer, or the packet buffer of the receive loop). It reads and writes the whole structure of eight
  bytes, whatever length the packet has.\<close>

definition sysmsg_check :: "byte list \<Rightarrow> nat \<Rightarrow> (bool \<times> nd_packhdr \<times> u16 \<times> byte list) option" where
  "sysmsg_check mem off = do {
     bs \<leftarrow> mem_read mem off SYSRESV_PACK_SIZE;
     h \<leftarrow> bytes_hdr bs;
     let h = nd_packet_ntoh h;
     let cksum = u16_of_le (bs ! 6) (bs ! 7);
     let mid = u16_of_le (bs ! 4) (bs ! 5);
     mem \<leftarrow> mem_write mem off (hdr_bytes h @ [bs ! 4, bs ! 5, 0, 0]);
     blk \<leftarrow> mem_read mem off (unat (hlength h));
     let calc = nd_checksum blk;
     mem \<leftarrow> mem_write mem (off + 6) (le_of_u16 calc);
     Some (cksum = calc, h, mid, mem)
   }"

definition alive_packet :: nd_packetbuf where
  "alive_packet = \<lparr>hdr = rhdr nd_make_alive_pack,
     data = le_of_u16 (msgid nd_make_alive_pack) @ le_of_u16 (checksum nd_make_alive_pack)\<rparr>"

definition nd_net_sysmsg_hander ::
  "net_globals \<Rightarrow> nd_tcp_node \<Rightarrow> byte list \<Rightarrow> nat \<Rightarrow> net_os \<Rightarrow> (int \<times> byte list) net" where
  "nd_net_sysmsg_hander g n mem off os = do {
     (good, h, mid, mem) \<leftarrow> sysmsg_check mem off;
     if \<not> good then Some ((-1, mem), n\<lparr>myerrno := NDERR_BADPACKET\<rparr>, os)
     else if mid = ERSV_ALIVE_ID then
       (if hlength h \<noteq> of_nat SYSRESV_PACK_SIZE \<or> stuff_len h \<noteq> 5
        then Some ((-1, mem), n\<lparr>myerrno := NDERR_BADPACKET\<rparr>, os)
        else do {
          (_, n, os) \<leftarrow> nd_connector_send g n alive_packet {ESF_URGENCY} os;
          Some ((0, mem), n, os)
        })
     else if mid = ERSV_VERSION_ERROR then Some ((-1, mem), n\<lparr>myerrno := NDERR_VERSION\<rparr>, os)
     else Some ((0, mem), n, os)
   }"

section \<open>Fetching a packet\<close>

text \<open>A step of the \<open>RE_FETCH\<close> loop either finishes with a result and the caller's packet, or has handled
  a system message and goes on. \<open>msgbuf = None\<close> is a null pointer.\<close>

datatype fetch_step = FDone int "nd_packetbuf option" | FAgain

definition packet_read :: "nd_packetbuf \<Rightarrow> byte list \<Rightarrow> nd_packetbuf option" where
  "packet_read p bs = do { m \<leftarrow> mem_write (pkt_bytes p) 0 bs; pkt_of_bytes m }"

definition fetch_once ::
  "net_globals \<Rightarrow> nd_tcp_node \<Rightarrow> nd_packetbuf option \<Rightarrow> net_os \<Rightarrow> fetch_step net" where
  "fetch_once g n msgbuf os =
     (let b = recv_buffer n; data_len = lbuf_datalen b in
      if data_len < ND_PACKET_HDR_SIZE then Some (FDone 0 msgbuf, n, os)
      else do {
        hb \<leftarrow> lbuf_load b (lb_start b) 4;
        tmp_hdr \<leftarrow> bytes_hdr hb;
        let valid_len = nd_net_getpack_size tmp_hdr;
        if valid_len > ND_PACKET_SIZE \<or> int valid_len < min_packet_len g
        then Some (FDone (-1) msgbuf, n\<lparr>myerrno := NDERR_BADPACKET\<rparr>, os)
        else if valid_len > data_len then Some (FDone 0 msgbuf, n, os)
        else if user_define_packet n then do {
          let n = n\<lparr>recv_pack_times := recv_pack_times n + 1\<rparr>;
          (_, bs, b) \<leftarrow> lbuf_read b valid_len EBUF_SPECIFIED;
          p \<leftarrow> msgbuf;
          p \<leftarrow> packet_read p bs;
          Some (FDone (int valid_len) (Some p), n\<lparr>recv_buffer := b\<rparr>, os)
        }
        else if ndsys_msg tmp_hdr then do {
          mem \<leftarrow> lb_buf b;
          ((r, mem), n, os) \<leftarrow> nd_net_sysmsg_hander g n mem (lb_start b) os;
          let n = n\<lparr>recv_buffer := (recv_buffer n)\<lparr>lb_buf := Some mem\<rparr>\<rparr>;
          if r = -1 then Some (FDone (-1) msgbuf, n, os)
          else do {
            b \<leftarrow> lbuf_sub_data (recv_buffer n) valid_len;
            Some (FAgain, n\<lparr>recv_buffer := b\<rparr>, os)
          }
        }
        else (case msgbuf of
          None \<Rightarrow> Some (FDone (int valid_len) None, n\<lparr>recv_pack_times := recv_pack_times n + 1\<rparr>, os)
        | Some p \<Rightarrow> do {
            (_, bs, b) \<leftarrow> lbuf_read b valid_len EBUF_SPECIFIED;
            let n = n\<lparr>recv_buffer := b\<rparr>;
            p \<leftarrow> packet_read p bs;
            let p = p\<lparr>hdr := nd_packet_ntoh (hdr p)\<rparr>;
            if encrypt (hdr p) then do {
              (new_len, p) \<leftarrow> nd_packet_decrypt g n p;
              if new_len = 0 then Some (FDone (-1) (Some p), n\<lparr>myerrno := NDERR_BADPACKET\<rparr>, os)
              else Some (FDone new_len (Some (p\<lparr>hdr := nd_set_pack_len (hdr p) (word_of_int new_len)\<rparr>)),
                     n\<lparr>is_crypt_packet := True, recv_pack_times := recv_pack_times n + 1\<rparr>, os)
            }
            else Some (FDone (int valid_len) (Some p),
                   n\<lparr>is_crypt_packet := False, recv_pack_times := recv_pack_times n + 1\<rparr>, os)
          })
      })"

partial_function (option) fetch_loop ::
  "net_globals \<Rightarrow> nd_tcp_node \<Rightarrow> nd_packetbuf option \<Rightarrow> net_os \<Rightarrow> (int \<times> nd_packetbuf option) net" where
  "fetch_loop g n msgbuf os = do {
     (st, n, os) \<leftarrow> fetch_once g n msgbuf os;
     (case st of
        FDone r p \<Rightarrow> Some ((r, p), n, os)
      | FAgain \<Rightarrow> fetch_loop g n msgbuf os)
   }"

text \<open>\<open>nd_net_fetch_msg\<close> is \<open>__net_fetch_msg\<close> with logging; when it saves an encrypted packet it clears
  the \<open>encrypt\<close> bit again.\<close>

definition nd_net_fetch_msg ::
  "net_globals \<Rightarrow> nd_tcp_node \<Rightarrow> nd_packetbuf option \<Rightarrow> net_os \<Rightarrow> (int \<times> nd_packetbuf option) net" where
  "nd_net_fetch_msg g n msgbuf os =
     (if \<not> nd_connector_valid n then Some ((-1, msgbuf), n, os)
      else do {
        ((r, p), n, os) \<leftarrow> fetch_loop g n msgbuf os;
        let p = (if r > 0 \<and> is_log_recv n \<and> save_recv_stream n \<and> is_crypt_packet n
                 then map_option (\<lambda>p. p\<lparr>hdr := (hdr p)\<lparr>encrypt := False\<rparr>\<rparr>) p else p);
        Some ((r, p), n, os)
      })"

section \<open>The receive loop\<close>

text \<open>\<open>data_entry\<close> is the packet handler installed on the node (by default \<open>nd_dft_packet_handler\<close>); it
  gets the bytes of the packet and may change the node. \<open>pack_buf\<close> is the thread's packet buffer.\<close>

type_synonym data_in_entry = "nd_tcp_node \<Rightarrow> byte list \<Rightarrow> net_os \<Rightarrow> int net"

definition pack_buf_init :: "nd_packetbuf \<Rightarrow> nd_packetbuf" where
  "pack_buf_init p = p\<lparr>hdr := nd_hdr_init\<rparr>"

partial_function (option) recv_data_loop ::
  "net_globals \<Rightarrow> data_in_entry \<Rightarrow> nd_tcp_node \<Rightarrow> nd_packetbuf \<Rightarrow> int \<Rightarrow> net_os \<Rightarrow> int net" where
  "recv_data_loop g entry n pack_buf ret os = do {
     ((read_len, p), n, os) \<leftarrow> nd_net_fetch_msg g n (Some pack_buf) os;
     pack_buf \<leftarrow> p;
     if read_len > 0 then
       (if read_len \<noteq> uint (hlength (hdr pack_buf)) then Some (-1, n, os)
        else do {
          (r, n, os) \<leftarrow> entry n (take (nat read_len) (pkt_bytes pack_buf)) os;
          if r = -1 then Some (-1, n, os)
          else if myerrno n = NDERR_USER_BREAK
          then Some (ret + r, n\<lparr>myerrno := NDERR_SUCCESS\<rparr>, os)
          else recv_data_loop g entry n (pack_buf_init pack_buf) (ret + r) os
        })
     else Some (if read_len = -1 then -1 else ret, n, os)
   }"

definition handle_recv_data ::
  "net_globals \<Rightarrow> data_in_entry \<Rightarrow> nd_tcp_node \<Rightarrow> nd_packetbuf \<Rightarrow> net_os \<Rightarrow> int net" where
  "handle_recv_data g entry n pack_buf os =
     (let (e, n) = nd_tryto_clear_err n in
      if e \<noteq> 0 then Some (-1, n, os)
      else if lbuf_datalen (recv_buffer n) = 0 then do {
        b \<leftarrow> lbuf_reset (recv_buffer n);
        Some (0, n\<lparr>recv_buffer := b\<rparr>, os)
      }
      else if user_def_data_hook n then do {
        bs \<leftarrow> lbuf_load (recv_buffer n) (lb_start (recv_buffer n)) (lbuf_datalen (recv_buffer n));
        (ret, n, os) \<leftarrow> entry n bs os;
        if ret > 0 then do {
          b \<leftarrow> lbuf_sub_data (recv_buffer n) (nat ret);
          Some (ret, n\<lparr>recv_buffer := b\<rparr>, os)
        } else Some (ret, n, os)
      }
      else recv_data_loop g entry n (pack_buf_init pack_buf) 0 os)"

definition nd_connector_handled_data :: "nd_tcp_node \<Rightarrow> nat \<Rightarrow> nd_tcp_node option" where
  "nd_connector_handled_data n sz = do {
     b \<leftarrow> lbuf_sub_data (recv_buffer n) sz;
     Some (n\<lparr>recv_buffer := b\<rparr>)
   }"

partial_function (option) connector_update_loop ::
  "net_globals \<Rightarrow> data_in_entry \<Rightarrow> nd_packetbuf \<Rightarrow> nd_tcp_node \<Rightarrow> ndtime_t \<Rightarrow> int \<Rightarrow> net_os \<Rightarrow> int net" where
  "connector_update_loop g entry pack_buf n timeout ret os = do {
     (read_len, n, os) \<leftarrow> tcpnode_wait_msg n timeout os;
     if read_len = -1 then Some (-1, n, os)
     else if read_len = 0 then do {
       (u, n, os) \<leftarrow> tcp_node_update n os;
       Some (if u = -1 then -1 else ret, n, os)
     }
     else do {
       let ret = ret + read_len;
       (h, n, os) \<leftarrow> handle_recv_data g entry n pack_buf os;
       if h = -1 then Some (-1, n, os)
       else if read_again n then connector_update_loop g entry pack_buf n timeout ret os
       else do {
         (_, n, os) \<leftarrow> tcp_node_update n os;
         Some (ret, n, os)
       }
     }
   }"

definition nd_connector_update ::
  "net_globals \<Rightarrow> data_in_entry \<Rightarrow> nd_packetbuf \<Rightarrow> nd_tcp_node \<Rightarrow> ndtime_t \<Rightarrow> net_os \<Rightarrow> int net" where
  "nd_connector_update g entry pack_buf n timeout os =
     (if \<not> nd_connector_valid n then Some (-1, n, os)
      else let (e, n) = nd_tryto_clear_err n in
      if e \<noteq> 0 then Some (-1, n, os)
      else connector_update_loop g entry pack_buf n timeout 0 os)"

section \<open>Packet dispatch and waiting\<close>

text \<open>\<open>msg_entry\<close> is the node's message function (by default \<open>nd_translate_message\<close>).\<close>

type_synonym net_msg_entry = "nd_tcp_node \<Rightarrow> byte list \<Rightarrow> net_os \<Rightarrow> int net"

definition packet_handler :: "net_globals \<Rightarrow> net_msg_entry \<Rightarrow> nd_tcp_node \<Rightarrow> byte list \<Rightarrow> net_os \<Rightarrow> int net" where
  "packet_handler g msg_entry n msg os = do {
     h \<leftarrow> bytes_hdr msg;
     if ndsys_msg h then do {
       ((r, _), n, os) \<leftarrow> nd_net_sysmsg_hander g n msg 0 os;
       Some (if r = -1 then -1 else uint (hlength h), n, os)
     } else msg_entry n msg os
   }"

definition nd_dft_packet_handler :: "net_globals \<Rightarrow> net_msg_entry \<Rightarrow> data_in_entry" where
  "nd_dft_packet_handler g msg_entry n bs os =
     (if bs = [] then Some (0, n, os) else packet_handler g msg_entry n bs os)"

text \<open>The \<open>TCP_REWAIT\<close> loop: slices of at most 1000 ms until a message, an error or the timeout, which
  is compared as a signed number.\<close>

partial_function (option) waitmsg_loop ::
  "net_globals \<Rightarrow> nd_tcp_node \<Rightarrow> nd_packetbuf \<Rightarrow> ndtime_t \<Rightarrow> net_os \<Rightarrow> (int \<times> nd_packetbuf option) net" where
  "waitmsg_loop g n p tmout os = do {
     let waittime = (if tmout > 1000 then 1000 else tmout);
     (ret, n, os) \<leftarrow> tcpnode_wait_msg n waittime os;
     if ret \<le> 0 then
       (if myerrno n = NDERR_WOULD_BLOCK then do {
          (u, n, os) \<leftarrow> tcp_node_update n os;
          if u = -1 then Some ((-1, Some p), n, os)
          else do {
            let tmout = tmout - waittime;
            if 0 < sint tmout then waitmsg_loop g n p tmout os else Some ((ret, Some p), n, os)
          }
        } else Some ((ret, Some p), n, os))
     else nd_net_fetch_msg g n (Some p) os
   }"

definition nd_connector_waitmsg ::
  "net_globals \<Rightarrow> nd_tcp_node \<Rightarrow> nd_packetbuf \<Rightarrow> ndtime_t \<Rightarrow> net_os \<Rightarrow> (int \<times> nd_packetbuf option) net" where
  "nd_connector_waitmsg g n p tmout os =
     (if \<not> nd_connector_valid n then Some ((-1, Some p), n, os)
      else let (e, n) = nd_tryto_clear_err n in
      if e \<noteq> 0 then Some ((-1, Some p), n, os)
      else do {
        ((ret, q), n, os) \<leftarrow> nd_net_fetch_msg g n (Some p) os;
        if ret > 0 then Some ((ret, q), n, os)
        else do { q \<leftarrow> q; waitmsg_loop g n q tmout os }
      })"

definition nd_connector_raw_waitdata ::
  "nd_tcp_node \<Rightarrow> nat \<Rightarrow> ndtime_t \<Rightarrow> net_os \<Rightarrow> int \<times> byte list \<times> nd_tcp_node \<times> net_os" where
  "nd_connector_raw_waitdata n sz timeout os =
     (if \<not> nd_connector_valid n then (-1, [], n, os)
      else let (e, n) = nd_tryto_clear_err n in
      if e \<noteq> 0 then (-1, [], n, os)
      else
        let (w, n, os) = (if timeout \<noteq> 0 then wait_read_msg n os else (1, n, os)) in
        if w \<le> 0 then (-1, [], n, os)
        else
          let (ret, bs, n, os) = sys_socket_read n sz os in
          if ret = -1 then
            (ret, bs, n\<lparr>myerrno := if os_errno os = ESOCKETTIMEOUT then NDERR_WOULD_BLOCK else NDERR_BADSOCKET\<rparr>, os)
          else (ret, bs, n, os))"

section \<open>Opening and closing\<close>

definition nd_connect_level_set :: "nd_tcp_node \<Rightarrow> u32 \<Rightarrow> nd_tcp_node" where
  "nd_connect_level_set n l = n\<lparr>level := ucast l\<rparr>"

definition nd_connector_reset :: "nd_tcp_node \<Rightarrow> net_os \<Rightarrow> (nd_tcp_node \<times> net_os) option" where
  "nd_connector_reset n os = nd_tcpnode_reset n os"

definition nd_connector_open :: "nd_tcp_node \<Rightarrow> int \<Rightarrow> bool \<Rightarrow> net_os \<Rightarrow> int net" where
  "nd_connector_open n sock v6 os = do {
     (n, os) \<leftarrow> nd_connector_reset n os;
     (ret, n, os) \<leftarrow> nd_tcpnode_connect n sock v6 os;
     if ret = -1 then Some (ret, n\<lparr>myerrno := NDERR_OPENFILE\<rparr>, os)
     else Some (ret, (nd_connect_level_set n 1)\<lparr>packet_write := PW_tcp_connector_send\<rparr>, os)
   }"

text \<open>Closing tells the packet handler with an empty block (which the default handler ignores), closes
  the socket and runs the close callbacks (type 1).\<close>

definition nd_connector_close :: "data_in_entry \<Rightarrow> nd_tcp_node \<Rightarrow> net_os \<Rightarrow> int net" where
  "nd_connector_close entry n os = do {
     let n = nd_connect_level_set n 0;
     if status n \<noteq> ETS_DEAD then do {
       (_, n, os) \<leftarrow> entry n [] os;
       let (n, os) = nd_object_on_destroy (nd_tcpnode_close n) 1 os;
       Some (0, n, os)
     } else Some (0, n, os)
   }"

definition nd_reconnectex :: "data_in_entry \<Rightarrow> nd_tcp_node \<Rightarrow> int \<Rightarrow> bool \<Rightarrow> net_os \<Rightarrow> int net" where
  "nd_reconnectex entry n sock v6 os = do {
     let starttime = start_time n;
     (_, n, os) \<leftarrow> nd_connector_close entry n os;
     (ret, n, os) \<leftarrow> nd_connector_open n sock v6 os;
     if ret = 0 then Some (ret, nd_object_seterror (n\<lparr>start_time := starttime\<rparr>) 0, os)
     else Some (ret, n, os)
   }"

section \<open>Lemmas on sending\<close>

lemma valid_clear_err: "nd_connector_valid n \<Longrightarrow> nd_tryto_clear_err n = (0, n\<lparr>myerrno := 0\<rparr>)"
  by (auto simp: nd_connector_valid_def nd_object_check_error_def nd_tryto_clear_err_def split: if_splits)

lemma node_ok_upd [simp]:
  "node_ok (n\<lparr>myerrno := e\<rparr>) = node_ok n" "node_ok (n\<lparr>send_pack_times := t\<rparr>) = node_ok n"
  "node_ok (n\<lparr>recv_pack_times := t\<rparr>) = node_ok n" "node_ok (n\<lparr>is_crypt_packet := c\<rparr>) = node_ok n"
  "node_ok (n\<lparr>crypt_key := k\<rparr>) = node_ok n"
  by (simp_all add: node_ok_def)

lemma streamed_from_upd [simp]:
  "streamed (n\<lparr>myerrno := e\<rparr>) os xs n' os' = streamed n os xs n' os'"
  "streamed (n\<lparr>send_pack_times := t\<rparr>) os xs n' os' = streamed n os xs n' os'"
  by (simp_all add: streamed_def out_stream_def)

lemma nd_tcpnode_send_recv:
  assumes "node_ok n" and "nd_tcpnode_send n p flag os = Some (r, n', os')"
  shows "recv_buffer n' = recv_buffer n \<and> user_define_packet n' = user_define_packet n"
proof -
  obtain m f n1 where t: "tcpnode_send n m f True os = Some (r, n1, os')"
    and n': "n' = n1 \<or> n' = n1\<lparr>myerrno := NDERR_WRITE, status := ETS_RESET\<rparr>"
    using assms(2) by (auto simp: nd_tcpnode_send_def split: bind_splits if_splits)
  have "same_node n n1"
    using tcpnode_send_result [OF assms(1) t] by (auto simp: send_result_def stepped_def)
  from same_node_sel [OF this] n' show ?thesis by auto
qed

lemma do_packet_write_cases:
  assumes "do_packet_write n m flag os = Some (r, n', os')"
  obtains e where "nd_tcpnode_send (n\<lparr>myerrno := e\<rparr>) m flag os = Some (r, n', os')"
  | "r = -1" "n' = n\<lparr>myerrno := NDERR_BADSOCKET\<rparr>" "os' = os"
proof (cases "packet_write n")
  case PW_tcpnode_send
  have "n\<lparr>myerrno := myerrno n\<rparr> = n" by simp
  with PW_tcpnode_send assms that(1) [of "myerrno n"] show ?thesis by (simp add: do_packet_write_def)
next
  case PW_tcp_connector_send
  then have w: "tcp_connector_send n m flag os = Some (r, n', os')"
    using assms by (simp add: do_packet_write_def)
  show ?thesis
  proof (cases "status n = ETS_CONNECTED")
    case True
    with w have "nd_tcpnode_send (n\<lparr>myerrno := NDERR_SUCCESS\<rparr>) m flag os = Some (r, n', os')"
      by (simp add: tcp_connector_send_def)
    then show ?thesis by (rule that(1))
  next
    case False
    with w have "r = -1" "n' = n\<lparr>myerrno := NDERR_BADSOCKET\<rparr>" "os' = os"
      by (simp_all add: tcp_connector_send_def)
    then show ?thesis by (rule that(2))
  qed
qed

lemma do_packet_write_frame:
  assumes ok: "node_ok n" and cap: "65535 \<le> buf_capacity (send_buffer n)"
    and hm: "bytes_hdr p = Some h" "mem_read p 0 (nd_net_getpack_size h) = Some m"
    and w: "do_packet_write n p flag os = Some (r, n', os')"
  shows "r = int (length m) \<and> streamed n os m n' os' \<or> (r = -1 \<or> r = 0) \<and> streamed n os [] n' os'"
  using w
proof (cases rule: do_packet_write_cases)
  case (1 e)
  have "node_ok (n\<lparr>myerrno := e\<rparr>)" "65535 \<le> buf_capacity (send_buffer (n\<lparr>myerrno := e\<rparr>))"
    using ok cap by simp_all
  from nd_tcpnode_send_frame [OF this 1] hm show ?thesis by auto
next
  case 2
  with ok show ?thesis by (simp add: streamed_def out_stream_def)
qed

lemma do_packet_write_recv:
  assumes "node_ok n" and "do_packet_write n p flag os = Some (r, n', os')"
  shows "recv_buffer n' = recv_buffer n \<and> user_define_packet n' = user_define_packet n"
  using assms(2)
proof (cases rule: do_packet_write_cases)
  case (1 e)
  with nd_tcpnode_send_recv [of "n\<lparr>myerrno := e\<rparr>"] assms(1) show ?thesis by auto
qed simp

text \<open>The bytes a packet has on the wire: version and length in network byte order in the header.\<close>

definition wire_hdr :: "nd_packhdr \<Rightarrow> nd_packhdr" where
  "wire_hdr h = nd_packet_hton (h\<lparr>version := NDNETMSG_VERSION\<rparr>)"

definition wire_frame :: "nd_packhdr \<Rightarrow> byte list \<Rightarrow> byte list" where
  "wire_frame h d = hdr_bytes (wire_hdr h) @ take (unat (hlength h) - 4) d"

lemma wire_hdr_sel [simp]:
  "nd_net_getpack_size (wire_hdr h) = unat (hlength h)" "nd_packet_ntoh (wire_hdr h) = h\<lparr>version := NDNETMSG_VERSION\<rparr>"
  "ndsys_msg (wire_hdr h) = ndsys_msg h" "encrypt (wire_hdr h) = encrypt h"
  by (simp_all add: wire_hdr_def nd_packet_hton_def nd_packet_ntoh_def nd_net_getpack_size_def)

lemma wire_frame_length:
  "4 \<le> unat (hlength h) \<Longrightarrow> unat (hlength h) \<le> 4 + length d \<Longrightarrow> length (wire_frame h d) = unat (hlength h)"
  by (simp add: wire_frame_def)

lemma wire_packet_read:
  assumes "4 \<le> unat (hlength h)" and "unat (hlength h) \<le> 4 + length d"
  shows "mem_read (hdr_bytes (wire_hdr h) @ d) 0 (unat (hlength h)) = Some (wire_frame h d)"
  using assms by (simp add: mem_read_def wire_frame_def)

text \<open>What \<open>nd_connector_send\<close> puts on the stream for a packet it does not encrypt.\<close>

lemma connector_send_plain:
  assumes ok: "node_ok n" and cap: "65535 \<le> buf_capacity (send_buffer n)" and v: "nd_connector_valid n"
    and len: "4 \<le> unat (hlength (hdr p))" "unat (hlength (hdr p)) \<le> 4 + length (data p)"
    and plain: "ESF_ENCRYPT \<notin> flag"
    and s: "nd_connector_send g n p flag os = Some ((r, p'), n', os')"
  shows "r = int (unat (hlength (hdr p))) \<and> streamed n os (wire_frame (hdr p) (data p)) n' os' \<or>
    (r = -1 \<or> r = 0) \<and> streamed n os [] n' os'"
proof -
  let ?n = "n\<lparr>myerrno := 0, send_pack_times := send_pack_times n + 1\<rparr>"
  have w: "do_packet_write ?n (hdr_bytes (wire_hdr (hdr p)) @ data p) flag os = Some (r, n', os')"
    using s v plain valid_clear_err [OF v]
    by (auto simp: nd_connector_send_def Let_def wire_hdr_def pkt_bytes_def split: bind_splits if_splits)
  have okn: "node_ok ?n" "65535 \<le> buf_capacity (send_buffer ?n)" using ok cap by simp_all
  have rd: "bytes_hdr (hdr_bytes (wire_hdr (hdr p)) @ data p) = Some (wire_hdr (hdr p))"
    "mem_read (hdr_bytes (wire_hdr (hdr p)) @ data p) 0 (nd_net_getpack_size (wire_hdr (hdr p))) =
      Some (wire_frame (hdr p) (data p))"
    using wire_packet_read [OF len] by simp_all
  from do_packet_write_frame [OF okn rd w] wire_frame_length [OF len] show ?thesis by simp
qed

section \<open>Lemmas on fetching\<close>

lemma nd_net_getpack_size_le: "nd_net_getpack_size h \<le> 65535"
  by (simp add: nd_net_getpack_size_def unat_u16_le)

lemma packet_read_spec:
  assumes "length d \<le> length (data p)"
  shows "packet_read p (hdr_bytes w @ d) = Some \<lparr>hdr = w, data = d @ drop (length d) (data p)\<rparr>"
  using assms by (simp add: packet_read_def pkt_bytes_def mem_write_def pkt_of_bytes_def)

definition user_packet :: "nd_packhdr \<Rightarrow> byte list \<Rightarrow> nd_packetbuf \<Rightarrow> nd_packetbuf" where
  "user_packet w d p = \<lparr>hdr = nd_packet_ntoh w, data = d @ drop (length d) (data p)\<rparr>"

lemma fetch_user_frame:
  assumes ok: "node_ok n" and ud: "\<not> user_define_packet n"
    and stored: "lbuf_data (recv_buffer n) = hdr_bytes w @ d @ rest"
    and sz: "nd_net_getpack_size w = 4 + length d" and mn: "min_packet_len g \<le> 4 + int (length d)"
    and user: "\<not> ndsys_msg w" and room: "length d \<le> length (data p)"
  shows "\<exists>b'. lbuf_ok b' \<and> lbuf_data b' = rest \<and> same_frame (recv_buffer n) b' \<and>
    fetch_once g n (Some p) os =
      (let n = n\<lparr>recv_buffer := b'\<rparr> in
       if encrypt w then do {
         (new_len, q) \<leftarrow> nd_packet_decrypt g n (user_packet w d p);
         if new_len = 0 then Some (FDone (-1) (Some q), n\<lparr>myerrno := NDERR_BADPACKET\<rparr>, os)
         else Some (FDone new_len (Some (q\<lparr>hdr := nd_set_pack_len (hdr q) (word_of_int new_len)\<rparr>)),
                n\<lparr>is_crypt_packet := True, recv_pack_times := recv_pack_times n + 1\<rparr>, os)
       } else Some (FDone (4 + int (length d)) (Some (user_packet w d p)),
                n\<lparr>is_crypt_packet := False, recv_pack_times := recv_pack_times n + 1\<rparr>, os))"
proof -
  let ?b = "recv_buffer n" and ?L = "4 + length d"
  have b: "lbuf_ok ?b" using ok by (simp add: node_ok_def)
  have dl: "lbuf_datalen ?b = ?L + length rest"
    using length_lbuf_data [OF b] stored by simp
  have hd4: "lbuf_load ?b (lb_start ?b) 4 = Some (hdr_bytes w)"
    using lbuf_load_spec [OF b, of 4] stored by simp
  have hw: "bytes_hdr (hdr_bytes w) = Some w"
    using bytes_hdr_of_hdr [of w "[]"] by simp
  obtain b' where rd: "lbuf_read ?b ?L EBUF_SPECIFIED = Some (int ?L, hdr_bytes w @ d, b')"
    and b': "lbuf_ok b'" "lbuf_data b' = rest" "same_frame ?b b'"
    using lbuf_read_spec [OF b, of ?L EBUF_SPECIFIED] stored by auto
  have "?L \<le> 65535" using nd_net_getpack_size_le [of w] sz by simp
  then have big: "\<not> ?L > ND_PACKET_SIZE" by (simp add: ND_PACKET_SIZE_def)
  have pr: "packet_read p (hdr_bytes w @ d) = Some \<lparr>hdr = w, data = d @ drop (length d) (data p)\<rparr>"
    using packet_read_spec [OF room] .
  have enc: "encrypt (nd_packet_ntoh w) = encrypt w" by (simp add: nd_packet_ntoh_def)
  have "fetch_once g n (Some p) os =
      (let n = n\<lparr>recv_buffer := b'\<rparr> in
       if encrypt w then do {
         (new_len, q) \<leftarrow> nd_packet_decrypt g n (user_packet w d p);
         if new_len = 0 then Some (FDone (-1) (Some q), n\<lparr>myerrno := NDERR_BADPACKET\<rparr>, os)
         else Some (FDone new_len (Some (q\<lparr>hdr := nd_set_pack_len (hdr q) (word_of_int new_len)\<rparr>)),
                n\<lparr>is_crypt_packet := True, recv_pack_times := recv_pack_times n + 1\<rparr>, os)
       } else Some (FDone (4 + int (length d)) (Some (user_packet w d p)),
                n\<lparr>is_crypt_packet := False, recv_pack_times := recv_pack_times n + 1\<rparr>, os))"
    unfolding fetch_once_def
    using dl hd4 hw sz big mn ud user rd pr enc
    by (simp add: Let_def ND_PACKET_HDR_SIZE_def user_packet_def del: bytes_hdr_of_hdr)
  with b' show ?thesis by blast
qed

lemma fetch_incomplete:
  assumes ok: "node_ok n"
    and part: "length (lbuf_data (recv_buffer n)) < 4 \<or>
      (\<exists>w d. lbuf_data (recv_buffer n) = hdr_bytes w @ d \<and> 4 + length d < nd_net_getpack_size w \<and>
        min_packet_len g \<le> int (nd_net_getpack_size w))"
  shows "fetch_once g n msgbuf os = Some (FDone 0 msgbuf, n, os)"
proof -
  let ?b = "recv_buffer n"
  have b: "lbuf_ok ?b" using ok by (simp add: node_ok_def)
  note dl = length_lbuf_data [OF b]
  show ?thesis
  proof (cases "length (lbuf_data ?b) < 4")
    case True
    with dl show ?thesis by (simp add: fetch_once_def Let_def ND_PACKET_HDR_SIZE_def)
  next
    case False
    with part obtain w d where w: "lbuf_data ?b = hdr_bytes w @ d" "4 + length d < nd_net_getpack_size w"
      "min_packet_len g \<le> int (nd_net_getpack_size w)" by blast
    have "lbuf_load ?b (lb_start ?b) 4 = Some (hdr_bytes w)"
      using lbuf_load_spec [OF b, of 4] w(1) by simp
    moreover have "bytes_hdr (hdr_bytes w) = Some w" using bytes_hdr_of_hdr [of w "[]"] by simp
    moreover have "\<not> nd_net_getpack_size w > ND_PACKET_SIZE"
      using nd_net_getpack_size_le [of w] by (simp add: ND_PACKET_SIZE_def)
    moreover have "lbuf_datalen ?b = 4 + length d" using dl w(1) by simp
    ultimately show ?thesis using w(2,3)
      by (simp add: fetch_once_def Let_def ND_PACKET_HDR_SIZE_def)
  qed
qed

lemma valid_recv_upd [simp]:
  "nd_connector_valid (n\<lparr>recv_buffer := b\<rparr>) = nd_connector_valid n"
  "nd_connector_valid (n\<lparr>is_crypt_packet := c\<rparr>) = nd_connector_valid n"
  "nd_connector_valid (n\<lparr>recv_pack_times := t\<rparr>) = nd_connector_valid n"
  "nd_connector_valid (n\<lparr>crypt_key := k\<rparr>) = nd_connector_valid n"
  by (simp_all add: nd_connector_valid_def nd_object_check_error_def split: END_OBJECT_TYPE.split)

text \<open>A message as the application sees it: header in host byte order, payload.\<close>

definition plain_message :: "net_globals \<Rightarrow> nd_packhdr \<times> byte list \<Rightarrow> bool" where
  "plain_message g m \<longleftrightarrow> (case m of (h, d) \<Rightarrow> unat (hlength h) = 4 + length d \<and> version h = NDNETMSG_VERSION \<and>
     \<not> ndsys_msg h \<and> \<not> encrypt h \<and> min_packet_len g \<le> 4 + int (length d))"

lemma plain_message_frame:
  assumes "plain_message g (h, d)"
  shows "wire_frame h d = hdr_bytes (wire_hdr h) @ d" "nd_net_getpack_size (wire_hdr h) = 4 + length d"
    "nd_packet_ntoh (wire_hdr h) = h"
  using assms by (simp_all add: plain_message_def wire_frame_def)

fun fetch_many ::
  "net_globals \<Rightarrow> nat \<Rightarrow> nd_tcp_node \<Rightarrow> nd_packetbuf \<Rightarrow> net_os \<Rightarrow> (nd_packhdr \<times> byte list) list net" where
  "fetch_many g 0 n p os = Some ([], n, os)"
| "fetch_many g (Suc k) n p os = do {
     ((r, q), n, os) \<leftarrow> nd_net_fetch_msg g n (Some p) os;
     if r \<le> 0 then Some ([], n, os)
     else do {
       q \<leftarrow> q;
       (ms, n, os) \<leftarrow> fetch_many g k n q os;
       Some ((hdr q, take (nat r - 4) (data q)) # ms, n, os)
     }
   }"

lemma fetch_plain_message:
  assumes ok: "node_ok n" and v: "nd_connector_valid n" and ud: "\<not> user_define_packet n"
    and m: "plain_message g (h, d)" and stored: "lbuf_data (recv_buffer n) = wire_frame h d @ rest"
    and room: "length (data p) = ND_PACKET_DATA_SIZE"
  shows "\<exists>n' q. nd_net_fetch_msg g n (Some p) os = Some ((4 + int (length d), Some q), n', os) \<and>
    hdr q = h \<and> take (length d) (data q) = d \<and> length (data q) = ND_PACKET_DATA_SIZE \<and>
    node_ok n' \<and> nd_connector_valid n' \<and> \<not> user_define_packet n' \<and> lbuf_data (recv_buffer n') = rest"
proof -
  note f = plain_message_frame [OF m]
  have mm: "min_packet_len g \<le> 4 + int (length d)" "\<not> ndsys_msg (wire_hdr h)" "\<not> encrypt (wire_hdr h)"
    using m by (simp_all add: plain_message_def)
  have "4 + length d \<le> 65535" using nd_net_getpack_size_le [of "wire_hdr h"] f(2) by simp
  then have rm: "length d \<le> length (data p)"
    using room by (simp add: ND_PACKET_DATA_SIZE_def ND_PACKET_SIZE_def ND_PACKET_HDR_SIZE_def)
  have "lbuf_data (recv_buffer n) = hdr_bytes (wire_hdr h) @ d @ rest" using stored f(1) by simp
  from fetch_user_frame [OF ok ud this f(2) mm(1,2) rm] obtain b' where b': "lbuf_ok b'" "lbuf_data b' = rest"
    "same_frame (recv_buffer n) b'" and fo: "fetch_once g n (Some p) os =
      Some (FDone (4 + int (length d)) (Some (user_packet (wire_hdr h) d p)),
        n\<lparr>recv_buffer := b', is_crypt_packet := False, recv_pack_times := recv_pack_times n + 1\<rparr>, os)"
    using mm(3) by (auto simp: Let_def)
  let ?n = "n\<lparr>recv_buffer := b', is_crypt_packet := False, recv_pack_times := recv_pack_times n + 1\<rparr>"
  have "nd_net_fetch_msg g n (Some p) os = Some ((4 + int (length d), Some (user_packet (wire_hdr h) d p)), ?n, os)"
    using v fo by (simp add: nd_net_fetch_msg_def fetch_loop.simps)
  moreover have "hdr (user_packet (wire_hdr h) d p) = h" "take (length d) (data (user_packet (wire_hdr h) d p)) = d"
    "length (data (user_packet (wire_hdr h) d p)) = ND_PACKET_DATA_SIZE"
    using f(3) rm room by (simp_all add: user_packet_def)
  moreover have "node_ok ?n" "nd_connector_valid ?n" "\<not> user_define_packet ?n" "lbuf_data (recv_buffer ?n) = rest"
    using b' ok v ud by (simp_all add: node_ok_def same_frame_def)
  ultimately show ?thesis by blast
qed

lemma fetch_many_frames:
  "node_ok n \<Longrightarrow> nd_connector_valid n \<Longrightarrow> \<not> user_define_packet n \<Longrightarrow> list_all (plain_message g) ms \<Longrightarrow>
   lbuf_data (recv_buffer n) = concat (map (\<lambda>(h, d). wire_frame h d) ms) @ rest \<Longrightarrow>
   length (data p) = ND_PACKET_DATA_SIZE \<Longrightarrow>
   \<exists>n'. fetch_many g (length ms) n p os = Some (ms, n', os) \<and> node_ok n' \<and> lbuf_data (recv_buffer n') = rest"
proof (induction ms arbitrary: n p)
  case (Cons m ms)
  obtain h d where m: "m = (h, d)" by (cases m)
  have pm: "plain_message g (h, d)" "list_all (plain_message g) ms" using Cons.prems(4) m by simp_all
  have "lbuf_data (recv_buffer n) = wire_frame h d @ (concat (map (\<lambda>(h, d). wire_frame h d) ms) @ rest)"
    using Cons.prems(5) m by simp
  from fetch_plain_message [OF Cons.prems(1,2,3) pm(1) this Cons.prems(6)] obtain n1 q where
    f: "nd_net_fetch_msg g n (Some p) os = Some ((4 + int (length d), Some q), n1, os)"
    and q: "hdr q = h" "take (length d) (data q) = d" "length (data q) = ND_PACKET_DATA_SIZE"
    and n1: "node_ok n1" "nd_connector_valid n1" "\<not> user_define_packet n1"
      "lbuf_data (recv_buffer n1) = concat (map (\<lambda>(h, d). wire_frame h d) ms) @ rest" by blast
  from Cons.IH [OF n1(1,2,3) pm(2) n1(4) q(3)] obtain n' where
    "fetch_many g (length ms) n1 q os = Some (ms, n', os)" "node_ok n'" "lbuf_data (recv_buffer n') = rest" by blast
  moreover have "nat (4 + int (length d)) - 4 = length d" by simp
  ultimately show ?case using f q m by simp
qed simp

lemma nd_tcpnode_send_ok:
  assumes "node_ok n" and "nd_tcpnode_send n p flag os = Some (r, n', os')"
  shows "node_ok n'"
proof -
  obtain m f n1 where t: "tcpnode_send n m f True os = Some (r, n1, os')"
    and n': "n' = n1 \<or> n' = n1\<lparr>myerrno := NDERR_WRITE, status := ETS_RESET\<rparr>"
    using assms(2) by (auto simp: nd_tcpnode_send_def split: bind_splits if_splits)
  have "node_ok n1"
    using tcpnode_send_result [OF assms(1) t] by (auto simp: send_result_def stepped_def)
  with n' show ?thesis by (auto simp: node_ok_def)
qed

lemma nd_connector_send_ok:
  assumes ok: "node_ok n" and s: "nd_connector_send g n p flag os = Some (rp, n', os')"
  shows "node_ok n' \<and> recv_buffer n' = recv_buffer n \<and> user_define_packet n' = user_define_packet n"
proof -
  have w: "node_ok n2 \<and> recv_buffer n2 = recv_buffer n1 \<and> user_define_packet n2 = user_define_packet n1"
    if "node_ok n1" "do_packet_write n1 m flag os = Some (r, n2, os2)" for n1 n2 m r os2
    using that(2)
  proof (cases rule: do_packet_write_cases)
    case (1 e)
    with that(1) do_packet_write_recv [OF that] nd_tcpnode_send_ok [of "n1\<lparr>myerrno := e\<rparr>"] show ?thesis by auto
  qed (use that(1) in simp)
  show ?thesis
  proof (cases "nd_connector_valid n")
    case False
    with s ok show ?thesis by (auto simp: nd_connector_send_def)
  next
    case True
    let ?n = "n\<lparr>myerrno := 0, send_pack_times := send_pack_times n + 1\<rparr>"
    have "\<exists>m r. do_packet_write ?n m flag os = Some (r, n', os')"
      using s True valid_clear_err [OF True]
      by (auto simp: nd_connector_send_def Let_def split: bind_splits if_splits) blast+
    then obtain m r where "do_packet_write ?n m flag os = Some (r, n', os')" by blast
    with w [of ?n] ok show ?thesis by auto
  qed
qed

lemma sysmsg_check_length: "sysmsg_check mem off = Some (good, h, mid, mem') \<Longrightarrow> length mem' = length mem"
  by (auto simp: sysmsg_check_def Let_def dest!: mem_write_length split: bind_splits)

lemma sysmsg_hander_ok:
  assumes "node_ok n" and "nd_net_sysmsg_hander g n mem off os = Some ((r, mem'), n', os')"
  shows "node_ok n' \<and> recv_buffer n' = recv_buffer n \<and> user_define_packet n' = user_define_packet n \<and>
    length mem' = length mem"
  using assms nd_connector_send_ok [OF assms(1)]
  by (auto simp: nd_net_sysmsg_hander_def dest: sysmsg_check_length split: bind_splits if_splits)

lemma lbuf_replaced:
  assumes "lbuf_ok b" and "lb_buf b = Some mem" and "length mem' = length mem"
  shows "lbuf_ok (b\<lparr>lb_buf := Some mem'\<rparr>) \<and> length (lbuf_data (b\<lparr>lb_buf := Some mem'\<rparr>)) = length (lbuf_data b)"
proof -
  have "lbuf_ok (b\<lparr>lb_buf := Some mem'\<rparr>)" using assms by (auto simp: lbuf_ok_def)
  then show ?thesis using assms(1) by (simp add: length_lbuf_data) (simp add: lbuf_datalen_def)
qed

lemma fetch_again_shrinks:
  assumes ok: "node_ok n" and mn: "1 \<le> min_packet_len g"
    and f: "fetch_once g n msgbuf os = Some (FAgain, n', os')"
  shows "node_ok n' \<and> length (lbuf_data (recv_buffer n')) < length (lbuf_data (recv_buffer n))"
proof -
  let ?b = "recv_buffer n"
  obtain hb w mem r mem' n1 b' where
    w: "nd_net_getpack_size w \<le> lbuf_datalen ?b" "min_packet_len g \<le> int (nd_net_getpack_size w)"
    and mem: "lb_buf ?b = Some mem"
    and sh: "nd_net_sysmsg_hander g n mem (lb_start ?b) os = Some ((r, mem'), n1, os')"
    and sub: "lbuf_sub_data ((recv_buffer n1)\<lparr>lb_buf := Some mem'\<rparr>) (nd_net_getpack_size w) = Some b'"
    and n': "n' = n1\<lparr>recv_buffer := b'\<rparr>"
    using f by (auto simp: fetch_once_def Let_def not_less split: bind_splits if_splits option.splits)
  have b: "lbuf_ok ?b" using ok by (simp add: node_ok_def)
  note h = sysmsg_hander_ok [OF ok sh]
  let ?b1 = "?b\<lparr>lb_buf := Some mem'\<rparr>"
  have b1: "lbuf_ok ?b1" "length (lbuf_data ?b1) = length (lbuf_data ?b)"
    using lbuf_replaced [OF b mem] h by simp_all
  obtain b2 where "lbuf_sub_data ?b1 (nd_net_getpack_size w) = Some b2" "lbuf_ok b2"
    "lbuf_data b2 = drop (nd_net_getpack_size w) (lbuf_data ?b1)" "same_frame ?b1 b2"
    using lbuf_sub_data_spec [OF b1(1)] by blast
  then have b': "lbuf_ok b'" "lbuf_data b' = drop (nd_net_getpack_size w) (lbuf_data ?b1)" "same_frame ?b1 b'"
    using sub h by simp_all
  have "0 < nd_net_getpack_size w" using mn w(2) by linarith
  moreover have "nd_net_getpack_size w \<le> length (lbuf_data ?b)" using w(1) length_lbuf_data [OF b] by simp
  ultimately have "length (lbuf_data b') < length (lbuf_data ?b)" using b'(2) b1(2) by simp
  moreover have "node_ok n'" using h b' ok n' by (simp add: node_ok_def same_frame_def)
  ultimately show ?thesis using n' by simp
qed

text \<open>The fetch loop with a bound on its iterations: the outer \<open>None\<close> means the bound was reached, the
  inner one that memory outside a buffer was touched.\<close>

fun fetch_fuel ::
  "nat \<Rightarrow> net_globals \<Rightarrow> nd_tcp_node \<Rightarrow> nd_packetbuf option \<Rightarrow> net_os \<Rightarrow> (int \<times> nd_packetbuf option) net option" where
  "fetch_fuel 0 g n p os = None"
| "fetch_fuel (Suc k) g n p os = (case fetch_once g n p os of
     None \<Rightarrow> Some None
   | Some (FDone r q, n, os) \<Rightarrow> Some (Some ((r, q), n, os))
   | Some (FAgain, n, os) \<Rightarrow> fetch_fuel k g n p os)"

lemma fetch_fuel_loop: "fetch_fuel k g n p os = Some res \<Longrightarrow> fetch_loop g n p os = res"
proof (induction k arbitrary: n os)
  case (Suc k)
  show ?case
    by (subst fetch_loop.simps)
      (use Suc in \<open>auto split: option.splits prod.splits fetch_step.splits\<close>)
qed simp

lemma fetch_fuel_enough:
  "node_ok n \<Longrightarrow> 1 \<le> min_packet_len g \<Longrightarrow> length (lbuf_data (recv_buffer n)) < k \<Longrightarrow> fetch_fuel k g n p os \<noteq> None"
proof (induction k arbitrary: n os)
  case (Suc k)
  show ?case
  proof (cases "\<exists>n' os'. fetch_once g n p os = Some (FAgain, n', os')")
    case True
    then obtain n' os' where f: "fetch_once g n p os = Some (FAgain, n', os')" by blast
    from fetch_again_shrinks [OF Suc.prems(1,2) f] Suc.prems(3) Suc.IH [of n' os'] Suc.prems(2) f
    show ?thesis by simp
  next
    case False
    then show ?thesis by (auto split: option.splits fetch_step.splits)
  qed
qed simp

section \<open>Keep-alive messages\<close>

lemma alive_wire_hdr: "bytes_hdr alive_packet_net = Some (wire_hdr (rhdr nd_make_alive_pack))"
  by (simp add: alive_packet_net_def sysresv_bytes_def wire_hdr_def nd_make_alive_pack_def Let_def nd_packet_hton_def
      nd_hdr_init_def)

lemma alive_hdr_sel:
  "hlength (rhdr nd_make_alive_pack) = 8" "ndsys_msg (rhdr nd_make_alive_pack)" "\<not> encrypt (rhdr nd_make_alive_pack)"
  "stuff_len (rhdr nd_make_alive_pack) = 5" "version (rhdr nd_make_alive_pack) = NDNETMSG_VERSION"
  "msgid nd_make_alive_pack = ERSV_ALIVE_ID"
  "checksum nd_make_alive_pack = nd_checksum (hdr_bytes (rhdr nd_make_alive_pack) @ le_of_u16 ERSV_ALIVE_ID @ [0, 0])"
  by (simp_all add: nd_make_alive_pack_def Let_def nd_hdr_init_def SYSRESV_PACK_SIZE_def sysresv_bytes_def)
    (simp add: le_of_u16_def)

lemma alive_wire_frame: "wire_frame (hdr alive_packet) (data alive_packet) = alive_packet_net"
proof -
  have "wire_hdr (rhdr nd_make_alive_pack) = nd_packet_hton (rhdr nd_make_alive_pack)"
    using alive_hdr_sel(5) by (simp add: wire_hdr_def nd_packet_hton_def)
  then show ?thesis
    by (simp add: wire_frame_def alive_packet_def alive_packet_net_def sysresv_bytes_def alive_hdr_sel(1)
        le_of_u16_def)
qed

text \<open>The receiver's check accepts a keep-alive packet and changes only its own eight bytes.\<close>

lemma sysmsg_check_alive:
  "\<exists>x. sysmsg_check (pre @ alive_packet_net @ post) (length pre) =
     Some (True, rhdr nd_make_alive_pack, ERSV_ALIVE_ID, pre @ x @ post) \<and> length x = 8"
proof -
  let ?h = "rhdr nd_make_alive_pack" and ?c = "checksum nd_make_alive_pack"
  let ?y = "hdr_bytes ?h @ le_of_u16 ERSV_ALIVE_ID"
  have net: "alive_packet_net = hdr_bytes (nd_packet_hton ?h) @ le_of_u16 ERSV_ALIVE_ID @ le_of_u16 ?c"
    by (simp add: alive_packet_net_def sysresv_bytes_def alive_hdr_sel(6))
  have rd: "mem_read (pre @ alive_packet_net @ post) (length pre) SYSRESV_PACK_SIZE = Some alive_packet_net"
    by (simp add: mem_read_def SYSRESV_PACK_SIZE_def)
  have ix: "[alive_packet_net ! 4, alive_packet_net ! 5] = le_of_u16 ERSV_ALIVE_ID"
      "[alive_packet_net ! 6, alive_packet_net ! 7] = le_of_u16 ?c"
    unfolding net by (simp_all add: nth_append le_of_u16_def)
  then have u: "u16_of_le (alive_packet_net ! 4) (alive_packet_net ! 5) = ERSV_ALIVE_ID"
      "u16_of_le (alive_packet_net ! 6) (alive_packet_net ! 7) = ?c"
    by (simp_all add: le_of_u16_def)
  have h: "bytes_hdr alive_packet_net = Some (nd_packet_hton ?h)" unfolding net by simp
  have nh: "nd_packet_ntoh (nd_packet_hton ?h) = ?h" by (simp add: nd_packet_ntoh_def nd_packet_hton_def)
  have w1: "mem_write (pre @ alive_packet_net @ post) (length pre)
      (hdr_bytes ?h @ [alive_packet_net ! 4, alive_packet_net ! 5, 0, 0]) = Some (pre @ (?y @ [0, 0]) @ post)"
    using ix(1) by (simp add: mem_write_def le_of_u16_def)
  have r1: "mem_read (pre @ (?y @ [0, 0]) @ post) (length pre) (unat (hlength ?h)) = Some (?y @ [0, 0])"
    by (simp add: mem_read_def alive_hdr_sel(1) le_of_u16_def)
  have w2: "mem_write (pre @ (?y @ [0, 0]) @ post) (length pre + 6) (le_of_u16 ?c) =
      Some (pre @ (?y @ le_of_u16 ?c) @ post)"
    by (simp add: mem_write_def le_of_u16_def)
  have ck: "nd_checksum (?y @ [0, 0]) = ?c" using alive_hdr_sel(7) by simp
  have "sysmsg_check (pre @ alive_packet_net @ post) (length pre) =
      Some (True, ?h, ERSV_ALIVE_ID, pre @ (?y @ le_of_u16 ?c) @ post)"
    unfolding sysmsg_check_def using rd h w1 r1 w2 ck u
    by (simp only: bind.bind_lunit nh Let_def simp_thms)
  moreover have "length (?y @ le_of_u16 ?c) = 8" by (simp add: le_of_u16_def)
  ultimately show ?thesis by blast
qed

lemma do_packet_write_defined:
  assumes "node_ok n" and "bytes_hdr p = Some h" and "mem_read p 0 (nd_net_getpack_size h) = Some m"
    and "length (lbuf_data (send_buffer n)) + length m + 7 \<le> buf_capacity (send_buffer n)"
  shows "do_packet_write n p flag os \<noteq> None"
proof -
  have "nd_tcpnode_send n p flag os \<noteq> None" "nd_tcpnode_send (n\<lparr>myerrno := 0\<rparr>) p flag os \<noteq> None"
    using nd_tcpnode_send_defined [OF assms(1-4)] nd_tcpnode_send_defined [of "n\<lparr>myerrno := 0\<rparr>", OF _ assms(2,3)] assms(1,4)
    by simp_all
  then show ?thesis
    by (cases "packet_write n") (auto simp: do_packet_write_def tcp_connector_send_def)
qed

lemma connector_send_plain_defined:
  assumes ok: "node_ok n" and v: "nd_connector_valid n" and plain: "ESF_ENCRYPT \<notin> flag"
    and len: "4 \<le> unat (hlength (hdr p))" "unat (hlength (hdr p)) \<le> 4 + length (data p)"
    and room: "length (lbuf_data (send_buffer n)) + unat (hlength (hdr p)) + 7 \<le> buf_capacity (send_buffer n)"
  shows "\<exists>r q n' os'. nd_connector_send g n p flag os = Some ((r, q), n', os')"
proof -
  let ?n = "n\<lparr>myerrno := 0, send_pack_times := send_pack_times n + 1\<rparr>"
  have okn: "node_ok ?n" using ok by simp
  have rd: "bytes_hdr (hdr_bytes (wire_hdr (hdr p)) @ data p) = Some (wire_hdr (hdr p))"
    "mem_read (hdr_bytes (wire_hdr (hdr p)) @ data p) 0 (nd_net_getpack_size (wire_hdr (hdr p))) =
      Some (wire_frame (hdr p) (data p))"
    using wire_packet_read [OF len] by simp_all
  obtain r n' os' where "do_packet_write ?n (hdr_bytes (wire_hdr (hdr p)) @ data p) flag os = Some (r, n', os')"
    using do_packet_write_defined [OF okn rd, of flag os] room wire_frame_length [OF len] by auto
  then show ?thesis
    using v plain valid_clear_err [OF v]
    by (simp add: nd_connector_send_def Let_def wire_hdr_def pkt_bytes_def)
qed

lemma lbuf_split:
  assumes "lbuf_ok b"
  obtains pre post where "lb_buf b = Some (pre @ lbuf_data b @ post)" "length pre = lb_start b"
    "lb_end b = length pre + length (lbuf_data b)"
proof -
  obtain buf where b: "lb_buf b = Some buf" "length buf = buf_capacity b" "lb_start b \<le> lb_end b" "lb_end b \<le> buf_capacity b"
    using lbuf_okE [OF assms] by metis
  have d: "lbuf_data b = take (lb_end b - lb_start b) (drop (lb_start b) buf)"
    using b by (simp add: lbuf_data_def seg_def take_drop)
  have "buf = take (lb_start b) buf @ lbuf_data b @ drop (lb_end b) buf"
    unfolding d using b(3) by (metis append_take_drop_id drop_drop le_add_diff_inverse2)
  then have "lb_buf b = Some (take (lb_start b) buf @ lbuf_data b @ drop (lb_end b) buf)" using b(1) by simp
  then show thesis by (rule that) (use b d in simp_all)
qed

lemma fetch_alive_frame:
  assumes ok: "node_ok n" and cap: "65535 \<le> buf_capacity (send_buffer n)" and v: "nd_connector_valid n"
    and ud: "\<not> user_define_packet n" and mn: "min_packet_len g \<le> 8"
    and stored: "lbuf_data (recv_buffer n) = alive_packet_net @ rest"
    and room: "length (lbuf_data (send_buffer n)) + 15 \<le> buf_capacity (send_buffer n)"
  shows "\<exists>n' os'. fetch_once g n p os = Some (FAgain, n', os') \<and> node_ok n' \<and> lbuf_data (recv_buffer n') = rest \<and>
    (out_stream n' os' = out_stream n os @ alive_packet_net \<or> out_stream n' os' = out_stream n os)"
proof -
  let ?b = "recv_buffer n" and ?w = "wire_hdr (rhdr nd_make_alive_pack)"
  have b: "lbuf_ok ?b" using ok by (simp add: node_ok_def)
  obtain pre post where sp: "lb_buf ?b = Some (pre @ alive_packet_net @ rest @ post)" "length pre = lb_start ?b"
    "lb_end ?b = length pre + length (alive_packet_net @ rest)"
    by (rule lbuf_split [OF b]) (use stored in auto)
  have al: "hlength (hdr alive_packet) = 8" "length (data alive_packet) = 4"
    using alive_hdr_sel(1) by (simp_all add: alive_packet_def le_of_u16_def)
  then have len: "4 \<le> unat (hlength (hdr alive_packet))" "unat (hlength (hdr alive_packet)) \<le> 4 + length (data alive_packet)"
    by simp_all
  obtain r q n1 os1 where sd: "nd_connector_send g n alive_packet {ESF_URGENCY} os = Some ((r, q), n1, os1)"
    using connector_send_plain_defined [OF ok v _ len, of "{ESF_URGENCY}" g os] room al by auto
  have st: "streamed n os alive_packet_net n1 os1 \<or> streamed n os [] n1 os1"
    using connector_send_plain [OF ok cap v len _ sd] alive_wire_frame by auto
  note keep = nd_connector_send_ok [OF ok sd]
  obtain x where x: "sysmsg_check (pre @ alive_packet_net @ rest @ post) (lb_start ?b) =
      Some (True, rhdr nd_make_alive_pack, ERSV_ALIVE_ID, pre @ x @ rest @ post)" "length x = 8"
    using sysmsg_check_alive [of pre "rest @ post"] sp(2) by auto
  let ?b1 = "?b\<lparr>lb_buf := Some (pre @ x @ rest @ post)\<rparr>"
  have b1: "lbuf_ok ?b1" using lbuf_replaced [OF b sp(1), of "pre @ x @ rest @ post"] x(2) by simp
  have d1: "lbuf_data ?b1 = x @ rest"
    using sp(2,3) x(2) by (simp add: lbuf_data_def seg_def)
  obtain b2 where b2: "lbuf_sub_data ?b1 8 = Some b2" "lbuf_ok b2" "lbuf_data b2 = rest" "same_frame ?b1 b2"
    using lbuf_sub_data_spec [OF b1, of 8] d1 x(2) by auto
  have hd4: "lbuf_load ?b (lb_start ?b) 4 = Some (take 4 alive_packet_net)"
    using lbuf_load_spec [OF b, of 4] stored by simp
  have bh: "bytes_hdr (take 4 alive_packet_net) = Some ?w"
    using alive_wire_hdr bytes_hdr_take [of "take 4 alive_packet_net" "drop 4 alive_packet_net"] by simp
  have sz: "nd_net_getpack_size ?w = 8" "ndsys_msg ?w" using alive_hdr_sel by simp_all
  have dl: "lbuf_datalen ?b = 8 + length rest" using length_lbuf_data [OF b] stored by simp
  have sh: "nd_net_sysmsg_hander g n (pre @ alive_packet_net @ rest @ post) (lb_start ?b) os =
      Some ((0, pre @ x @ rest @ post), n1, os1)"
    using x sd alive_hdr_sel(1,4) by (simp add: nd_net_sysmsg_hander_def SYSRESV_PACK_SIZE_def)
  have "fetch_once g n p os = Some (FAgain, n1\<lparr>recv_buffer := b2\<rparr>, os1)"
    unfolding fetch_once_def using dl hd4 bh sz mn ud sp(1) sh keep b2(1)
    by (simp add: Let_def ND_PACKET_HDR_SIZE_def ND_PACKET_SIZE_def)
  moreover have "node_ok (n1\<lparr>recv_buffer := b2\<rparr>)" using keep ok b2 by (simp add: node_ok_def same_frame_def)
  ultimately show ?thesis using b2(3) st by (auto simp: streamed_def out_stream_def)
qed

section \<open>Encrypted transfer\<close>

lemma packet_sizes: "ND_PACKET_SIZE = 65536" "ND_PACKET_DATA_SIZE = 65532"
  by (simp_all add: ND_PACKET_DATA_SIZE_def ND_PACKET_SIZE_def ND_PACKET_HDR_SIZE_def)

lemma copy_packet_spec:
  assumes len: "unat (hlength (hdr p)) = 4 + m" and "m \<le> length (data p)" and "length (stack_junk os) = ND_PACKET_SIZE"
  shows "\<exists>d. copy_packet p os = Some \<lparr>hdr = hdr p, data = d\<rparr> \<and> length d = ND_PACKET_DATA_SIZE \<and> take m d = take m (data p)"
proof -
  have m: "m \<le> 65531" using unat_u16_le [of "hlength (hdr p)"] len by linarith
  have "mem_read (pkt_bytes p) 0 (unat (hlength (hdr p))) = Some (hdr_bytes (hdr p) @ take m (data p))"
    using assms(2) by (simp add: mem_read_def pkt_bytes_def len)
  moreover have "mem_write (stack_junk os) 0 (hdr_bytes (hdr p) @ take m (data p)) =
      Some (hdr_bytes (hdr p) @ take m (data p) @ drop (4 + m) (stack_junk os))"
    using assms(2,3) m by (simp add: mem_write_def packet_sizes)
  ultimately have "copy_packet p os =
      Some \<lparr>hdr = hdr p, data = take m (data p) @ drop (4 + m) (stack_junk os)\<rparr>"
    by (simp add: copy_packet_def pkt_of_bytes_def)
  then show ?thesis using assms(2,3) m by (simp add: packet_sizes)
qed

lemma connector_send_crypt_write:
  assumes v: "nd_connector_valid n" and flag: "ESF_ENCRYPT \<in> flag" and cfg: "crypt_cfg g = tea_net_crypt"
    and k: "is_valid_crypt (crypt_key n)" "length (key (crypt_key n)) = 16"
    and p: "\<not> encrypt (hdr p)" "\<not> stuff (hdr p)" "hlength (hdr p) = of_nat (4 + m)" "0 < m" "m \<le> 65520" "m \<le> length (data p)"
    and junk: "length (stack_junk os) = ND_PACKET_SIZE"
  defines "hs \<equiv> tea.stuffed ((hdr p)\<lparr>version := NDNETMSG_VERSION\<rparr>) m" and "R \<equiv> ND_ROUNDUP8 m"
  shows "\<exists>d' q. length d' = ND_PACKET_DATA_SIZE \<and>
    nd_connector_send g n p flag os = do {
      (ret, n', os') \<leftarrow> do_packet_write (n\<lparr>myerrno := 0, send_pack_times := send_pack_times n + 1\<rparr>)
                          (hdr_bytes (wire_hdr hs) @ d') flag os;
      Some ((ret, q), n', os') } \<and>
    (\<forall>ys. R + length ys = ND_PACKET_DATA_SIZE \<longrightarrow>
      (\<exists>d2. nd_packet_decrypt_key tea_net_crypt (crypt_key n) \<lparr>hdr = hs, data = take R d' @ ys\<rparr> =
        Some (int (4 + m), \<lparr>hdr = hs\<lparr>encrypt := False\<rparr>, data = d2\<rparr>) \<and> take m d2 = take m (data p)))"
proof -
  let ?h = "(hdr p)\<lparr>version := NDNETMSG_VERSION\<rparr>"
  let ?p = "p\<lparr>hdr := ?h\<rparr>"
  have um: "unat (hlength (hdr ?p)) = 4 + m" using p(3,5) by (simp add: unat_of_nat_eq del: of_nat_add)
  obtain d where d: "copy_packet ?p os = Some \<lparr>hdr = ?h, data = d\<rparr>" "length d = ND_PACKET_DATA_SIZE" "take m d = take m (data p)"
    using copy_packet_spec [OF um _ junk] p(6) by auto
  have R: "R + 8 \<le> 65532" using ROUNDUP8_bounds [of m] p(5) unfolding R_def by presburger
  obtain d' where e: "nd_packet_encrypt_key tea_net_crypt (crypt_key n) \<lparr>hdr = ?h, data = d\<rparr> =
      Some (int R, \<lparr>hdr = hs, data = d'\<rparr>)" and ld: "length d' = ND_PACKET_DATA_SIZE"
    and dec: "\<forall>ys. R + length ys = ND_PACKET_DATA_SIZE \<longrightarrow>
      (\<exists>d2. nd_packet_decrypt_key tea_net_crypt (crypt_key n) \<lparr>hdr = hs, data = take R d' @ ys\<rparr> =
        Some (int (4 + m), \<lparr>hdr = hs\<lparr>encrypt := False\<rparr>, data = d2\<rparr>) \<and> take m d2 = take m d)"
    using tea.transfer_packet [OF k p(4), of "\<lparr>hdr = ?h, data = d\<rparr>"] p(2,3) d(2) R
    unfolding tea_setting hs_def R_def by auto
  have ver: "hs\<lparr>version := NDNETMSG_VERSION\<rparr> = hs" by (simp add: hs_def tea.stuffed_def)
  have noenc: "(hdr p)\<lparr>encrypt := False\<rparr> = hdr p"
    by (rule nd_packhdr.equality) (use p(1) in simp_all)
  have "nd_connector_send g n p flag os = do {
      (ret, n', os') \<leftarrow> do_packet_write (n\<lparr>myerrno := 0, send_pack_times := send_pack_times n + 1\<rparr>)
                          (hdr_bytes (wire_hdr hs) @ d') flag os;
      Some ((ret, ?p), n', os') }"
    using v flag p(1) d(1) e cfg valid_clear_err [OF v]
    by (simp add: nd_connector_send_def Let_def nd_packet_encrypt_def wire_hdr_def ver pkt_bytes_def noenc)
  with ld dec d(3) show ?thesis by auto
qed

lemma crypt_frame:
  assumes "hlength h = of_nat (4 + m)" and "m \<le> 65520" and "length d' = ND_PACKET_DATA_SIZE"
  defines "hs \<equiv> tea.stuffed (h\<lparr>version := NDNETMSG_VERSION\<rparr>) m"
  shows "unat (hlength hs) = 4 + ND_ROUNDUP8 m" "length (wire_frame hs d') = 4 + ND_ROUNDUP8 m"
    "mem_read (hdr_bytes (wire_hdr hs) @ d') 0 (nd_net_getpack_size (wire_hdr hs)) = Some (wire_frame hs d')"
proof -
  have R: "ND_ROUNDUP8 m \<le> 65520" using ROUNDUP8_bounds [of m] assms(2) by presburger
  have "hlength hs = of_nat (4 + ND_ROUNDUP8 m)" unfolding hs_def by (rule tea.stuffed_len) (simp add: assms(1))
  then show len: "unat (hlength hs) = 4 + ND_ROUNDUP8 m" using R by (simp add: unat_of_nat_eq del: of_nat_add)
  have lenb: "4 \<le> unat (hlength hs)" "unat (hlength hs) \<le> 4 + length d'" using len assms(3) R packet_sizes by simp_all
  show "length (wire_frame hs d') = 4 + ND_ROUNDUP8 m" using wire_frame_length [OF lenb] len by simp
  show "mem_read (hdr_bytes (wire_hdr hs) @ d') 0 (nd_net_getpack_size (wire_hdr hs)) = Some (wire_frame hs d')"
    using wire_packet_read [OF lenb] by simp
qed

lemma connector_send_crypt:
  assumes ok: "node_ok n" and cap: "65535 \<le> buf_capacity (send_buffer n)" and v: "nd_connector_valid n"
    and flag: "ESF_ENCRYPT \<in> flag" and cfg: "crypt_cfg g = tea_net_crypt"
    and k: "is_valid_crypt (crypt_key n)" "length (key (crypt_key n)) = 16"
    and p: "\<not> encrypt (hdr p)" "\<not> stuff (hdr p)" "hlength (hdr p) = of_nat (4 + m)" "0 < m" "m \<le> 65520" "m \<le> length (data p)"
    and junk: "length (stack_junk os) = ND_PACKET_SIZE"
    and s: "nd_connector_send g n p flag os = Some ((r, p'), n', os')"
  defines "hs \<equiv> tea.stuffed ((hdr p)\<lparr>version := NDNETMSG_VERSION\<rparr>) m" and "R \<equiv> ND_ROUNDUP8 m"
  shows "\<exists>d'. length d' = ND_PACKET_DATA_SIZE \<and>
    (r = int (4 + R) \<and> streamed n os (wire_frame hs d') n' os' \<or> (r = -1 \<or> r = 0) \<and> streamed n os [] n' os') \<and>
    (\<forall>ys. R + length ys = ND_PACKET_DATA_SIZE \<longrightarrow>
      (\<exists>d2. nd_packet_decrypt_key tea_net_crypt (crypt_key n) \<lparr>hdr = hs, data = take R d' @ ys\<rparr> =
        Some (int (4 + m), \<lparr>hdr = hs\<lparr>encrypt := False\<rparr>, data = d2\<rparr>) \<and> take m d2 = take m (data p)))"
proof -
  let ?n = "n\<lparr>myerrno := 0, send_pack_times := send_pack_times n + 1\<rparr>"
  obtain d' q where ld: "length d' = ND_PACKET_DATA_SIZE"
    and w: "nd_connector_send g n p flag os = do {
      (ret, n', os') \<leftarrow> do_packet_write ?n (hdr_bytes (wire_hdr hs) @ d') flag os; Some ((ret, q), n', os') }"
    and dec: "\<forall>ys. R + length ys = ND_PACKET_DATA_SIZE \<longrightarrow>
      (\<exists>d2. nd_packet_decrypt_key tea_net_crypt (crypt_key n) \<lparr>hdr = hs, data = take R d' @ ys\<rparr> =
        Some (int (4 + m), \<lparr>hdr = hs\<lparr>encrypt := False\<rparr>, data = d2\<rparr>) \<and> take m d2 = take m (data p))"
    using connector_send_crypt_write [OF v flag cfg k p junk] unfolding hs_def R_def by blast
  have "do_packet_write ?n (hdr_bytes (wire_hdr hs) @ d') flag os = Some (r, n', os')"
    using w s by (auto split: bind_splits)
  moreover have "node_ok ?n" "65535 \<le> buf_capacity (send_buffer ?n)" using ok cap by simp_all
  ultimately have "r = int (4 + R) \<and> streamed n os (wire_frame hs d') n' os' \<or> (r = -1 \<or> r = 0) \<and> streamed n os [] n' os'"
    using do_packet_write_frame [of ?n, OF _ _ bytes_hdr_of_hdr crypt_frame(3) [OF p(3,5) ld], where flag = flag and os = os]
      crypt_frame(2) [OF p(3,5) ld]
    unfolding hs_def R_def by auto
  with ld dec show ?thesis by blast
qed

text \<open>A kernel that takes everything at once.\<close>

lemma tcpnode_send_full:
  assumes "lbuf_datalen (send_buffer n) = 0" and "send_script os = SendOk k # s" and "0 < length msg" "length msg \<le> k"
  shows "\<exists>n' os'. tcpnode_send n msg flag wa os = Some (int (length msg), n', os')"
  using assms by (simp add: tcpnode_send_def tcpnode_send_with_save_def sys_socket_write_def os_send_def nd_time_def)

lemma nd_tcpnode_send_full:
  assumes "lbuf_datalen (send_buffer n) = 0" and "send_script os = SendOk k # s" and "0 < length m" "length m \<le> k"
    and "bytes_hdr p = Some h" "mem_read p 0 (nd_net_getpack_size h) = Some m"
  shows "\<exists>n' os'. nd_tcpnode_send n p flag os = Some (int (length m), n', os')"
  using tcpnode_send_full [OF assms(1-4), of flag True] tcpnode_send_full [OF assms(1-4), of "flag - {ESF_URGENCY}" True] assms(5,6)
  by (auto simp: nd_tcpnode_send_def)

section \<open>Properties\<close>

definition sample_globals :: net_globals where
  "sample_globals = \<lparr>min_packet_len = 6, crypt_cfg = tea_net_crypt\<rparr>"

definition recv_node :: "nat \<Rightarrow> byte list \<Rightarrow> nd_tcp_node" where
  "recv_node cap xs = (sample_node cap [])\<lparr>recv_buffer := sample_buf cap xs\<rparr>"

lemma recv_node_ok:
  assumes "0 < cap" and "length xs \<le> cap"
  shows "node_ok (recv_node cap xs)" "nd_connector_valid (recv_node cap xs)" "\<not> user_define_packet (recv_node cap xs)"
    "lbuf_data (recv_buffer (recv_node cap xs)) = xs"
  using sample_buf_ok [OF assms] sample_node_ok [OF assms(1), of "[]"]
  by (simp_all add: recv_node_def node_ok_def nd_connector_valid_def nd_object_check_error_def)
    (simp_all add: sample_node_def sample_buf_def zero_tcp_node_def)

text \<open>C5. Deframing. When the receive buffer holds the wire frames of a list of plain messages followed
  by any rest, that many fetches hand out exactly these messages, in order, with header and payload as
  sent, and leave the rest in the buffer.\<close>

theorem fetch_deframes:
  assumes "node_ok n" and "nd_connector_valid n" and "\<not> user_define_packet n"
    and "list_all (plain_message g) ms" and "length (data p) = ND_PACKET_DATA_SIZE"
    and "lbuf_data (recv_buffer n) = concat (map (\<lambda>(h, d). wire_frame h d) ms) @ rest"
  shows "\<exists>n'. fetch_many g (length ms) n p os = Some (ms, n', os) \<and> node_ok n' \<and> lbuf_data (recv_buffer n') = rest"
  using fetch_many_frames [OF assms(1,2,3,4,6,5)] .

theorem fetch_deframes_witness:
  "let h = nd_hdr_init\<lparr>hlength := 6\<rparr>; ms = [(h, [1, 2]), (h, [3, 4])] in
   \<exists>n'. fetch_many sample_globals 2 (recv_node 64 (wire_frame h [1, 2] @ wire_frame h [3, 4] @ [0, 9]))
      (sample_packet 0) (sample_os []) = Some (ms, n', sample_os []) \<and> lbuf_data (recv_buffer n') = [0, 9]"
proof -
  let ?h = "nd_hdr_init\<lparr>hlength := 6\<rparr>"
  let ?xs = "wire_frame ?h [1, 2] @ wire_frame ?h [3, 4] @ [0, 9]"
  have "length ?xs \<le> 64" by (simp add: wire_frame_def)
  then have n: "node_ok (recv_node 64 ?xs)" "nd_connector_valid (recv_node 64 ?xs)" "\<not> user_define_packet (recv_node 64 ?xs)"
    "lbuf_data (recv_buffer (recv_node 64 ?xs)) = ?xs"
    using recv_node_ok [of 64 ?xs] by simp_all
  have m: "list_all (plain_message sample_globals) [(?h, [1, 2]), (?h, [3, 4])]"
    by (simp add: plain_message_def sample_globals_def nd_hdr_init_def)
  have p: "length (data (sample_packet 0)) = ND_PACKET_DATA_SIZE" by simp
  show ?thesis
    using fetch_deframes [OF n(1,2,3) m p, of "[0, 9]" "sample_os []"] n(4)
    by (simp add: Let_def numeral_2_eq_2) blast
qed

text \<open>C16. The fetch loop ends: with a positive minimum packet length every system message it skips makes
  the receive buffer shorter, so one more iteration than there are buffered bytes is enough.\<close>

theorem fetch_terminates:
  assumes "node_ok n" and "1 \<le> min_packet_len g"
  shows "\<exists>res. fetch_fuel (Suc (length (lbuf_data (recv_buffer n)))) g n p os = Some res \<and> fetch_loop g n p os = res"
  using fetch_fuel_enough [OF assms lessI, of p os] fetch_fuel_loop by (metis not_None_eq)

theorem fetch_terminates_witness:
  "\<exists>res. fetch_fuel 17 sample_globals (recv_node 64 (alive_packet_net @ alive_packet_net)) None (sample_os []) = Some res \<and>
    fetch_loop sample_globals (recv_node 64 (alive_packet_net @ alive_packet_net)) None (sample_os []) = res"
  using fetch_terminates [OF recv_node_ok(1), of 64 "alive_packet_net @ alive_packet_net" sample_globals None "sample_os []"]
    recv_node_ok(4) [of 64 "alive_packet_net @ alive_packet_net"]
  by (simp add: sample_globals_def)

text \<open>Every keep-alive packet that arrives is consumed and answered with a keep-alive packet of one's
  own (unless the send is refused). Two connected peers therefore answer each other's answers.\<close>

theorem alive_answered:
  assumes "node_ok n" and "65535 \<le> buf_capacity (send_buffer n)" and "nd_connector_valid n"
    and "\<not> user_define_packet n" and "min_packet_len g \<le> 8"
    and "lbuf_data (recv_buffer n) = alive_packet_net @ rest"
    and "length (lbuf_data (send_buffer n)) + 15 \<le> buf_capacity (send_buffer n)"
  shows "\<exists>n' os'. fetch_once g n p os = Some (FAgain, n', os') \<and> node_ok n' \<and> lbuf_data (recv_buffer n') = rest \<and>
    (out_stream n' os' = out_stream n os @ alive_packet_net \<or> out_stream n' os' = out_stream n os)"
  using fetch_alive_frame [OF assms] .

theorem alive_answered_witness:
  "\<exists>n' os'. fetch_once sample_globals (recv_node 65536 (alive_packet_net @ [5])) None (sample_os [SendOk 8]) = Some (FAgain, n', os') \<and>
    lbuf_data (recv_buffer n') = [5]"
proof -
  let ?n = "recv_node 65536 (alive_packet_net @ [5])"
  note ok = recv_node_ok [of 65536 "alive_packet_net @ [5]"]
  have "send_buffer ?n = sample_buf 65536 []" by (simp add: recv_node_def sample_node_def)
  then have "buf_capacity (send_buffer ?n) = 65536" "lbuf_data (send_buffer ?n) = []"
    using sample_buf_ok [of 65536 "[]"] by (simp_all add: sample_buf_def)
  then show ?thesis
    using alive_answered [of ?n sample_globals "[5]" None "sample_os [SendOk 8]"] ok
    by (auto simp: sample_globals_def)
qed

text \<open>A system message of six or seven bytes is shorter than the structure the handler reads and
  writes. When it lies so that the structure does not fit before the end of the receive buffer, the
  fetch touches memory outside the buffer; a peer can choose such a message.\<close>

theorem short_sysmsg_out_of_bounds:
  assumes ok: "node_ok n" and ud: "\<not> user_define_packet n"
    and stored: "lbuf_data (recv_buffer n) = hdr_bytes w @ d" and sys: "ndsys_msg w"
    and short: "length d = 2 \<or> length d = 3" and sz: "nd_net_getpack_size w = 4 + length d"
    and mn: "min_packet_len g \<le> 6" and tail: "buf_capacity (recv_buffer n) < lb_start (recv_buffer n) + 8"
  shows "fetch_loop g n p os = None"
proof -
  let ?b = "recv_buffer n"
  have b: "lbuf_ok ?b" using ok by (simp add: node_ok_def)
  obtain buf where buf: "lb_buf ?b = Some buf" "length buf = buf_capacity ?b" using lbuf_okE [OF b] by metis
  have "mem_read buf (lb_start ?b) SYSRESV_PACK_SIZE = None"
    using buf(2) tail by (simp add: mem_read_def SYSRESV_PACK_SIZE_def)
  then have "nd_net_sysmsg_hander g n buf (lb_start ?b) os = None"
    by (simp add: nd_net_sysmsg_hander_def sysmsg_check_def)
  moreover have "lbuf_load ?b (lb_start ?b) 4 = Some (hdr_bytes w)"
    using lbuf_load_spec [OF b, of 4] stored by simp
  moreover have "bytes_hdr (hdr_bytes w) = Some w" using bytes_hdr_of_hdr [of w "[]"] by simp
  moreover have "lbuf_datalen ?b = 4 + length d" using length_lbuf_data [OF b] stored by simp
  ultimately have "fetch_once g n p os = None"
    using ud sys sz mn short buf(1)
    by (auto simp: fetch_once_def Let_def ND_PACKET_HDR_SIZE_def ND_PACKET_SIZE_def)
  then show ?thesis by (simp add: fetch_loop.simps)
qed

theorem short_sysmsg_out_of_bounds_witness:
  "let w = wire_hdr (nd_hdr_init\<lparr>hlength := 6, ndsys_msg := True\<rparr>);
       b = (sample_buf 32 (replicate 26 0 @ hdr_bytes w @ [1, 2]))\<lparr>lb_start := 26\<rparr>
   in fetch_loop sample_globals ((sample_node 32 [])\<lparr>recv_buffer := b\<rparr>) None (sample_os []) = None"
proof -
  let ?w = "wire_hdr (nd_hdr_init\<lparr>hlength := 6, ndsys_msg := True\<rparr>)"
  let ?b = "(sample_buf 32 (replicate 26 0 @ hdr_bytes ?w @ [1, 2]))\<lparr>lb_start := 26\<rparr>"
  let ?n = "(sample_node 32 [])\<lparr>recv_buffer := ?b\<rparr>"
  have b: "lbuf_ok ?b" "\<not> auto_inc ?b" "lbuf_data ?b = hdr_bytes ?w @ [1, 2]" "buf_capacity ?b < lb_start ?b + 8"
    by (simp_all add: sample_buf_def lbuf_ok_def lbuf_data_def seg_def)
  then have "node_ok ?n" "\<not> user_define_packet ?n"
    using sample_node_ok [of 32 "[]"] by (simp_all add: node_ok_def) (simp add: sample_node_def zero_tcp_node_def)
  moreover have "ndsys_msg ?w" "nd_net_getpack_size ?w = 6" by simp_all
  ultimately show ?thesis
    using short_sysmsg_out_of_bounds [of ?n ?w "[1, 2]" sample_globals None "sample_os []"] b
    by (simp add: Let_def sample_globals_def)
qed

end
