(* ===== verification/Nd_Str.thy ===== *)
theory Nd_Str
  imports Nd_Prelude
begin

text \<open>
  The string routines of \<^verbatim>\<open>src/nd_common/src/nd_str.c\<close>. A pointer to a C string is the list of the
  bytes of its block from the pointer to the end of the block, so a string \<open>s\<close> of the program is
  \<open>cstr s\<close> followed by whatever the block holds after it, and reading past the block has no value
  (\<open>None\<close>). A returned pointer into the source is the remaining list, a null pointer is \<open>None\<close> inside the
  result. The text a routine stores is returned without its terminator; the routines get no size of the
  destination, except where \<open>ndstr_parse_command\<close> is told one. Bytes stand for \<open>char\<close>; where the sign of
  \<open>char\<close> matters they are read with \<open>sint\<close>.
\<close>

section \<open>Characters\<close>

abbreviation cstr :: "byte list \<Rightarrow> byte list" where "cstr s \<equiv> s @ [0]"

abbreviation (input) E_SRC_CODE_ANSI :: nat where "E_SRC_CODE_ANSI \<equiv> 0"
abbreviation (input) E_SRC_CODE_GBK :: nat where "E_SRC_CODE_GBK \<equiv> 1"
abbreviation (input) E_SRC_CODE_UTF_8 :: nat where "E_SRC_CODE_UTF_8 \<equiv> 2"

definition IS_NUMERALS :: "byte \<Rightarrow> bool" where "IS_NUMERALS a \<longleftrightarrow> 0x30 \<le> a \<and> a \<le> 0x39"
definition IS_BIG_LATIN :: "byte \<Rightarrow> bool" where "IS_BIG_LATIN a \<longleftrightarrow> 0x41 \<le> a \<and> a \<le> 0x5A"
definition IS_LITTLE_LATIN :: "byte \<Rightarrow> bool" where "IS_LITTLE_LATIN a \<longleftrightarrow> 0x61 \<le> a \<and> a \<le> 0x7A"
definition BIG_2_LITTLE :: "byte \<Rightarrow> byte" where "BIG_2_LITTLE a = a + 0x20"
definition LITTLE_2_BIG :: "byte \<Rightarrow> byte" where "LITTLE_2_BIG a = a - 0x20"

text \<open>How many bytes \<open>_read_word\<close> copies when the first one is \<open>b\<close>; the byte 0x80 counts as a character.\<close>

definition word_len :: "nat \<Rightarrow> byte \<Rightarrow> nat" where
  "word_len code b =
     (if code = E_SRC_CODE_GBK then (if b > 0x80 then 2 else 1)
      else if code = E_SRC_CODE_UTF_8 \<and> b > 0x80 then
        (if b \<ge> 240 then 4 else if b \<ge> 224 then 3 else if b \<ge> 192 then 2 else 1)
      else 1)"

definition read_word :: "nat \<Rightarrow> byte list \<Rightarrow> (int \<times> byte list \<times> byte list) option" where
  "read_word code src = (case src of
     [] \<Rightarrow> None
   | b # _ \<Rightarrow> let k = word_len code b in
       if k \<le> length src then Some (int k, take k src, drop k src) else None)"

definition ndstr_read_utf8char :: "nat \<Rightarrow> byte list \<Rightarrow> (int \<times> byte list \<times> byte list) option" where
  "ndstr_read_utf8char code src = read_word code src"

fun ndstr_first_valid :: "byte list \<Rightarrow> byte list option option" where
  "ndstr_first_valid [] = None"
| "ndstr_first_valid (b # bs) =
     (if b \<le> 0x20 then (if b = 0 then Some None else ndstr_first_valid bs) else Some (Some (b # bs)))"

fun index_in :: "byte list \<Rightarrow> byte \<Rightarrow> int \<Rightarrow> int" where
  "index_in [] ch i = -1"
| "index_in (t # ts) ch i = (if ch = t then i else index_in ts ch (i + 1))"

definition bcdText :: "byte list" where
  "bcdText = [0x30, 0x31, 0x32, 0x33, 0x34, 0x35, 0x36, 0x37, 0x38, 0x39, 0x61, 0x62, 0x63, 0x64, 0x65, 0x66]"

definition getBCDindex :: "byte \<Rightarrow> int" where
  "getBCDindex ch = index_in bcdText (if IS_BIG_LATIN ch then ch + 0x20 else ch) 0"

section \<open>Numbers\<close>

fun hex_only :: "byte list \<Rightarrow> bool option" where
  "hex_only [] = None"
| "hex_only (b # bs) = (if b = 0 then Some True else if getBCDindex b = -1 then Some False else hex_only bs)"

text \<open>The test for \<open>0x\<close> or \<open>0X\<close>.\<close>

definition hex_prefix :: "byte list \<Rightarrow> bool option" where
  "hex_prefix src = (case src of
     [] \<Rightarrow> None
   | a # s \<Rightarrow> if a = 0x30 then (case s of [] \<Rightarrow> None | b # _ \<Rightarrow> Some (b = 0x78 \<or> b = 0x58)) else Some False)"

fun numerals_tail :: "byte list \<Rightarrow> nat \<Rightarrow> int \<Rightarrow> int option" where
  "numerals_tail [] dot ret = None"
| "numerals_tail (b # bs) dot ret =
     (if b = 0 then Some ret
      else if IS_NUMERALS b then numerals_tail bs dot 1
      else if b = 0x2E then (if dot + 1 > 1 then Some 0 else numerals_tail bs (dot + 1) ret)
      else Some 0)"

definition ndstr_is_numerals :: "byte list \<Rightarrow> int option" where
  "ndstr_is_numerals src = do {
     x \<leftarrow> hex_prefix src;
     if x then map_option of_bool (hex_only (drop 2 src))
     else do {
       v \<leftarrow> ndstr_first_valid src;
       s \<leftarrow> v;
       (case s of
          [] \<Rightarrow> None
        | b # bs \<Rightarrow> if b = 0x2D then numerals_tail bs 0 0
                    else if IS_NUMERALS b then numerals_tail bs 0 1 else Some 0)
     }
   }"

fun digits_only :: "byte list \<Rightarrow> int option" where
  "digits_only [] = None"
| "digits_only (b # bs) = (if b = 0 then Some 1 else if IS_NUMERALS b then digits_only bs else Some 0)"

definition ndstr_is_naturalnumber :: "byte list \<Rightarrow> int option" where
  "ndstr_is_naturalnumber src = do {
     v \<leftarrow> ndstr_first_valid src;
     s \<leftarrow> v;
     x \<leftarrow> hex_prefix s;
     if x then map_option of_bool (hex_only (drop 2 s))
     else (case s of
       [] \<Rightarrow> None
     | b # bs \<Rightarrow> if b = 0x2B \<or> IS_NUMERALS b then digits_only bs else Some 0)
   }"

text \<open>The loop of \<open>ndstr_read_numerals\<close>: the copied text, the rest and \<open>isok\<close>.\<close>

fun read_numerals_loop :: "byte list \<Rightarrow> nat \<Rightarrow> bool \<Rightarrow> (byte list \<times> byte list \<times> bool) option" where
  "read_numerals_loop [] dot ok = None"
| "read_numerals_loop (b # bs) dot ok =
     (if b = 0 then Some ([], b # bs, ok)
      else if IS_NUMERALS b then map_option (\<lambda>(out, r). (b # out, r)) (read_numerals_loop bs dot True)
      else if b = 0x2E then
        (if dot + 1 > 1 then Some ([], b # bs, False)
         else map_option (\<lambda>(out, r). (b # out, r)) (read_numerals_loop bs (dot + 1) ok))
      else Some ([], b # bs, ok))"

text \<open>The result is the stored text (\<open>None\<close> when nothing is stored), the rest and \<open>isok\<close>.\<close>

definition ndstr_read_numerals :: "byte list \<Rightarrow> (byte list option \<times> byte list \<times> bool) option" where
  "ndstr_read_numerals src = do {
     v \<leftarrow> ndstr_first_valid src;
     s \<leftarrow> v;
     (case s of
        [] \<Rightarrow> None
      | b # bs \<Rightarrow>
          if b = 0x2D \<or> b = 0x2B then
            map_option (\<lambda>(out, r). (Some (b # out), r)) (read_numerals_loop bs 0 False)
          else if b = 0x2E then
            map_option (\<lambda>(out, r). (Some (0x30 # b # out), r)) (read_numerals_loop bs 1 False)
          else if IS_NUMERALS b then
            map_option (\<lambda>(out, r). (Some (b # out), r)) (read_numerals_loop bs 0 True)
          else Some (None, s, False))
   }"

section \<open>Copying words\<close>

text \<open>
  The loop that the parsing routines share: at most \<open>n\<close> bytes (\<open>None\<close>: no limit) of whole characters
  until the terminator or a byte that stops it. The limit is tested before a character is copied, so the
  last one may exceed it. Result: the copied bytes and the rest.
\<close>

lemma word_len_pos [simp]: "0 < word_len code b"
  by (simp add: word_len_def)

function copy_words :: "nat \<Rightarrow> (byte \<Rightarrow> bool) \<Rightarrow> int option \<Rightarrow> byte list \<Rightarrow> (byte list \<times> byte list) option" where
  "copy_words code stop n [] = None"
| "copy_words code stop n (b # bs) =
     (if b = 0 \<or> (case n of None \<Rightarrow> False | Some k \<Rightarrow> k \<le> 0) \<or> stop b then Some ([], b # bs)
      else let k = word_len code b in
      if k \<le> length (b # bs) then
        map_option (\<lambda>(out, r). (take k (b # bs) @ out, r))
          (copy_words code stop (map_option (\<lambda>m. m - int k) n) (drop k (b # bs)))
      else None)"
  by pat_completeness auto
termination
  by (relation "measure (\<lambda>(code, stop, n, src). length src)")
    (simp_all del: drop_Cons)

definition ptr_or_null :: "byte list \<Rightarrow> byte list option option" where
  "ptr_or_null r = (case r of [] \<Rightarrow> None | b # _ \<Rightarrow> Some (if b \<noteq> 0 then Some r else None))"

definition latin_or_digit :: "byte \<Rightarrow> bool" where
  "latin_or_digit a \<longleftrightarrow> IS_NUMERALS a \<or> IS_BIG_LATIN a \<or> IS_LITTLE_LATIN a"

definition ndstr_parse_word :: "nat \<Rightarrow> byte list \<Rightarrow> (byte list option \<times> byte list) option" where
  "ndstr_parse_word code src = do {
     (out, r) \<leftarrow> copy_words code
       (\<lambda>a. \<not> (latin_or_digit a \<or> a = 0x5F \<or> a = 0x24 \<or> a = 0x40 \<or> code \<noteq> E_SRC_CODE_ANSI \<and> a > 0x80)) None src;
     p \<leftarrow> ptr_or_null r;
     Some (p, out)
   }"

definition ndstr_parse_string :: "nat \<Rightarrow> byte list \<Rightarrow> (byte list option \<times> byte list) option" where
  "ndstr_parse_string code src = do {
     (out, r) \<leftarrow> copy_words code (\<lambda>a. a \<le> 0x20) None src;
     p \<leftarrow> ptr_or_null r;
     Some (p, out)
   }"

definition ndstr_parse_word_n :: "nat \<Rightarrow> byte list \<Rightarrow> int \<Rightarrow> (byte list option \<times> byte list) option" where
  "ndstr_parse_word_n code src n = do {
     (out, r) \<leftarrow> copy_words code
       (\<lambda>a. \<not> (latin_or_digit a \<or> a = 0x5F \<or> a = 0x2E \<or> code \<noteq> E_SRC_CODE_ANSI \<and> a > 0x80)) (Some n) src;
     p \<leftarrow> ptr_or_null r;
     Some (p, out)
   }"

text \<open>The stored text is \<open>None\<close> where the code returns \<open>-1\<close> before it stores the terminator.\<close>

definition ndstr_parse_variant_n :: "nat \<Rightarrow> byte list \<Rightarrow> int \<Rightarrow> (int \<times> byte list option) option" where
  "ndstr_parse_variant_n code src n =
     (let stop = (\<lambda>a. \<not> (code \<noteq> E_SRC_CODE_ANSI \<and> a > 0x80 \<or> latin_or_digit a \<or> a = 0x5F \<or> a = 0x2E \<or> a = 0x24))
      in (case src of
        [] \<Rightarrow> None
      | b # _ \<Rightarrow>
          if b \<noteq> 0 \<and> n > 0 \<and> stop b then Some (-1, None)
          else do {
            (out, r) \<leftarrow> copy_words code stop (Some n) src;
            Some (int (length out), Some out)
          }))"

definition ndstr_str_end :: "nat \<Rightarrow> byte list \<Rightarrow> byte \<Rightarrow> (byte list \<times> byte list) option" where
  "ndstr_str_end code src e = do {
     (out, r) \<leftarrow> copy_words code (\<lambda>a. a = e) None src;
     Some (r, out)
   }"

definition ndstr_nstr_end :: "nat \<Rightarrow> byte list \<Rightarrow> byte \<Rightarrow> int \<Rightarrow> (byte list \<times> byte list) option" where
  "ndstr_nstr_end code src e n = do {
     (out, r) \<leftarrow> copy_words code (\<lambda>a. a = e) (Some n) src;
     Some (r, out)
   }"

definition ndstr_str_ansi :: "byte list \<Rightarrow> byte \<Rightarrow> (byte list \<times> byte list) option" where
  "ndstr_str_ansi src e = do {
     (out, r) \<leftarrow> copy_words E_SRC_CODE_ANSI (\<lambda>a. a = e) None src;
     Some (r, out)
   }"

definition ndstr_nstr_ansi :: "byte list \<Rightarrow> byte \<Rightarrow> int \<Rightarrow> (byte list \<times> byte list) option" where
  "ndstr_nstr_ansi src e n = do {
     (out, r) \<leftarrow> copy_words E_SRC_CODE_ANSI (\<lambda>a. a = e) (Some n) src;
     Some (r, out)
   }"

section \<open>Command lines\<close>

text \<open>\<open>endmark\<close> is a signed \<open>char\<close> compared with an unsigned one. After a backslash the next byte is
  copied whatever it is, also the terminator.\<close>

fun read_cmd :: "byte list \<Rightarrow> int \<Rightarrow> byte \<Rightarrow> (byte list \<times> byte list) option" where
  "read_cmd [] n endmark = None"
| "read_cmd (a # s) n endmark =
     (if a = 0 \<or> n \<le> 0 then Some ([], a # s)
      else if a = 0x5C then
        (case s of [] \<Rightarrow> None
         | b # s' \<Rightarrow> map_option (\<lambda>(out, r). (b # out, r)) (read_cmd s' (n - 1) endmark))
      else if uint a = sint endmark then Some ([], s)
      else map_option (\<lambda>(out, r). (a # out, r)) (read_cmd s (n - 1) endmark))"

definition ndstr_read_cmd :: "byte list \<Rightarrow> int \<Rightarrow> byte \<Rightarrow> (byte list option \<times> byte list) option" where
  "ndstr_read_cmd src n endmark = do {
     (out, r) \<leftarrow> read_cmd src n endmark;
     p \<leftarrow> ptr_or_null r;
     Some (p, out)
   }"

text \<open>
  \<open>env\<close> is \<open>getenv\<close>. Every \<open>argv[i]\<close> is a block of \<open>bufize\<close> bytes and storing a text that does not fit
  with its terminator has no value; \<open>ndstrncpy\<close> cuts the value of a variable to the block. One round of
  the loop gives the stored argument and the next text, or the end of the loop (\<open>None\<close> inside).
\<close>

definition ENV_NAME_SIZE :: nat where "ENV_NAME_SIZE = 1024"

definition store_arg :: "nat \<Rightarrow> byte list option \<times> byte list \<Rightarrow> (byte list option \<times> byte list) option option" where
  "store_arg bufize x = (if length (snd x) < bufize then Some (Some x) else None)"

definition parse_command_once ::
  "nat \<Rightarrow> (byte list \<Rightarrow> byte list option) \<Rightarrow> nat \<Rightarrow> byte list \<Rightarrow> (byte list option \<times> byte list) option option" where
  "parse_command_once code env bufize text = (case text of
     [] \<Rightarrow> None
   | b # bs \<Rightarrow>
       if b = 0x24 then do {
         (next, name) \<leftarrow> ndstr_parse_word code bs;
         if length name < ENV_NAME_SIZE then
           (if name \<noteq> [] then
              (case env name of
                 Some v \<Rightarrow> if v \<noteq> [] then Some (Some (next, take bufize v)) else Some None
               | None \<Rightarrow> Some None)
            else Some None)
         else None
       }
       else if b = 0x22 then do {
         x \<leftarrow> ndstr_read_cmd bs (int bufize) 0x22;
         store_arg bufize x
       }
       else do {
         x \<leftarrow> ndstr_parse_string code text;
         store_arg bufize x
       })"

text \<open>\<open>k\<close> arguments more are read at most.\<close>

fun parse_command_loop ::
  "nat \<Rightarrow> (byte list \<Rightarrow> byte list option) \<Rightarrow> nat \<Rightarrow> byte list option \<Rightarrow> nat \<Rightarrow> byte list list option" where
  "parse_command_loop code env bufize next 0 = Some []"
| "parse_command_loop code env bufize next (Suc k) = (case next of
     None \<Rightarrow> Some []
   | Some [] \<Rightarrow> None
   | Some (b # bs) \<Rightarrow>
       if b = 0 then Some []
       else do {
         v \<leftarrow> ndstr_first_valid (b # bs);
         (case v of
            None \<Rightarrow> Some []
          | Some s \<Rightarrow> do {
              x \<leftarrow> parse_command_once code env bufize s;
              (case x of
                 None \<Rightarrow> Some []
               | Some (next, arg) \<Rightarrow> map_option ((#) arg) (parse_command_loop code env bufize next k))
            })
       })"

definition ndstr_parse_command ::
  "nat \<Rightarrow> (byte list \<Rightarrow> byte list option) \<Rightarrow> byte list \<Rightarrow> nat \<Rightarrow> int \<Rightarrow> (int \<times> byte list list) option" where
  "ndstr_parse_command code env input_text bufize number =
     map_option (\<lambda>args. (int (length args), args))
       (parse_command_loop code env bufize (Some input_text) (nat (max 1 number)))"

section \<open>Addresses\<close>

text \<open>\<open>strtol\<close> with base 0, on text without signs, blanks and letters: a leading 0 selects octal; the
  value is cut to \<open>LONG_MAX\<close>; without a digit it is 0 and the pointer does not move.\<close>

definition digits_value :: "nat \<Rightarrow> byte list \<Rightarrow> nat" where
  "digits_value base ds = foldl (\<lambda>v d. v * base + (unat d - 0x30)) 0 ds"

definition strtol0 :: "byte list \<Rightarrow> nat \<times> byte list" where
  "strtol0 s =
     (let base = (if s \<noteq> [] \<and> hd s = 0x30 then 8 else 10);
          dig = (\<lambda>b. 0x30 \<le> b \<and> unat b < 0x30 + base)
      in (min (digits_value base (takeWhile dig s)) (2 ^ 63 - 1), dropWhile dig s))"

fun ip_chars :: "byte list \<Rightarrow> bool option" where
  "ip_chars [] = None"
| "ip_chars (b # bs) =
     (if b = 0 then Some True else if IS_NUMERALS b \<or> b = 0x2E \<or> b = 0x25 then ip_chars bs else Some False)"

definition ip_part :: "byte list \<Rightarrow> byte \<times> byte list" where
  "ip_part s = (if hd s = 0x25 then (0xFF, tl s) else (of_nat (fst (strtol0 s)), snd (strtol0 s)))"

fun ip_parts :: "nat \<Rightarrow> byte list \<Rightarrow> (byte list \<times> byte list) option option" where
  "ip_parts 0 s = Some (Some ([], s))"
| "ip_parts (Suc i) s = (case s of
     [] \<Rightarrow> None
   | b # _ \<Rightarrow>
       if b = 0 then Some None
       else (case ip_part s of
         (_, []) \<Rightarrow> None
       | (v, c # s') \<Rightarrow> if c = 0 then Some None
           else map_option (map_option (\<lambda>(vs, r). (v # vs, r))) (ip_parts i s')))"

text \<open>The result is \<open>-1\<close>, or 0 with the four bytes of the address.\<close>

definition ndstr_get_ip :: "byte list option \<Rightarrow> (int \<times> byte list) option" where
  "ndstr_get_ip src = (case src of
     None \<Rightarrow> Some (-1, [])
   | Some s \<Rightarrow> do {
       ok \<leftarrow> ip_chars s;
       if \<not> ok then Some (-1, [])
       else do {
         x \<leftarrow> ip_parts 3 s;
         (case x of
            None \<Rightarrow> Some (-1, [])
          | Some (vs, r) \<Rightarrow> (case r of
              [] \<Rightarrow> None
            | b # _ \<Rightarrow> if b = 0 then Some (-1, []) else Some (0, vs @ [fst (ip_part r)])))
       }
     })"

section \<open>Comparing and searching\<close>

definition to_big :: "byte \<Rightarrow> byte" where
  "to_big a = (if IS_LITTLE_LATIN a then LITTLE_2_BIG a else a)"

fun ndstricmp :: "byte list \<Rightarrow> byte list \<Rightarrow> int option" where
  "ndstricmp (a # src) (b # desc) =
     (let ret = sint (to_big a) - sint (to_big b)
      in if ret \<noteq> 0 then Some ret else if a = 0 then Some ret else ndstricmp src desc)"
| "ndstricmp _ _ = None"

text \<open>The other case of a letter.\<close>

definition other_case :: "byte \<Rightarrow> byte option" where
  "other_case a = (if IS_BIG_LATIN a then Some (BIG_2_LITTLE a)
     else if IS_LITTLE_LATIN a then Some (LITTLE_2_BIG a) else None)"

fun ndstricmp_n :: "byte list \<Rightarrow> byte list \<Rightarrow> int \<Rightarrow> int option" where
  "ndstricmp_n (a # src) (b # desc) n =
     (let ret = sint a - sint b in
      if ret \<noteq> 0 \<and> other_case a \<noteq> Some b then Some ret
      else if a \<noteq> 0 \<and> n - 1 > 0 then ndstricmp_n src desc (n - 1) else Some ret)"
| "ndstricmp_n _ _ n = None"

text \<open>One attempt of \<open>ndstristr\<close>: whether \<open>desc\<close> stands at the start of the source.\<close>

fun stristr_at :: "byte list \<Rightarrow> byte list \<Rightarrow> bool option" where
  "stristr_at tmp [] = None"
| "stristr_at tmp (b # aid) =
     (if b = 0 then Some True
      else case tmp of
        [] \<Rightarrow> None
      | a # tmp' \<Rightarrow> if a \<noteq> b \<and> other_case a \<noteq> Some b then Some False else stristr_at tmp' aid)"

fun ndstristr :: "byte list \<Rightarrow> byte list \<Rightarrow> byte list option option" where
  "ndstristr [] desc = None"
| "ndstristr (b # bs) desc =
     (if b = 0 then Some None
      else do {
        hit \<leftarrow> stristr_at (b # bs) desc;
        if hit then Some (Some (b # bs)) else ndstristr bs desc
      })"

text \<open>Backwards from position \<open>i\<close> of a block to position \<open>e\<close>.\<close>

fun ndstr_reverse_chr :: "byte list \<Rightarrow> nat \<Rightarrow> byte \<Rightarrow> nat \<Rightarrow> nat option option" where
  "ndstr_reverse_chr mem i ch e =
     (if e \<le> i then
        (if i < length mem then
           (if mem ! i = ch then Some (Some i)
            else if i = 0 then Some None else ndstr_reverse_chr mem (i - 1) ch e)
         else None)
      else Some None)"

declare ndstr_reverse_chr.simps [simp del]

section \<open>Hexadecimal numbers\<close>

text \<open>\<open>atoi\<close> and \<open>atoll\<close> of the C library: blanks, a sign, digits; a value outside the \<open>w\<close>-bit range is
  undefined.\<close>

definition c_isspace :: "byte \<Rightarrow> bool" where
  "c_isspace b \<longleftrightarrow> b = 0x20 \<or> 0x09 \<le> b \<and> b \<le> 0x0D"

definition c_atoi :: "nat \<Rightarrow> byte list \<Rightarrow> int option" where
  "c_atoi w src =
     (let s = dropWhile c_isspace src;
          neg = (s \<noteq> [] \<and> hd s = 0x2D);
          s = (if s \<noteq> [] \<and> (hd s = 0x2D \<or> hd s = 0x2B) then tl s else s);
          v = int (digits_value 10 (takeWhile IS_NUMERALS s));
          v = (if neg then - v else v)
      in if dropWhile IS_NUMERALS s = [] then None
         else if - (2 ^ (w - 1)) \<le> v \<and> v < 2 ^ (w - 1) then Some v else None)"

fun hex_loop :: "byte list \<Rightarrow> 64 word \<Rightarrow> 64 word option" where
  "hex_loop [] v = None"
| "hex_loop (b # bs) v =
     (if b = 0 then Some v
      else if getBCDindex b = -1 then Some 0
      else hex_loop bs (push_bit 4 v OR word_of_int (getBCDindex b)))"

definition ndstr_atoi_hex :: "byte list \<Rightarrow> 64 word option" where
  "ndstr_atoi_hex src = do {
     x \<leftarrow> hex_prefix src;
     if x then hex_loop (drop 2 src) 0 else map_option word_of_int (c_atoi 32 src)
   }"

definition ndstr_atoll_hex :: "byte list \<Rightarrow> 64 word option" where
  "ndstr_atoll_hex src = do {
     x \<leftarrow> hex_prefix src;
     if x then hex_loop (drop 2 src) 0 else map_option word_of_int (c_atoi 64 src)
   }"

fun ndstr_to_little :: "byte list \<Rightarrow> byte list option" where
  "ndstr_to_little [] = None"
| "ndstr_to_little (a # src) =
     (if a = 0 then Some (a # src)
      else map_option ((#) (if IS_BIG_LATIN a then BIG_2_LITTLE a else a)) (ndstr_to_little src))"

section \<open>Encodings\<close>

definition cstring :: "string \<Rightarrow> byte list" where
  "cstring s = cstr (map (\<lambda>c. of_nat (of_char c)) s)"

definition ndstr_set_code :: "nat \<Rightarrow> nat \<Rightarrow> nat \<times> nat" where
  "ndstr_set_code code type = (code, type)"

definition nd_get_encode_name :: "nat \<Rightarrow> string" where
  "nd_get_encode_name t =
     (if t = E_SRC_CODE_GBK then ''gbk'' else if t = E_SRC_CODE_UTF_8 then ''utf8'' else ''ansi'')"

definition nd_get_encode_val :: "byte list \<Rightarrow> nat option" where
  "nd_get_encode_val t = do {
     a \<leftarrow> ndstricmp t (cstring ''gbk'');
     if a = 0 then Some E_SRC_CODE_GBK else do {
     a \<leftarrow> ndstricmp t (cstring ''gb2312'');
     if a = 0 then Some E_SRC_CODE_GBK else do {
     a \<leftarrow> ndstricmp t (cstring ''gb-2312'');
     if a = 0 then Some E_SRC_CODE_GBK else do {
     a \<leftarrow> ndstricmp t (cstring ''utf8'');
     if a = 0 then Some E_SRC_CODE_UTF_8 else do {
     a \<leftarrow> ndstricmp t (cstring ''utf-8'');
     Some (if a = 0 then E_SRC_CODE_UTF_8 else E_SRC_CODE_ANSI) }}}}
   }"

section \<open>Case\<close>

lemma sint_inj: "sint (a :: 'a::len word) = sint b \<longleftrightarrow> a = b"
  by (metis signed_word_eqI)

lemma to_big_zero [simp]: "to_big a = 0 \<longleftrightarrow> a = 0"
  by (auto simp: to_big_def IS_LITTLE_LATIN_def LITTLE_2_BIG_def)

lemma to_big_0 [simp]: "to_big 0 = 0"
  by simp

lemma ndstricmp_correct:
  assumes "0 \<notin> set s" "0 \<notin> set t"
  shows "\<exists>r. ndstricmp (cstr s @ x) (cstr t @ y) = Some r \<and> (r = 0 \<longleftrightarrow> map to_big s = map to_big t)"
  using assms
proof (induction s arbitrary: t)
  case Nil
  then show ?case by (cases t) (auto simp: Let_def signed_eq_0_iff)
next
  case (Cons a s)
  then show ?case
    by (cases t) (auto simp: Let_def signed_eq_0_iff sint_inj)
qed

lemma other_case_0 [simp]: "other_case 0 = None" by (simp add: other_case_def IS_BIG_LATIN_def IS_LITTLE_LATIN_def)

text \<open>Bounded comparison. When two texts agree up to the case of letters in their first \<open>n\<close> bytes,
  \<open>ndstricmp_n\<close> returns the difference of the last two bytes compared: 0 exactly when these are
  identical, so a difference of case in the last byte is reported as a difference of the texts.\<close>

theorem ndstricmp_n_last:
  assumes len: "length s = n" "length t = n" "0 < n" and z: "0 \<notin> set s"
    and eq: "\<And>i. i < n \<Longrightarrow> s ! i = t ! i \<or> other_case (s ! i) = Some (t ! i)"
  shows "ndstricmp_n (s @ x) (t @ y) (int n) = Some (sint (s ! (n - 1)) - sint (t ! (n - 1)))"
  using assms
proof (induction n arbitrary: s t)
  case (Suc n)
  obtain a s' b t' where st: "s = a # s'" "t = b # t'" using Suc.prems by (cases s; cases t) auto
  have ab: "a = b \<or> other_case a = Some b" using Suc.prems(5) [of 0] st by simp
  show ?case
  proof (cases n)
    case 0
    then show ?thesis using Suc.prems st ab by (auto simp: Let_def)
  next
    case (Suc m)
    have "s' ! i = t' ! i \<or> other_case (s' ! i) = Some (t' ! i)" if "i < n" for i
      using Suc.prems(5) [of "Suc i"] that st by simp
    then have "ndstricmp_n (s' @ x) (t' @ y) (int n) = Some (sint (s' ! (n - 1)) - sint (t' ! (n - 1)))"
      using Suc.prems Suc st by (intro Suc.IH) auto
    then show ?thesis using Suc Suc.prems st ab by (auto simp: Let_def)
  qed
qed simp


theorem ndstricmp_n_last_witness:
  "ndstricmp_n (cstring ''GET'') (cstring ''get'') 3 = Some (-32) \<and> ndstricmp_n (cstring ''GET'') (cstring ''geT'') 3 = Some 0"
proof -
  let ?s = "[0x47, 0x45, 0x54] :: byte list"
  have c: "cstring ''GET'' = ?s @ [0]" "cstring ''get'' = [0x67, 0x65, 0x74] @ [0]" "cstring ''geT'' = [0x67, 0x65, 0x54] @ [0]"
    by (simp_all add: cstring_def)
  have eq: "?s ! i = [0x67, 0x65, 0x74] ! i \<or> other_case (?s ! i) = Some ([0x67, 0x65, 0x74] ! i)"
    "?s ! i = [0x67, 0x65, 0x54] ! i \<or> other_case (?s ! i) = Some ([0x67, 0x65, 0x54] ! i)" if "i < 3" for i
    using that by (auto simp: less_Suc_eq numeral_3_eq_3 other_case_def IS_BIG_LATIN_def BIG_2_LITTLE_def)
  show ?thesis
    using ndstricmp_n_last [of ?s 3 "[0x67, 0x65, 0x74]" "[0]" "[0]", OF _ _ _ _ eq(1)]
      ndstricmp_n_last [of ?s 3 "[0x67, 0x65, 0x54]" "[0]" "[0]", OF _ _ _ _ eq(2)]
    by (simp add: c)
qed

section \<open>Whole characters\<close>

text \<open>A text of whole characters: every lead byte is followed by the bytes it announces.\<close>

function whole_chars :: "nat \<Rightarrow> byte list \<Rightarrow> bool" where
  "whole_chars code [] = True"
| "whole_chars code (b # bs) = (let k = word_len code b in k \<le> length (b # bs) \<and> whole_chars code (drop k (b # bs)))"
  by pat_completeness auto
termination
  by (relation "measure (\<lambda>(code, src). length src)") (simp_all del: drop_Cons)

lemma copy_words_split: 
  "copy_words code stop n src = Some (out, r) \<Longrightarrow> out @ r = src \<and> r \<noteq> [] \<and>
    (hd r = 0 \<or> stop (hd r) \<or> (\<exists>k. n = Some k \<and> k \<le> int (length out)))"
proof (induction code stop n src arbitrary: out rule: copy_words.induct)
  case (2 code stop n b bs)
  show ?case
  proof (cases "b = 0 \<or> (case n of None \<Rightarrow> False | Some k \<Rightarrow> k \<le> 0) \<or> stop b")
    case True
    then show ?thesis using "2.prems" by (auto split: option.splits)
  next
    case False
    let ?k = "word_len code b"
    obtain o' where k: "?k \<le> length (b # bs)" and o': "copy_words code stop (map_option (\<lambda>m. m - int ?k) n) (drop ?k (b # bs)) = Some (o', r)"
      "out = take ?k (b # bs) @ o'"
      using "2.prems" False by (auto simp: Let_def split: if_splits)
    have ih: "o' @ r = drop ?k (b # bs) \<and> r \<noteq> [] \<and>
        (hd r = 0 \<or> stop (hd r) \<or> (\<exists>m. map_option (\<lambda>m. m - int ?k) n = Some m \<and> m \<le> int (length o')))"
      using "2.IH" [OF False refl k o'(1)] .
    have "out @ r = b # bs" using ih by (simp add: o'(2) del: take_Cons drop_Cons)
    moreover have "length out = ?k + length o'" using k by (simp add: o'(2) del: take_Cons)
    ultimately show ?thesis using ih by (cases n) auto
  qed
qed simp

lemma copy_words_whole:
  "whole_chars code s \<Longrightarrow> 0 \<notin> set s \<Longrightarrow> \<exists>out r. copy_words code stop n (s @ 0 # x) = Some (out, r)"
proof (induction code s arbitrary: n rule: whole_chars.induct)
  case (2 code b bs)
  let ?k = "word_len code b"
  have k: "?k \<le> length (b # bs)" "whole_chars code (drop ?k (b # bs))" using "2.prems" by (simp_all add: Let_def)
  have "0 \<notin> set (drop ?k (b # bs))" using "2.prems"(2) by (meson in_set_dropD)
  moreover have "drop ?k (b # bs @ 0 # x) = drop ?k (b # bs) @ 0 # x"
    using drop_append [of ?k "b # bs" "0 # x"] k(1) by simp
  moreover obtain out r where
    "copy_words code stop (map_option (\<lambda>m. m - int ?k) n) (drop ?k (b # bs) @ 0 # x) = Some (out, r)"
    using "2.IH" [OF refl k(2)] calculation(1) by blast
  ultimately show ?case using k(1)
    by (auto simp: Let_def simp del: drop_Cons take_Cons whole_chars.simps)
qed simp

lemma copy_words_truncated:
  "whole_chars code s \<Longrightarrow> 0 \<notin> set s \<Longrightarrow> \<forall>a \<in> set s. \<not> stop a \<Longrightarrow> b \<noteq> 0 \<Longrightarrow> \<not> stop b \<Longrightarrow> 1 < word_len code b \<Longrightarrow>
    copy_words code stop None (s @ [b, 0]) = None"
proof (induction code s rule: whole_chars.induct)
  case (1 code)
  then show ?case by (cases "word_len code b = 2") (auto simp: Let_def numeral_2_eq_2)
next
  case (2 code a bs)
  let ?k = "word_len code a"
  have k: "?k \<le> length (a # bs)" "whole_chars code (drop ?k (a # bs))" using "2.prems"(1) by (simp_all add: Let_def)
  have d: "0 \<notin> set (drop ?k (a # bs))" "\<forall>c \<in> set (drop ?k (a # bs)). \<not> stop c"
    using "2.prems"(2,3) by (meson in_set_dropD)+
  moreover have "drop ?k (a # bs @ [b, 0]) = drop ?k (a # bs) @ [b, 0]"
    using drop_append [of ?k "a # bs" "[b, 0]"] k(1) by simp
  ultimately show ?case using "2.IH" [OF refl k(2) d "2.prems"(4-6)] k(1) "2.prems"(2,3)
    by (auto simp: Let_def simp del: drop_Cons take_Cons whole_chars.simps)
qed
text \<open>Reading to an end mark. On a text of whole characters \<open>ndstr_str_end\<close> stays inside the string,
  copies it up to the mark or the terminator and returns the place where it stopped. When the text ends
  in the lead byte of a longer character, the copy takes the terminator as part of the character and
  reads past the end of the string.\<close>

theorem ndstr_str_end_chars:
  assumes "whole_chars code s" "0 \<notin> set s"
  shows "(\<exists>out r. ndstr_str_end code (cstr s) e = Some (r, out) \<and> out @ r = cstr s \<and> (hd r = 0 \<or> hd r = e)) \<and>
    (1 < word_len code b \<and> b \<noteq> 0 \<and> b \<noteq> e \<and> e \<notin> set s \<longrightarrow> ndstr_str_end code (s @ [b, 0]) e = None)"
proof -
  obtain out r where "copy_words code (\<lambda>a. a = e) None (cstr s) = Some (out, r)"
    using copy_words_whole [OF assms] by blast
  moreover have "e \<notin> set s \<Longrightarrow> \<forall>a \<in> set s. a \<noteq> e" by blast
  ultimately show ?thesis
    using copy_words_split [of code "\<lambda>a. a = e" None "cstr s" out r] copy_words_truncated [OF assms, of "\<lambda>a. a = e" b]
    by (simp add: ndstr_str_end_def)
qed

theorem ndstr_str_end_chars_witness:
  "(\<exists>out r. ndstr_str_end E_SRC_CODE_UTF_8 (cstr [0x61, 0xC3, 0xA9]) 0x3A = Some (r, out) \<and> out @ r = [0x61, 0xC3, 0xA9, 0] \<and>
    (hd r = 0 \<or> hd r = 0x3A)) \<and> ndstr_str_end E_SRC_CODE_UTF_8 [0x61, 0xC3, 0xA9, 0xE4, 0] 0x3A = None"
proof -
  have "whole_chars E_SRC_CODE_UTF_8 [0x61, 0xC3, 0xA9]" "1 < word_len E_SRC_CODE_UTF_8 0xE4"
    by (simp_all add: word_len_def)
  with ndstr_str_end_chars [of E_SRC_CODE_UTF_8 "[0x61, 0xC3, 0xA9]" "0x3A" "0xE4"] show ?thesis by simp
qed

section \<open>Dotted addresses\<close>

text \<open>Decimal text without leading zeros.\<close>

fun dec_text :: "nat \<Rightarrow> byte list" where
  "dec_text n = (if n < 10 then [of_nat (0x30 + n)] else dec_text (n div 10) @ [of_nat (0x30 + n mod 10)])"

declare dec_text.simps [simp del]

lemma unat_digit: "i < 10 \<Longrightarrow> unat (of_nat (48 + i) :: byte) = 48 + i"
  by (rule unat_of_nat_eq) simp

lemma dec_text_digits: "b \<in> set (dec_text n) \<Longrightarrow> 48 \<le> unat b \<and> unat b < 58"
proof (induction n rule: dec_text.induct)
  case (1 n)
  then show ?case
    using dec_text.simps [of n] unat_digit [of n] unat_digit [of "n mod 10"]
    by (auto split: if_splits)
qed

lemma dec_text_value: "digits_value 10 (dec_text n) = n"
proof (induction n rule: dec_text.induct)
  case (1 n)
  then show ?case
    using dec_text.simps [of n] unat_digit [of n] unat_digit [of "n mod 10"]
    by (auto simp: digits_value_def split: if_splits)
qed

lemma dec_text_hd: "dec_text n \<noteq> [] \<and> (hd (dec_text n) = 0x30 \<longleftrightarrow> n = 0)"
proof (induction n rule: dec_text.induct)
  case (1 n)
  have "(of_nat (48 + n) = (48 :: byte)) \<longleftrightarrow> n = 0" if "n < 10"
    using unat_digit [OF that] by (auto simp: word_unat_eq_iff)
  with 1 show ?case
    using dec_text.simps [of n] by auto
qed
lemma strtol0_dec:
  assumes "\<not> IS_NUMERALS c" "n < 256"
  shows "strtol0 (dec_text n @ c # r) = (n, c # r)"
proof -
  have c: "\<not> (48 \<le> c \<and> unat c < 58)" using assms(1) by (auto simp: IS_NUMERALS_def word_le_nat_alt)
  have d: "\<And>b. b \<in> set (dec_text n) \<Longrightarrow> 48 \<le> b \<and> unat b < 58"
    using dec_text_digits by (auto simp: word_le_nat_alt)
  show ?thesis
  proof (cases "n = 0")
    case True
    then have "dec_text n = [0x30]" by (simp add: dec_text.simps)
    then show ?thesis using c True by (auto simp: strtol0_def Let_def digits_value_def)
  next
    case False
    then have h: "dec_text n @ c # r \<noteq> []" "hd (dec_text n @ c # r) \<noteq> 0x30" using dec_text_hd [of n] by auto
    have "takeWhile (\<lambda>b. 48 \<le> b \<and> unat b < 58) (dec_text n @ c # r) = dec_text n"
      "dropWhile (\<lambda>b. 48 \<le> b \<and> unat b < 58) (dec_text n @ c # r) = c # r"
      using c d by (subst takeWhile_append2 dropWhile_append2; auto)+
    then show ?thesis using h assms(2) by (simp add: strtol0_def Let_def dec_text_value)
  qed
qed

lemma ip_chars_append: "\<forall>b \<in> set s. IS_NUMERALS b \<or> b = 0x2E \<Longrightarrow> ip_chars (s @ 0 # x) = Some True"
  by (induction s) (auto simp: IS_NUMERALS_def)

lemma dec_text_numerals: "b \<in> set (dec_text n) \<Longrightarrow> IS_NUMERALS b"
  using dec_text_digits [of b n] by (simp add: IS_NUMERALS_def word_le_nat_alt)

lemma dec_text_Cons: "\<exists>b bs. dec_text n = b # bs \<and> b \<noteq> 0 \<and> b \<noteq> 0x25"
proof -
  obtain b bs where b: "dec_text n = b # bs" using dec_text_hd [of n] by (cases "dec_text n") auto
  with dec_text_numerals [of b n] show ?thesis by (auto simp: IS_NUMERALS_def)
qed

lemma ip_parts_dec:
  assumes "n < 256"
  shows "ip_parts (Suc i) (dec_text n @ 0x2E # r) = map_option (map_option (\<lambda>(vs, r). (of_nat n # vs, r))) (ip_parts i r)"
    "fst (ip_part (dec_text n @ 0 # r)) = of_nat n"
proof -
  obtain b bs where b: "dec_text n = b # bs" "b \<noteq> 0" "b \<noteq> 0x25" using dec_text_Cons by blast
  show "ip_parts (Suc i) (dec_text n @ 0x2E # r) = map_option (map_option (\<lambda>(vs, r). (of_nat n # vs, r))) (ip_parts i r)"
    "fst (ip_part (dec_text n @ 0 # r)) = of_nat n"
    using strtol0_dec [OF _ assms, of "0x2E" r] strtol0_dec [OF _ assms, of 0 r] b
    by (simp_all add: ip_part_def IS_NUMERALS_def)
qed

text \<open>Dotted addresses. The decimal text of four numbers below 256 separated by dots is read back as
  these four bytes, in order.\<close>

theorem ndstr_get_ip_dotted:
  assumes "a < 256" "b < 256" "c < 256" "d < 256"
  shows "ndstr_get_ip (Some (dec_text a @ 0x2E # dec_text b @ 0x2E # dec_text c @ 0x2E # dec_text d @ 0 # x)) =
    Some (0, [of_nat a, of_nat b, of_nat c, of_nat d])"
proof -
  let ?t = "dec_text a @ 0x2E # dec_text b @ 0x2E # dec_text c @ 0x2E # dec_text d"
  have "ip_chars (?t @ 0 # x) = Some True"
    using dec_text_numerals by (intro ip_chars_append) auto
  moreover have "ip_parts 3 (?t @ 0 # x) = Some (Some ([of_nat a, of_nat b, of_nat c], dec_text d @ 0 # x))"
    using assms by (simp add: ip_parts_dec(1) numeral_3_eq_3 del: ip_parts.simps(2))
  moreover obtain e es where "dec_text d = e # es" "e \<noteq> 0" using dec_text_Cons by blast
  moreover have "fst (ip_part (dec_text d @ 0 # x)) = of_nat d" by (rule ip_parts_dec(2) [OF assms(4)])
  ultimately show ?thesis by (simp add: ndstr_get_ip_def)
qed

theorem ndstr_get_ip_dotted_witness:
  "ndstr_get_ip (Some (cstring ''192.168.0.1'')) = Some (0, [192, 168, 0, 1])"
proof -
  have "cstring ''192.168.0.1'' = dec_text 192 @ 0x2E # dec_text 168 @ 0x2E # dec_text 0 @ 0x2E # dec_text 1 @ 0 # []"
    by (simp add: cstring_def dec_text.simps)
  then show ?thesis using ndstr_get_ip_dotted [of 192 168 0 1 "[]"] by (simp only:) simp
qed

section \<open>Quoted arguments\<close>

definition plain_text :: "byte list \<Rightarrow> bool" where
  "plain_text s \<longleftrightarrow> (\<forall>b \<in> set s. b \<noteq> 0 \<and> b \<noteq> 0x22 \<and> b \<noteq> 0x5C)"

lemma read_cmd_quoted:
  "plain_text s \<Longrightarrow> 0 \<le> n \<Longrightarrow>
    read_cmd (s @ 0x22 # r) n 0x22 =
      (if int (length s) < n then Some (s, r) else Some (take (nat n) s, drop (nat n) s @ 0x22 # r))"
proof (induction s arbitrary: n)
  case (Cons a s)
  have "uint a \<noteq> 0x22" using Cons.prems(1) by (auto simp: plain_text_def word_uint_eq_iff)
  moreover have "nat n = Suc (nat (n - 1))" if "n > 0" using that by linarith
  moreover have "plain_text s" using Cons.prems(1) by (simp add: plain_text_def)
  ultimately show ?case using Cons.prems Cons.IH [of "n - 1"]
    by (auto simp: plain_text_def)
qed auto

text \<open>Quoted arguments. A quoted argument without quotes and backslashes inside is parsed to its text
  when it is shorter than an argument buffer; from the size of the buffer on the terminator is written
  past the buffer.\<close>

theorem ndstr_parse_command_quoted:
  assumes "plain_text s" "0 < bufize"
  shows "ndstr_parse_command code env (0x22 # s @ [0x22, 0]) bufize number =
    (if length s < bufize then Some (1, [s]) else None)"
proof -
  obtain k where k: "nat (max 1 number) = Suc k" by (cases "nat (max 1 number)") auto
  have end_: "parse_command_loop code env bufize None k = Some []" by (cases k) simp_all
  have "parse_command_once code env bufize (0x22 # s @ [0x22, 0]) = 
    (if length s < bufize then Some (Some (None, s)) else None)"
    using read_cmd_quoted [OF assms(1), of "int bufize" "[0]"]
    by (auto simp: parse_command_once_def ndstr_read_cmd_def store_arg_def ptr_or_null_def
       split: list.splits bind_splits)
  then show ?thesis
    unfolding ndstr_parse_command_def k by (simp add: end_)
qed
theorem ndstr_parse_command_quoted_witness:
  "ndstr_parse_command E_SRC_CODE_GBK (\<lambda>_. None) (cstring ''\"hello\"'') 6 4 = Some (1, [[0x68, 0x65, 0x6C, 0x6C, 0x6F]]) \<and>
   ndstr_parse_command E_SRC_CODE_GBK (\<lambda>_. None) (cstring ''\"hello\"'') 5 4 = None"
proof -
  have c: "cstring ''\"hello\"'' = 0x22 # [0x68, 0x65, 0x6C, 0x6C, 0x6F] @ [0x22, 0]" by (simp add: cstring_def)
  have p: "plain_text [0x68, 0x65, 0x6C, 0x6C, 0x6F]" by (simp add: plain_text_def)
  from ndstr_parse_command_quoted [OF p, of 6 E_SRC_CODE_GBK "\<lambda>_. None" 4]
    ndstr_parse_command_quoted [OF p, of 5 E_SRC_CODE_GBK "\<lambda>_. None" 4]
  show ?thesis unfolding c by simp
qed

end
