(* ===== verification/Msg_Entry.thy ===== *)
theory Msg_Entry
  imports Tcp Nd_Str
begin

text \<open>
  The message tables and the dispatch of user messages of \<^verbatim>\<open>src/nd_net/src/nd_msgentry.c\<close>. A table
  has \<open>main_num\<close> groups of 64 entries. An entry is a null pointer, a function or the text of a script;
  functions are identified by numbers, and what a call does is the parameter \<open>handlers\<close>. The printing of
  messages and the log lines are left out. A null table that the code dereferences has no value.
\<close>

section \<open>Tables\<close>

definition SUB_MSG_NUM :: nat where "SUB_MSG_NUM = 64"
definition MAX_MAIN_NUM :: int where "MAX_MAIN_NUM = 256"
definition NET_MSG_NAME_SIZE :: nat where "NET_MSG_NAME_SIZE = 64"

datatype entry_ptr = NullEntry | FuncEntry nat | ScriptEntry "byte list"

text \<open>\<open>ename\<close> is the contents of the array \<open>name\<close> up to its first null character; with 64 characters
  there is none.\<close>

record nd_msg_entry_node =
  elevel :: u16
  sys_msg :: bool
  is_log :: bool
  is_script :: bool
  is_print :: bool
  mentry :: entry_ptr
  ename :: "byte list"

record sub_msgentry =
  is_close :: bool
  msg_buf :: "nd_msg_entry_node list"

record nd_msgentry_root =
  main_num :: u16
  msgid_base :: u16
  script_engine :: nat
  script_entry :: "nat option"
  def_entry :: "nat option"
  print_entry :: "nat option"
  sub_buf :: "sub_msgentry list"

definition empty_entry :: nd_msg_entry_node where
  "empty_entry = \<lparr>elevel = 0, sys_msg = False, is_log = False, is_script = False, is_print = False,
     mentry = NullEntry, ename = []\<rparr>"

definition create_msgroot :: "int \<Rightarrow> int \<Rightarrow> nd_msgentry_root" where
  "create_msgroot max_mainmsg base =
     \<lparr>main_num = word_of_int max_mainmsg, msgid_base = word_of_int base, script_engine = 0, script_entry = None,
      def_entry = None, print_entry = None,
      sub_buf = replicate (nat max_mainmsg) \<lparr>is_close = False, msg_buf = replicate SUB_MSG_NUM empty_entry\<rparr>\<rparr>"

text \<open>The table of a node is \<open>None\<close> for a null \<open>msg_handle\<close>; \<open>mem\<close> is whether \<open>malloc\<close> succeeds.\<close>

definition nd_msgtable_create :: "nd_msgentry_root option \<Rightarrow> int \<Rightarrow> int \<Rightarrow> bool \<Rightarrow> int \<times> nd_msgentry_root option" where
  "nd_msgtable_create tab mainmsg_num base_msgid mem =
     (if mainmsg_num > MAX_MAIN_NUM \<or> mainmsg_num \<le> 0 then (-1, tab)
      else if mem then (0, Some (create_msgroot mainmsg_num base_msgid)) else (-1, None))"

definition nd_msgtable_destroy :: "nd_msgentry_root option \<Rightarrow> nd_msgentry_root option" where
  "nd_msgtable_destroy tab = None"

section \<open>Slots\<close>

text \<open>\<open>main_index\<close> is computed in \<open>int\<close> and cut to eight bits.\<close>

definition main_index :: "nd_msgentry_root \<Rightarrow> byte \<Rightarrow> nat" where
  "main_index root maxid = unat (maxid - ucast (msgid_base root))"

definition nd_msgentry_get_node :: "nd_msgentry_root option \<Rightarrow> byte \<Rightarrow> byte \<Rightarrow> (nat \<times> nat) option" where
  "nd_msgentry_get_node tab maxid minid = (case tab of
     None \<Rightarrow> None
   | Some root \<Rightarrow>
       if main_index root maxid \<ge> unat (main_num root) then None
       else if unat minid \<ge> SUB_MSG_NUM then None
       else Some (main_index root maxid, unat minid))"

definition nd_msgentry_get_node_run :: "nd_msgentry_root option \<Rightarrow> byte \<Rightarrow> byte \<Rightarrow> (nat \<times> nat) option" where
  "nd_msgentry_get_node_run tab maxid minid =
     (if unat minid \<ge> SUB_MSG_NUM then None
      else case tab of
        None \<Rightarrow> None
      | Some root \<Rightarrow>
          if main_index root maxid \<ge> unat (main_num root) then None
          else if is_close (sub_buf root ! main_index root maxid) then None
          else Some (main_index root maxid, unat minid))"

definition entry_at :: "nd_msgentry_root \<Rightarrow> nat \<times> nat \<Rightarrow> nd_msg_entry_node" where
  "entry_at root ij = msg_buf (sub_buf root ! fst ij) ! snd ij"

definition entry_update ::
  "nd_msgentry_root \<Rightarrow> nat \<times> nat \<Rightarrow> (nd_msg_entry_node \<Rightarrow> nd_msg_entry_node) \<Rightarrow> nd_msgentry_root" where
  "entry_update root ij f =
     (let g = sub_buf root ! fst ij
      in root\<lparr>sub_buf := (sub_buf root)[fst ij := g\<lparr>msg_buf := (msg_buf g)[snd ij := f (msg_buf g ! snd ij)]\<rparr>]\<rparr>)"

section \<open>Operations\<close>

definition nd_msgentry_def_handler :: "nd_msgentry_root option \<Rightarrow> nat option \<Rightarrow> int \<times> nd_msgentry_root option" where
  "nd_msgentry_def_handler tab func = (case tab of
     None \<Rightarrow> (-1, None) | Some root \<Rightarrow> (0, Some (root\<lparr>def_entry := func\<rparr>)))"

definition nd_msgentry_get_func :: "nd_msgentry_root option \<Rightarrow> byte \<Rightarrow> byte \<Rightarrow> entry_ptr" where
  "nd_msgentry_get_func tab maxid minid = (case (tab, nd_msgentry_get_node tab maxid minid) of
     (Some root, Some ij) \<Rightarrow> if is_script (entry_at root ij) then NullEntry else mentry (entry_at root ij)
   | _ \<Rightarrow> NullEntry)"

definition nd_msgentry_is_handled :: "nd_msgentry_root option \<Rightarrow> byte \<Rightarrow> byte \<Rightarrow> bool" where
  "nd_msgentry_is_handled tab maxid minid = (case (tab, nd_msgentry_get_node tab maxid minid) of
     (Some root, Some ij) \<Rightarrow> mentry (entry_at root ij) \<noteq> NullEntry
   | _ \<Rightarrow> False)"

definition nd_msgentry_get_name :: "nd_msgentry_root option \<Rightarrow> byte \<Rightarrow> byte \<Rightarrow> byte list option" where
  "nd_msgentry_get_name tab maxid minid = (case (tab, nd_msgentry_get_node tab maxid minid) of
     (Some root, Some ij) \<Rightarrow> Some (ename (entry_at root ij))
   | _ \<Rightarrow> None)"

definition func_entry :: "nat option \<Rightarrow> entry_ptr" where
  "func_entry f = (case f of None \<Rightarrow> NullEntry | Some g \<Rightarrow> FuncEntry g)"

text \<open>\<open>func\<close> and \<open>name\<close> are \<open>None\<close> for null pointers. The copy is \<open>strncpy\<close> with at most 64 characters.\<close>

definition fill_entry :: "nat option \<Rightarrow> int \<Rightarrow> byte list option \<Rightarrow> nd_msg_entry_node \<Rightarrow> nd_msg_entry_node" where
  "fill_entry func l name e =
     (let e = e\<lparr>mentry := func_entry func, elevel := word_of_int l, is_script := False\<rparr>
      in (case name of
            Some s \<Rightarrow> if s \<noteq> [] then e\<lparr>ename := take NET_MSG_NAME_SIZE s\<rparr> else e
          | None \<Rightarrow> e))"

definition nd_msgentry_install ::
  "nd_tcp_node \<Rightarrow> nd_msgentry_root option \<Rightarrow> nat option \<Rightarrow> byte \<Rightarrow> byte \<Rightarrow> int \<Rightarrow> byte list option \<Rightarrow>
   int \<times> nd_tcp_node \<times> nd_msgentry_root option" where
  "nd_msgentry_install h tab func maxid minid l name =
     (case (tab, nd_msgentry_get_node tab maxid minid) of
        (Some root, Some ij) \<Rightarrow>
          (0, h, Some (entry_update root ij (fill_entry func l name)))
      | _ \<Rightarrow> (-1, nd_object_seterror h 3, tab))"

definition nd_msgentry_script_install ::
  "nd_tcp_node \<Rightarrow> nd_msgentry_root option \<Rightarrow> byte list \<Rightarrow> byte \<Rightarrow> byte \<Rightarrow> int \<Rightarrow>
   int \<times> nd_tcp_node \<times> nd_msgentry_root option" where
  "nd_msgentry_script_install h tab script maxid minid l =
     (case (tab, nd_msgentry_get_node tab maxid minid) of
        (Some root, Some ij) \<Rightarrow>
          if script \<noteq> [] then
            (0, h, Some (entry_update root ij (\<lambda>e.
               e\<lparr>mentry := ScriptEntry script, elevel := word_of_int l, is_script := True\<rparr>)))
          else (-1, nd_object_seterror h 3, tab)
      | _ \<Rightarrow> (-1, nd_object_seterror h 3, tab))"

definition nd_message_set_script_engine :: "nd_msgentry_root option \<Rightarrow> nat \<Rightarrow> nat option \<Rightarrow> int \<times> nd_msgentry_root option" where
  "nd_message_set_script_engine tab engine func = (case tab of
     None \<Rightarrow> (-1, None) | Some root \<Rightarrow> (0, Some (root\<lparr>script_engine := engine, script_entry := func\<rparr>)))"

text \<open>The flag is one bit, so it takes the lowest bit of \<open>disable\<close>.\<close>

definition nd_message_disable_group ::
  "nd_msgentry_root option \<Rightarrow> byte \<Rightarrow> int \<Rightarrow> int \<times> nd_msgentry_root option" where
  "nd_message_disable_group tab maxid disable = (case tab of
     None \<Rightarrow> (-1, None)
   | Some root \<Rightarrow>
       let i = main_index root maxid in
       if i \<ge> unat (main_num root) then (-1, tab)
       else (of_bool (is_close (sub_buf root ! i)),
             Some (root\<lparr>sub_buf := (sub_buf root)[i := (sub_buf root ! i)\<lparr>is_close := odd disable\<rparr>]\<rparr>)))"

definition all_entries :: "nd_msgentry_root \<Rightarrow> (nd_msg_entry_node \<Rightarrow> nd_msg_entry_node) \<Rightarrow> nd_msgentry_root" where
  "all_entries root f = root\<lparr>sub_buf := map (\<lambda>g. g\<lparr>msg_buf := map f (msg_buf g)\<rparr>) (sub_buf root)\<rparr>"

definition nd_message_set_log :: "nd_msgentry_root option \<Rightarrow> byte \<Rightarrow> byte \<Rightarrow> bool \<Rightarrow> int \<times> nd_msgentry_root option" where
  "nd_message_set_log tab maxid minid b =
     (if maxid = -1 \<and> minid = -1 then (0, map_option (\<lambda>root. all_entries root (\<lambda>e. e\<lparr>is_log := b\<rparr>)) tab)
      else case (tab, nd_msgentry_get_node tab maxid minid) of
        (Some root, Some ij) \<Rightarrow>
          (of_bool (is_log (entry_at root ij)), Some (entry_update root ij (\<lambda>e. e\<lparr>is_log := b\<rparr>)))
      | _ \<Rightarrow> (-1, tab))"

definition nd_message_set_print :: "nd_msgentry_root option \<Rightarrow> byte \<Rightarrow> byte \<Rightarrow> bool \<Rightarrow> int \<times> nd_msgentry_root option" where
  "nd_message_set_print tab maxid minid b =
     (if maxid = -1 \<and> minid = -1 then (0, map_option (\<lambda>root. all_entries root (\<lambda>e. e\<lparr>is_print := b\<rparr>)) tab)
      else case (tab, nd_msgentry_get_node tab maxid minid) of
        (Some root, Some ij) \<Rightarrow>
          (of_bool (is_print (entry_at root ij)), Some (entry_update root ij (\<lambda>e. e\<lparr>is_print := b\<rparr>)))
      | _ \<Rightarrow> (-1, tab))"

definition nd_message_set_system :: "nd_msgentry_root option \<Rightarrow> byte \<Rightarrow> byte \<Rightarrow> bool \<Rightarrow> int \<times> nd_msgentry_root option" where
  "nd_message_set_system tab maxid minid b = (case tab of
     None \<Rightarrow> (-1, None)
   | Some root \<Rightarrow>
       let i = main_index root maxid; g = sub_buf root ! i in
       if i \<ge> unat (main_num root) then (-1, tab)
       else if minid = -1 then
         (0, Some (root\<lparr>sub_buf := (sub_buf root)[i := g\<lparr>msg_buf := map (\<lambda>e. e\<lparr>sys_msg := b\<rparr>) (msg_buf g)\<rparr>]\<rparr>))
       else if unat minid < SUB_MSG_NUM then
         (0, Some (entry_update root (i, unat minid) (\<lambda>e. e\<lparr>sys_msg := b\<rparr>)))
       else (0, tab))"

definition nd_message_set_print_entry :: "nd_msgentry_root option \<Rightarrow> nat option \<Rightarrow> nat option \<times> nd_msgentry_root option" where
  "nd_message_set_print_entry tab f = (case tab of
     None \<Rightarrow> (None, None) | Some root \<Rightarrow> (print_entry root, Some (root\<lparr>print_entry := f\<rparr>)))"

text \<open>A session looks into the table of its listener (\<open>srv\<close>; \<open>None\<close> without listener).\<close>

definition nd_message_is_log :: "bool \<Rightarrow> nd_msgentry_root option \<Rightarrow> nd_msgentry_root option \<Rightarrow> byte \<Rightarrow> byte \<Rightarrow> bool" where
  "nd_message_is_log session srv tab maxid minid =
     (let t = (if session then srv else tab) in
      case (t, nd_msgentry_get_node t maxid minid) of
        (Some root, Some ij) \<Rightarrow> is_log (entry_at root ij)
      | _ \<Rightarrow> False)"

text \<open>The default handler (\<open>None\<close> for a null pointer) of a table; a null table is dereferenced.\<close>

definition nd_msgentry_get_def_func :: "nd_msgentry_root option \<Rightarrow> nat option option" where
  "nd_msgentry_get_def_func tab = map_option def_entry tab"

definition nd_message_get_script_engine :: "nd_msgentry_root option \<Rightarrow> nat" where
  "nd_message_get_script_engine tab = (case tab of None \<Rightarrow> 0 | Some root \<Rightarrow> script_engine root)"

text \<open>The array \<open>name\<close> in memory: without a null character when the name fills it.\<close>

definition name_mem :: "nd_msg_entry_node \<Rightarrow> byte list" where
  "name_mem e = (if length (ename e) < NET_MSG_NAME_SIZE then cstr (ename e) else ename e)"

definition ND_MAKE_DWORD :: "u32 \<Rightarrow> u32 \<Rightarrow> u32" where
  "ND_MAKE_DWORD hiWord loWord = (loWord AND 0xffff) OR push_bit 16 (hiWord AND 0xffff)"

fun find_in_group :: "byte list \<Rightarrow> nd_msg_entry_node list \<Rightarrow> nat \<Rightarrow> nat option option" where
  "find_in_group nm [] x = Some None"
| "find_in_group nm (e # es) x =
     (if ename e = [] then find_in_group nm es (x + 1)
      else do {
        c \<leftarrow> ndstricmp nm (name_mem e);
        if c = 0 then Some (Some x) else find_in_group nm es (x + 1)
      })"

fun find_in_groups :: "byte list \<Rightarrow> sub_msgentry list \<Rightarrow> nat \<Rightarrow> (nat \<times> nat) option option" where
  "find_in_groups nm [] i = Some None"
| "find_in_groups nm (g # gs) i = do {
     r \<leftarrow> find_in_group nm (msg_buf g) 0;
     (case r of Some x \<Rightarrow> Some (Some (i, x)) | None \<Rightarrow> find_in_groups nm gs (i + 1))
   }"

text \<open>\<open>msgname\<close> is the memory of a C string, \<open>None\<close> for a null pointer.\<close>

definition nd_msgentry_get_id :: "nd_msgentry_root option \<Rightarrow> byte list option \<Rightarrow> u32 option" where
  "nd_msgentry_get_id tab msgname = (case (tab, msgname) of
     (Some root, Some nm) \<Rightarrow>
       (case nm of
          [] \<Rightarrow> None
        | b # _ \<Rightarrow>
            if b = 0 then Some (-1)
            else do {
              r \<leftarrow> find_in_groups nm (sub_buf root) 0;
              Some (case r of
                 Some (i, x) \<Rightarrow> ND_MAKE_DWORD (ucast (msgid_base root) + of_nat i) (of_nat x)
               | None \<Rightarrow> -1)
            })
   | _ \<Rightarrow> Some (-1))"

section \<open>Dispatch\<close>

text \<open>
  A call of user code: a handler, or the script entry with the engine and the text of a script. What it
  does is the parameter \<open>handlers\<close>: it gets the connection, the bytes of the message and the environment
  and may change the connection; it does not change the message table. The message is the bytes of the
  packet, header in host order, with the message id in bytes 4 and 5; a message shorter than that, whose
  id the code takes from what its buffer held before, has no value.
\<close>

datatype msg_call = CallFunc nat | CallScript nat nat "byte list"

type_synonym msg_handlers = "msg_call \<Rightarrow> nd_tcp_node \<Rightarrow> byte list \<Rightarrow> net_os \<Rightarrow> int net"

definition call_def_entry ::
  "msg_handlers \<Rightarrow> nd_msgentry_root \<Rightarrow> byte list \<Rightarrow> nd_tcp_node \<Rightarrow> net_os \<Rightarrow> nat net" where
  "call_def_entry handlers root msg connector os = (case def_entry root of
     None \<Rightarrow> Some (NDERR_UNHANDLED_MSG, connector, os)
   | Some f \<Rightarrow> do {
       (ret, connector, os) \<leftarrow> handlers (CallFunc f) connector msg os;
       Some (if ret = -1 then NDERR_USER else 0, connector, os)
     })"

text \<open>Calling a null script entry, a script as a function or a function as a script has no value.\<close>

definition call_message_func ::
  "msg_handlers \<Rightarrow> nd_msgentry_root option \<Rightarrow> (nat \<times> nat) option \<Rightarrow> byte list \<Rightarrow> nd_tcp_node \<Rightarrow> net_os \<Rightarrow> nat net" where
  "call_message_func handlers tab node msg connector os = do {
     root \<leftarrow> tab;
     (case node of
        None \<Rightarrow> call_def_entry handlers root msg connector os
      | Some ij \<Rightarrow>
          let e = entry_at root ij in
          if mentry e = NullEntry then call_def_entry handlers root msg connector os
          else do {
            call \<leftarrow> (if \<not> is_script e
              then (case mentry e of FuncEntry f \<Rightarrow> Some (CallFunc f) | _ \<Rightarrow> None)
              else do {
                f \<leftarrow> script_entry root;
                (case mentry e of ScriptEntry s \<Rightarrow> Some (CallScript f (script_engine root) s) | _ \<Rightarrow> None)
              });
            (ret, connector, os) \<leftarrow> handlers call connector msg os;
            Some (if ret = -1 then NDERR_USER else 0, connector, os)
          })
   }"

definition nd_translate_message ::
  "msg_handlers \<Rightarrow> nd_msgentry_root option \<Rightarrow> nd_tcp_node \<Rightarrow> byte list \<Rightarrow> net_os \<Rightarrow> int net" where
  "nd_translate_message handlers tab owner msg os = do {
     h \<leftarrow> bytes_hdr msg;
     ids \<leftarrow> mem_read msg 4 2;
     let data_len = uint (hlength h);
     let node = nd_msgentry_get_node_run tab (ids ! 0) (ids ! 1);
     (err, owner, os) \<leftarrow> call_message_func handlers tab node msg owner os;
     let owner = (if err \<noteq> 0 then nd_object_seterror owner (of_nat err) else owner);
     Some (if err \<noteq> 0 then -1 else data_len, owner, os)
   }"

definition nd_connect_level_get :: "nd_tcp_node \<Rightarrow> u32" where
  "nd_connect_level_get n = ucast (level n)"

text \<open>What the dispatch uses of the listen node.\<close>

record nd_srv_node =
  srv_msg_handle :: "nd_msgentry_root option"
  srv_unreg_msg_close :: bool
  srv_error_privilage_close :: bool

definition no_privilege :: "nd_tcp_node \<Rightarrow> nd_msg_entry_node \<Rightarrow> nd_packhdr \<Rightarrow> bool" where
  "no_privilege c e h \<longleftrightarrow> nd_connect_level_get c < ucast (elevel e) \<or> sys_msg e \<and> \<not> ndsys_msg h"

definition nd_srv_translate_message ::
  "msg_handlers \<Rightarrow> nd_tcp_node \<Rightarrow> byte list \<Rightarrow> nd_srv_node \<Rightarrow> net_os \<Rightarrow> int net" where
  "nd_srv_translate_message handlers c msg srv os = do {
     h \<leftarrow> bytes_hdr msg;
     ids \<leftarrow> mem_read msg 4 2;
     let data_len = uint (hlength h);
     let tab = srv_msg_handle srv;
     let unhandled = (if srv_unreg_msg_close srv
           then Some (-1, nd_object_seterror c (of_nat NDERR_UNHANDLED_MSG), os)
           else Some (data_len, c, os));
     (case (tab, nd_msgentry_get_node_run tab (ids ! 0) (ids ! 1)) of
        (Some root, Some ij) \<Rightarrow>
          let e = entry_at root ij in
          if mentry e = NullEntry \<and> def_entry root = None then unhandled
          else if no_privilege c e h then
            (if srv_error_privilage_close srv
             then Some (-1, nd_object_seterror c (of_nat NDERR_NO_PRIVILAGE), os)
             else Some (data_len, c, os))
          else do {
            (ret, c, os) \<leftarrow> call_message_func handlers tab (Some ij) msg c os;
            let c = (if ret \<noteq> 0 then nd_object_seterror c (of_nat ret) else c);
            Some (if ret \<noteq> 0 then -1 else data_len, c, os)
          }
      | _ \<Rightarrow> unhandled)
   }"

section \<open>Well-formed tables\<close>

definition entry_ok :: "nd_msg_entry_node \<Rightarrow> bool" where
  "entry_ok e \<longleftrightarrow> length (ename e) \<le> NET_MSG_NAME_SIZE \<and>
     (case mentry e of NullEntry \<Rightarrow> True | FuncEntry _ \<Rightarrow> \<not> is_script e | ScriptEntry _ \<Rightarrow> is_script e)"

definition table_ok :: "nd_msgentry_root \<Rightarrow> bool" where
  "table_ok root \<longleftrightarrow> length (sub_buf root) = unat (main_num root) \<and>
     (\<forall>g \<in> set (sub_buf root). length (msg_buf g) = SUB_MSG_NUM \<and> (\<forall>e \<in> set (msg_buf g). entry_ok e))"

lemma create_ok:
  assumes "nd_msgtable_create tab n base mem = (0, tab')"
  shows "\<exists>root. tab' = Some root \<and> table_ok root"
proof -
  have "0 < n" "n \<le> 256" "tab' = Some (create_msgroot n base)"
    using assms by (auto simp: nd_msgtable_create_def MAX_MAIN_NUM_def split: if_splits)
  moreover from this have "unat (word_of_int n :: u16) = nat n"
    by (simp add: unat_eq_nat_uint unsigned_of_int take_bit_int_eq_self)
  ultimately show ?thesis
    by (auto simp: create_msgroot_def table_ok_def entry_ok_def empty_entry_def)
qed

lemma get_node_in_range:
  assumes "table_ok root" "nd_msgentry_get_node (Some root) a b = Some ij"
  shows "fst ij < length (sub_buf root)" "snd ij < length (msg_buf (sub_buf root ! fst ij))"
  using assms by (auto simp: nd_msgentry_get_node_def table_ok_def split: if_splits)

lemma get_node_inj:
  assumes "nd_msgentry_get_node tab a b = Some ij" "nd_msgentry_get_node tab a' b' = Some ij"
  shows "a = a' \<and> b = b'"
  using assms by (auto simp: nd_msgentry_get_node_def main_index_def split: option.splits if_splits
    dest: word_unat_eq_iff [THEN iffD2])

lemma entry_at_update:
  assumes "fst ij < length (sub_buf root)" "snd ij < length (msg_buf (sub_buf root ! fst ij))"
  shows "entry_at (entry_update root ij f) ij = f (entry_at root ij)"
    and "kl \<noteq> ij \<Longrightarrow> entry_at (entry_update root ij f) kl = entry_at root kl"
  using assms
  by (auto simp: entry_at_def entry_update_def Let_def nth_list_update prod_eq_iff)

lemma update_ok:
  assumes ok: "table_ok root" and f: "\<And>e. entry_ok e \<Longrightarrow> entry_ok (f e)"
    and r: "fst ij < length (sub_buf root)" "snd ij < length (msg_buf (sub_buf root ! fst ij))"
  shows "table_ok (entry_update root ij f)"
proof -
  let ?g = "sub_buf root ! fst ij"
  have g: "?g \<in> set (sub_buf root)" using r(1) by simp
  then have "entry_ok (msg_buf ?g ! snd ij)" using ok r(2) by (auto simp: table_ok_def)
  then have "\<forall>e \<in> set ((msg_buf ?g)[snd ij := f (msg_buf ?g ! snd ij)]). entry_ok e"
    using ok g f set_update_subset_insert [of "msg_buf ?g"] by (fastforce simp: table_ok_def)
  then show ?thesis
    using ok g set_update_subset_insert [of "sub_buf root"]
    by (fastforce simp: table_ok_def entry_update_def Let_def)
qed

section \<open>Installing and looking up\<close>

text \<open>
  What a client relies on: installing under an id changes what is found under this id and nothing else.
  \<open>keeps\<close> is the part of an installation that a lookup shows.
\<close>

locale entry_table =
  fixes ok :: "'t \<Rightarrow> bool" and lookup :: "'t \<Rightarrow> 'i \<Rightarrow> 'v option"
    and install :: "'i \<Rightarrow> 'e \<Rightarrow> 't \<Rightarrow> 't" and keeps :: "'e \<Rightarrow> 'v"
  assumes ok_install: "ok t \<Longrightarrow> ok (install i e t)"
    and lookup_same: "ok t \<Longrightarrow> lookup t i \<noteq> None \<Longrightarrow> lookup (install i e t) i = Some (keeps e)"
    and lookup_missing: "ok t \<Longrightarrow> lookup t i = None \<Longrightarrow> lookup (install i e t) i = None"
    and lookup_other: "ok t \<Longrightarrow> i \<noteq> j \<Longrightarrow> lookup (install i e t) j = lookup t j"
begin

definition install_list :: "('i \<times> 'e) list \<Rightarrow> 't \<Rightarrow> 't" where
  "install_list = fold (\<lambda>(i, e). install i e)"

lemma install_list_ok: "ok t \<Longrightarrow> ok (install_list xs t)"
  unfolding install_list_def by (induction xs arbitrary: t) (auto intro: ok_install)

lemma install_list_missing: "ok t \<Longrightarrow> lookup t i = None \<Longrightarrow> lookup (install_list xs t) i = None"
  unfolding install_list_def
proof (induction xs arbitrary: t)
  case (Cons x xs)
  then show ?case using ok_install lookup_missing lookup_other by (cases x; cases "fst x = i") auto
qed simp

lemma install_list_lookup:
  "ok t \<Longrightarrow> lookup t i \<noteq> None \<Longrightarrow>
    lookup (install_list xs t) i = (case map_of (rev xs) i of Some e \<Rightarrow> Some (keeps e) | None \<Rightarrow> lookup t i)"
proof (induction xs arbitrary: t)
  case (Cons x xs)
  obtain j e where x: "x = (j, e)" by (cases x)
  have "install_list (x # xs) t = install_list xs (install j e t)" by (simp add: install_list_def x)
  moreover have "lookup (install j e t) i = (if j = i then Some (keeps e) else lookup t i)"
    using Cons.prems lookup_same lookup_other by auto
  ultimately show ?case
    using Cons.IH [of "install j e t"] Cons.prems ok_install x
    by (auto split: option.splits simp: map_add_def)
qed (simp add: install_list_def)

end

type_synonym installation = "nat option \<times> int \<times> byte list option"

definition table_install :: "byte \<times> byte \<Rightarrow> installation \<Rightarrow> nd_msgentry_root \<Rightarrow> nd_msgentry_root" where
  "table_install i e root =
     (case nd_msgentry_install zero_tcp_node (Some root) (fst e) (fst i) (snd i) (fst (snd e)) (snd (snd e)) of
        (_, _, Some root') \<Rightarrow> root' | _ \<Rightarrow> root)"

definition table_lookup :: "nd_msgentry_root \<Rightarrow> byte \<times> byte \<Rightarrow> (entry_ptr \<times> u16) option" where
  "table_lookup root i =
     map_option (\<lambda>ij. (mentry (entry_at root ij), elevel (entry_at root ij)))
       (nd_msgentry_get_node (Some root) (fst i) (snd i))"

definition install_shows :: "installation \<Rightarrow> entry_ptr \<times> u16" where
  "install_shows e = (func_entry (fst e), word_of_int (fst (snd e)))"

lemma entry_update_same_shape [simp]:
  "main_num (entry_update root ij f) = main_num root" "msgid_base (entry_update root ij f) = msgid_base root"
  "def_entry (entry_update root ij f) = def_entry root"
  by (simp_all add: entry_update_def Let_def)

lemma get_node_update [simp]:
  "nd_msgentry_get_node (Some (entry_update root ij f)) a b = nd_msgentry_get_node (Some root) a b"
  by (simp add: nd_msgentry_get_node_def main_index_def)

lemma fill_entry_sel [simp]:
  "mentry (fill_entry func l nm e) = func_entry func" "elevel (fill_entry func l nm e) = word_of_int l"
  "sys_msg (fill_entry func l nm e) = sys_msg e" "\<not> is_script (fill_entry func l nm e)"
  by (auto simp: fill_entry_def Let_def split: option.split)

lemma fill_entry_ok: "entry_ok e \<Longrightarrow> entry_ok (fill_entry func l nm e)"
  by (auto simp: entry_ok_def fill_entry_def Let_def func_entry_def split: option.split)

lemma install_found:
  "nd_msgentry_get_node (Some root) a b = Some ij \<Longrightarrow>
    nd_msgentry_install h (Some root) func a b l nm = (0, h, Some (entry_update root ij (fill_entry func l nm)))"
  by (simp add: nd_msgentry_install_def)

lemma install_missing:
  "nd_msgentry_get_node (Some root) a b = None \<Longrightarrow>
    nd_msgentry_install h (Some root) func a b l nm = (-1, nd_object_seterror h 3, Some root)"
  by (simp add: nd_msgentry_install_def)

lemma table_install_found:
  "nd_msgentry_get_node (Some t) (fst i) (snd i) = Some ij \<Longrightarrow>
    table_install i e t = entry_update t ij (fill_entry (fst e) (fst (snd e)) (snd (snd e)))"
  by (simp add: table_install_def install_found)

lemma table_install_missing:
  "nd_msgentry_get_node (Some t) (fst i) (snd i) = None \<Longrightarrow> table_install i e t = t"
  by (simp add: table_install_def install_missing)

interpretation msg_tab: entry_table table_ok table_lookup table_install install_shows
proof
  fix t :: nd_msgentry_root and i j :: "byte \<times> byte" and e :: installation
  assume ok: "table_ok t"
  note r = get_node_in_range [OF ok]
  show "table_ok (table_install i e t)"
    using ok r by (cases "nd_msgentry_get_node (Some t) (fst i) (snd i)")
      (auto simp: table_install_missing table_install_found intro: update_ok fill_entry_ok)
  show "table_lookup t i = None \<Longrightarrow> table_lookup (table_install i e t) i = None"
    by (simp add: table_lookup_def table_install_missing)
  show "table_lookup t i \<noteq> None \<Longrightarrow> table_lookup (table_install i e t) i = Some (install_shows e)"
    using r by (auto simp: table_lookup_def table_install_found entry_at_update install_shows_def)
  assume "i \<noteq> j"
  then show "table_lookup (table_install i e t) j = table_lookup t j"
  proof (cases "nd_msgentry_get_node (Some t) (fst i) (snd i)")
    case (Some ij)
    show ?thesis
    proof (cases "nd_msgentry_get_node (Some t) (fst j) (snd j)")
      case (Some kl)
      have "kl \<noteq> ij" using get_node_inj [of "Some t" "fst i" "snd i" ij "fst j" "snd j"] \<open>i \<noteq> j\<close> Some
          \<open>nd_msgentry_get_node (Some t) (fst i) (snd i) = Some ij\<close> by (auto simp: prod_eq_iff)
      then show ?thesis
        using Some \<open>nd_msgentry_get_node (Some t) (fst i) (snd i) = Some ij\<close> r
        by (simp add: table_lookup_def table_install_found entry_at_update)
    qed (simp add: table_lookup_def table_install_found Some)
  qed (simp add: table_install_missing)
qed

text \<open>A program registers its messages one after the other; a failed registration leaves the table.\<close>

fun install_all :: "nd_tcp_node \<Rightarrow> nd_msgentry_root option \<Rightarrow> ((byte \<times> byte) \<times> installation) list \<Rightarrow>
    nd_tcp_node \<times> nd_msgentry_root option" where
  "install_all h tab [] = (h, tab)"
| "install_all h tab (((a, b), func, l, nm) # xs) =
     (case nd_msgentry_install h tab func a b l nm of (_, h, tab) \<Rightarrow> install_all h tab xs)"

lemma install_all_list:
  "snd (install_all h (Some root) xs) = Some (msg_tab.install_list xs root)"
proof (induction xs arbitrary: h root)
  case (Cons x xs)
  obtain a b func l nm where x: "x = ((a, b), func, l, nm)" by (metis surj_pair)
  show ?case
    using Cons.IH x
    by (cases "nd_msgentry_get_node (Some root) a b")
      (auto simp: msg_tab.install_list_def install_found install_missing table_install_found table_install_missing)
qed (simp add: msg_tab.install_list_def)

text \<open>C19. Registration. In a well-formed table a sequence of registrations keeps the table well-formed, and
  for every id of the table the function and level found are those of the last registration under this
  very id, or the earlier ones when there is none; ids outside the table stay unhandled.\<close>

theorem registration_last_wins:
  assumes ok: "table_ok root"
  shows "\<exists>root'. snd (install_all h (Some root) xs) = Some root' \<and> table_ok root' \<and>
    (\<forall>i. table_lookup root' i = (if table_lookup root i = None then None else
       case map_of (rev xs) i of Some e \<Rightarrow> Some (install_shows e) | None \<Rightarrow> table_lookup root i))"
  using msg_tab.install_list_ok [OF ok] msg_tab.install_list_missing [OF ok] msg_tab.install_list_lookup [OF ok]
  by (auto simp: install_all_list)

definition small_table :: nd_msgentry_root where
  "small_table = create_msgroot 2 0"

lemma small_table_ok: "table_ok small_table"
  using create_ok [of None 2 0 True] by (simp add: nd_msgtable_create_def small_table_def MAX_MAIN_NUM_def)

lemma small_table_node: "nd_msgentry_get_node (Some small_table) 1 2 = Some (1, 2)"
  by (simp add: nd_msgentry_get_node_def small_table_def create_msgroot_def main_index_def SUB_MSG_NUM_def)

lemma small_table_group: "\<not> is_close (sub_buf small_table ! 1)" "entry_at small_table (1, 2) = empty_entry"
  by (simp_all add: small_table_def create_msgroot_def entry_at_def SUB_MSG_NUM_def)

theorem registration_last_wins_witness:
  "\<exists>root'. snd (install_all zero_tcp_node (Some small_table) [((1, 2), Some 5, 1, None), ((1, 3), Some 6, 1, None), ((1, 2), Some 7, 2, None)]) =
     Some root' \<and> table_lookup root' (1, 2) = Some (FuncEntry 7, 2) \<and> table_lookup root' (9, 2) = None"
proof -
  have "table_lookup small_table (1, 2) \<noteq> None" "table_lookup small_table (9, 2) = None"
    by (simp_all add: table_lookup_def small_table_node)
      (simp add: nd_msgentry_get_node_def small_table_def create_msgroot_def main_index_def)
  with registration_last_wins [OF small_table_ok, of zero_tcp_node "[((1, 2), Some 5, 1, None), ((1, 3), Some 6, 1, None), ((1, 2), Some 7, 2, None)]"]
  show ?thesis by (auto simp: install_shows_def func_entry_def)
qed

section \<open>Who may run a handler\<close>

text \<open>The user code an entry of the table stands for: its function, its script, or, when nothing is registered for it, the default handler.\<close>

definition entry_calls :: "nd_msgentry_root \<Rightarrow> nd_msg_entry_node \<Rightarrow> msg_call \<Rightarrow> bool" where
  "entry_calls root e call \<longleftrightarrow> (case mentry e of
     NullEntry \<Rightarrow> \<exists>f. def_entry root = Some f \<and> call = CallFunc f
   | FuncEntry f \<Rightarrow> \<not> is_script e \<and> call = CallFunc f
   | ScriptEntry s \<Rightarrow> is_script e \<and> (\<exists>f. script_entry root = Some f \<and> call = CallScript f (script_engine root) s))"

lemma call_message_func_call:
  assumes "call_message_func h1 (Some root) (Some ij) msg c os \<noteq> call_message_func h2 (Some root) (Some ij) msg c os"
  shows "\<exists>call. entry_calls root (entry_at root ij) call \<and> h1 call c msg os \<noteq> h2 call c msg os"
  using assms
  by (cases "mentry (entry_at root ij)"; cases "is_script (entry_at root ij)"; cases "script_entry root"; cases "def_entry root")
    (auto simp: call_message_func_def call_def_entry_def entry_calls_def)

text \<open>C6. Privileges. Whenever the user code behind a server's message table has any influence on how a message is handled, it is the code of one
  entry, and that code for this message: the function or the script registered under the id of the message or, when nothing is registered there, the
  default handler of the table. The entry lies in an enabled group, the connection has at least the level of the entry, and an entry for system
  messages was reached by a packet with the system flag. In all other cases no user code runs.\<close>

theorem srv_dispatch_privilege:
  assumes "nd_srv_translate_message h1 c msg srv os \<noteq> nd_srv_translate_message h2 c msg srv os"
  shows "\<exists>root h a b ij call. srv_msg_handle srv = Some root \<and> bytes_hdr msg = Some h \<and> mem_read msg 4 2 = Some [a, b] \<and>
    nd_msgentry_get_node (Some root) a b = Some ij \<and> \<not> is_close (sub_buf root ! fst ij) \<and>
    entry_calls root (entry_at root ij) call \<and> h1 call c msg os \<noteq> h2 call c msg os \<and>
    uint (elevel (entry_at root ij)) \<le> uint (level c) \<and> (sys_msg (entry_at root ij) \<longrightarrow> ndsys_msg h)"
proof -
  obtain h ids root ij where 1: "bytes_hdr msg = Some h" "mem_read msg 4 2 = Some ids" "srv_msg_handle srv = Some root"
      "nd_msgentry_get_node_run (Some root) (ids ! 0) (ids ! 1) = Some ij" "\<not> no_privilege c (entry_at root ij) h"
    using assms unfolding nd_srv_translate_message_def Let_def
    by (cases "bytes_hdr msg"; cases "mem_read msg 4 2"; cases "srv_msg_handle srv")
      (auto split: option.splits if_splits)
  have 2: "call_message_func h1 (Some root) (Some ij) msg c os \<noteq> call_message_func h2 (Some root) (Some ij) msg c os"
  proof
    assume "call_message_func h1 (Some root) (Some ij) msg c os = call_message_func h2 (Some root) (Some ij) msg c os"
    with 1 have "nd_srv_translate_message h1 c msg srv os = nd_srv_translate_message h2 c msg srv os"
      by (simp add: nd_srv_translate_message_def Let_def)
    with assms show False by contradiction
  qed
  have "length ids = 2" using 1(2) by (auto simp: mem_read_def split: if_splits)
  then have ids: "ids = [ids ! 0, ids ! 1]" by (auto simp: numeral_2_eq_2 length_Suc_conv)
  have "nd_msgentry_get_node (Some root) (ids ! 0) (ids ! 1) = Some ij \<and> \<not> is_close (sub_buf root ! fst ij)"
    using 1(4) by (auto simp: nd_msgentry_get_node_def nd_msgentry_get_node_run_def split: if_splits)
  moreover have "uint (elevel (entry_at root ij)) \<le> uint (level c) \<and> (sys_msg (entry_at root ij) \<longrightarrow> ndsys_msg h)"
    using 1(5) by (auto simp: no_privilege_def nd_connect_level_get_def word_less_def uint_up_ucast is_up)
  ultimately show ?thesis using 1(1-3) ids call_message_func_call [OF 2] by metis
qed

lemma translate_found:
  assumes "bytes_hdr msg = Some h" "mem_read msg 4 2 = Some [a, b]" "srv_msg_handle srv = Some root"
    "nd_msgentry_get_node_run (Some root) a b = Some ij" "mentry (entry_at root ij) = FuncEntry f" "\<not> is_script (entry_at root ij)"
    "\<not> no_privilege c (entry_at root ij) h"
  shows "nd_srv_translate_message handlers c msg srv os = do {
    (ret, c', os') \<leftarrow> handlers (CallFunc f) c msg os;
    Some (if ret = -1 then -1 else uint (hlength h), if ret = -1 then c'\<lparr>myerrno := NDERR_USER\<rparr> else c', os') }"
  using assms
  by (auto simp: nd_srv_translate_message_def call_message_func_def nd_object_seterror_def split: Option.bind_splits intro!: arg_cong2 [where f = Option.bind])

text \<open>C18. Delivery. After a handler was registered under an id with some level, a message with this id from
  a connection of at least this level is given to this handler and to nothing else; the result is \<open>-1\<close>
  with the error \<open>NDERR_USER\<close> when the handler fails and the length of the message otherwise.\<close>

theorem registered_handler_called:
  assumes ok: "table_ok root" and inst: "nd_msgentry_install h (Some root) (Some f) a b l nm = (0, h', srv_msg_handle srv)"
    and l: "0 \<le> l" "l < 65536" "l \<le> uint (level c)"
    and node: "nd_msgentry_get_node_run (Some root) a b = Some ij" "\<not> sys_msg (entry_at root ij)"
    and msg: "bytes_hdr msg = Some ph" "mem_read msg 4 2 = Some [a, b]"
  shows "nd_srv_translate_message handlers c msg srv os = do {
    (ret, c', os') \<leftarrow> handlers (CallFunc f) c msg os;
    Some (if ret = -1 then -1 else uint (hlength ph), if ret = -1 then c'\<lparr>myerrno := NDERR_USER\<rparr> else c', os') }"
proof -
  have g: "nd_msgentry_get_node (Some root) a b = Some ij" and open_: "\<not> is_close (sub_buf root ! fst ij)"
    using node(1) by (auto simp: nd_msgentry_get_node_def nd_msgentry_get_node_run_def split: if_splits)
  note r = get_node_in_range [OF ok g]
  let ?root = "entry_update root ij (fill_entry (Some f) l nm)"
  have srv: "srv_msg_handle srv = Some ?root" using inst install_found [OF g] by simp
  have "is_close (sub_buf ?root ! fst ij) = is_close (sub_buf root ! fst ij)"
    using r by (simp add: entry_update_def Let_def)
  then have run: "nd_msgentry_get_node_run (Some ?root) a b = Some ij"
    using node(1) open_ by (auto simp: nd_msgentry_get_node_run_def main_index_def split: if_splits)
  have e: "entry_at ?root ij = fill_entry (Some f) l nm (entry_at root ij)" by (rule entry_at_update(1) [OF r])
  have "uint (word_of_int l :: u16) = l" using l by (simp add: unsigned_of_int take_bit_int_eq_self)
  then have "\<not> no_privilege c (entry_at ?root ij) ph"
    using l node(2) by (simp add: e no_privilege_def nd_connect_level_get_def word_less_def uint_up_ucast is_up)
  from translate_found [OF msg srv run _ _ this, of f handlers os] show ?thesis by (simp add: e func_entry_def)
qed

definition level_two_node :: nd_tcp_node where
  "level_two_node = zero_tcp_node\<lparr>level := 2\<rparr>"

definition small_server :: nd_srv_node where
  "small_server = \<lparr>srv_msg_handle = snd (snd (nd_msgentry_install zero_tcp_node (Some small_table) (Some 7) 1 2 2 None)),
     srv_unreg_msg_close = True, srv_error_privilage_close = True\<rparr>"

definition small_msg :: "byte list" where
  "small_msg = [6, 0, 2, 0, 1, 2]"

lemma small_msg_read: "bytes_hdr small_msg \<noteq> None" "mem_read small_msg 4 2 = Some [1, 2]"
  by (simp_all add: small_msg_def mem_read_def)

lemma small_server_install:
  "nd_msgentry_install zero_tcp_node (Some small_table) (Some 7) 1 2 2 None = (0, zero_tcp_node, srv_msg_handle small_server)"
  by (simp add: small_server_def install_found [OF small_table_node])

lemma small_table_run: "nd_msgentry_get_node_run (Some small_table) 1 2 = Some (1, 2)"
  using small_table_group(1) small_table_node
  by (auto simp: nd_msgentry_get_node_run_def nd_msgentry_get_node_def split: if_splits)

theorem registered_handler_called_witness:
  "nd_srv_translate_message (\<lambda>call c msg os. Some (-1, c, os)) level_two_node small_msg small_server (sample_os []) =
    Some (-1, level_two_node\<lparr>myerrno := NDERR_USER\<rparr>, sample_os [])"
proof -
  obtain ph where ph: "bytes_hdr small_msg = Some ph" using small_msg_read(1) by auto
  have "\<not> sys_msg (entry_at small_table (1, 2))" using small_table_group(2) by (simp add: empty_entry_def)
  from registered_handler_called [OF small_table_ok small_server_install _ _ _ small_table_run this ph small_msg_read(2),
      of level_two_node "\<lambda>call c msg os. Some (-1, c, os)" "sample_os []"]
  show ?thesis by (simp add: level_two_node_def)
qed

lemma small_server_entry:
  obtains ij root e where "srv_msg_handle small_server = Some root" "nd_msgentry_get_node_run (Some root) 1 2 = Some ij"
    "mentry (entry_at root ij) = FuncEntry 7" "\<not> is_script (entry_at root ij)" "elevel (entry_at root ij) = 2" "\<not> sys_msg (entry_at root ij)"
proof -
  let ?root = "entry_update small_table (1, 2) (fill_entry (Some 7) 2 None)"
  note r = get_node_in_range [OF small_table_ok small_table_node]
  have "is_close (sub_buf ?root ! 1) = is_close (sub_buf small_table ! 1)" using r by (simp add: entry_update_def Let_def)
  then have "nd_msgentry_get_node_run (Some ?root) 1 2 = Some (1, 2)"
    using small_table_run by (auto simp: nd_msgentry_get_node_run_def main_index_def split: if_splits)
  with entry_at_update(1) [OF r] small_table_group(2) show ?thesis
    by (intro that [of ?root "(1, 2)"])
      (simp_all add: small_server_def install_found [OF small_table_node] func_entry_def empty_entry_def)
qed

theorem srv_dispatch_privilege_witness:
  "\<exists>root ij. srv_msg_handle small_server = Some root \<and> nd_msgentry_get_node (Some root) 1 2 = Some ij \<and>
    \<not> is_close (sub_buf root ! fst ij) \<and> entry_calls root (entry_at root ij) (CallFunc 7) \<and> uint (elevel (entry_at root ij)) \<le> 2"
proof -
  obtain ph where ph: "bytes_hdr small_msg = Some ph" using small_msg_read(1) by auto
  obtain root ij where e: "srv_msg_handle small_server = Some root" "nd_msgentry_get_node_run (Some root) 1 2 = Some ij"
    "mentry (entry_at root ij) = FuncEntry 7" "\<not> is_script (entry_at root ij)" "elevel (entry_at root ij) = 2" "\<not> sys_msg (entry_at root ij)"
    by (rule small_server_entry)
  have np: "\<not> no_privilege level_two_node (entry_at root ij) ph"
    using e(5,6) by (simp add: no_privilege_def level_two_node_def nd_connect_level_get_def)
  let ?h = "\<lambda>r (call::msg_call) c (msg::byte list) os. Some (r::int, c::nd_tcp_node, os::net_os)"
  note t = translate_found [OF ph small_msg_read(2) e(1-4) np]
  have "nd_srv_translate_message (?h (-1)) level_two_node small_msg small_server (sample_os []) \<noteq>
      nd_srv_translate_message (?h 0) level_two_node small_msg small_server (sample_os [])"
    unfolding t using uint_ge_0 [of "hlength ph"] by (simp add: level_two_node_def zero_tcp_node_def)
  from srv_dispatch_privilege [OF this] small_msg_read(2) obtain ij' call where
      p: "nd_msgentry_get_node (Some root) 1 2 = Some ij'" "\<not> is_close (sub_buf root ! fst ij')" "entry_calls root (entry_at root ij') call"
      "uint (elevel (entry_at root ij')) \<le> 2"
    using e(1) by (auto simp: level_two_node_def)
  moreover have "ij' = ij"
    using e(2) p(1) by (auto simp: nd_msgentry_get_node_run_def nd_msgentry_get_node_def split: if_splits)
  ultimately show ?thesis using e(1,3) by (intro exI [of _ root] exI [of _ ij]) (auto simp: entry_calls_def)
qed

end
