(* ===== verification/Udt_Packet.thy ===== *)
theory Udt_Packet
  imports Net_Packet
begin

text \<open>
  The packets of UDT, the library's reliable stream protocol over UDP: \<^verbatim>\<open>include/nd_net/nd_udthdr.h\<close>
  and the checksum of \<^verbatim>\<open>src/nd_net/src/udt_net.c\<close>. A packet has a header of 12 bytes, or of 16 bytes
  when its \<open>ack\<close> flag is set. The record \<open>ndudt_pocket\<close> holds the fields in host order; \<open>pdata\<close> is what
  \<open>pocket_data\<close> points to, the bytes behind the header the flag announces.
\<close>

section \<open>Header\<close>

definition NDUDT_FRAGMENT_LEN :: nat where "NDUDT_FRAGMENT_LEN = 1400"
definition PROTOCOL_UDT_ID :: "4 word" where "PROTOCOL_UDT_ID = 1"
definition UDT_POCKETBUF_SIZE :: nat where "UDT_POCKETBUF_SIZE = 2048"
definition UDP_PACKET_HEAD_SIZE :: nat where "UDP_PACKET_HEAD_SIZE = 6"
definition ND_UDP_PACKET_SIZE :: nat where "ND_UDP_PACKET_SIZE = 0x10000"

abbreviation (input) NDUDT_DATA :: "4 word" where "NDUDT_DATA \<equiv> 0"
abbreviation (input) NDUDT_SYN :: "4 word" where "NDUDT_SYN \<equiv> 1"
abbreviation (input) NDUDT_ALIVE :: "4 word" where "NDUDT_ALIVE \<equiv> 2"
abbreviation (input) NDUDT_ACK :: "4 word" where "NDUDT_ACK \<equiv> 3"
abbreviation (input) NDUDT_LOST :: "4 word" where "NDUDT_LOST \<equiv> 4"
abbreviation (input) NDUDT_FIN :: "4 word" where "NDUDT_FIN \<equiv> 5"
abbreviation (input) NDUDT_RESET :: "4 word" where "NDUDT_RESET \<equiv> 6"
abbreviation (input) NDUDT_DGRAM :: "4 word" where "NDUDT_DGRAM \<equiv> 7"

record ndudt_header =
  uversion :: "4 word"
  uprotocol :: "4 word"
  udt_type :: "4 word"
  ustuff :: bool
  ucrypt :: bool
  uack :: bool
  isresend :: bool

record ndudt_pocket =
  uheader :: ndudt_header
  ulocal_port :: u16
  uwindow_len :: u16
  sequence :: u32
  ack_seq :: u32
  pdata :: "byte list"

definition init_udt_header :: ndudt_header where
  "init_udt_header = \<lparr>uversion = 0, uprotocol = PROTOCOL_UDT_ID, udt_type = NDUDT_DATA, ustuff = False,
     ucrypt = False, uack = False, isresend = False\<rparr>"

text \<open>\<open>init_udt_pocket\<close> leaves \<open>ack_seq\<close> and the data; a new packet has neither.\<close>

definition init_udt_pocket :: ndudt_pocket where
  "init_udt_pocket = \<lparr>uheader = init_udt_header, ulocal_port = 0, uwindow_len = 0, sequence = 0,
     ack_seq = 0, pdata = []\<rparr>"

definition set_pocket_type :: "4 word \<Rightarrow> ndudt_pocket \<Rightarrow> ndudt_pocket" where
  "set_pocket_type t p = p\<lparr>uheader := (uheader p)\<lparr>udt_type := t\<rparr>\<rparr>"

definition set_pocket_ack :: "ndudt_pocket \<Rightarrow> u32 \<Rightarrow> ndudt_pocket" where
  "set_pocket_ack p a = p\<lparr>uheader := (uheader p)\<lparr>uack := True\<rparr>, ack_seq := a\<rparr>"

definition ndt_header_size :: "ndudt_pocket \<Rightarrow> nat" where
  "ndt_header_size p = (if uack (uheader p) then 16 else 12)"

section \<open>Bytes\<close>

definition nibbles :: "4 word \<Rightarrow> 4 word \<Rightarrow> byte" where
  "nibbles lo hi = ucast lo OR push_bit 4 (ucast hi)"

definition udt_flags :: "ndudt_header \<Rightarrow> byte" where
  "udt_flags h = ucast (udt_type h) OR (if ustuff h then 0x10 else 0) OR (if ucrypt h then 0x20 else 0) OR
     (if uack h then 0x40 else 0) OR (if isresend h then 0x80 else 0)"

definition be_of_u16 :: "u16 \<Rightarrow> byte list" where
  "be_of_u16 w = le_of_u16 (htons w)"

definition be_of_u32 :: "u32 \<Rightarrow> byte list" where
  "be_of_u32 w = le_of_u32 (ntohl w)"

text \<open>The packet after \<open>udt_host2net\<close>, with a given checksum field: all fields in network order, the
  acknowledgement only when the flag is set.\<close>

definition udt_host2net :: "u16 \<Rightarrow> ndudt_pocket \<Rightarrow> byte list" where
  "udt_host2net cs p =
     nibbles (uversion (uheader p)) (uprotocol (uheader p)) # udt_flags (uheader p) # be_of_u16 cs @
     be_of_u16 (ulocal_port p) @ be_of_u16 (uwindow_len p) @ be_of_u32 (sequence p) @
     (if uack (uheader p) then be_of_u32 (ack_seq p) else []) @ pdata p"

text \<open>\<open>_set_checksum\<close>: the sum over the packet with a zero checksum field.\<close>

definition set_checksum :: "byte list \<Rightarrow> byte list" where
  "set_checksum bs =
     (let bs = bs[2 := 0, 3 := 0];
          cs = htons (nd_checksum bs)
      in bs[2 := ucast cs, 3 := ucast (drop_bit 8 cs)])"

text \<open>\<open>_test_checksum\<close> on the first \<open>sz\<close> bytes of a buffer; it clears the field.\<close>

definition test_checksum :: "byte list \<Rightarrow> nat \<Rightarrow> bool \<times> byte list" where
  "test_checksum buf sz =
     (let cs = htons (u16_of_le (buf ! 2) (buf ! 3));
          buf = buf[2 := 0, 3 := 0]
      in (cs = nd_checksum (take sz buf), buf))"

definition hdr_of_bytes :: "byte \<Rightarrow> byte \<Rightarrow> ndudt_header" where
  "hdr_of_bytes a b = \<lparr>uversion = ucast a, uprotocol = ucast (drop_bit 4 a), udt_type = ucast b,
     ustuff = bit b 4, ucrypt = bit b 5, uack = bit b 6, isresend = bit b 7\<rparr>"

text \<open>\<open>udt_net2host\<close> on the receive buffer, which is at least 16 bytes long.\<close>

fun udt_net2host :: "byte list \<Rightarrow> ndudt_pocket option" where
  "udt_net2host (a # b # c0 # c1 # l0 # l1 # w0 # w1 # s0 # s1 # s2 # s3 # a0 # a1 # a2 # a3 # d) =
     Some (let h = hdr_of_bytes a b
       in \<lparr>uheader = h, ulocal_port = htons (u16_of_le l0 l1), uwindow_len = htons (u16_of_le w0 w1),
          sequence = ntohl (u32_of_le s0 s1 s2 s3),
          ack_seq = (if uack h then ntohl (u32_of_le a0 a1 a2 a3) else u32_of_le a0 a1 a2 a3),
          pdata = (if uack h then d else a0 # a1 # a2 # a3 # d)\<rparr>)"
| "udt_net2host _ = None"

section \<open>Round trip\<close>

lemma bit_4word: "bit (w :: 4 word) n \<Longrightarrow> n < 4"
  using bit_imp_le_length [of w n] by simp

lemma nibbles_sel [simp]: "ucast (nibbles lo hi) = lo" "ucast (drop_bit 4 (nibbles lo hi)) = hi"
  by (auto simp: nibbles_def bit_eq_iff bit_simps dest: bit_4word)

lemma length_bytes_fields [simp]:
  "length (be_of_u16 w) = 2" "length (be_of_u32 v) = 4" "length (le_of_u16 w) = 2"
  by (simp_all add: be_of_u16_def be_of_u32_def le_of_u16_def)

lemma hdr_of_bytes_inverse [simp]: "hdr_of_bytes (nibbles (uversion h) (uprotocol h)) (udt_flags h) = h"
proof -
  have "\<And>n. n < 4 \<Longrightarrow> \<not> bit (0x10::byte) n" "\<And>n. n < 4 \<Longrightarrow> \<not> bit (0x20::byte) n"
    "\<And>n. n < 4 \<Longrightarrow> \<not> bit (0x40::byte) n" "\<And>n. n < 4 \<Longrightarrow> \<not> bit (0x80::byte) n"
    by (auto simp: less_Suc_eq numeral_eq_Suc)
  then have "ucast (udt_flags h) = udt_type h"
    by (auto simp: bit_eq_iff bit_simps udt_flags_def dest: bit_4word)
  moreover have "\<And>n. 4 \<le> n \<Longrightarrow> \<not> bit (udt_type h) n" using bit_4word [of "udt_type h"] by (meson not_less)
  then have "bit (udt_flags h) 4 = ustuff h" "bit (udt_flags h) 5 = ucrypt h" "bit (udt_flags h) 6 = uack h"
    "bit (udt_flags h) 7 = isresend h"
    by (auto simp: udt_flags_def bit_simps)
  ultimately show ?thesis by (cases h) (simp add: hdr_of_bytes_def)
qed

lemma be_of_u16_list:
  obtains x y where "be_of_u16 w = [x, y]" "htons (u16_of_le x y) = w"
  by (rule that [of "ucast (htons w)" "ucast (drop_bit 8 (htons w))"]) (simp_all add: be_of_u16_def le_of_u16_def)

lemma be_of_u32_list:
  obtains a b c d where "be_of_u32 w = [a, b, c, d]" "ntohl (u32_of_le a b c d) = w"
  by (rule that [of "ucast (ntohl w)" "ucast (drop_bit 8 (ntohl w))" "ucast (drop_bit 16 (ntohl w))" "ucast (drop_bit 24 (ntohl w))"])
    (simp_all add: be_of_u32_def le_of_u32_def)

lemma length_host2net: "length (udt_host2net cs p) = ndt_header_size p + length (pdata p)"
  by (simp add: udt_host2net_def ndt_header_size_def)

text \<open>The fields survive the wire; behind the packet the buffer keeps what it held.\<close>

definition received_pocket :: "ndudt_pocket \<Rightarrow> byte list \<Rightarrow> ndudt_pocket \<Rightarrow> bool" where
  "received_pocket p rest q \<longleftrightarrow> uheader q = uheader p \<and> ulocal_port q = ulocal_port p \<and>
     uwindow_len q = uwindow_len p \<and> sequence q = sequence p \<and> (uack (uheader p) \<longrightarrow> ack_seq q = ack_seq p) \<and>
     pdata q = pdata p @ rest"

lemma net2host_host2net:
  assumes "16 \<le> length (udt_host2net cs p @ rest)"
  shows "\<exists>q. udt_net2host (udt_host2net cs p @ rest) = Some q \<and> received_pocket p rest q"
proof -
  obtain c0 c1 where c: "be_of_u16 cs = [c0, c1]" by (rule be_of_u16_list)
  obtain l0 l1 where l: "be_of_u16 (ulocal_port p) = [l0, l1]" "htons (u16_of_le l0 l1) = ulocal_port p" by (rule be_of_u16_list)
  obtain w0 w1 where w: "be_of_u16 (uwindow_len p) = [w0, w1]" "htons (u16_of_le w0 w1) = uwindow_len p" by (rule be_of_u16_list)
  obtain s0 s1 s2 s3 where s: "be_of_u32 (sequence p) = [s0, s1, s2, s3]" "ntohl (u32_of_le s0 s1 s2 s3) = sequence p"
    by (rule be_of_u32_list)
  obtain a0 a1 a2 a3 where a: "be_of_u32 (ack_seq p) = [a0, a1, a2, a3]" "ntohl (u32_of_le a0 a1 a2 a3) = ack_seq p"
    by (rule be_of_u32_list)
  show ?thesis
  proof (cases "uack (uheader p)")
    case True
    then show ?thesis by (simp add: udt_host2net_def received_pocket_def c l w s a Let_def)
  next
    case False
    then have "4 \<le> length (pdata p @ rest)" using assms by (simp add: length_host2net ndt_header_size_def)
    then obtain d0 d1 d2 d3 d where d: "pdata p @ rest = d0 # d1 # d2 # d3 # d"
      by (cases "pdata p @ rest"; cases "tl (pdata p @ rest)"; cases "tl (tl (pdata p @ rest))"; cases "tl (tl (tl (pdata p @ rest)))") auto
    then have "udt_host2net cs p @ rest = nibbles (uversion (uheader p)) (uprotocol (uheader p)) # udt_flags (uheader p) #
        c0 # c1 # l0 # l1 # w0 # w1 # s0 # s1 # s2 # s3 # d0 # d1 # d2 # d3 # d"
      using False by (simp add: udt_host2net_def c l w s)
    then show ?thesis using False d by (simp add: received_pocket_def l w s Let_def)
  qed
qed

lemma host2net_checksum_field:
  "(udt_host2net cs p)[2 := x, 3 := y] = udt_host2net (htons (u16_of_le x y)) p"
  "udt_host2net cs p ! 2 = ucast (htons cs)" "udt_host2net cs p ! 3 = ucast (drop_bit 8 (htons cs))"
  by (simp_all add: udt_host2net_def be_of_u16_def le_of_u16_def numeral_2_eq_2 numeral_3_eq_3)

lemma u16_of_le_zero: "htons (u16_of_le 0 0) = 0"
  by (simp add: u16_of_le_def htons_def)

lemma set_checksum_host2net:
  "set_checksum (udt_host2net cs p) = udt_host2net (nd_checksum (udt_host2net 0 p)) p"
  by (simp add: set_checksum_def Let_def host2net_checksum_field u16_of_le_zero)

lemma test_checksum_set:
  "test_checksum (set_checksum (udt_host2net cs p) @ rest) (ndt_header_size p + length (pdata p)) =
    (True, udt_host2net 0 p @ rest)"
proof -
  define k where "k = nd_checksum (udt_host2net 0 p)"
  have len: "length (udt_host2net k p) = ndt_header_size p + length (pdata p)" "12 \<le> length (udt_host2net k p)"
    by (simp_all add: length_host2net ndt_header_size_def)
  then have "(udt_host2net k p @ rest)[2 := 0, 3 := 0] = udt_host2net 0 p @ rest"
    by (simp add: list_update_append host2net_checksum_field u16_of_le_zero)
  moreover have "length (udt_host2net 0 p) = ndt_header_size p + length (pdata p)" by (rule length_host2net)
  ultimately show ?thesis
    using len by (simp add: test_checksum_def set_checksum_host2net Let_def nth_append host2net_checksum_field flip: k_def)
qed

end
