(* ===== verification/Udt.thy ===== *)
theory Udt
  imports Tcp Udt_Packet
begin

text \<open>
  UDT connections: \<^verbatim>\<open>src/nd_net/src/udt_socket.c\<close>, \<^verbatim>\<open>udt_net.c\<close>, the datagram layer
  \<^verbatim>\<open>nd_udp.c\<close> and the session upkeep of \<^verbatim>\<open>udt_srv.c\<close>. A UDT node is a connection node with the
  protocol's own fields behind it (\<open>unode\<close> is the part it shares with \<open>netui_info\<close>). The kernel takes or
  refuses whole datagrams; \<open>usent\<close> are the ones it has taken. User code (\<open>data_entry\<close>, \<open>accept_proc\<close>) is
  a parameter. An operation that touches memory outside its block has no value, with one exception: the
  code builds the header of an outgoing packet in the bytes in front of the data in the send buffer and
  restores them afterwards, also when these lie in front of the block; the model leaves them alone.
  Loops that wait for the network are \<open>partial_function\<close>s.
\<close>

section \<open>State\<close>

definition MAX_ATTEMPT_SEND :: nat where "MAX_ATTEMPT_SEND = 5"
definition RETRANSLATE_TIME :: int where "RETRANSLATE_TIME = 10000"
definition WAIT_CONNECT_TIME :: ndtime_t where "WAIT_CONNECT_TIME = 15000"
definition TIME_OUT_BETA :: int where "TIME_OUT_BETA = 2"

abbreviation (input) NETSTAT_CLOSED :: nat where "NETSTAT_CLOSED \<equiv> 0"
abbreviation (input) NETSTAT_LISTEN :: nat where "NETSTAT_LISTEN \<equiv> 1"
abbreviation (input) NETSTAT_SYNSEND :: nat where "NETSTAT_SYNSEND \<equiv> 2"
abbreviation (input) NETSTAT_SYNRECV :: nat where "NETSTAT_SYNRECV \<equiv> 4"
abbreviation (input) NETSTAT_ACCEPT :: nat where "NETSTAT_ACCEPT \<equiv> 8"
abbreviation (input) NETSTAT_FINSEND :: nat where "NETSTAT_FINSEND \<equiv> 0x20"
abbreviation (input) NETSTAT_SENDCLOSE :: nat where "NETSTAT_SENDCLOSE \<equiv> 0x40"
abbreviation (input) NETSTAT_RECVCLOSE :: nat where "NETSTAT_RECVCLOSE \<equiv> 0x80"
abbreviation (input) NETSTAT_RESET :: nat where "NETSTAT_RESET \<equiv> 0x100"
abbreviation (input) NDERR_INVALID_INPUT :: nat where "NDERR_INVALID_INPUT \<equiv> 8"

datatype dgram_send = DSend | DSendErr int
datatype dgram_recv = DRecv "byte list" nat | DRecvErr int

text \<open>\<open>ujunk\<close> is what an uninitialised \<open>udt_pocketbuf\<close> holds.\<close>

record udp_os =
  uos :: net_os
  usend_script :: "dgram_send list"
  urecv_script :: "dgram_recv list"
  usent :: "byte list list"
  ujunk :: "byte list"

record udt_packet_node =
  recvTm :: ndtime_t
  psize :: nat
  ppack :: ndudt_pocket

record nd_udt_node =
  unode :: nd_tcp_node
  last_read :: nat
  remote_addr :: nat
  is_accept :: bool
  need_ack :: bool
  is_retranslate :: bool
  user_data_in :: bool
  resend_times :: u16
  local_port :: u16
  retrans_timeout :: ndtime_t
  last_resend_tm :: ndtime_t
  last_active :: ndtime_t
  update_tm :: ndtime_t
  send_sequence :: u32
  acknowledged_seq :: u32
  received_sequence :: u32
  retrans_seq :: u32
  window_len :: nat
  rtt_average :: int
  rtt_deviation :: int
  pre_list :: "udt_packet_node list"

type_synonym 'a udt = "('a \<times> nd_udt_node \<times> udp_os) option"

text \<open>User code a node refers to: the packet handler for datagrams (\<open>None\<close>: a null pointer) and the accept
  callback of the listener (\<open>None\<close>: no listener or a null pointer).\<close>

record udt_user =
  data_entry :: "(nd_udt_node \<Rightarrow> byte list \<Rightarrow> udp_os \<Rightarrow> int udt) option"
  accept_proc :: "(nd_udt_node \<Rightarrow> udp_os \<Rightarrow> (nd_udt_node \<times> udp_os) option) option"

definition uupd :: "(nd_tcp_node \<Rightarrow> nd_tcp_node) \<Rightarrow> nd_udt_node \<Rightarrow> nd_udt_node" where
  "uupd f n = n\<lparr>unode := f (unode n)\<rparr>"

abbreviation ustatus :: "nd_udt_node \<Rightarrow> nat" where "ustatus n \<equiv> status (unode n)"
abbreviation uerr :: "nd_udt_node \<Rightarrow> nat" where "uerr n \<equiv> myerrno (unode n)"
abbreviation usendbuf :: "nd_udt_node \<Rightarrow> nd_linebuf" where "usendbuf n \<equiv> send_buffer (unode n)"
abbreviation urecvbuf :: "nd_udt_node \<Rightarrow> nd_linebuf" where "urecvbuf n \<equiv> recv_buffer (unode n)"

definition set_status :: "nat \<Rightarrow> nd_udt_node \<Rightarrow> nd_udt_node" where
  "set_status s = uupd (\<lambda>b. b\<lparr>status := s\<rparr>)"

definition add_status :: "nat \<Rightarrow> nd_udt_node \<Rightarrow> nd_udt_node" where
  "add_status s n = set_status (ustatus n OR s) n"

definition set_err :: "nat \<Rightarrow> nd_udt_node \<Rightarrow> nd_udt_node" where
  "set_err e = uupd (\<lambda>b. b\<lparr>myerrno := e\<rparr>)"

definition has_status :: "nd_udt_node \<Rightarrow> nat \<Rightarrow> bool" where
  "has_status n s \<longleftrightarrow> ustatus n AND s \<noteq> 0"

definition udp_time :: "udp_os \<Rightarrow> ndtime_t \<times> udp_os" where
  "udp_time os = (let (t, o') = nd_time (uos os) in (t, os\<lparr>uos := o'\<rparr>))"

section \<open>Datagrams\<close>

definition os_sendto :: "udp_os \<Rightarrow> byte list \<Rightarrow> int \<times> udp_os" where
  "os_sendto os bs = (case usend_script os of
     [] \<Rightarrow> (-1, os\<lparr>uos := (uos os)\<lparr>os_errno := ESOCKETTIMEOUT\<rparr>\<rparr>)
   | DSend # s \<Rightarrow> (int (length bs), os\<lparr>usend_script := s, usent := usent os @ [bs]\<rparr>)
   | DSendErr e # s \<Rightarrow> (-1, os\<lparr>usend_script := s, uos := (uos os)\<lparr>os_errno := e\<rparr>\<rparr>))"

definition os_recvfrom :: "udp_os \<Rightarrow> nat \<Rightarrow> int \<times> byte list \<times> nat \<times> udp_os" where
  "os_recvfrom os sz = (case urecv_script os of
     [] \<Rightarrow> (-1, [], 0, os\<lparr>uos := (uos os)\<lparr>os_errno := ESOCKETTIMEOUT\<rparr>\<rparr>)
   | DRecv bs a # s \<Rightarrow> (int (length (take sz bs)), take sz bs, a, os\<lparr>urecv_script := s\<rparr>)
   | DRecvErr e # s \<Rightarrow> (-1, [], 0, os\<lparr>urecv_script := s, uos := (uos os)\<lparr>os_errno := e\<rparr>\<rparr>))"

definition nd_udp_send :: "nd_udt_node \<Rightarrow> byte list \<Rightarrow> udp_os \<Rightarrow> int \<times> nd_udt_node \<times> udp_os" where
  "nd_udp_send n bs os =
     (let (ret, os) = os_sendto os bs in
      if ret > 0 then
        let (t, os) = udp_time os
        in (ret, uupd (\<lambda>b. b\<lparr>last_push := t, send_len := send_len b + length bs\<rparr>) n, os)
      else if ret = -1 then
        (ret, set_err (if os_errno (uos os) = ESOCKETTIMEOUT then NDERR_WOULD_BLOCK else NDERR_WRITE) n, os)
      else (ret, n, os))"

text \<open>The bytes read, besides the result. \<open>TCPNODE_READ_AGAIN\<close> is the flag \<open>read_again\<close>.\<close>

definition nd_udp_read :: "nd_udt_node \<Rightarrow> nat \<Rightarrow> ndtime_t \<Rightarrow> udp_os \<Rightarrow> int \<times> byte list \<times> nd_udt_node \<times> udp_os" where
  "nd_udp_read n sz outval os =
     (let n = uupd (\<lambda>b. b\<lparr>read_again := False\<rparr>) n;
          (w, os) = (if outval \<noteq> 0 then let (r, o') = os_select (uos os) in (r, os\<lparr>uos := o'\<rparr>) else (1, os))
      in if w \<le> 0 then (w, [], set_err (if w = 0 then NDERR_WOULD_BLOCK else NDERR_IO) n, os)
      else
        let (readlen, bs, a, os) = os_recvfrom os sz in
        if readlen = -1 then
          let e = os_errno (uos os); n = uupd (\<lambda>b. b\<lparr>sys_error := e\<rparr>) n
          in if e = ESOCKETTIMEOUT then (0, [], set_err NDERR_WOULD_BLOCK n, os)
             else (-1, [], set_err NDERR_READ n, os)
        else
          let (t, os) = udp_time os
          in (readlen, bs, (uupd (\<lambda>b. b\<lparr>read_again := True, last_recv := t, recv_len := recv_len b + nat readlen\<rparr>) n)
                \<lparr>last_read := a\<rparr>, os))"

definition nd_udp_close :: "nd_udt_node \<Rightarrow> nd_udt_node" where
  "nd_udp_close n = (if fd (unode n) \<noteq> 0 then uupd (\<lambda>b. b\<lparr>fd := 0, status := 0\<rparr>) n else n)"

text \<open>\<open>sock\<close>, the address and the family are what the socket layer returns.\<close>

definition nd_udp_connect :: "nd_udt_node \<Rightarrow> int \<Rightarrow> nat \<Rightarrow> bool \<Rightarrow> int \<times> nd_udt_node" where
  "nd_udp_connect n sock a v6 =
     (let n = (uupd (\<lambda>b. b\<lparr>fd := sock\<rparr>) n)\<lparr>remote_addr := a\<rparr> in
      if sock \<le> 0 then (-1, set_err NDERR_OPENFILE n)
      else (0, if v6 then uupd (\<lambda>b. b\<lparr>is_ipv6 := True\<rparr>) n else n))"

section \<open>Packets\<close>

definition send_window :: "nd_udt_node \<Rightarrow> nat" where
  "send_window n = min (lbuf_free_capacity (urecvbuf n)) 0xffff"

definition write_pocket_to_socket :: "nd_udt_node \<Rightarrow> ndudt_pocket \<Rightarrow> udp_os \<Rightarrow> int \<times> nd_udt_node \<times> udp_os" where
  "write_pocket_to_socket n p os =
     (let p = p\<lparr>ulocal_port := local_port n, uwindow_len := of_nat (send_window n)\<rparr>;
          bs = set_checksum (udt_host2net 0 p);
          (ret, n, os) = nd_udp_send n bs os
      in if ret = int (length bs) then
           let (t, os) = udp_time os in (ret, n\<lparr>last_active := t\<rparr>, os)
         else (ret, n, os))"

text \<open>The packet buffer holds the datagram and behind it what it held before. Without a header in the
  buffer there is no value.\<close>

definition read_packet_from_socket ::
  "nd_udt_node \<Rightarrow> ndtime_t \<Rightarrow> udp_os \<Rightarrow> (int \<times> ndudt_pocket option) udt" where
  "read_packet_from_socket n tmout os =
     (let (len, bs, n, os) = nd_udp_read n UDT_POCKETBUF_SIZE tmout os in
      if len \<le> 0 then Some ((len, None), n, os)
      else
        let (ok, buf) = test_checksum (bs @ drop (length bs) (ujunk os)) (nat len) in
        if \<not> ok then Some ((0, None), set_err NDERR_BADPACKET n, os)
        else do { p \<leftarrow> udt_net2host buf; Some ((len, Some p), n, os) })"

definition udt_send_ack :: "nd_udt_node \<Rightarrow> udp_os \<Rightarrow> int \<times> nd_udt_node \<times> udp_os" where
  "udt_send_ack n os =
     write_pocket_to_socket n (set_pocket_type NDUDT_ACK (set_pocket_ack init_udt_pocket (received_sequence n))) os"

definition calc_timeouval :: "int \<Rightarrow> int \<Rightarrow> int \<Rightarrow> ndtime_t \<times> int \<times> int" where
  "calc_timeouval average deviation measuerment =
     (let err = measuerment - average div 8;
          average = average + err;
          err = \<bar>err\<bar> - deviation div 4;
          deviation = deviation + err;
          ret = (average div 4 + deviation) div 2
      in (word_of_int (if ret < 500 then 500 else ret), average, deviation))"

section \<open>Connecting and acknowledging\<close>

definition handle_syn :: "nd_udt_node \<Rightarrow> ndudt_pocket \<Rightarrow> udp_os \<Rightarrow> int \<times> nd_udt_node \<times> udp_os" where
  "handle_syn n p os =
     (if ustatus n = NETSTAT_LISTEN then
        let n = n\<lparr>acknowledged_seq := send_sequence n, received_sequence := sequence p + 1\<rparr>;
            syn_ack = (set_pocket_ack (set_pocket_type NDUDT_SYN init_udt_pocket) (received_sequence n))\<lparr>sequence := send_sequence n\<rparr>;
            (_, n, os) = write_pocket_to_socket n syn_ack os
        in (0, set_status NETSTAT_SYNRECV n, os)
      else if ustatus n = NETSTAT_SYNSEND then
        if \<not> uack (uheader p) \<or> send_sequence n + 1 \<noteq> ack_seq p
        then (-1, set_err NDERR_BADPACKET n, os)
        else
          let n = n\<lparr>local_port := ulocal_port p, received_sequence := sequence p + 1, acknowledged_seq := ack_seq p\<rparr>;
              n = (set_status NETSTAT_ESTABLISHED n)\<lparr>send_sequence := send_sequence n + 1\<rparr>;
              (_, n, os) = udt_send_ack n os
          in (0, n, os)
      else if ustatus n < NETSTAT_ACCEPT then
        if received_sequence n = sequence p + 1
        then let (_, n, os) = udt_send_ack n os in (0, n, os)
        else (-1, n, os)
      else (-1, set_err NDERR_BADPACKET n, os))"

definition accept_ack :: "udt_user \<Rightarrow> nd_udt_node \<Rightarrow> u32 \<Rightarrow> udp_os \<Rightarrow> int udt" where
  "accept_ack u n aseq os =
     (if sint (aseq - acknowledged_seq n) < 0 then Some (0, set_err NDERR_BADPACKET n, os)
      else if send_sequence n + 1 = aseq then
        let n = (set_status NETSTAT_ACCEPT n)\<lparr>acknowledged_seq := aseq, send_sequence := send_sequence n + 1\<rparr>
        in (case accept_proc u of
              None \<Rightarrow> Some (0, n, os)
            | Some f \<Rightarrow> do {
                (n, os) \<leftarrow> f n os;
                Some (0, set_status NETSTAT_ESTABLISHED (uupd (\<lambda>b. b\<lparr>start_time := update_tm n\<rparr>) n), os)
              })
      else Some (0, n, os))"

text \<open>New data is acknowledged: it leaves the send buffer and the round trip is measured.\<close>

definition ack_progress :: "nd_udt_node \<Rightarrow> u32 \<Rightarrow> nd_udt_node option" where
  "ack_progress n aseq =
     (let notified = sint (aseq - acknowledged_seq n); unnotified = sint (send_sequence n - aseq) in
      if notified > 0 \<and> lbuf_datalen (usendbuf n) > 0 \<and> unnotified \<ge> 0 then do {
        b \<leftarrow> lbuf_sub_data (usendbuf n) (nat notified);
        let n = (uupd (\<lambda>x. x\<lparr>send_buffer := b\<rparr>) n)\<lparr>acknowledged_seq := aseq\<rparr>;
        Some (if \<not> is_retranslate n then
            let (t, av, de) = calc_timeouval (rtt_average n) (rtt_deviation n) (sint (update_tm n - last_resend_tm n))
            in n\<lparr>retrans_timeout := t, rtt_average := av, rtt_deviation := de\<rparr>
          else n)
      } else Some n)"

text \<open>A retransmission ends when its last byte is acknowledged.\<close>

definition ack_retranslate :: "nd_udt_node \<Rightarrow> u32 \<Rightarrow> nd_udt_node" where
  "ack_retranslate n aseq =
     (if is_retranslate n \<and> sint (aseq - retrans_seq n) \<ge> 0
      then n\<lparr>is_retranslate := False, retrans_seq := aseq, resend_times := 0\<rparr> else n)"

definition handle_ack :: "udt_user \<Rightarrow> nd_udt_node \<Rightarrow> u32 \<Rightarrow> udp_os \<Rightarrow> int udt" where
  "handle_ack u n aseq os =
     (if aseq \<le> acknowledged_seq n then Some (0, n, os)
      else if ustatus n = NETSTAT_SYNRECV then accept_ack u n aseq os
      else if has_status n NETSTAT_FINSEND then
        (if send_sequence n = aseq then do {
           b \<leftarrow> lbuf_reset (usendbuf n);
           let n = add_status NETSTAT_SENDCLOSE (uupd (\<lambda>x. x\<lparr>send_buffer := b\<rparr>) n);
           Some (0, if has_status n NETSTAT_RECVCLOSE then add_status NETSTAT_RESET n else n, os)
         } else Some (0, n, os))
      else do { n \<leftarrow> ack_progress n aseq; Some (0, ack_retranslate n aseq, os) })"

section \<open>Sending\<close>

text \<open>\<open>send_window_start\<close>: the offset of the data to send and its length, or a null pointer.\<close>

definition send_window_start :: "nd_udt_node \<Rightarrow> (nat \<times> nat) option" where
  "send_window_start n =
     (let data_len = lbuf_datalen (usendbuf n); un_ack = unat (send_sequence n - acknowledged_seq n) in
      if data_len \<le> un_ack then None
      else Some (un_ack, min (window_len n) (min (data_len - un_ack) NDUDT_FRAGMENT_LEN)))"

definition flush_send_window :: "nd_udt_node \<Rightarrow> udp_os \<Rightarrow> int udt" where
  "flush_send_window n os =
     (if has_status n NETSTAT_SENDCLOSE \<or> is_retranslate n then Some (0, n, os)
      else case send_window_start n of
        None \<Rightarrow> Some (0, n, os)
      | Some (off, len) \<Rightarrow>
          if len = 0 then Some (0, n, os)
          else do {
            bs \<leftarrow> lbuf_load (usendbuf n) (lb_start (usendbuf n) + off) len;
            let p = (if need_ack n then set_pocket_ack init_udt_pocket (received_sequence n) else init_udt_pocket);
            let p = p\<lparr>sequence := send_sequence n, pdata := bs\<rparr>;
            let n = n\<lparr>need_ack := False\<rparr>;
            let (ret, n, os) = write_pocket_to_socket n p os;
            Some (ret,
              if ret = int (len + ndt_header_size p) then
                n\<lparr>last_resend_tm := last_active n, send_sequence := send_sequence n + of_nat len,
                  window_len := window_len n - len\<rparr>
              else n, os)
          })"

partial_function (option) flush_all :: "nd_udt_node \<Rightarrow> udp_os \<Rightarrow> (nd_udt_node \<times> udp_os) option" where
  "flush_all n os = do {
     (ret, n, os) \<leftarrow> flush_send_window n os;
     if ret > 0 then flush_all n os else Some (n, os)
   }"

text \<open>With an acknowledgement due, the code reserves 16 bytes and stores \<open>ack_seq\<close>, but then initialises the
  header, which clears the flag: the packet has a 12-byte header and the four bytes of the number
  (little-endian, as in memory) stand in front of the data.\<close>

definition retranslate_data :: "nd_udt_node \<Rightarrow> udp_os \<Rightarrow> int udt" where
  "retranslate_data n os =
     (let sendseq = acknowledged_seq n;
          len = (if \<not> is_retranslate n then sint (send_sequence n - acknowledged_seq n)
                 else sint (retrans_seq n - acknowledged_seq n));
          n = (if \<not> is_retranslate n then n\<lparr>retrans_seq := acknowledged_seq n\<rparr> else n)
      in if len \<le> 0 then Some (0, n, os)
      else do {
        let len = min (nat len) NDUDT_FRAGMENT_LEN;
        bs \<leftarrow> lbuf_load (usendbuf n) (lb_start (usendbuf n)) len;
        let stray = (if need_ack n then le_of_u32 (received_sequence n) else []);
        let p = init_udt_pocket\<lparr>sequence := sendseq, pdata := stray @ bs\<rparr>;
        let n = n\<lparr>need_ack := False\<rparr>;
        let (sendlen, n, os) = write_pocket_to_socket n p os;
        Some (if sendlen = int (ndt_header_size p + length (pdata p)) then
            (int len, n\<lparr>last_resend_tm := last_active n,
               retrans_seq := (if \<not> is_retranslate n then retrans_seq n + of_nat len else retrans_seq n)\<rparr>, os)
          else (0, n, os))
      })"

definition udt_retranslate :: "nd_udt_node \<Rightarrow> udp_os \<Rightarrow> int udt" where
  "udt_retranslate n os =
     (if sint (send_sequence n - acknowledged_seq n) \<le> 0 then Some (0, n, os)
      else if update_tm n - last_resend_tm n < retrans_timeout n then Some (0, n, os)
      else if is_retranslate n \<and> unat (resend_times n) \<ge> MAX_ATTEMPT_SEND
      then Some (-1, set_err NDERR_WOULD_BLOCK n, os)
      else do {
        (ret, n, os) \<leftarrow> retranslate_data n os;
        Some (ret,
          if ret > 0 then
            (if \<not> is_retranslate n then n\<lparr>is_retranslate := True, resend_times := 1\<rparr>
             else n\<lparr>resend_times := resend_times n + 1, retrans_timeout := push_bit 1 (retrans_timeout n)\<rparr>)
          else n, os)
      })"

definition udt_send :: "nd_udt_node \<Rightarrow> byte list \<Rightarrow> udp_os \<Rightarrow> int udt" where
  "udt_send n bs os =
     (if ustatus n < NETSTAT_ESTABLISHED \<or> has_status n NETSTAT_FINSEND then Some (-1, set_err NDERR_CLOSED n, os)
      else if length bs < 1 \<or> length bs \<ge> lbuf_capacity (usendbuf n)
      then Some (-1, set_err NDERR_INVALID_INPUT n, os)
      else do {
        (ret, b) \<leftarrow> lbuf_write (os_malloc (uos os)) (usendbuf n) bs EBUF_SPECIFIED;
        Some (ret, uupd (\<lambda>x. x\<lparr>send_buffer := b\<rparr>) (set_err NDERR_SUCCESS n), os)
      })"

text \<open>
  An unreliable datagram has a header of six bytes in front of the data, but is converted like a packet:
  the two bytes of \<open>window_len\<close> and the four of \<open>sequence\<close> are the first six bytes of the data, whose order
  is reversed field by field. \<open>mem\<close> is the memory from the data pointer to the end of its block; data
  shorter than six bytes is swapped with what follows it.
\<close>

fun swap_fields :: "byte list \<Rightarrow> byte list option" where
  "swap_fields (w0 # w1 # s0 # s1 # s2 # s3 # d) = Some (w1 # w0 # s3 # s2 # s1 # s0 # d)"
| "swap_fields _ = None"

definition udt_sendto :: "nd_udt_node \<Rightarrow> byte list \<Rightarrow> int \<Rightarrow> udp_os \<Rightarrow> int udt" where
  "udt_sendto n mem len os =
     (if len < 1 \<or> len > int (ND_UDP_PACKET_SIZE - UDP_PACKET_HEAD_SIZE)
      then Some (-1, set_err NDERR_INVALID_INPUT n, os)
      else do {
        d \<leftarrow> swap_fields mem;
        d \<leftarrow> mem_read d 0 (nat len);
        let h = init_udt_header\<lparr>udt_type := NDUDT_DGRAM\<rparr>;
        let bs = set_checksum (nibbles (uversion h) (uprotocol h) # udt_flags h # be_of_u16 0 @ be_of_u16 (local_port n) @ d);
        let (ret, n, os) = nd_udp_send n bs os;
        if ret = int (length bs) then let (t, os) = udp_time os in Some (ret, n\<lparr>last_active := t\<rparr>, os)
        else Some (ret, n, os)
      })"

text \<open>\<open>msg\<close> is the memory of a packet with its header in network order.\<close>

definition udt_connector_send :: "nd_udt_node \<Rightarrow> byte list \<Rightarrow> send_flags \<Rightarrow> udp_os \<Rightarrow> int udt" where
  "udt_connector_send n msg flag os = do {
     let n = set_err NDERR_SUCCESS n;
     h \<leftarrow> bytes_hdr msg;
     let len = unat (hlength (nd_packet_ntoh h));
     if ESF_POST \<in> flag then udt_sendto n msg (int len) os
     else do {
       bs \<leftarrow> mem_read msg 0 len;
       (ret, n, os) \<leftarrow> udt_send n bs os;
       if ret \<ge> 0 then do { (_, n, os) \<leftarrow> flush_send_window n os; Some (ret, n, os) }
       else Some (ret, n, os)
     }
   }"

section \<open>Receiving\<close>

text \<open>A new packet goes behind (\<open>list_add\<close>) or in front of (\<open>list_add_tail\<close>) the first older one.\<close>

fun pre_insert :: "udt_packet_node \<Rightarrow> udt_packet_node list \<Rightarrow> udt_packet_node list" where
  "pre_insert x [] = [x]"
| "pre_insert x (y # ys) =
     (let tmval = sint (recvTm x - recvTm y) in
      if tmval < 0 then y # x # ys
      else if tmval = 0 then
        (if sint (sequence (ppack x) - sequence (ppack y)) < 0 then y # x # ys else x # y # ys)
      else y # pre_insert x ys)"

definition addto_pre_list :: "nd_udt_node \<Rightarrow> ndudt_pocket \<Rightarrow> nat \<Rightarrow> udp_os \<Rightarrow> int \<times> nd_udt_node \<times> udp_os" where
  "addto_pre_list n p len os =
     (case os_malloc (uos os) (40 + len) of
        None \<Rightarrow> (-1, n, os)
      | Some _ \<Rightarrow>
          let (t, os) = udp_time os
          in (0, n\<lparr>pre_list := pre_insert \<lparr>recvTm = t, psize = len, ppack = p\<rparr> (pre_list n)\<rparr>, os))"

definition pocket_payload :: "ndudt_pocket \<Rightarrow> nat \<Rightarrow> byte list" where
  "pocket_payload p len = take (len - ndt_header_size p) (pdata p)"

text \<open>Storing the data of a packet that continues the stream.\<close>

definition store_payload :: "nd_udt_node \<Rightarrow> ndudt_pocket \<Rightarrow> nat \<Rightarrow> udp_os \<Rightarrow> (int \<times> nd_udt_node) option" where
  "store_payload n p len os = do {
     let n = n\<lparr>need_ack := True, received_sequence := received_sequence n + of_nat (len - ndt_header_size p)\<rparr>;
     (ret, b) \<leftarrow> lbuf_write (os_malloc (uos os)) (urecvbuf n) (pocket_payload p len) EBUF_ALL;
     Some (ret, (uupd (\<lambda>x. x\<lparr>recv_buffer := b\<rparr>) n)\<lparr>user_data_in := True\<rparr>)
   }"

definition handle_pre_packet :: "nd_udt_node \<Rightarrow> ndudt_pocket \<Rightarrow> nat \<Rightarrow> udp_os \<Rightarrow> (int \<times> nd_udt_node) option" where
  "handle_pre_packet n p len os =
     (if sequence p \<noteq> received_sequence n then Some (1, n)
      else if len - ndt_header_size p > lbuf_free_capacity (urecvbuf n) then Some (-1, n)
      else do { (_, n) \<leftarrow> store_payload n p len os; Some (0, n) })"

fun fetch_prelist :: "nd_udt_node \<Rightarrow> udt_packet_node list \<Rightarrow> udp_os \<Rightarrow> nd_udt_node option" where
  "fetch_prelist n [] os = Some (n\<lparr>pre_list := []\<rparr>)"
| "fetch_prelist n (x # xs) os = do {
     (ret, n') \<leftarrow> handle_pre_packet n (ppack x) (psize x) os;
     if ret = 0 then fetch_prelist n' xs os else Some (n'\<lparr>pre_list := x # xs\<rparr>)
   }"

definition tryto_fetch_prelist :: "nd_udt_node \<Rightarrow> udp_os \<Rightarrow> nd_udt_node option" where
  "tryto_fetch_prelist n os = fetch_prelist n (pre_list n) os"

fun prune_prelist :: "u32 \<Rightarrow> udt_packet_node list \<Rightarrow> udp_os \<Rightarrow> udt_packet_node list \<times> udp_os" where
  "prune_prelist rseq [] os = ([], os)"
| "prune_prelist rseq (x # xs) os =
     (let (t, os) = udp_time os; (ys, os) = prune_prelist rseq xs os
      in if sint (sequence (ppack x) - rseq) < 0 \<or> sint (t - recvTm x) > 60000 then (ys, os) else (x # ys, os))"

definition update_prelist :: "nd_udt_node \<Rightarrow> udp_os \<Rightarrow> nd_udt_node \<times> udp_os" where
  "update_prelist n os =
     (let (xs, os) = prune_prelist (received_sequence n) (pre_list n) os in (n\<lparr>pre_list := xs\<rparr>, os))"

definition handle_income_data :: "nd_udt_node \<Rightarrow> ndudt_pocket \<Rightarrow> nat \<Rightarrow> udp_os \<Rightarrow> int udt" where
  "handle_income_data n p len os =
     (if len \<le> ndt_header_size p then Some (0, n, os)
      else
        let seq_offset = sint (sequence p - received_sequence n) in
        if seq_offset > 0 then let (_, n, os) = addto_pre_list n p len os in Some (0, n, os)
        else if seq_offset < 0 then let (_, n, os) = udt_send_ack n os in Some (0, n, os)
        else if len - ndt_header_size p > lbuf_free_capacity (urecvbuf n) then Some (0, n, os)
        else do {
          (data_len, n) \<leftarrow> store_payload n p len os;
          n \<leftarrow> (if pre_list n \<noteq> [] then tryto_fetch_prelist n os else Some n);
          Some (data_len, n, os)
        })"

text \<open>The data of an unreliable datagram as the handler sees it after the conversion.\<close>

definition dgram_data :: "ndudt_pocket \<Rightarrow> nat \<Rightarrow> byte list" where
  "dgram_data p len = take (len - UDP_PACKET_HEAD_SIZE)
     (le_of_u16 (uwindow_len p) @ le_of_u32 (sequence p) @
      (if uack (uheader p) then le_of_u32 (ack_seq p) else []) @ pdata p)"

definition handle_fin :: "udt_user \<Rightarrow> nd_udt_node \<Rightarrow> ndudt_pocket \<Rightarrow> udp_os \<Rightarrow> int udt" where
  "handle_fin u n p os = do {
     (n, os) \<leftarrow> (if uack (uheader p) then do { (_, n, os) \<leftarrow> handle_ack u n (ack_seq p) os; Some (n, os) }
                 else Some (n, os));
     let n = (if \<not> has_status n NETSTAT_RECVCLOSE then
         let n = (add_status NETSTAT_RECVCLOSE n)\<lparr>received_sequence := sequence p\<rparr>
         in if has_status n (NETSTAT_SENDCLOSE + NETSTAT_FINSEND) then add_status NETSTAT_RESET n else n
       else n);
     let (_, n, os) = udt_send_ack n os;
     Some (-1, set_err NDERR_CLOSED n, os)
   }"

definition handle_lost :: "udt_user \<Rightarrow> nd_udt_node \<Rightarrow> ndudt_pocket \<Rightarrow> udp_os \<Rightarrow> int udt" where
  "handle_lost u n p os = do {
     (_, n, os) \<leftarrow> handle_ack u n (ack_seq p) os;
     if sint (sequence p - acknowledged_seq n) \<le> 0 \<or> sint (send_sequence n - sequence p) < 0 then Some (0, n, os)
     else do {
       (_, n, os) \<leftarrow> retranslate_data (n\<lparr>send_sequence := sequence p\<rparr>) os;
       Some (0, n, os)
     }
   }"

text \<open>The cases of the \<open>switch\<close> in \<open>_udt_packet_handler\<close>.\<close>

definition handle_by_type :: "udt_user \<Rightarrow> nd_udt_node \<Rightarrow> ndudt_pocket \<Rightarrow> nat \<Rightarrow> udp_os \<Rightarrow> int udt" where
  "handle_by_type u n p len os =
     (let t = udt_type (uheader p) in
      if t = NDUDT_DATA then do {
        (n, os) \<leftarrow> (if uack (uheader p) then do { (_, n, os) \<leftarrow> handle_ack u n (ack_seq p) os; Some (n, os) }
                    else Some (n, os));
        (ret, n, os) \<leftarrow> handle_income_data n p len os;
        if ret > 0 then do { (n, os) \<leftarrow> flush_all n os; Some (ret, n, os) } else Some (ret, n, os)
      }
      else if t = NDUDT_DGRAM then
        (case data_entry u of None \<Rightarrow> Some (int len, n, os) | Some f \<Rightarrow> f n (dgram_data p len) os)
      else if t = NDUDT_SYN then Some (handle_syn n p os)
      else if t = NDUDT_ACK then handle_ack u n (ack_seq p) os
      else if t = NDUDT_LOST then handle_lost u n p os
      else if t = NDUDT_FIN then handle_fin u n p os
      else if t = NDUDT_RESET then Some (-1, set_err NDERR_RESET (add_status NETSTAT_RESET n), os)
      else Some (0, n, os))"

definition udt_packet_handler :: "udt_user \<Rightarrow> nd_udt_node \<Rightarrow> ndudt_pocket \<Rightarrow> nat \<Rightarrow> udp_os \<Rightarrow> int udt" where
  "udt_packet_handler u n p len os =
     (if has_status n NETSTAT_RESET then
        let (_, n, os) = write_pocket_to_socket n (set_pocket_type NDUDT_RESET init_udt_pocket) os in Some (0, n, os)
      else do {
        let (t, os) = udp_time os;
        let n = set_err NDERR_SUCCESS ((uupd (\<lambda>b. b\<lparr>last_recv := t\<rparr>) n)\<lparr>update_tm := t\<rparr>);
        let n = (if uwindow_len p > 0 then n\<lparr>window_len := unat (uwindow_len p)\<rparr> else n);
        (ret, n, os) \<leftarrow> handle_by_type u n p len os;
        Some (if ret = -1 \<and> uerr n = NDERR_BADPACKET then 0 else ret, n, os)
      })"

section \<open>Upkeep\<close>

definition update_socket :: "nd_udt_node \<Rightarrow> udp_os \<Rightarrow> int udt" where
  "update_socket n os = do {
     let (now, os) = udp_time os;
     let n = set_err NDERR_SUCCESS (n\<lparr>update_tm := now\<rparr>);
     let (n, os) = (if has_status n NETSTAT_ESTABLISHED \<and> pre_list n \<noteq> [] then update_prelist n os else (n, os));
     (ret, n, os) \<leftarrow> flush_send_window n os;
     (r, n, os) \<leftarrow> (if ret > 0 then do { (n, os) \<leftarrow> flush_all n os; Some (0, n, os) } else udt_retranslate n os);
     if r = -1 then Some (-1, n, os)
     else if need_ack n then let (_, n, os) = udt_send_ack n os in Some (1, n\<lparr>need_ack := False\<rparr>, os)
     else Some (1, n, os)
   }"

definition udt_reset :: "nd_udt_node \<Rightarrow> bool \<Rightarrow> udp_os \<Rightarrow> nd_udt_node \<times> udp_os" where
  "udt_reset n issend_reset os =
     (let (n, os) = (if issend_reset then
            let (_, n, os) = write_pocket_to_socket n (set_pocket_type NDUDT_RESET init_udt_pocket) os in (n, os)
          else (n, os));
          n = add_status (NETSTAT_FINSEND + NETSTAT_RESET) n
      in (if \<not> is_accept n \<and> fd (unode n) \<noteq> 0 then nd_udp_close n else n, os))"

definition udt_send_fin :: "nd_udt_node \<Rightarrow> udp_os \<Rightarrow> int \<times> nd_udt_node \<times> udp_os" where
  "udt_send_fin n os =
     (let n = (if \<not> has_status n NETSTAT_FINSEND
               then (add_status NETSTAT_FINSEND n)\<lparr>is_retranslate := False, resend_times := 0\<rparr>
               else n\<lparr>is_retranslate := True, resend_times := resend_times n + 1\<rparr>);
          p = (set_pocket_type NDUDT_FIN init_udt_pocket)\<lparr>sequence := send_sequence n\<rparr>;
          n = n\<lparr>resend_times := resend_times n + 1\<rparr>;
          (ret, n, os) = write_pocket_to_socket n p os
      in if ret > 0 then (0, n\<lparr>last_resend_tm := last_active n\<rparr>, os) else (-1, n, os))"

section \<open>Waiting\<close>

definition check_income :: "nd_udt_node \<Rightarrow> ndudt_pocket \<Rightarrow> int \<Rightarrow> int \<times> nd_udt_node" where
  "check_income n p ret =
     (if remote_addr n \<noteq> last_read n then (-1, set_err NDERR_BADPACKET n)
      else if local_port n \<noteq> 0 then
        (if local_port n \<noteq> ulocal_port p then (-1, set_err NDERR_BADPACKET n)
         else (ret, n\<lparr>update_tm := last_recv (unode n)\<rparr>))
      else if udt_type (uheader p) \<noteq> NDUDT_SYN then (-1, set_err NDERR_BADPACKET n)
      else (ret, n\<lparr>update_tm := last_recv (unode n)\<rparr>))"

partial_function (option) wait_data_loop ::
  "ndtime_t \<Rightarrow> nd_udt_node \<Rightarrow> ndtime_t \<Rightarrow> udp_os \<Rightarrow> (int \<times> ndudt_pocket option) udt" where
  "wait_data_loop waittime n tmout os = do {
     ((ret, p), n, os) \<leftarrow> read_packet_from_socket n waittime os;
     (case p of
        Some p \<Rightarrow> let (r, n) = check_income n p ret in Some ((r, Some p), n, os)
      | None \<Rightarrow>
          if ret = 0 \<or> uerr n = NDERR_WOULD_BLOCK then do {
            let err = uerr n;
            (u, n, os) \<leftarrow> update_socket n os;
            if u = -1 then Some ((-1, None), n, os)
            else do {
              let tmout = tmout - waittime;
              let n = set_err err n;
              if sint tmout > 0 then wait_data_loop waittime n tmout os else Some ((ret, None), n, os)
            }
          } else Some ((ret, None), n, os))
   }"

definition wait_data :: "nd_udt_node \<Rightarrow> ndtime_t \<Rightarrow> udp_os \<Rightarrow> (int \<times> ndudt_pocket option) udt" where
  "wait_data n tmout os = do {
     let waittime = (if tmout > 50 then 50 else tmout);
     (_, n, os) \<leftarrow> update_socket n os;
     wait_data_loop waittime n tmout os
   }"

definition udt_recv :: "udt_user \<Rightarrow> nd_udt_node \<Rightarrow> nat \<Rightarrow> udp_os \<Rightarrow> (int \<times> byte list) udt" where
  "udt_recv u n sz os = do {
     let n = n\<lparr>user_data_in := False\<rparr>;
     (h, n, os) \<leftarrow> (if \<not> is_accept n then do {
         ((ret, p), n, os) \<leftarrow> wait_data n 0 os;
         (case p of
            Some p \<Rightarrow> if ret > 0 then udt_packet_handler u n p (nat ret) os else Some (0, n, os)
          | None \<Rightarrow> Some (0, n, os))
       } else Some (0, n, os));
     if h = -1 then Some ((-1, []), n, os)
     else if lbuf_datalen (urecvbuf n) > 0 then do {
       (ret, bs, b) \<leftarrow> lbuf_read (urecvbuf n) sz EBUF_ALL;
       Some ((ret, bs), uupd (\<lambda>x. x\<lparr>recv_buffer := b\<rparr>) n, os)
     } else Some ((0, []), n, os)
   }"

text \<open>\<open>get_pack_size\<close> reads the header at the start of the receive buffer.\<close>

partial_function (option) wait_packet_loop :: "udt_user \<Rightarrow> nd_udt_node \<Rightarrow> ndtime_t \<Rightarrow> udp_os \<Rightarrow> int udt" where
  "wait_packet_loop u n tmout os = do {
     let (beginTm, os) = udp_time os;
     ((ret, p), n, os) \<leftarrow> wait_data n tmout os;
     (case p of
        None \<Rightarrow> Some (ret, n, os)
      | Some p \<Rightarrow>
          if ret \<le> 0 then Some (ret, n, os)
          else do {
            (ret, n, os) \<leftarrow> udt_packet_handler u n p (nat ret) os;
            let data_len = lbuf_datalen (urecvbuf n);
            whole \<leftarrow> (if ret > 0 then do {
                hb \<leftarrow> lbuf_load (urecvbuf n) (lb_start (urecvbuf n)) 4;
                h \<leftarrow> bytes_hdr hb;
                Some (data_len \<ge> nd_net_getpack_size h)
              } else Some False);
            if whole then Some (int data_len, n, os)
            else if ret = -1 then Some (-1, n, os)
            else do {
              let (now, os) = udp_time os;
              let left = tmout - (now - beginTm);
              if sint left > 0 then wait_packet_loop u n left os else Some (0, n, os)
            }
          })
   }"

definition udt_wait_packet :: "udt_user \<Rightarrow> nd_udt_node \<Rightarrow> ndtime_t \<Rightarrow> udp_os \<Rightarrow> int udt" where
  "udt_wait_packet u n tmout os = wait_packet_loop u (n\<lparr>user_data_in := False\<rparr>) tmout os"

text \<open>Each attempt waits four times the retransmission timeout.\<close>

fun fin_attempts :: "udt_user \<Rightarrow> nat \<Rightarrow> nd_udt_node \<Rightarrow> udp_os \<Rightarrow> int udt" where
  "fin_attempts u 0 n os = (let (n, os) = udt_reset n False os in Some (-1, set_err NDERR_TIMEOUT n, os))"
| "fin_attempts u (Suc i) n os =
     (let (r, n, os) = udt_send_fin n os in
      if r = -1 then let (n, os) = udt_reset n False os in Some (-1, n, os)
      else do {
        (ret, n, os) \<leftarrow> udt_wait_packet u n (push_bit 2 (retrans_timeout n)) os;
        if has_status n NETSTAT_SENDCLOSE then Some (0, n, os)
        else if ret = -1 then let (n, os) = udt_reset n False os in Some (-1, n, os)
        else fin_attempts u i n os
      })"

fun recvclose_attempts :: "udt_user \<Rightarrow> nat \<Rightarrow> nd_udt_node \<Rightarrow> udp_os \<Rightarrow> int udt" where
  "recvclose_attempts u 0 n os = Some (0, n, os)"
| "recvclose_attempts u (Suc i) n os = do {
     (ret, n, os) \<leftarrow> udt_wait_packet u n (push_bit 2 (retrans_timeout n)) os;
     if has_status n NETSTAT_RECVCLOSE then Some (0, n, os)
     else if ret = -1 then let (n, os) = udt_reset n False os in Some (-1, n, os)
     else recvclose_attempts u i n os
   }"

definition udt_fin_send_handle :: "udt_user \<Rightarrow> nd_udt_node \<Rightarrow> udp_os \<Rightarrow> int udt" where
  "udt_fin_send_handle u n os = do {
     (r, n, os) \<leftarrow> (if \<not> has_status n NETSTAT_SENDCLOSE then fin_attempts u MAX_ATTEMPT_SEND n os else Some (0, n, os));
     if r = -1 then Some (-1, n, os)
     else if has_status n NETSTAT_RECVCLOSE then Some (0, n, os)
     else recvclose_attempts u MAX_ATTEMPT_SEND n os
   }"

definition udt_close :: "udt_user \<Rightarrow> nd_udt_node \<Rightarrow> bool \<Rightarrow> udp_os \<Rightarrow> int udt" where
  "udt_close u n force os = do {
     (n, os) \<leftarrow> (if force then Some (udt_reset n True os)
       else do {
         (n, os) \<leftarrow> (if ustatus n = NETSTAT_ESTABLISHED then flush_all n os else Some (n, os));
         (_, n, os) \<leftarrow> udt_fin_send_handle u n os;
         Some (n, os)
       });
     Some (0, nd_udp_close n, os)
   }"

fun udt_syn_attempts :: "udt_user \<Rightarrow> nat \<Rightarrow> ndudt_pocket \<Rightarrow> nd_udt_node \<Rightarrow> udp_os \<Rightarrow> int udt" where
  "udt_syn_attempts u 0 p n os = Some (-1, n, os)"
| "udt_syn_attempts u (Suc i) p n os =
     (let (w, n, os) = write_pocket_to_socket n p os in
      if w = -1 then Some (-1, n, os)
      else do {
        ((ret, q), n, os) \<leftarrow> read_packet_from_socket (set_status NETSTAT_SYNSEND n) WAIT_CONNECT_TIME os;
        (h, n, os) \<leftarrow> (case q of
            Some q \<Rightarrow> if ret > 0 then udt_packet_handler u n q (nat ret) os else Some (-1, n, os)
          | None \<Rightarrow> Some (-1, n, os));
        if h \<ge> 0 \<and> ustatus n = NETSTAT_ESTABLISHED then Some (0, n, os)
        else udt_syn_attempts u i p n os
      })"

definition udt_syn :: "udt_user \<Rightarrow> nd_udt_node \<Rightarrow> udp_os \<Rightarrow> int udt" where
  "udt_syn u n os =
     udt_syn_attempts u 3 ((set_pocket_type NDUDT_SYN init_udt_pocket)\<lparr>sequence := send_sequence n\<rparr>) n os"

text \<open>The result is whether the node is connected.\<close>

definition udt_connect :: "udt_user \<Rightarrow> nd_udt_node \<Rightarrow> int \<Rightarrow> nat \<Rightarrow> bool \<Rightarrow> udp_os \<Rightarrow> bool udt" where
  "udt_connect u n sock a v6 os =
     (let (c, n) = nd_udp_connect n sock a v6 in
      if c = -1 then Some (False, n, os)
      else do {
        (r, n, os) \<leftarrow> udt_syn u n os;
        if r = 0 then let (t, os) = udp_time os in Some (True, uupd (\<lambda>b. b\<lparr>start_time := t\<rparr>) n, os)
        else Some (False, n, os)
      })"

section \<open>Life of a node\<close>

definition zero_udt_node :: nd_udt_node where
  "zero_udt_node = \<lparr>unode = zero_tcp_node, last_read = 0, remote_addr = 0, is_accept = False, need_ack = False,
     is_retranslate = False, user_data_in = False, resend_times = 0, local_port = 0, retrans_timeout = 0,
     last_resend_tm = 0, last_active = 0, update_tm = 0, send_sequence = 0, acknowledged_seq = 0,
     received_sequence = 0, retrans_seq = 0, window_len = 0, rtt_average = 0, rtt_deviation = 0, pre_list = []\<rparr>"

definition udt_connector_init :: "nd_udt_node \<Rightarrow> nd_udt_node" where
  "udt_connector_init n =
     (uupd (\<lambda>b. b\<lparr>htype := NDHANDLE_UDPNODE, protocol := PROTOCOL_UDT, status := NETSTAT_CLOSED,
        crypt_key := init_crypt_key (crypt_key b), release_cbs := []\<rparr>) n)
       \<lparr>local_port := 0, rtt_average := RETRANSLATE_TIME, rtt_deviation := 0,
        retrans_timeout := word_of_int (RETRANSLATE_TIME * TIME_OUT_BETA), pre_list := []\<rparr>"

definition nd_udtnode_init :: "udp_os \<Rightarrow> (nd_udt_node \<times> udp_os) option" where
  "nd_udtnode_init os = do {
     let n = udt_connector_init zero_udt_node;
     (_, r) \<leftarrow> lbuf_init (os_malloc (uos os)) (urecvbuf n) ND_NETBUF_SIZE;
     (_, s) \<leftarrow> lbuf_init (os_malloc (uos os)) (usendbuf n) ND_NETBUF_SIZE;
     Some (uupd (\<lambda>b. b\<lparr>recv_buffer := r, send_buffer := s\<rparr>) n, os)
   }"

definition nd_udtnode_reset :: "nd_udt_node \<Rightarrow> udp_os \<Rightarrow> (nd_udt_node \<times> udp_os) option" where
  "nd_udtnode_reset n os = do {
     let n = n\<lparr>pre_list := []\<rparr>;
     let (b, o') = nd_object_on_destroy (unode n) 0 (uos os);
     let (t, os) = udp_time (os\<lparr>uos := o'\<rparr>);
     let b = b\<lparr>sys_error := 0, myerrno := 0, last_recv := t, last_push := t, level := 0, status := NETSTAT_CLOSED\<rparr>;
     let n = n\<lparr>unode := b, local_port := 0, need_ack := False, is_retranslate := False, user_data_in := False,
       resend_times := 0, last_resend_tm := 0, last_active := 0, update_tm := 0, send_sequence := 0,
       acknowledged_seq := 0, received_sequence := 0, retrans_seq := 0, window_len := 0,
       rtt_average := RETRANSLATE_TIME, rtt_deviation := 0,
       retrans_timeout := word_of_int (RETRANSLATE_TIME * TIME_OUT_BETA)\<rparr>;
     r \<leftarrow> lbuf_reset (urecvbuf n);
     s \<leftarrow> lbuf_reset (usendbuf n);
     Some (uupd (\<lambda>x. x\<lparr>recv_buffer := r, send_buffer := s\<rparr>) n, os)
   }"

definition deinit_udt_socket :: "nd_udt_node \<Rightarrow> udp_os \<Rightarrow> (nd_udt_node \<times> udp_os) option" where
  "deinit_udt_socket n os = do {
     let n = set_status NETSTAT_CLOSED (n\<lparr>pre_list := []\<rparr>);
     r \<leftarrow> lbuf_destroy True (urecvbuf n);
     s \<leftarrow> lbuf_destroy True (usendbuf n);
     let n = uupd (\<lambda>x. x\<lparr>recv_buffer := r, send_buffer := s\<rparr>) n;
     let (b, o') = nd_object_on_destroy (unode n) 0 (uos os);
     Some (n\<lparr>unode := b\<rparr>, os\<lparr>uos := o'\<rparr>)
   }"

definition update_udt_session :: "nd_udt_node \<Rightarrow> udp_os \<Rightarrow> int udt" where
  "update_udt_session n os =
     (if ustatus n = NETSTAT_ESTABLISHED then do {
        (r, n, os) \<leftarrow> update_socket n os;
        if r = -1 then let (n, os) = udt_reset n False os in Some (0, n, os) else Some (0, n, os)
      }
      else if ustatus n < NETSTAT_ESTABLISHED then
        let (t, os) = udp_time os in
        if t - last_recv (unode n) > retrans_timeout n
        then let (n, os) = udt_reset n False os in Some (0, n, os) else Some (0, n, os)
      else if has_status n NETSTAT_RESET then Some (-1, n, os)
      else if has_status n NETSTAT_FINSEND \<and> \<not> has_status n NETSTAT_SENDCLOSE then
        (if resend_times n < 2 then
           let (t, os) = udp_time os in
           if t - last_resend_tm n > retrans_timeout n
           then let (_, n, os) = udt_send_fin n os in Some (0, n, os) else Some (0, n, os)
         else Some (-1, n, os))
      else Some (0, n, os))"

end
