(* ===== verification/Udt_Receiver.thy ===== *)
theory Udt_Receiver
  imports Udt
begin

text \<open>
  The receiving half of a UDT connection against the stream its peer sends. \<open>receiver_inv S s0 k out n\<close>: of
  the stream \<open>S\<close>, whose first byte has sequence number \<open>s0\<close>, the node \<open>n\<close> has put the first \<open>k\<close> bytes in order;
  \<open>out\<close> has been read by the user, the rest stands in the receive buffer. Every handler keeps it as long as
  the packets carry parts of \<open>S\<close>, in whatever order, number and multiplicity they arrive.
\<close>

section \<open>The receiving half\<close>

definition est :: "nd_udt_node \<Rightarrow> bool" where
  "est n \<longleftrightarrow> has_status n NETSTAT_ESTABLISHED"

definition recv_same :: "nd_udt_node \<Rightarrow> nd_udt_node \<Rightarrow> bool" where
  "recv_same n n' \<longleftrightarrow> urecvbuf n' = urecvbuf n \<and> received_sequence n' = received_sequence n \<and> pre_list n' = pre_list n \<and>
     (est n \<longrightarrow> est n')"

lemma recv_same_refl [simp]: "recv_same n n" by (simp add: recv_same_def)

lemma recv_same_trans: "recv_same n n' \<Longrightarrow> recv_same n' n'' \<Longrightarrow> recv_same n n''"
  by (simp add: recv_same_def)

lemma uupd_sel [simp]:
  "unode (uupd f n) = f (unode n)" "last_read (uupd f n) = last_read n" "remote_addr (uupd f n) = remote_addr n"
  "is_accept (uupd f n) = is_accept n" "need_ack (uupd f n) = need_ack n" "is_retranslate (uupd f n) = is_retranslate n"
  "send_sequence (uupd f n) = send_sequence n" "acknowledged_seq (uupd f n) = acknowledged_seq n"
  "received_sequence (uupd f n) = received_sequence n" "retrans_seq (uupd f n) = retrans_seq n"
  "window_len (uupd f n) = window_len n" "pre_list (uupd f n) = pre_list n" "local_port (uupd f n) = local_port n"
  by (simp_all add: uupd_def)

lemma has_status_bit:
  "has_status n 0x10 = bit (ustatus n) 4" "has_status n 0x20 = bit (ustatus n) 5" "has_status n 0x40 = bit (ustatus n) 6"
  "has_status n 0x80 = bit (ustatus n) 7" "has_status n 0x100 = bit (ustatus n) 8"
  unfolding has_status_def
  using bit_iff_and_push_bit_not_eq_0 [of "ustatus n" 4] bit_iff_and_push_bit_not_eq_0 [of "ustatus n" 5]
    bit_iff_and_push_bit_not_eq_0 [of "ustatus n" 6] bit_iff_and_push_bit_not_eq_0 [of "ustatus n" 7]
    bit_iff_and_push_bit_not_eq_0 [of "ustatus n" 8]
  by (simp_all add: push_bit_eq_mult)

lemmas status_defs = set_status_def add_status_def set_err_def has_status_bit est_def bit_or_iff

lemma udp_send_same: "nd_udp_send n bs os = (r, n', os') \<Longrightarrow> recv_same n n'"
  by (auto simp: nd_udp_send_def Let_def recv_same_def status_defs split: prod.splits if_splits)

lemma write_pocket_same: "write_pocket_to_socket n p os = (r, n', os') \<Longrightarrow> recv_same n n'"
  by (auto simp: write_pocket_to_socket_def Let_def split: prod.splits if_splits dest!: udp_send_same)
    (auto simp: recv_same_def status_defs)

lemma send_ack_same: "udt_send_ack n os = (r, n', os') \<Longrightarrow> recv_same n n'"
  by (auto simp: udt_send_ack_def dest: write_pocket_same)

lemma recv_same_upd [simp]:
  "recv_same n (n\<lparr>need_ack := x1\<rparr>)" "recv_same n (n\<lparr>last_active := x2\<rparr>)" "recv_same n (n\<lparr>window_len := x3\<rparr>)"
  "recv_same n (set_err e n)"
  by (simp_all add: recv_same_def status_defs)

lemma flush_same: "flush_send_window n os = Some (r, n', os') \<Longrightarrow> recv_same n n'"
  by (auto simp: flush_send_window_def Let_def split: if_splits option.splits prod.splits Option.bind_splits
      dest!: write_pocket_same) (auto simp: recv_same_def status_defs)

lemma flush_all_same: "flush_all n os = Some x \<Longrightarrow> recv_same n (fst x)"
proof (rule flush_all.raw_induct [of "\<lambda>n os x. recv_same n (fst x)"])
  fix f n os x
  assume ih: "\<And>n os y. f n os = Some y \<Longrightarrow> recv_same n (fst y)"
    and f: "do { (ret, n, os) \<leftarrow> flush_send_window n os; if ret > 0 then f n os else Some (n, os) } = Some x"
  show "recv_same n (fst x)"
    using f by (auto split: Option.bind_splits if_splits dest!: ih flush_same intro: recv_same_trans)
qed

lemma retranslate_data_same: "retranslate_data n os = Some (r, n', os') \<Longrightarrow> recv_same n n'"
  by (auto simp: retranslate_data_def Let_def split: if_splits prod.splits Option.bind_splits dest!: write_pocket_same)
    (auto simp: recv_same_def status_defs)

lemma udt_retranslate_same: "udt_retranslate n os = Some (r, n', os') \<Longrightarrow> recv_same n n'"
  by (auto simp: udt_retranslate_def Let_def split: if_splits prod.splits Option.bind_splits dest!: retranslate_data_same)
    (auto simp: recv_same_def status_defs)

lemma udt_send_same: "udt_send n bs os = Some (r, n', os') \<Longrightarrow> recv_same n n'"
  by (auto simp: udt_send_def recv_same_def status_defs split: if_splits prod.splits Option.bind_splits)

lemma handle_ack_same: "est n \<Longrightarrow> handle_ack u n a os = Some (r, n', os') \<Longrightarrow> recv_same n n' \<and> r = 0 \<and> os' = os"
  by (auto simp: handle_ack_def Let_def ack_progress_def ack_retranslate_def recv_same_def status_defs
      split: if_splits prod.splits Option.bind_splits)

text \<open>
  A data packet of the stream \<open>S\<close> whose first byte has sequence number \<open>s0\<close>: its data stands in \<open>S\<close> at the
  place its sequence number says.
\<close>

definition fragment :: "byte list \<Rightarrow> u32 \<Rightarrow> ndudt_pocket \<Rightarrow> nat \<Rightarrow> bool" where
  "fragment S s0 p len \<longleftrightarrow> (\<exists>k. sequence p = s0 + of_nat k \<and>
     k + (len - ndt_header_size p) \<le> length S \<and>
     pocket_payload p len = take (len - ndt_header_size p) (drop k S))"

definition receiver_inv :: "byte list \<Rightarrow> u32 \<Rightarrow> nat \<Rightarrow> byte list \<Rightarrow> nd_udt_node \<Rightarrow> bool" where
  "receiver_inv S s0 k out n \<longleftrightarrow> est n \<and> lbuf_ok (urecvbuf n) \<and> k \<le> length S \<and> received_sequence n = s0 + of_nat k \<and>
     out @ lbuf_data (urecvbuf n) = take k S \<and> (\<forall>x \<in> set (pre_list n). fragment S s0 (ppack x) (psize x))"

lemma receiver_inv_same: "receiver_inv S s0 k out n \<Longrightarrow> recv_same n n' \<Longrightarrow> receiver_inv S s0 k out n'"
  by (simp add: receiver_inv_def recv_same_def)

lemma of_nat_u32_inj:
  assumes "a < 2 ^ 32" "b < 2 ^ 32" "(of_nat a :: u32) = of_nat b"
  shows "a = b"
proof -
  have "unat (of_nat a :: u32) = a" "unat (of_nat b :: u32) = b" using assms(1,2) by (auto intro: unat_of_nat_eq)
  then show ?thesis unfolding assms(3) by (rule trans [OF sym])
qed

lemma store_payload_inv:
  assumes inv: "receiver_inv S s0 k out n" and len: "length S < 2 ^ 31" and fr: "fragment S s0 p l"
    and seq: "sequence p = received_sequence n" and fits: "l - ndt_header_size p \<le> lbuf_free_capacity (urecvbuf n)"
    and st: "store_payload n p l os = Some (r, n')"
  shows "\<exists>k'. receiver_inv S s0 k' out n' \<and> k \<le> k'"
proof -
  let ?m = "l - ndt_header_size p"
  obtain j where j: "sequence p = s0 + of_nat j" "j + ?m \<le> length S" "pocket_payload p l = take ?m (drop j S)"
    using fr by (auto simp: fragment_def)
  have k: "k \<le> length S" "received_sequence n = s0 + of_nat k" using inv by (simp_all add: receiver_inv_def)
  have "(of_nat j :: u32) = of_nat k" using seq j(1) k(2) by simp
  moreover have "j < 2 ^ 32" "k < 2 ^ 32" using j(2) k(1) len by simp_all
  ultimately have jk: "j = k" by (intro of_nat_u32_inj)
  obtain b where w: "lbuf_write (os_malloc (uos os)) (urecvbuf n) (pocket_payload p l) EBUF_ALL = Some (r, b)"
    and n': "n' = (uupd (\<lambda>x. x\<lparr>recv_buffer := b\<rparr>) (n\<lparr>need_ack := True, received_sequence := received_sequence n + of_nat ?m\<rparr>))
      \<lparr>user_data_in := True\<rparr>"
    using st by (auto simp: store_payload_def Let_def split: Option.bind_splits)
  have pl: "length (pocket_payload p l) = ?m" using j(2,3) by simp
  from lbuf_write_all_fits [OF _ _ w] inv fits pl have b: "lbuf_ok b" "lbuf_data b = lbuf_data (urecvbuf n) @ pocket_payload p l"
    by (auto simp: receiver_inv_def)
  have "out @ lbuf_data b = take (k + ?m) S"
    using inv b(2) j(3) jk by (simp add: receiver_inv_def take_add)
  then have "receiver_inv S s0 (k + ?m) out n'"
    using inv b(1) j(2) jk k(2) n' by (simp add: receiver_inv_def status_defs add.assoc)
  then show ?thesis by auto
qed

lemma pre_packet_inv:
  assumes "receiver_inv S s0 k out n" "length S < 2 ^ 31" "fragment S s0 p l" "handle_pre_packet n p l os = Some (r, n')"
  shows "\<exists>k'. receiver_inv S s0 k' out n' \<and> k \<le> k'"
  using assms(4) store_payload_inv [OF assms(1-3)] assms(1)
  by (auto simp: handle_pre_packet_def split: if_splits Option.bind_splits)

lemma receiver_inv_pre:
  "receiver_inv S s0 k out n \<Longrightarrow> \<forall>x \<in> set xs. fragment S s0 (ppack x) (psize x) \<Longrightarrow> receiver_inv S s0 k out (n\<lparr>pre_list := xs\<rparr>)"
  by (simp add: receiver_inv_def status_defs)

lemma fetch_prelist_inv:
  assumes "length S < 2 ^ 31"
  shows "receiver_inv S s0 k out n \<Longrightarrow> \<forall>x \<in> set xs. fragment S s0 (ppack x) (psize x) \<Longrightarrow>
    fetch_prelist n xs os = Some n' \<Longrightarrow> \<exists>k'. receiver_inv S s0 k' out n' \<and> k \<le> k'"
proof (induction n xs os arbitrary: k rule: fetch_prelist.induct)
  case (1 n os)
  then show ?case using receiver_inv_pre [of S s0 k out n "[]"] by auto
next
  case (2 n x xs os)
  obtain r m where m: "handle_pre_packet n (ppack x) (psize x) os = Some (r, m)"
    and step: "(if r = 0 then fetch_prelist m xs os else Some (m\<lparr>pre_list := x # xs\<rparr>)) = Some n'"
    using "2.prems"(3) by (auto split: Option.bind_splits)
  from pre_packet_inv [OF "2.prems"(1) assms _ m] "2.prems"(2) obtain k1 where k1: "receiver_inv S s0 k1 out m" "k \<le> k1" by auto
  show ?case
  proof (cases "r = 0")
    case True
    with "2.IH" [OF m refl True k1(1)] step "2.prems"(2) k1(2) show ?thesis by fastforce
  next
    case False
    with receiver_inv_pre [OF k1(1) "2.prems"(2)] step k1(2) show ?thesis by auto
  qed
qed

lemma set_pre_insert: "set (pre_insert x ys) = insert x (set ys)"
  by (induction x ys rule: pre_insert.induct) (auto simp: Let_def)

lemma income_data_inv:
  assumes inv: "receiver_inv S s0 k out n" and len: "length S < 2 ^ 31" and fr: "fragment S s0 p l"
    and h: "handle_income_data n p l os = Some (r, n', os')"
  shows "\<exists>k'. receiver_inv S s0 k' out n' \<and> k \<le> k'"
proof -
  consider (same) "recv_same n n'"
    | (add) a o1 where "addto_pre_list n p l os = (a, n', o1)"
    | (store) m d where "sequence p = received_sequence n" "l - ndt_header_size p \<le> lbuf_free_capacity (urecvbuf n)"
      "store_payload n p l os = Some (d, m)" "pre_list m \<noteq> [] \<longrightarrow> tryto_fetch_prelist m os = Some n'" "pre_list m = [] \<longrightarrow> n' = m"
    using h by (auto simp: handle_income_data_def Let_def signed_eq_0_iff not_less dest!: send_ack_same
        split: if_splits prod.splits Option.bind_splits)
  then show ?thesis
  proof cases
    case same
    then show ?thesis using receiver_inv_same [OF inv] by blast
  next
    case add
    then have "n' = n \<or> (\<exists>t. n' = n\<lparr>pre_list := pre_insert \<lparr>recvTm = t, psize = l, ppack = p\<rparr> (pre_list n)\<rparr>)"
      by (auto simp: addto_pre_list_def Let_def split: option.splits prod.splits)
    then show ?thesis
      using inv receiver_inv_pre [OF inv] fr by (auto simp: set_pre_insert receiver_inv_def)
  next
    case store
    from store_payload_inv [OF inv len fr store(1,2,3)] obtain k1 where k1: "receiver_inv S s0 k1 out m" "k \<le> k1" by blast
    show ?thesis
    proof (cases "pre_list m = []")
      case False
      with fetch_prelist_inv [OF len k1(1)] store(4) k1 show ?thesis
        by (fastforce simp: tryto_fetch_prelist_def receiver_inv_def)
    qed (use store(5) k1 in auto)
  qed
qed

definition stream_pocket :: "byte list \<Rightarrow> u32 \<Rightarrow> ndudt_pocket \<Rightarrow> nat \<Rightarrow> bool" where
  "stream_pocket S s0 p len \<longleftrightarrow> (let t = udt_type (uheader p) in
     t \<noteq> NDUDT_SYN \<and> t \<noteq> NDUDT_FIN \<and> t \<noteq> NDUDT_DGRAM \<and> (t = NDUDT_DATA \<longrightarrow> fragment S s0 p len))"

lemma handle_lost_same: "est n \<Longrightarrow> handle_lost u n p os = Some (r, n', os') \<Longrightarrow> recv_same n n'"
proof -
  assume e: "est n" and h: "handle_lost u n p os = Some (r, n', os')"
  then obtain r1 m where m: "handle_ack u n (ack_seq p) os = Some (r1, m, os)"
    by (auto simp: handle_lost_def split: Option.bind_splits dest: handle_ack_same)
  with handle_ack_same [OF e m] h have "n' = m \<or> (\<exists>r o1. retranslate_data (m\<lparr>send_sequence := sequence p\<rparr>) os = Some (r, n', o1))"
    by (auto simp: handle_lost_def split: Option.bind_splits if_splits)
  moreover have "recv_same m (m\<lparr>send_sequence := sequence p\<rparr>)" by (simp add: recv_same_def status_defs)
  ultimately show ?thesis
    using handle_ack_same [OF e m] retranslate_data_same recv_same_trans by blast
qed

lemma by_type_inv:
  assumes inv: "receiver_inv S s0 k out n" and len: "length S < 2 ^ 31" and sp: "stream_pocket S s0 p l"
    and h: "handle_by_type u n p l os = Some (r, n', os')"
  shows "\<exists>k'. receiver_inv S s0 k' out n' \<and> k \<le> k'"
proof (cases "udt_type (uheader p) = NDUDT_DATA")
  case True
  have e: "est n" using inv by (simp add: receiver_inv_def)
  have fr: "fragment S s0 p l" using sp True by (simp add: stream_pocket_def)
  have "\<exists>n1. (if uack (uheader p) then do { (_, n, os) \<leftarrow> handle_ack u n (ack_seq p) os; Some (n, os) } else Some (n, os)) =
      Some (n1, os) \<and> recv_same n n1"
    using h True handle_ack_same [OF e]
    by (cases "uack (uheader p)") (auto simp: handle_by_type_def split: Option.bind_splits)
  then obtain n1 where ack: "(if uack (uheader p) then do { (_, n, os) \<leftarrow> handle_ack u n (ack_seq p) os; Some (n, os) }
      else Some (n, os)) = Some (n1, os)" and same: "recv_same n n1" by blast
  obtain n2 r2 o2 where 1: "handle_income_data n1 p l os = Some (r2, n2, o2)"
    and 2: "n' = n2 \<or> (\<exists>o3. flush_all n2 o2 = Some (n', o3))"
    using h True unfolding handle_by_type_def ack
    by (auto split: Option.bind_splits if_splits)
  from income_data_inv [OF receiver_inv_same [OF inv same] len fr 1] obtain k2 where "receiver_inv S s0 k2 out n2" "k \<le> k2"
    by blast
  with 2 flush_all_same receiver_inv_same show ?thesis by fastforce
next
  case False
  have e: "est n" using inv by (simp add: receiver_inv_def)
  have "recv_same n n'"
    using h False sp handle_ack_same [OF e] handle_lost_same [OF e]
    by (auto simp: handle_by_type_def stream_pocket_def Let_def recv_same_def status_defs split: if_splits)
  with receiver_inv_same [OF inv] show ?thesis by blast
qed

lemma packet_handler_inv:
  assumes inv: "receiver_inv S s0 k out n" and len: "length S < 2 ^ 31" and sp: "stream_pocket S s0 p l"
    and h: "udt_packet_handler u n p l os = Some (r, n', os')"
  shows "\<exists>k'. receiver_inv S s0 k' out n' \<and> k \<le> k'"
proof (cases "has_status n NETSTAT_RESET")
  case True
  then have "recv_same n n'"
    using h by (auto simp: udt_packet_handler_def split: prod.splits dest: write_pocket_same)
  with receiver_inv_same [OF inv] show ?thesis by blast
next
  case False
  obtain t o1 where t: "udp_time os = (t, o1)" by fastforce
  let ?n = "set_err NDERR_SUCCESS ((uupd (\<lambda>b. b\<lparr>last_recv := t\<rparr>) n)\<lparr>update_tm := t\<rparr>)"
  let ?m = "if uwindow_len p > 0 then ?n\<lparr>window_len := unat (uwindow_len p)\<rparr> else ?n"
  obtain r1 where r1: "handle_by_type u ?m p l o1 = Some (r1, n', os')"
    using h False t by (auto simp: udt_packet_handler_def Let_def split: Option.bind_splits)
  have "recv_same n ?m" by (simp add: recv_same_def status_defs)
  from by_type_inv [OF receiver_inv_same [OF inv this] len sp r1] show ?thesis .
qed

lemma prune_prelist_subset: "set (fst (prune_prelist q xs os)) \<subseteq> set xs"
proof (induction xs arbitrary: os)
  case (Cons x xs)
  show ?case using Cons.IH [of "snd (udp_time os)"] by (auto simp: Let_def split_beta)
qed simp

lemma update_socket_inv:
  assumes inv: "receiver_inv S s0 k out n" and h: "update_socket n os = Some (r, n', os')"
  shows "receiver_inv S s0 k out n'"
proof -
  obtain t o1 where t: "udp_time os = (t, o1)" by fastforce
  let ?n = "set_err NDERR_SUCCESS (n\<lparr>update_tm := t\<rparr>)"
  have i0: "receiver_inv S s0 k out ?n"
    using inv by (rule receiver_inv_same) (simp add: recv_same_def status_defs)
  obtain m o2 where m: "(if has_status ?n NETSTAT_ESTABLISHED \<and> pre_list ?n \<noteq> [] then update_prelist ?n o1 else (?n, o1)) = (m, o2)"
    by fastforce
  have i1: "receiver_inv S s0 k out m"
    using m i0 prune_prelist_subset [of "received_sequence ?n" "pre_list ?n" o1] receiver_inv_pre [OF i0]
    by (auto simp: update_prelist_def receiver_inv_def split: if_splits prod.splits)
  obtain r1 m1 o3 where f: "flush_send_window m o2 = Some (r1, m1, o3)"
    using h t m by (auto simp: update_socket_def Let_def split: Option.bind_splits)
  define E where "E = (if r1 > 0 then do { (n, os) \<leftarrow> flush_all m1 o3; Some (0, n, os) } else udt_retranslate m1 o3)"
  have "do { (r, n, os) \<leftarrow> E;
      if r = -1 then Some (-1, n, os)
      else if need_ack n then let (_, n, os) = udt_send_ack n os in Some (1, n\<lparr>need_ack := False\<rparr>, os)
      else Some (1, n, os) } = Some (r, n', os')"
    using h by (simp add: update_socket_def Let_def t m f E_def cong: if_cong)
  then obtain r2 m2 o4 where E: "E = Some (r2, m2, o4)"
    and last: "n' = m2 \<or> (\<exists>a m3 o5. udt_send_ack m2 o4 = (a, m3, o5) \<and> n' = m3\<lparr>need_ack := False\<rparr>)"
    by (cases E) (auto split: if_splits prod.splits)
  note g = E [unfolded E_def]
  have "recv_same m1 m2"
  proof (cases "r1 > 0")
    case True
    with g have "flush_all m1 o3 = Some (m2, o4)" by (simp split: Option.bind_splits)
    then show ?thesis using flush_all_same by fastforce
  next
    case False
    with g have "udt_retranslate m1 o3 = Some (r2, m2, o4)" by simp
    then show ?thesis by (rule udt_retranslate_same)
  qed
  with flush_same [OF f] have "recv_same m m2" by (rule recv_same_trans)
  moreover have "recv_same m2 n'"
    using last
  proof
    assume "\<exists>a m3 o5. udt_send_ack m2 o4 = (a, m3, o5) \<and> n' = m3\<lparr>need_ack := False\<rparr>"
    then show ?thesis using send_ack_same recv_same_trans [OF _ recv_same_upd(1)] by blast
  qed simp
  ultimately show ?thesis using receiver_inv_same [OF i1] recv_same_trans by blast
qed

lemma fragment_mono: "fragment S s0 p l \<Longrightarrow> fragment (S @ T) s0 p l"
  by (fastforce simp: fragment_def)

lemma receiver_inv_mono: "receiver_inv S s0 k out n \<Longrightarrow> receiver_inv (S @ T) s0 k out n"
  by (auto simp: receiver_inv_def intro: fragment_mono)

lemma stream_pocket_mono: "stream_pocket S s0 p l \<Longrightarrow> stream_pocket (S @ T) s0 p l"
  by (auto simp: stream_pocket_def Let_def intro: fragment_mono)

end
