(* ===== verification/Udt_Sender.thy ===== *)
theory Udt_Sender
  imports Udt_Receiver
begin

text \<open>
  The sending half of a UDT connection. \<open>sender_at A s0 j v n\<close>: the user has handed over the bytes \<open>A\<close>, of which
  \<open>j\<close> are acknowledged and \<open>v\<close> have been sent; the send buffer holds the bytes from \<open>j\<close> on. Every operation of
  the sender keeps such a state and puts on the network only datagrams that carry parts of \<open>A\<close> under their
  own sequence numbers, whatever acknowledgements arrive.
\<close>

section \<open>The sending half\<close>

lemma sint_u32_int: "- (2 ^ 31) \<le> x \<Longrightarrow> x < 2 ^ 31 \<Longrightarrow> sint (word_of_int x :: u32) = x"
  by (simp add: signed_of_int signed_take_bit_int_eq_self)

lemma seq_diff: "(s0 + of_nat v) - (s0 + of_nat j) = (word_of_int (int v - int j) :: u32)"
  by simp

lemma sint_seq_diff:
  assumes "v < 2 ^ 31" "j < 2 ^ 31"
  shows "sint ((s0 + of_nat v) - (s0 + of_nat j) :: u32) = int v - int j"
proof -
  have "- (2 ^ 31) \<le> int v - int j" "int v - int j < 2 ^ 31" using assms by auto
  then show ?thesis unfolding seq_diff by (rule sint_u32_int)
qed

lemma unat_seq_diff:
  assumes "j \<le> v" "v < 2 ^ 31"
  shows "unat ((s0 + of_nat v) - (s0 + of_nat j) :: u32) = v - j"
proof -
  have "(s0 + of_nat v) - (s0 + of_nat j) = (of_nat (v - j) :: u32)" using assms(1) by (simp add: of_nat_diff)
  moreover have "v - j < 2 ^ LENGTH(32)" using assms(2) by simp
  ultimately show ?thesis by (simp only: unat_of_nat_eq)
qed

definition send_same :: "nd_udt_node \<Rightarrow> nd_udt_node \<Rightarrow> bool" where
  "send_same n n' \<longleftrightarrow> usendbuf n' = usendbuf n \<and> acknowledged_seq n' = acknowledged_seq n \<and>
     send_sequence n' = send_sequence n \<and> need_ack n' = need_ack n \<and> is_retranslate n' = is_retranslate n \<and>
     retrans_seq n' = retrans_seq n \<and> ustatus n' = ustatus n"

lemma send_same_refl [simp]: "send_same n n" by (simp add: send_same_def)

lemma udp_send_emits:
  "nd_udp_send n bs os = (r, n', os') \<Longrightarrow> 
    send_same n n' \<and> (r = int (length bs) \<and> usent os' = usent os @ [bs] \<or> r \<le> 0 \<and> (usent os' = usent os \<or> bs = [] \<and> usent os' = usent os @ [bs]))"
  by (auto simp: nd_udp_send_def os_sendto_def udp_time_def nd_time_def Let_def send_same_def set_err_def
      split: prod.splits if_splits list.splits dgram_send.splits)

lemma set_checksum_nonempty [simp]: "set_checksum (udt_host2net cs p) \<noteq> []"
  by (simp add: set_checksum_def Let_def) (simp add: udt_host2net_def)

text \<open>A datagram that belongs to the stream.\<close>

definition stream_dgram :: "byte list \<Rightarrow> u32 \<Rightarrow> byte list \<Rightarrow> bool" where
  "stream_dgram A s0 bs \<longleftrightarrow> (\<exists>p. bs = set_checksum (udt_host2net 0 p) \<and> length (pdata p) \<le> NDUDT_FRAGMENT_LEN \<and>
     stream_pocket A s0 p (ndt_header_size p + length (pdata p)))"

definition emits :: "byte list \<Rightarrow> u32 \<Rightarrow> udp_os \<Rightarrow> udp_os \<Rightarrow> bool" where
  "emits A s0 os os' \<longleftrightarrow> (\<exists>ds. usent os' = usent os @ ds \<and> (\<forall>d \<in> set ds. stream_dgram A s0 d))"

lemma emits_refl [simp]: "emits A s0 os os" by (simp add: emits_def)

lemma emits_trans: "emits A s0 os o1 \<Longrightarrow> emits A s0 o1 o2 \<Longrightarrow> emits A s0 os o2"
  by (fastforce simp: emits_def)

lemma stream_pocket_fields:
  "stream_pocket A s0 (p\<lparr>ulocal_port := x, uwindow_len := y\<rparr>) l = stream_pocket A s0 p l"
  "ndt_header_size (p\<lparr>ulocal_port := x, uwindow_len := y\<rparr>) = ndt_header_size p"
  by (simp_all add: stream_pocket_def fragment_def pocket_payload_def ndt_header_size_def)

lemma write_pocket_emits:
  assumes "write_pocket_to_socket n p os = (r, n', os')" and "stream_pocket A s0 p (ndt_header_size p + length (pdata p))"
    and "length (pdata p) \<le> NDUDT_FRAGMENT_LEN"
  shows "send_same n n' \<and> emits A s0 os os' \<and> (r \<le> 0 \<or> r = int (ndt_header_size p + length (pdata p)))"
proof -
  let ?p = "p\<lparr>ulocal_port := local_port n, uwindow_len := of_nat (send_window n)\<rparr>"
  let ?bs = "set_checksum (udt_host2net 0 ?p)"
  have d: "stream_dgram A s0 ?bs"
    unfolding stream_dgram_def using assms(2,3) by (intro exI [of _ ?p]) (simp add: stream_pocket_fields)
  obtain m o1 where u: "nd_udp_send n ?bs os = (r, m, o1)" and t: "n' = m \<and> os' = o1 \<or> (\<exists>t. udp_time o1 = (t, os') \<and> n' = m\<lparr>last_active := t\<rparr>)"
    using assms(1) by (auto simp: write_pocket_to_socket_def Let_def split: prod.splits if_splits)
  have lb: "length ?bs = ndt_header_size p + length (pdata p)"
    by (simp add: set_checksum_host2net length_host2net stream_pocket_fields)
  have "send_same n m \<and> (usent o1 = usent os @ [?bs] \<or> usent o1 = usent os) \<and> (r \<le> 0 \<or> r = int (length ?bs))"
    using udp_send_emits [OF u] by auto
  moreover have "usent os' = usent o1 \<and> send_same m n'"
    using t by (auto simp: udp_time_def nd_time_def send_same_def Let_def)
  ultimately show ?thesis using d lb by (auto simp: emits_def send_same_def)
qed

text \<open>The sender has accepted the bytes \<open>A\<close>; \<open>j\<close> of them are acknowledged and \<open>v\<close> of them sent; a running
  retransmission ends between the two ends of the send buffer.\<close>

definition sender_at :: "byte list \<Rightarrow> u32 \<Rightarrow> nat \<Rightarrow> nat \<Rightarrow> nd_udt_node \<Rightarrow> bool" where
  "sender_at A s0 j v n \<longleftrightarrow> lbuf_ok (usendbuf n) \<and> \<not> auto_inc (usendbuf n) \<and> est n \<and> \<not> has_status n NETSTAT_FINSEND \<and>
     \<not> need_ack n \<and> j \<le> v \<and> v \<le> length A \<and> lbuf_data (usendbuf n) = drop j A \<and>
     acknowledged_seq n = s0 + of_nat j \<and> send_sequence n = s0 + of_nat v \<and>
     (is_retranslate n \<longrightarrow> (\<exists>r. j < r \<and> r \<le> length A \<and> retrans_seq n = s0 + of_nat r))"

definition sender_inv :: "byte list \<Rightarrow> u32 \<Rightarrow> nd_udt_node \<Rightarrow> bool" where
  "sender_inv A s0 n \<longleftrightarrow> (\<exists>j v. sender_at A s0 j v n)"

lemma sender_at_same: "sender_at A s0 j v n \<Longrightarrow> send_same n n' \<Longrightarrow> sender_at A s0 j v n'"
  by (simp add: sender_at_def send_same_def est_def has_status_def)

lemma sender_inv_same: "sender_inv A s0 n \<Longrightarrow> send_same n n' \<Longrightarrow> sender_inv A s0 n'"
  unfolding sender_inv_def using sender_at_same by blast

lemma data_pocket_fragment:
  assumes "k + m \<le> length A"
  shows "stream_pocket A s0 (init_udt_pocket\<lparr>sequence := s0 + of_nat k, pdata := take m (drop k A)\<rparr>) (12 + m)"
  using assms
  by (auto simp: stream_pocket_def Let_def fragment_def pocket_payload_def ndt_header_size_def init_udt_pocket_def
      init_udt_header_def intro!: exI [of _ k])

lemma lbuf_load_at:
  assumes ok: "lbuf_ok b" and n: "off + n \<le> length (lbuf_data b)"
  shows "lbuf_load b (lb_start b + off) n = Some (take n (drop off (lbuf_data b)))"
  using assms
  by (elim lbuf_okE) (auto simp: length_lbuf_data lbuf_load_def lbuf_data_def mem_simps drop_seg take_seg lbuf_datalen_def ac_simps)

lemma flush_sender:
  assumes inv: "sender_at A s0 j v n" and len: "length A < 2 ^ 31" and f: "flush_send_window n os = Some (r, n', os')"
  shows "\<exists>v'. sender_at A s0 j v' n' \<and> emits A s0 os os' \<and> (r > 0 \<longrightarrow> v < v')"
proof (cases "r = 0 \<and> n' = n \<and> os' = os")
  case False
  have jv: "j \<le> v" "v \<le> length A" "lbuf_data (usendbuf n) = drop j A" "acknowledged_seq n = s0 + of_nat j"
      "send_sequence n = s0 + of_nat v" and ok: "lbuf_ok (usendbuf n)" and na: "\<not> need_ack n"
    using inv by (auto simp: sender_at_def)
  have ua: "unat (send_sequence n - acknowledged_seq n) = v - j"
    unfolding jv(4,5) using jv(1,2) len by (intro unat_seq_diff) simp_all
  have dl: "lbuf_datalen (usendbuf n) = length A - j" using length_lbuf_data [OF ok] jv(3) by simp
  obtain l where l: "send_window_start n = Some (v - j, l)" "l \<noteq> 0" "l \<le> length A - v" "l \<le> NDUDT_FRAGMENT_LEN" and nr: "\<not> is_retranslate n"
    using f False jv(1,2) ua dl by (auto simp: flush_send_window_def send_window_start_def Let_def split: if_splits option.splits)
  have bs: "lbuf_load (usendbuf n) (lb_start (usendbuf n) + (v - j)) l = Some (take l (drop v A))"
    using lbuf_load_at [OF ok, of "v - j" l] jv(1,2,3) l(3) by simp
  let ?p = "init_udt_pocket\<lparr>sequence := send_sequence n, pdata := take l (drop v A)\<rparr>"
  have hp: "ndt_header_size ?p = 12" "length (pdata ?p) = l"
    using l(3) jv(2) by (simp_all add: ndt_header_size_def init_udt_pocket_def init_udt_header_def)
  have nn: "n\<lparr>need_ack := False\<rparr> = n" using na by (cases n) simp
  obtain m where w: "write_pocket_to_socket n ?p os = (r, m, os')"
    and n': "r \<noteq> int (l + 12) \<and> n' = m \<or> n' = m\<lparr>last_resend_tm := last_active m, send_sequence := send_sequence m + of_nat l, window_len := window_len m - l\<rparr>"
    using f False l bs na nr hp(1) by (auto simp: flush_send_window_def Let_def nn split: if_splits prod.splits)
  have "stream_pocket A s0 ?p (ndt_header_size ?p + length (pdata ?p))"
    using data_pocket_fragment [of v l A s0] l(3) jv(2,5) hp by simp
  moreover have "length (pdata ?p) \<le> NDUDT_FRAGMENT_LEN" using hp(2) l(4) by simp
  ultimately have m: "send_same n m" "emits A s0 os os'" and r: "r \<le> 0 \<or> r = int (ndt_header_size ?p + length (pdata ?p))"
    using write_pocket_emits [OF w] by auto
  show ?thesis
    using n'
  proof
    assume "r \<noteq> int (l + 12) \<and> n' = m"
    with r hp sender_at_same [OF inv m(1)] m(2) show ?thesis by fastforce
  next
    assume n': "n' = m\<lparr>last_resend_tm := last_active m, send_sequence := send_sequence m + of_nat l, window_len := window_len m - l\<rparr>"
    have "sender_at A s0 j (v + l) n'"
      using sender_at_same [OF inv m(1)] m(1) jv l(3) nr n' unfolding sender_at_def
      by (auto simp: send_same_def est_def has_status_def add.assoc)
    with m(2) l(2) show ?thesis by fastforce
  qed
qed (use inv in auto)

lemma flush_all_sender:
  assumes len: "length A < 2 ^ 31" and inv: "sender_inv A s0 n" and f: "flush_all n os = Some x"
  shows "sender_inv A s0 (fst x) \<and> emits A s0 os (snd x)"
proof -
  have "sender_inv A s0 n \<longrightarrow> sender_inv A s0 (fst x) \<and> emits A s0 os (snd x)"
  proof (rule flush_all.raw_induct [of "\<lambda>n os x. sender_inv A s0 n \<longrightarrow> sender_inv A s0 (fst x) \<and> emits A s0 os (snd x)", OF _ f])
    fix f n os x
    assume ih: "\<And>n os y. f n os = Some y \<Longrightarrow> sender_inv A s0 n \<longrightarrow> sender_inv A s0 (fst y) \<and> emits A s0 os (snd y)"
      and f: "do { (ret, n, os) \<leftarrow> flush_send_window n os; if ret > 0 then f n os else Some (n, os) } = Some x"
    obtain r m o1 where m: "flush_send_window n os = Some (r, m, o1)" "(if r > 0 then f m o1 else Some (m, o1)) = Some x"
      using f by (auto split: Option.bind_splits)
    show "sender_inv A s0 n \<longrightarrow> sender_inv A s0 (fst x) \<and> emits A s0 os (snd x)"
    proof
      assume "sender_inv A s0 n"
      then have 1: "sender_inv A s0 m" "emits A s0 os o1" using flush_sender [OF _ len m(1)] unfolding sender_inv_def by blast+
      show "sender_inv A s0 (fst x) \<and> emits A s0 os (snd x)"
        using m(2) ih [of m o1 x] 1 emits_trans [OF 1(2)] by (auto split: if_splits)
    qed
  qed
  with inv show ?thesis by blast
qed

lemma retranslate_data_sender:
  assumes inv: "sender_at A s0 j v n" and len: "length A < 2 ^ 31" and f: "retranslate_data n os = Some (r, n', os')"
  shows "sender_at A s0 j v n' \<and> emits A s0 os os' \<and>
    (is_retranslate n' = is_retranslate n) \<and> (\<not> is_retranslate n \<and> r > 0 \<longrightarrow> (\<exists>q. j < q \<and> q \<le> length A \<and> retrans_seq n' = s0 + of_nat q))"
proof -
  have jv: "j \<le> v" "v \<le> length A" "lbuf_data (usendbuf n) = drop j A" "acknowledged_seq n = s0 + of_nat j"
      "send_sequence n = s0 + of_nat v" and ok: "lbuf_ok (usendbuf n)" and na: "\<not> need_ack n"
    and rt: "is_retranslate n \<longrightarrow> (\<exists>r. j < r \<and> r \<le> length A \<and> retrans_seq n = s0 + of_nat r)"
    using inv by (auto simp: sender_at_def)
  have j31: "j < 2 ^ 31" using jv(1,2) len by simp
  let ?len = "if \<not> is_retranslate n then sint (send_sequence n - acknowledged_seq n) else sint (retrans_seq n - acknowledged_seq n)"
  have le: "?len \<le> int (length A - j)"
  proof (cases "is_retranslate n")
    case True
    then obtain q where "j < q" "q \<le> length A" "retrans_seq n = s0 + of_nat q" using rt by blast
    then show ?thesis using True jv(4) sint_seq_diff [of q j s0] j31 len by simp
  next
    case False
    then show ?thesis using jv sint_seq_diff [of v j s0] j31 len by simp
  qed
  let ?n = "if \<not> is_retranslate n then n\<lparr>retrans_seq := acknowledged_seq n\<rparr> else n"
  have inv1: "sender_at A s0 j v ?n" using inv unfolding sender_at_def by (auto simp: est_def has_status_def)
  show ?thesis
  proof (cases "?len \<le> 0")
    case True
    then have "r = 0" "n' = ?n" "os' = os" using f by (auto simp: retranslate_data_def Let_def split: if_splits)
    then show ?thesis using inv1 by auto
  next
    case False
    define l where "l = min (nat ?len) NDUDT_FRAGMENT_LEN"
    have l: "j + l \<le> length A" "0 < l" using le jv(1,2) False by (auto simp: l_def NDUDT_FRAGMENT_LEN_def)
    have b: "usendbuf ?n = usendbuf n" "need_ack ?n = need_ack n" by auto
    have ld: "lbuf_load (usendbuf n) (lb_start (usendbuf n)) l = Some (take l (drop j A))"
      using lbuf_load_at [OF ok, of 0 l] jv(3) l by simp
    let ?p = "init_udt_pocket\<lparr>sequence := acknowledged_seq n, pdata := take l (drop j A)\<rparr>"
    have hp: "ndt_header_size ?p = 12" "length (pdata ?p) = l"
      using l by (simp_all add: ndt_header_size_def init_udt_pocket_def init_udt_header_def)
    have nn: "?n\<lparr>need_ack := False\<rparr> = ?n" using na by (cases n) simp
    obtain sl m o1 where w: "write_pocket_to_socket ?n ?p os = (sl, m, o1)" by (metis prod_cases3)
    have res: "(r, n', os') = (if sl = int (12 + l) then
            (int l, m\<lparr>last_resend_tm := last_active m,
               retrans_seq := (if \<not> is_retranslate m then retrans_seq m + of_nat l else retrans_seq m)\<rparr>, o1)
          else (0, m, o1))"
      using f False na b ld w nn hp unfolding retranslate_data_def Let_def l_def [symmetric]
      by (simp add: Let_def)
    have "stream_pocket A s0 ?p (ndt_header_size ?p + length (pdata ?p))"
      using data_pocket_fragment [of j l A s0] l jv(4) hp by simp
    moreover have "length (pdata ?p) \<le> NDUDT_FRAGMENT_LEN" using hp(2) by (simp add: l_def)
    ultimately have m: "send_same ?n m" "emits A s0 os o1" using write_pocket_emits [OF w] by auto
    have im: "sender_at A s0 j v m" by (rule sender_at_same [OF inv1 m(1)])
    show ?thesis
    proof (cases "sl = int (12 + l)")
      case False
      with res im m show ?thesis by (auto simp: send_same_def)
    next
      case True
      have rs: "retrans_seq m + of_nat l = s0 + of_nat (j + l) \<and> j < j + l \<and> j + l \<le> length A" if "\<not> is_retranslate n"
        using m(1) jv(4) that l by (simp add: send_same_def add.assoc)
      have rt': "is_retranslate m = is_retranslate n" using m(1) by (auto simp: send_same_def)
      have "sender_at A s0 j v n'"
        using True res im rt' unfolding sender_at_def by (auto simp: est_def has_status_def)
      moreover have "is_retranslate n' = is_retranslate n" using True res rt' by simp
      moreover have "\<exists>q. j < q \<and> q \<le> length A \<and> retrans_seq n' = s0 + of_nat q" if "\<not> is_retranslate n"
        using rs [OF that] True res rt' that by (intro exI [of _ "j + l"]) simp
      ultimately show ?thesis using True res m(2) by simp
    qed
  qed
qed

lemma flush_defined:
  assumes inv: "sender_at A s0 j v n" and len: "length A < 2 ^ 31"
  shows "flush_send_window n os \<noteq> None"
proof -
  have jv: "j \<le> v" "v \<le> length A" "lbuf_data (usendbuf n) = drop j A" "acknowledged_seq n = s0 + of_nat j"
      "send_sequence n = s0 + of_nat v" and ok: "lbuf_ok (usendbuf n)"
    using inv by (auto simp: sender_at_def)
  have ua: "unat (send_sequence n - acknowledged_seq n) = v - j"
    unfolding jv(4,5) using jv(1,2) len by (intro unat_seq_diff) simp_all
  have dl: "lbuf_datalen (usendbuf n) = length A - j" using length_lbuf_data [OF ok] jv(3) by simp
  have "o' + l \<le> length (lbuf_data (usendbuf n))" if "send_window_start n = Some (o', l)" for o' l
  proof -
    have "o' = v - j" "l \<le> length A - v"
      using that jv(1) ua dl by (auto simp: send_window_start_def Let_def min_def split: if_splits)
    then show ?thesis using jv(1,2,3) by simp
  qed
  from lbuf_load_at [OF ok this] have "lbuf_load (usendbuf n) (lb_start (usendbuf n) + o') l \<noteq> None" if "send_window_start n = Some (o', l)" for o' l
    using that by blast
  then show ?thesis by (auto simp: flush_send_window_def Let_def split: option.splits prod.splits Option.bind_splits)
qed

lemma flush_all_defined:
  assumes len: "length A < 2 ^ 31"
  shows "sender_at A s0 j v n \<Longrightarrow> flush_all n os \<noteq> None"
proof (induction "length A - v" arbitrary: v n os rule: less_induct)
  case less
  obtain r m o1 where f: "flush_send_window n os = Some (r, m, o1)" using flush_defined [OF less.prems len] by fast
  from flush_sender [OF less.prems len f] obtain v' where v': "sender_at A s0 j v' m" "r > 0 \<longrightarrow> v < v'" by blast
  show ?case
  proof (cases "r > 0")
    case True
    then have "length A - v' < length A - v" using v' by (simp add: sender_at_def diff_less_mono2)
    from less.hyps [OF this v'(1)] f True show ?thesis by (simp add: flush_all.simps)
  qed (use f in \<open>simp add: flush_all.simps\<close>)
qed

lemma ack_progress_sender:
  assumes at: "sender_at A s0 j v n" and len: "length A < 2 ^ 31" and h: "ack_progress n a = Some n'"
  shows "n' = n \<or> (\<exists>i. a = s0 + of_nat (j + i) \<and> j + i \<le> v \<and> lbuf_ok (usendbuf n') \<and> same_frame (usendbuf n) (usendbuf n') \<and>
    lbuf_data (usendbuf n') = drop (j + i) A \<and> acknowledged_seq n' = a \<and> send_sequence n' = send_sequence n \<and>
    need_ack n' = need_ack n \<and> is_retranslate n' = is_retranslate n \<and> retrans_seq n' = retrans_seq n \<and> ustatus n' = ustatus n)"
proof (cases "n' = n")
  case False
  have jv: "j \<le> v" "v \<le> length A" "lbuf_data (usendbuf n) = drop j A" "acknowledged_seq n = s0 + of_nat j"
      "send_sequence n = s0 + of_nat v" and ok: "lbuf_ok (usendbuf n)"
    using at by (auto simp: sender_at_def)
  let ?d = "sint (a - acknowledged_seq n)"
  have adv: "?d > 0" "lbuf_datalen (usendbuf n) > 0" "sint (send_sequence n - a) \<ge> 0"
    using False h by (auto simp: ack_progress_def Let_def split: if_splits)
  define i where "i = nat ?d"
  have ai: "a = s0 + of_nat (j + i)"
  proof -
    have "a - acknowledged_seq n = word_of_int ?d" by simp
    also have "\<dots> = of_nat i" using adv(1) by (simp add: i_def)
    finally show ?thesis using jv(4) by (simp add: algebra_simps)
  qed
  have "?d < 2 ^ 31" using sint_lt [of "a - acknowledged_seq n"] by simp
  then have i31: "i < 2 ^ 31" using adv(1) by (simp add: i_def)
  have "send_sequence n - a = word_of_int (int v - int (j + i))"
    unfolding jv(5) ai by simp
  moreover have "int v - int (j + i) < 2 ^ 31" "- (2 ^ 31) \<le> int v - int (j + i)" using i31 jv(1,2) len by auto
  ultimately have "sint (send_sequence n - a) = int v - int (j + i)" using sint_u32_int by metis
  then have iv: "j + i \<le> v" using adv(3) by simp
  obtain b where b: "lbuf_sub_data (usendbuf n) i = Some b" "lbuf_ok b" "lbuf_data b = drop (j + i) A" "same_frame (usendbuf n) b"
    using lbuf_sub_data_spec [OF ok, of i] jv(3) by (auto simp: add.commute)
  have "usendbuf n' = b \<and> acknowledged_seq n' = a \<and> send_sequence n' = send_sequence n \<and> need_ack n' = need_ack n \<and>
      is_retranslate n' = is_retranslate n \<and> retrans_seq n' = retrans_seq n \<and> ustatus n' = ustatus n"
    using h adv b(1) by (auto simp: ack_progress_def Let_def i_def split: prod.splits if_splits)
  with b ai iv show ?thesis by blast
qed simp

lemma handle_ack_sender:
  assumes inv: "sender_inv A s0 n" and len: "length A < 2 ^ 31" and h: "handle_ack u n a os = Some (r, n', os')"
  shows "sender_inv A s0 n' \<and> os' = os"
proof -
  obtain j v where at: "sender_at A s0 j v n" using inv by (auto simp: sender_inv_def)
  have est: "est n" and nf: "\<not> has_status n NETSTAT_FINSEND"
    and rt: "is_retranslate n \<longrightarrow> (\<exists>r. j < r \<and> r \<le> length A \<and> retrans_seq n = s0 + of_nat r)" and v: "v \<le> length A"
    using at by (auto simp: sender_at_def)
  have ns: "ustatus n \<noteq> NETSTAT_SYNRECV" using est by (auto simp: est_def has_status_def)
  consider (old) "n' = n" "os' = os" | (new) m where "ack_progress n a = Some m" "n' = ack_retranslate m a" "os' = os"
    using h nf ns by (auto simp: handle_ack_def split: if_splits Option.bind_splits)
  then show ?thesis
  proof cases
    case new
    have keeps: "sender_at A s0 k v m \<Longrightarrow> sender_at A s0 k v (ack_retranslate m a)" for k
      unfolding sender_at_def ack_retranslate_def by (auto simp: est_def has_status_def)
    from ack_progress_sender [OF at len new(1)] show ?thesis
    proof
      assume "m = n"
      then show ?thesis using keeps at new unfolding sender_inv_def by blast
    next
      assume "\<exists>i. a = s0 + of_nat (j + i) \<and> j + i \<le> v \<and> lbuf_ok (usendbuf m) \<and> same_frame (usendbuf n) (usendbuf m) \<and>
        lbuf_data (usendbuf m) = drop (j + i) A \<and> acknowledged_seq m = a \<and> send_sequence m = send_sequence n \<and>
        need_ack m = need_ack n \<and> is_retranslate m = is_retranslate n \<and> retrans_seq m = retrans_seq n \<and> ustatus m = ustatus n"
      then obtain i where i: "a = s0 + of_nat (j + i)" "j + i \<le> v" and m: "lbuf_ok (usendbuf m)" "same_frame (usendbuf n) (usendbuf m)"
        "lbuf_data (usendbuf m) = drop (j + i) A" "acknowledged_seq m = a" "send_sequence m = send_sequence n"
        "need_ack m = need_ack n" "is_retranslate m = is_retranslate n" "retrans_seq m = retrans_seq n" "ustatus m = ustatus n"
        by blast
      have rq: "\<exists>q. j + i < q \<and> q \<le> length A \<and> retrans_seq n = s0 + of_nat q"
        if p: "is_retranslate n" "sint (a - retrans_seq n) < 0"
      proof -
        obtain q where q: "j < q" "q \<le> length A" "retrans_seq n = s0 + of_nat q" using rt p by blast
        have "sint (a - retrans_seq n) = int (j + i) - int q"
          unfolding i(1) q(3) using i(2) v q(2) len by (intro sint_seq_diff) simp_all
        then have "j + i < q" using p(2) by linarith
        with q(2,3) show ?thesis by blast
      qed
      have "sender_at A s0 (j + i) v n'"
        using at i m rq unfolding new(2) ack_retranslate_def sender_at_def
        by (auto simp: est_def has_status_def same_frame_def)
      then show ?thesis using new(3) unfolding sender_inv_def by blast
    qed
  qed (use inv in simp)
qed

lemma udt_retranslate_sender:
  assumes inv: "sender_inv A s0 n" and len: "length A < 2 ^ 31" and h: "udt_retranslate n os = Some (r, n', os')"
  shows "sender_inv A s0 n' \<and> emits A s0 os os'"
proof -
  obtain j v where at: "sender_at A s0 j v n" using inv by (auto simp: sender_inv_def)
  consider (none) "n' = n \<or> n' = set_err NDERR_WOULD_BLOCK n" "os' = os"
    | (some) m where "retranslate_data n os = Some (r, m, os')"
      "n' = (if r > 0 then
            (if \<not> is_retranslate m then m\<lparr>is_retranslate := True, resend_times := 1\<rparr>
             else m\<lparr>resend_times := resend_times m + 1, retrans_timeout := push_bit 1 (retrans_timeout m)\<rparr>)
          else m)"
    using h by (auto simp: udt_retranslate_def split: if_splits Option.bind_splits)
  then show ?thesis
  proof cases
    case none
    have "send_same n n'" using none(1) by (auto simp: send_same_def set_err_def)
    then show ?thesis using sender_inv_same [OF inv] none(2) by auto
  next
    case some
    from retranslate_data_sender [OF at len some(1)] have m: "sender_at A s0 j v m" "emits A s0 os os'"
      "is_retranslate m = is_retranslate n"
      "\<not> is_retranslate n \<and> r > 0 \<longrightarrow> (\<exists>q. j < q \<and> q \<le> length A \<and> retrans_seq m = s0 + of_nat q)" by auto
    have "sender_at A s0 j v n'"
      using m unfolding some(2) sender_at_def by (auto simp: est_def has_status_def)
    then show ?thesis using m(2) unfolding sender_inv_def by blast
  qed
qed

lemma handle_lost_sender:
  assumes inv: "sender_inv A s0 n" and len: "length A < 2 ^ 31" and h: "handle_lost u n p os = Some (r, n', os')"
  shows "sender_inv A s0 n' \<and> emits A s0 os os'"
proof -
  obtain r1 m o1 where a: "handle_ack u n (ack_seq p) os = Some (r1, m, o1)"
    using h by (auto simp: handle_lost_def split: Option.bind_splits)
  with handle_ack_sender [OF inv len a] have m: "sender_inv A s0 m" and o1: "o1 = os" by auto
  obtain j v where at: "sender_at A s0 j v m" using m by (auto simp: sender_inv_def)
  then have jv: "j \<le> v" "v \<le> length A" "acknowledged_seq m = s0 + of_nat j" "send_sequence m = s0 + of_nat v"
    by (auto simp: sender_at_def)
  show ?thesis
  proof (cases "sint (sequence p - acknowledged_seq m) \<le> 0 \<or> sint (send_sequence m - sequence p) < 0")
    case True
    then have "n' = m \<and> os' = os" using h a o1 by (auto simp: handle_lost_def)
    then show ?thesis using m by simp
  next
    case False
    define i where "i = nat (sint (sequence p - acknowledged_seq m))"
    have "sequence p - acknowledged_seq m = word_of_int (sint (sequence p - acknowledged_seq m))" by simp
    also have "\<dots> = of_nat i" using False by (simp add: i_def)
    finally have sp: "sequence p = s0 + of_nat (j + i)" using jv(3) by (simp add: algebra_simps)
    have "sint (sequence p - acknowledged_seq m) < 2 ^ 31" using sint_lt [of "sequence p - acknowledged_seq m"] by simp
    then have i31: "i < 2 ^ 31" using False by (simp add: i_def)
    have "send_sequence m - sequence p = word_of_int (int v - int (j + i))" unfolding jv(4) sp by simp
    moreover have "int v - int (j + i) < 2 ^ 31" "- (2 ^ 31) \<le> int v - int (j + i)" using i31 jv(1,2) len by auto
    ultimately have "sint (send_sequence m - sequence p) = int v - int (j + i)" using sint_u32_int by metis
    then have iv: "j + i \<le> v" using False by linarith
    let ?m = "m\<lparr>send_sequence := sequence p\<rparr>"
    have at': "sender_at A s0 j (j + i) ?m"
      using at iv sp unfolding sender_at_def by (auto simp: est_def has_status_def)
    obtain r2 where "retranslate_data ?m os = Some (r2, n', os')"
      using h a o1 False by (auto simp: handle_lost_def split: Option.bind_splits)
    from retranslate_data_sender [OF at' len this] show ?thesis unfolding sender_inv_def by blast
  qed
qed

text \<open>A packet that carries no stream data of the peer and does not open or close the connection.\<close>

definition control_pocket :: "ndudt_pocket \<Rightarrow> bool" where
  "control_pocket p \<longleftrightarrow> udt_type (uheader p) \<notin> {NDUDT_DATA, NDUDT_SYN, NDUDT_FIN, NDUDT_DGRAM}"

lemma control_stream_pocket: "control_pocket p \<Longrightarrow> stream_pocket A s0 p l"
  by (simp add: control_pocket_def stream_pocket_def Let_def)

lemma reset_pocket_control: "control_pocket (set_pocket_type NDUDT_RESET init_udt_pocket)"
  by (simp add: control_pocket_def set_pocket_type_def)

lemma reset_pocket_empty: "length (pdata (set_pocket_type NDUDT_RESET init_udt_pocket)) \<le> NDUDT_FRAGMENT_LEN"
  by (simp add: set_pocket_type_def init_udt_pocket_def)

lemma reset_sender: "sender_at A s0 j v n \<Longrightarrow> sender_at A s0 j v (set_err e (add_status NETSTAT_RESET n))"
  unfolding sender_at_def by (auto simp: status_defs bit_simps)

lemma by_type_sender:
  assumes inv: "sender_inv A s0 n" and len: "length A < 2 ^ 31" and c: "control_pocket p"
    and h: "handle_by_type u n p l os = Some (r, n', os')"
  shows "sender_inv A s0 n' \<and> emits A s0 os os'"
proof -
  consider (ack) "handle_ack u n (ack_seq p) os = Some (r, n', os')" | (lost) "handle_lost u n p os = Some (r, n', os')"
    | (reset) "n' = set_err NDERR_RESET (add_status NETSTAT_RESET n)" "os' = os" | (other) "n' = n" "os' = os"
    using c h by (auto simp: handle_by_type_def Let_def control_pocket_def split: if_splits)
  then show ?thesis
  proof cases
    case ack
    from handle_ack_sender [OF inv len ack] show ?thesis by simp
  next
    case lost
    from handle_lost_sender [OF inv len lost] show ?thesis by simp
  next
    case reset
    obtain j v where "sender_at A s0 j v n" using inv by (auto simp: sender_inv_def)
    from reset_sender [OF this] have "sender_inv A s0 n'" unfolding reset(1) sender_inv_def by blast
    then show ?thesis using reset(2) by simp
  qed (use inv in simp)
qed

lemma packet_handler_sender:
  assumes inv: "sender_inv A s0 n" and len: "length A < 2 ^ 31" and c: "control_pocket p"
    and h: "udt_packet_handler u n p l os = Some (r, n', os')"
  shows "sender_inv A s0 n' \<and> emits A s0 os os'"
proof (cases "has_status n NETSTAT_RESET")
  case True
  then obtain w where "write_pocket_to_socket n (set_pocket_type NDUDT_RESET init_udt_pocket) os = (w, n', os')"
    using h by (auto simp: udt_packet_handler_def split: prod.splits)
  from write_pocket_emits [OF this control_stream_pocket [OF reset_pocket_control] reset_pocket_empty] sender_inv_same [OF inv] show ?thesis by blast
next
  case False
  obtain t o1 where t: "udp_time os = (t, o1)" by fastforce
  let ?n = "set_err NDERR_SUCCESS ((uupd (\<lambda>b. b\<lparr>last_recv := t\<rparr>) n)\<lparr>update_tm := t\<rparr>)"
  let ?m = "if uwindow_len p > 0 then ?n\<lparr>window_len := unat (uwindow_len p)\<rparr> else ?n"
  obtain r1 where r1: "handle_by_type u ?m p l o1 = Some (r1, n', os')"
    using h False t by (auto simp: udt_packet_handler_def Let_def split: Option.bind_splits)
  have s: "send_same n ?m" by (simp add: send_same_def set_err_def)
  have o: "emits A s0 os o1" using t by (auto simp: udp_time_def nd_time_def emits_def Let_def)
  note i = sender_inv_same [OF inv s]
  from by_type_sender [OF i len c r1] show ?thesis using emits_trans [OF o] by blast
qed

lemma update_prelist_emits: "update_prelist n os = (n', os') \<Longrightarrow> send_same n n' \<and> usent os' = usent os"
proof -
  assume u: "update_prelist n os = (n', os')"
  have "usent (snd (prune_prelist q xs os)) = usent os" for q xs
    by (induction q xs os rule: prune_prelist.induct) (auto simp: Let_def udp_time_def nd_time_def split: prod.splits)
  from this [of "received_sequence n" "pre_list n"] u show ?thesis
    by (auto simp: update_prelist_def send_same_def split: prod.splits)
qed

lemma update_socket_sender:
  assumes inv: "sender_inv A s0 n" and len: "length A < 2 ^ 31" and h: "update_socket n os = Some (r, n', os')"
  shows "sender_inv A s0 n' \<and> emits A s0 os os'"
proof -
  obtain t o1 where t: "udp_time os = (t, o1)" by fastforce
  let ?n = "set_err NDERR_SUCCESS (n\<lparr>update_tm := t\<rparr>)"
  have i0: "sender_inv A s0 ?n" using inv by (rule sender_inv_same) (simp add: send_same_def set_err_def)
  obtain m o2 where m: "(if has_status ?n NETSTAT_ESTABLISHED \<and> pre_list ?n \<noteq> [] then update_prelist ?n o1 else (?n, o1)) = (m, o2)"
    by fastforce
  have "send_same ?n m \<and> usent o2 = usent o1" using m update_prelist_emits [of ?n o1 m o2] by (auto split: if_splits)
  then have i1: "sender_inv A s0 m" and e1: "emits A s0 os o2"
    using sender_inv_same [OF i0] t by (auto simp: emits_def udp_time_def nd_time_def Let_def)
  obtain r1 m1 o3 where f: "flush_send_window m o2 = Some (r1, m1, o3)"
    using h t m by (auto simp: update_socket_def Let_def split: Option.bind_splits)
  have i2: "sender_inv A s0 m1" "emits A s0 o2 o3"
    using i1 flush_sender [OF _ len f] unfolding sender_inv_def by blast+
  define E where "E = (if r1 > 0 then do { (n, os) \<leftarrow> flush_all m1 o3; Some (0, n, os) } else udt_retranslate m1 o3)"
  have tail: "do { (r, n, os) \<leftarrow> E;
      if r = -1 then Some (-1, n, os)
      else if need_ack n then let (_, n, os) = udt_send_ack n os in Some (1, n\<lparr>need_ack := False\<rparr>, os)
      else Some (1, n, os) } = Some (r, n', os')"
    using h by (simp add: update_socket_def Let_def t m f E_def cong: if_cong)
  then obtain r2 m2 o4 where E: "E = Some (r2, m2, o4)" by (cases E) auto
  have i3: "sender_inv A s0 m2 \<and> emits A s0 o3 o4"
  proof (cases "r1 > 0")
    case True
    with E have "flush_all m1 o3 = Some (m2, o4)" by (simp add: E_def split: Option.bind_splits)
    from flush_all_sender [OF len i2(1) this] show ?thesis by simp
  next
    case False
    with E have "udt_retranslate m1 o3 = Some (r2, m2, o4)" by (simp add: E_def)
    from udt_retranslate_sender [OF i2(1) len this] show ?thesis .
  qed
  then have "\<not> need_ack m2" by (auto simp: sender_inv_def sender_at_def)
  then have "n' = m2" "os' = o4" using tail E by (auto split: if_splits)
  then show ?thesis using i3 i2(2) e1 emits_trans by blast
qed

lemma stream_dgram_mono: "stream_dgram A s0 d \<Longrightarrow> stream_dgram (A @ T) s0 d"
  using stream_pocket_mono by (auto simp: stream_dgram_def)

lemma udt_send_sender:
  assumes inv: "sender_inv A s0 n" and h: "udt_send n bs os = Some (r, n', os')"
  shows "os' = os \<and> (r > 0 \<and> sender_inv (A @ bs) s0 n' \<or> r = -1 \<and> sender_inv A s0 n')"
proof -
  obtain j v where at: "sender_at A s0 j v n" using inv by (auto simp: sender_inv_def)
  consider (refuse) e where "r = -1" "n' = set_err e n" "os' = os"
    | (stored) b where "lbuf_write (os_malloc (uos os)) (usendbuf n) bs EBUF_SPECIFIED = Some (r, b)" "os' = os"
      "n' = uupd (\<lambda>x. x\<lparr>send_buffer := b\<rparr>) (set_err NDERR_SUCCESS n)" "length bs \<ge> 1"
  proof (cases "ustatus n < NETSTAT_ESTABLISHED \<or> has_status n NETSTAT_FINSEND \<or> length bs < 1 \<or> length bs \<ge> lbuf_capacity (usendbuf n)")
    case True
    with h have "r = -1" "os' = os" "n' = set_err NDERR_CLOSED n \<or> n' = set_err NDERR_INVALID_INPUT n"
      unfolding udt_send_def by (simp_all split: if_splits)
    then show thesis using that(1) by blast
  next
    case False
    define W where "W = lbuf_write (os_malloc (uos os)) (usendbuf n) bs EBUF_SPECIFIED"
    have W: "do { (ret, b) \<leftarrow> W; Some (ret, uupd (\<lambda>x. x\<lparr>send_buffer := b\<rparr>) (set_err NDERR_SUCCESS n), os) } = Some (r, n', os')"
      using h False unfolding udt_send_def W_def by simp
    then obtain b where "W = Some (r, b)" by (cases W) auto
    with W False show thesis using that(2) [of b] by (auto simp: W_def not_less Suc_le_eq)
  qed
  then show ?thesis
  proof cases
    case refuse
    have "send_same n n'" using refuse by (simp add: send_same_def set_err_def)
    then show ?thesis using sender_inv_same [OF inv] refuse by blast
  next
    case stored
    have ok: "lbuf_ok (usendbuf n)" "\<not> auto_inc (usendbuf n)" "lbuf_data (usendbuf n) = drop j A" "j \<le> v" "v \<le> length A"
      using at by (auto simp: sender_at_def)
    from lbuf_write_result [OF ok(1,2) stored(1)] have b: "lbuf_ok b" "same_frame (usendbuf n) b"
      "r = int (length bs) \<and> lbuf_data b = lbuf_data (usendbuf n) @ bs \<or> r = -1 \<and> b = usendbuf n" by auto
    from b(3) show ?thesis
    proof
      assume w: "r = int (length bs) \<and> lbuf_data b = lbuf_data (usendbuf n) @ bs"
      have "sender_at (A @ bs) s0 j v n'"
        using at b(1,2) w ok unfolding stored(3) sender_at_def
        by (auto simp: set_err_def est_def has_status_def same_frame_def)
      moreover have "r > 0" using w stored(4) by linarith
      ultimately show ?thesis using stored(2) unfolding sender_inv_def by blast
    next
      assume "r = -1 \<and> b = usendbuf n"
      moreover from this have "send_same n n'" using stored(3) by (simp add: send_same_def set_err_def)
      ultimately show ?thesis using sender_inv_same [OF inv] stored(2) by blast
    qed
  qed
qed

end
