(* ===== verification/Udt_Stream.thy ===== *)
theory Udt_Stream
  imports Udt_Sender
begin

text \<open>
  A UDT connection end to end: how a datagram becomes a packet again, and the transition system of a sender,
  a receiver and the network between them.
\<close>

section \<open>The path of a datagram\<close>

definition quiet :: "nd_udt_node \<times> udp_os \<Rightarrow> nd_udt_node \<times> udp_os \<Rightarrow> bool" where
  "quiet x y \<longleftrightarrow> remote_addr (fst y) = remote_addr (fst x) \<and> urecv_script (snd y) = urecv_script (snd x)"

lemma quiet_trans: "quiet x y \<Longrightarrow> quiet y z \<Longrightarrow> quiet x z" by (simp add: quiet_def)

lemma quiet_time: "udp_time os = (t, os') \<Longrightarrow> quiet (n, os) (n, os')"
  by (auto simp: udp_time_def nd_time_def quiet_def Let_def)

lemma quiet_send: "nd_udp_send n bs os = (r, n', os') \<Longrightarrow> quiet (n, os) (n', os')"
  by (auto simp: nd_udp_send_def os_sendto_def udp_time_def nd_time_def quiet_def Let_def set_err_def
      split: prod.splits if_splits list.splits dgram_send.splits)

lemma quiet_write: "write_pocket_to_socket n p os = (r, n', os') \<Longrightarrow> quiet (n, os) (n', os')"
  by (auto simp: write_pocket_to_socket_def Let_def udp_time_def nd_time_def split: prod.splits if_splits dest!: quiet_send)
    (auto simp: quiet_def)

lemma quiet_ack: "udt_send_ack n os = (r, n', os') \<Longrightarrow> quiet (n, os) (n', os')"
  by (auto simp: udt_send_ack_def dest: quiet_write)

lemma quiet_flush: "flush_send_window n os = Some (r, n', os') \<Longrightarrow> quiet (n, os) (n', os')"
  by (auto simp: flush_send_window_def Let_def split: if_splits option.splits prod.splits Option.bind_splits
      dest!: quiet_write) (auto simp: quiet_def)

lemma quiet_flush_all: "flush_all n os = Some x \<Longrightarrow> quiet (n, os) x"
proof (rule flush_all.raw_induct [of "\<lambda>n os x. quiet (n, os) x"])
  fix f n os x
  assume ih: "\<And>n os y. f n os = Some y \<Longrightarrow> quiet (n, os) y"
    and f: "do { (ret, n, os) \<leftarrow> flush_send_window n os; if ret > 0 then f n os else Some (n, os) } = Some x"
  show "quiet (n, os) x"
    using f by (auto split: Option.bind_splits if_splits dest!: ih quiet_flush intro: quiet_trans)
qed

lemma quiet_retranslate_data: "retranslate_data n os = Some (r, n', os') \<Longrightarrow> quiet (n, os) (n', os')"
  by (auto simp: retranslate_data_def Let_def split: if_splits prod.splits Option.bind_splits dest!: quiet_write)
    (auto simp: quiet_def)

lemma quiet_retranslate: "udt_retranslate n os = Some (r, n', os') \<Longrightarrow> quiet (n, os) (n', os')"
  by (auto simp: udt_retranslate_def Let_def split: if_splits prod.splits Option.bind_splits dest!: quiet_retranslate_data)
    (auto simp: quiet_def set_err_def)

lemma quiet_prelist: "update_prelist n os = (n', os') \<Longrightarrow> quiet (n, os) (n', os')"
proof -
  assume u: "update_prelist n os = (n', os')"
  have "urecv_script (snd (prune_prelist q xs os)) = urecv_script os" for q xs
    by (induction q xs os rule: prune_prelist.induct) (auto simp: Let_def udp_time_def nd_time_def split: prod.splits)
  from this [of "received_sequence n" "pre_list n"] u show ?thesis
    by (auto simp: update_prelist_def quiet_def split: prod.splits)
qed

lemma quiet_update:
  assumes h: "update_socket n os = Some (r, n', os')"
  shows "quiet (n, os) (n', os')"
proof -
  obtain t o1 where t: "udp_time os = (t, o1)" by fastforce
  let ?n = "set_err NDERR_SUCCESS (n\<lparr>update_tm := t\<rparr>)"
  obtain m o2 where m: "(if has_status ?n NETSTAT_ESTABLISHED \<and> pre_list ?n \<noteq> [] then update_prelist ?n o1 else (?n, o1)) = (m, o2)"
    by fastforce
  have 0: "quiet (n, os) (?n, o1)" using quiet_time [OF t, of n] by (simp add: quiet_def set_err_def)
  have 1: "quiet (?n, o1) (m, o2)"
    using m quiet_prelist [of ?n o1] by (auto simp: quiet_def split: if_splits)
  obtain r1 m1 o3 where f: "flush_send_window m o2 = Some (r1, m1, o3)"
    using h t m by (auto simp: update_socket_def Let_def split: Option.bind_splits)
  define E where "E = (if r1 > 0 then do { (n, os) \<leftarrow> flush_all m1 o3; Some (0, n, os) } else udt_retranslate m1 o3)"
  have "do { (r, n, os) \<leftarrow> E;
      if r = -1 then Some (-1, n, os)
      else if need_ack n then let (_, n, os) = udt_send_ack n os in Some (1, n\<lparr>need_ack := False\<rparr>, os)
      else Some (1, n, os) } = Some (r, n', os')"
    using h by (simp add: update_socket_def Let_def t m f E_def cong: if_cong)
  then obtain r2 m2 o4 where E: "E = Some (r2, m2, o4)"
    and last: "n' = m2 \<and> os' = o4 \<or> (\<exists>a m3. udt_send_ack m2 o4 = (a, m3, os') \<and> n' = m3\<lparr>need_ack := False\<rparr>)"
    by (cases E) (auto split: if_splits prod.splits)
  have 2: "quiet (m1, o3) (m2, o4)"
    using E by (auto simp: E_def split: if_splits Option.bind_splits dest: quiet_flush_all quiet_retranslate)
  have "quiet (m2, o4) (n', os')" using last by (auto simp: quiet_def dest!: quiet_ack)
  then show ?thesis using 0 1 2 quiet_flush [OF f] quiet_trans by blast
qed

text \<open>A datagram of the stream is read as a packet of the stream, whatever the packet buffer held before.\<close>

lemma received_stream_pocket:
  assumes "stream_pocket S s0 p (ndt_header_size p + length (pdata p))" "received_pocket p rest q"
  shows "stream_pocket S s0 q (ndt_header_size p + length (pdata p))"
proof -
  have "ndt_header_size q = ndt_header_size p" using assms(2) by (simp add: received_pocket_def ndt_header_size_def)
  then show ?thesis using assms by (auto simp: stream_pocket_def Let_def fragment_def pocket_payload_def received_pocket_def)
qed

lemma net2host_length: "udt_net2host bs = Some q \<Longrightarrow> 16 \<le> length bs"
  by (induction bs rule: udt_net2host.induct) auto

definition genuine :: "byte list \<Rightarrow> u32 \<Rightarrow> nat \<Rightarrow> udp_os \<Rightarrow> bool" where
  "genuine S s0 a os \<longleftrightarrow> (\<forall>d. DRecv d a \<in> set (urecv_script os) \<longrightarrow> stream_dgram S s0 d)"

lemma read_genuine:
  assumes g: "genuine S s0 (remote_addr n) os" and r: "read_packet_from_socket n 0 os = Some ((len, q), n', os')"
  shows "recv_same n n' \<and> remote_addr n' = remote_addr n \<and>
    (\<forall>p. q = Some p \<and> remote_addr n' = last_read n' \<longrightarrow> len > 0 \<and> stream_pocket S s0 p (nat len))"
proof (cases "urecv_script os")
  case Nil
  then show ?thesis
    using r by (auto simp: read_packet_from_socket_def nd_udp_read_def os_recvfrom_def Let_def recv_same_def status_defs)
next
  case (Cons x xs)
  show ?thesis
  proof (cases x)
    case (DRecvErr e)
    then show ?thesis
      using r Cons by (auto simp: read_packet_from_socket_def nd_udp_read_def os_recvfrom_def Let_def recv_same_def status_defs split: if_splits)
  next
    case (DRecv d a)
    let ?bs = "take UDT_POCKETBUF_SIZE d"
    obtain m o1 where m: "nd_udp_read n UDT_POCKETBUF_SIZE 0 os = (int (length ?bs), ?bs, m, o1)" "recv_same n m"
        "last_read m = a" "remote_addr m = remote_addr n"
      using Cons DRecv by (cases "udp_time (os\<lparr>urecv_script := xs\<rparr>)")
        (simp add: nd_udp_read_def os_recvfrom_def Let_def recv_same_def status_defs)
    obtain ok buf where tc: "test_checksum (?bs @ drop (length ?bs) (ujunk o1)) (length ?bs) = (ok, buf)" by fastforce
    have n': "n' = m \<or> n' = set_err NDERR_BADPACKET m"
      and q: "q = Some p \<Longrightarrow> n' = m \<and> len = int (length ?bs) \<and> len > 0 \<and> ok \<and> udt_net2host buf = Some p" for p
      using r m(1) tc unfolding read_packet_from_socket_def by (auto simp: Let_def split: if_splits Option.bind_splits)
    have "len > 0 \<and> stream_pocket S s0 p (nat len)" if "q = Some p" "remote_addr n' = last_read n'" for p
    proof -
      have "a = remote_addr n" using q [OF that(1)] that(2) m by simp
      then have "stream_dgram S s0 d" using g Cons DRecv by (simp add: genuine_def)
      then obtain p0 where p0: "d = set_checksum (udt_host2net 0 p0)" "length (pdata p0) \<le> NDUDT_FRAGMENT_LEN"
        "stream_pocket S s0 p0 (ndt_header_size p0 + length (pdata p0))" by (auto simp: stream_dgram_def)
      have ld: "length d = ndt_header_size p0 + length (pdata p0)" using p0(1) by (simp add: set_checksum_host2net length_host2net)
      then have "length d \<le> UDT_POCKETBUF_SIZE"
        using p0(2) by (simp add: NDUDT_FRAGMENT_LEN_def UDT_POCKETBUF_SIZE_def ndt_header_size_def split: if_splits)
      then have "?bs = d" by simp
      with tc ld p0(1) have "buf = udt_host2net 0 p0 @ drop (length d) (ujunk o1)" by (simp add: test_checksum_set)
      moreover have "udt_net2host buf = Some p" using q [OF that(1)] by simp
      ultimately have "received_pocket p0 (drop (length d) (ujunk o1)) p"
        using net2host_host2net net2host_length by (metis option.inject)
      from received_stream_pocket [OF p0(3) this] have "stream_pocket S s0 p (length d)" using ld by simp
      moreover have "nat len = length d" "len > 0" using q [OF that(1)] \<open>?bs = d\<close> by auto
      ultimately show ?thesis using ld by simp
    qed
    moreover have "recv_same n n' \<and> remote_addr n' = remote_addr n"
      using n' m(2,4) recv_same_trans [OF m(2) recv_same_upd(4)] by (auto simp: set_err_def)
    ultimately show ?thesis by blast
  qed
qed

lemma check_income_same: "check_income n p r = (r', n') \<Longrightarrow> recv_same n n' \<and> (r' > 0 \<longrightarrow> r' = r \<and> remote_addr n = last_read n)"
  by (auto simp: check_income_def recv_same_def status_defs split: if_splits)

lemma wait_data_genuine:
  assumes inv: "receiver_inv S s0 k out n" and g: "genuine S s0 (remote_addr n) os"
    and w: "wait_data n 0 os = Some ((ret, q), n', os')"
  shows "receiver_inv S s0 k out n' \<and> (\<forall>p. q = Some p \<and> ret > 0 \<longrightarrow> stream_pocket S s0 p (nat ret))"
proof -
  obtain r1 m o1 where m: "update_socket n os = Some (r1, m, o1)" and l: "wait_data_loop 0 m 0 o1 = Some ((ret, q), n', os')"
    using w by (auto simp: wait_data_def split: Option.bind_splits)
  note im = update_socket_inv [OF inv m]
  have gm: "genuine S s0 (remote_addr m) o1" using g quiet_update [OF m] by (simp add: genuine_def quiet_def)
  obtain len q1 n1 o2 where rd: "read_packet_from_socket m 0 o1 = Some ((len, q1), n1, o2)"
    using l by (subst (asm) wait_data_loop.simps) (auto split: Option.bind_splits)
  note r = read_genuine [OF gm rd]
  have i1: "receiver_inv S s0 k out n1" using receiver_inv_same [OF im] r by blast
  show ?thesis
  proof (cases q1)
    case (Some p)
    obtain r' n2 where c: "check_income n1 p len = (r', n2)" by fastforce
    have e: "ret = r'" "q = Some p" "n' = n2"
      using l rd Some c by (simp_all add: wait_data_loop.simps [of 0 m])
    from check_income_same [OF c] show ?thesis
      using receiver_inv_same [OF i1] r e Some by auto
  next
    case None
    consider "n' = n1" "q = None" | u n2 o3 e where "update_socket n1 o2 = Some (u, n2, o3)" "n' = n2 \<or> n' = set_err e n2" "q = None"
    proof (cases "len = 0 \<or> uerr n1 = NDERR_WOULD_BLOCK")
      case False
      then show thesis using l that(1) unfolding wait_data_loop.simps [of 0 m] by (simp add: rd None)
    next
      case True
      then have "do { (u, n, os) \<leftarrow> update_socket n1 o2;
          if u = -1 then Some ((-1, None), n, os) else Some ((len, None), set_err (uerr n1) n, os) } = Some ((ret, q), n', os')"
        using l unfolding wait_data_loop.simps [of 0 m] by (simp add: rd None Let_def cong: if_cong)
      then obtain u n2 o3 where "update_socket n1 o2 = Some (u, n2, o3)" "n' = n2 \<or> n' = set_err (uerr n1) n2" "q = None"
        by (cases "update_socket n1 o2") (auto split: if_splits)
      then show thesis using that(2) by blast
    qed
    then show ?thesis
    proof cases
      case 2
      from update_socket_inv [OF i1 2(1)] show ?thesis using 2(2,3) receiver_inv_same [OF _ recv_same_upd(4)] by auto
    qed (use i1 in simp)
  qed
qed

lemma lbuf_read_prefix:
  assumes "lbuf_ok b" "lbuf_read b sz EBUF_ALL = Some (r, bs, b')"
  shows "lbuf_ok b' \<and> lbuf_data b = bs @ lbuf_data b'"
proof (cases "sz \<le> length (lbuf_data b)")
  case True
  from lbuf_read_spec [OF assms(1) True, of EBUF_ALL] assms(2) show ?thesis by auto
next
  case False
  then have "length (lbuf_data b) \<le> sz" by simp
  from lbuf_read_all_spec [OF assms(1) this] assms(2) show ?thesis by auto
qed

lemma udt_recv_genuine:
  assumes inv: "receiver_inv S s0 k out n" and len: "length S < 2 ^ 31" and g: "genuine S s0 (remote_addr n) os"
    and h: "udt_recv u n sz os = Some ((r, bs), n', os')"
  shows "\<exists>k'. receiver_inv S s0 k' (out @ bs) n'"
proof -
  let ?n = "n\<lparr>user_data_in := False\<rparr>"
  define E where "E = (if \<not> is_accept ?n then do {
         ((ret, p), n, os) \<leftarrow> wait_data ?n 0 os;
         (case p of
            Some p \<Rightarrow> if ret > 0 then udt_packet_handler u n p (nat ret) os else Some (0, n, os)
          | None \<Rightarrow> Some (0, n, os))
       } else Some (0, ?n, os))"
  have i0: "receiver_inv S s0 k out ?n" using inv by (rule receiver_inv_same) (simp add: recv_same_def status_defs)
  have tail: "do { (h, n, os) \<leftarrow> E;
     if h = -1 then Some ((-1, []), n, os)
     else if lbuf_datalen (urecvbuf n) > 0 then do {
       (ret, bs, b) \<leftarrow> lbuf_read (urecvbuf n) sz EBUF_ALL;
       Some ((ret, bs), uupd (\<lambda>x. x\<lparr>recv_buffer := b\<rparr>) n, os)
     } else Some ((0, []), n, os) } = Some ((r, bs), n', os')"
    using h unfolding udt_recv_def E_def Let_def .
  then obtain h1 m o1 where E: "E = Some (h1, m, o1)" by (cases E) auto
  obtain k' where im: "receiver_inv S s0 k' out m"
  proof (cases "is_accept ?n")
    case True
    then show thesis using E i0 that by (simp add: E_def)
  next
    case False
    then obtain ret q n1 o2 where w: "wait_data ?n 0 os = Some ((ret, q), n1, o2)"
      and c: "m = n1 \<or> (\<exists>p. q = Some p \<and> ret > 0 \<and> udt_packet_handler u n1 p (nat ret) o2 = Some (h1, m, o1))"
      using E by (auto simp: E_def split: Option.bind_splits option.splits if_splits)
    have "genuine S s0 (remote_addr ?n) os" using g by simp
    from wait_data_genuine [OF i0 this w] show thesis
      using c packet_handler_inv [OF _ len] that by blast
  qed
  have "n' = m \<and> bs = [] \<or> (\<exists>b. lbuf_read (urecvbuf m) sz EBUF_ALL = Some (r, bs, b) \<and> n' = uupd (\<lambda>x. x\<lparr>recv_buffer := b\<rparr>) m)"
    using tail E by (auto split: if_splits Option.bind_splits)
  then show ?thesis
  proof
    assume "\<exists>b. lbuf_read (urecvbuf m) sz EBUF_ALL = Some (r, bs, b) \<and> n' = uupd (\<lambda>x. x\<lparr>recv_buffer := b\<rparr>) m"
    then obtain b where b: "lbuf_read (urecvbuf m) sz EBUF_ALL = Some (r, bs, b)" and n': "n' = uupd (\<lambda>x. x\<lparr>recv_buffer := b\<rparr>) m" by blast
    have "lbuf_ok (urecvbuf m)" using im by (simp add: receiver_inv_def)
    from lbuf_read_prefix [OF this b] have "receiver_inv S s0 k' (out @ bs) n'"
      using im n' by (simp add: receiver_inv_def status_defs)
    then show ?thesis by blast
  qed (use im in auto)
qed

section \<open>Two nodes and the network between them\<close>

text \<open>
  \<open>wire\<close> are the datagrams the sender's kernel has taken. Each operation runs in any environment: the kernel
  takes or refuses datagrams as it likes and the clock shows any time. The receiver gets what the network
  delivers: errors, datagrams of strangers, and of its peer any datagram of \<open>wire\<close>, any number of times and
  in any order. The sender may get any control packet, also one the receiver never sent.
\<close>

record udt_link =
  accepted :: "byte list"
  delivered :: "byte list"
  wire :: "byte list list"
  snode :: nd_udt_node
  rnode :: nd_udt_node

inductive udt_link_step :: "udt_user \<Rightarrow> udt_link \<Rightarrow> udt_link \<Rightarrow> bool" for u where
  user_send: "usent os = wire l \<Longrightarrow> udt_send (snode l) bs os = Some (r, n, os') \<Longrightarrow>
    udt_link_step u l (l\<lparr>snode := n, wire := usent os', accepted := (if r > 0 then accepted l @ bs else accepted l)\<rparr>)"
| sender_update: "usent os = wire l \<Longrightarrow> update_socket (snode l) os = Some (r, n, os') \<Longrightarrow>
    udt_link_step u l (l\<lparr>snode := n, wire := usent os'\<rparr>)"
| sender_control: "usent os = wire l \<Longrightarrow> control_pocket p \<Longrightarrow> udt_packet_handler u (snode l) p len os = Some (r, n, os') \<Longrightarrow>
    udt_link_step u l (l\<lparr>snode := n, wire := usent os'\<rparr>)"
| user_recv: "\<forall>d. DRecv d (remote_addr (rnode l)) \<in> set (urecv_script os) \<longrightarrow> d \<in> set (wire l) \<Longrightarrow>
    udt_recv u (rnode l) sz os = Some ((r, bs), n, os') \<Longrightarrow>
    udt_link_step u l (l\<lparr>rnode := n, delivered := delivered l @ bs\<rparr>)"
| receiver_update: "update_socket (rnode l) os = Some (r, n, os') \<Longrightarrow> udt_link_step u l (l\<lparr>rnode := n\<rparr>)"

definition udt_link_start :: "udt_link \<Rightarrow> bool" where
  "udt_link_start l \<longleftrightarrow> accepted l = [] \<and> delivered l = [] \<and> wire l = [] \<and>
     (let s = snode l; r = rnode l in
      est s \<and> lbuf_ok (usendbuf s) \<and> \<not> auto_inc (usendbuf s) \<and> lbuf_data (usendbuf s) = [] \<and> \<not> has_status s NETSTAT_FINSEND \<and>
      \<not> need_ack s \<and> \<not> is_retranslate s \<and> acknowledged_seq s = send_sequence s \<and>
      est r \<and> lbuf_ok (urecvbuf r) \<and> lbuf_data (urecvbuf r) = [] \<and> pre_list r = [] \<and> received_sequence r = send_sequence s)"

definition udt_link_inv :: "u32 \<Rightarrow> udt_link \<Rightarrow> bool" where
  "udt_link_inv s0 l \<longleftrightarrow> sender_inv (accepted l) s0 (snode l) \<and> (\<exists>k. receiver_inv (accepted l) s0 k (delivered l) (rnode l)) \<and>
     (\<forall>d \<in> set (wire l). stream_dgram (accepted l) s0 d)"

lemma link_start_inv: "udt_link_start l \<Longrightarrow> udt_link_inv (send_sequence (snode l)) l"
  by (auto simp: udt_link_start_def udt_link_inv_def Let_def sender_inv_def sender_at_def receiver_inv_def)

lemma link_step_accepted: "udt_link_step u l l' \<Longrightarrow> length (accepted l) \<le> length (accepted l')"
  by (auto elim: udt_link_step.cases)

lemma emits_wire: "emits A s0 os os' \<Longrightarrow> \<forall>d \<in> set (usent os). stream_dgram A s0 d \<Longrightarrow> \<forall>d \<in> set (usent os'). stream_dgram A s0 d"
  by (auto simp: emits_def)

lemma link_step_inv:
  assumes "udt_link_step u l l'" "udt_link_inv s0 l" "length (accepted l') < 2 ^ 31"
  shows "udt_link_inv s0 l'"
  using assms
proof cases
  case (user_send os bs r n os')
  from udt_send_sender [OF _ user_send(3)] assms(2) have s: "os' = os"
    "r > 0 \<and> sender_inv (accepted l @ bs) s0 n \<or> r = -1 \<and> sender_inv (accepted l) s0 n"
    by (auto simp: udt_link_inv_def)
  then show ?thesis
    using user_send assms(2) receiver_inv_mono stream_dgram_mono by (fastforce simp: udt_link_inv_def)
next
  case (sender_update os r n os')
  have "sender_inv (accepted l) s0 n \<and> emits (accepted l) s0 os os'"
    using update_socket_sender [OF _ _ sender_update(3)] assms(2,3) sender_update(1) by (simp add: udt_link_inv_def)
  then show ?thesis using sender_update assms(2) emits_wire [of "accepted l" s0 os os'] by (auto simp: udt_link_inv_def)
next
  case (sender_control os p len r n os')
  have "sender_inv (accepted l) s0 n \<and> emits (accepted l) s0 os os'"
    using packet_handler_sender [OF _ _ sender_control(3,4)] assms(2,3) sender_control(1) by (simp add: udt_link_inv_def)
  then show ?thesis using sender_control assms(2) emits_wire [of "accepted l" s0 os os'] by (auto simp: udt_link_inv_def)
next
  case (user_recv os sz r bs n os')
  obtain k where k: "receiver_inv (accepted l) s0 k (delivered l) (rnode l)" using assms(2) by (auto simp: udt_link_inv_def)
  have "length (accepted l) < 2 ^ 31" "genuine (accepted l) s0 (remote_addr (rnode l)) os"
    using assms(2,3) user_recv(1,2) by (auto simp: udt_link_inv_def genuine_def)
  from udt_recv_genuine [OF k this user_recv(3)] show ?thesis
    using user_recv(1) assms(2) by (auto simp: udt_link_inv_def)
next
  case (receiver_update os r n os')
  obtain k where "receiver_inv (accepted l) s0 k (delivered l) (rnode l)" using assms(2) by (auto simp: udt_link_inv_def)
  from update_socket_inv [OF this receiver_update(2)] show ?thesis
    using assms(2) receiver_update(1) by (auto simp: udt_link_inv_def)
qed

lemma link_reach_inv:
  assumes "(udt_link_step u)\<^sup>*\<^sup>* l l'" "udt_link_inv s0 l"
  shows "length (accepted l') < 2 ^ 31 \<longrightarrow> udt_link_inv s0 l'"
  using assms(1)
proof (induction rule: rtranclp_induct)
  case (step x y)
  then show ?case using link_step_inv [OF step(2)] link_step_accepted [OF step(2)] by auto
qed (use assms(2) in simp)

section \<open>A sample connection\<close>

definition sample_udt :: "nat \<Rightarrow> nd_udt_node" where
  "sample_udt cap = zero_udt_node\<lparr>unode := zero_tcp_node\<lparr>htype := NDHANDLE_UDPNODE, status := NETSTAT_ESTABLISHED, fd := 3,
     send_buffer := sample_buf cap [], recv_buffer := sample_buf cap []\<rparr>, remote_addr := 5, local_port := 7,
     retrans_timeout := 500, window_len := 64, send_sequence := 100, acknowledged_seq := 100, received_sequence := 100\<rparr>"

definition sample_udp_os :: "dgram_send list \<Rightarrow> dgram_recv list \<Rightarrow> udp_os" where
  "sample_udp_os s r = \<lparr>uos = \<lparr>clock = (\<lambda>_. 1000), ticks = 0, send_script = [], recv_script = [], ready_script = [],
     os_errno = 0, wire_out = [], os_malloc = (\<lambda>_. None), cb_log = [], stack_junk = []\<rparr>,
     usend_script = s, urecv_script = r, usent = [], ujunk = replicate 20 0\<rparr>"

definition no_user :: udt_user where "no_user = \<lparr>data_entry = None, accept_proc = None\<rparr>"


lemma flush_all_stop: "flush_send_window n os = Some (r, n', os') \<Longrightarrow> r \<le> 0 \<Longrightarrow> flush_all n os = Some (n', os')"
  by (simp add: flush_all.simps)

definition sample_buffered :: nd_udt_node where
  "sample_buffered = uupd (\<lambda>x. x\<lparr>send_buffer := sample_buf 32 [1, 2, 3]\<rparr>) (sample_udt 32)"

lemmas node_sel = sample_udt_def zero_udt_node_def zero_tcp_node_def uupd_def set_err_def
lemmas lbuf_eval = lbuf_capacity_def lbuf_write_def lbuf_free_capacity_def lbuf_datalen_def size_sub_def lbuf_freespace_def lbuf_append_def
  lbuf_store_def lbuf_add_data_def lbuf_load_def mem_read_def mem_write_def

lemma sample_user_send: "udt_send (sample_udt 32) [1, 2, 3] os = Some (3, sample_buffered, os)"
  by (simp add: udt_send_def sample_buffered_def node_sel has_status_def sample_buf_def lbuf_eval Let_def)
    (simp add: numeral_eq_Suc)

definition sample_pocket :: ndudt_pocket where
  "sample_pocket = init_udt_pocket\<lparr>sequence := 100, pdata := [1, 2, 3], ulocal_port := 7, uwindow_len := 32\<rparr>"

definition sample_dgram :: "byte list" where
  "sample_dgram = set_checksum (udt_host2net 0 sample_pocket)"

definition sample_sent :: nd_udt_node where
  "sample_sent = (uupd (\<lambda>x. x\<lparr>last_push := 1000, send_len := 15\<rparr>) sample_buffered)
     \<lparr>update_tm := 1000, last_active := 1000, last_resend_tm := 1000, send_sequence := 103, window_len := 61\<rparr>"

lemma host2net_nonempty [simp]: "udt_host2net cs p \<noteq> []" by (simp add: udt_host2net_def)

definition sample_os_at :: "nat \<Rightarrow> byte list list \<Rightarrow> dgram_send list \<Rightarrow> dgram_recv list \<Rightarrow> udp_os" where
  "sample_os_at t w s r = (sample_udp_os s r)\<lparr>usent := w, uos := (uos (sample_udp_os s r))\<lparr>ticks := t\<rparr>\<rparr>"

lemma sample_os_sel [simp]: "usent (sample_os_at t w s r) = w" "urecv_script (sample_os_at t w s r) = r"
  by (simp_all add: sample_os_at_def sample_udp_os_def)

lemmas os_eval = sample_os_at_def sample_udp_os_def udp_time_def nd_time_def os_sendto_def os_recvfrom_def
lemmas pocket_eval = set_checksum_host2net length_host2net ndt_header_size_def sample_dgram_def sample_pocket_def init_udt_pocket_def
  init_udt_header_def write_pocket_to_socket_def send_window_def nd_udp_send_def
lemmas flush_eval = flush_send_window_def send_window_start_def NDUDT_FRAGMENT_LEN_def has_status_def

lemma sample_flush: "flush_send_window (sample_buffered\<lparr>update_tm := 1000\<rparr>) (sample_os_at 1 [] [DSend] []) =
   Some (15, sample_sent, sample_os_at 3 [sample_dgram] [] [])"
  by (simp add: flush_eval os_eval pocket_eval sample_buffered_def sample_sent_def node_sel sample_buf_def lbuf_eval Let_def)

lemma sample_flush_done: "flush_send_window sample_sent os = Some (0, sample_sent, os)"
  by (simp add: flush_eval sample_buffered_def sample_sent_def node_sel sample_buf_def lbuf_eval Let_def)

lemma sample_update: "update_socket sample_buffered (sample_os_at 0 [] [DSend] []) = Some (1, sample_sent, sample_os_at 3 [sample_dgram] [] [])"
proof -
  have 1: "udp_time (sample_os_at 0 [] [DSend] []) = (1000, sample_os_at 1 [] [DSend] [])" by (simp add: os_eval)
  have 2: "set_err 0 (sample_buffered\<lparr>update_tm := 1000\<rparr>) = sample_buffered\<lparr>update_tm := 1000\<rparr>" "pre_list sample_buffered = []" "need_ack sample_sent = False"
    by (simp_all add: sample_buffered_def sample_sent_def node_sel)
  show ?thesis using sample_flush_done [THEN flush_all_stop] by (simp add: update_socket_def 1 2 sample_flush [simplified])
qed

lemma idle_update: "update_socket (sample_udt 32) (sample_os_at 0 [] [] x) = Some (1, (sample_udt 32)\<lparr>update_tm := 1000\<rparr>, sample_os_at 1 [] [] x)"
  by (simp add: update_socket_def udt_retranslate_def os_eval flush_eval node_sel sample_buf_def lbuf_eval Let_def)


definition sample_got :: ndudt_pocket where
  "sample_got = sample_pocket\<lparr>ack_seq := 0x030201, pdata := 1 # 2 # 3 # replicate 5 0\<rparr>"

lemma sample_dgram_bytes: "length sample_dgram = 15" "test_checksum (sample_dgram @ xs) 15 = (True, udt_host2net 0 sample_pocket @ xs)"
  "udt_net2host (udt_host2net 0 sample_pocket @ replicate 5 0) = Some sample_got"
proof -
  have 1: "ndt_header_size sample_pocket + length (pdata sample_pocket) = 15"
    by (simp add: sample_pocket_def ndt_header_size_def init_udt_pocket_def init_udt_header_def)
  show "length sample_dgram = 15" using 1 by (simp add: sample_dgram_def set_checksum_host2net length_host2net)
  show "test_checksum (sample_dgram @ xs) 15 = (True, udt_host2net 0 sample_pocket @ xs)"
    using test_checksum_set [of 0 sample_pocket xs] unfolding 1 sample_dgram_def .
  show "udt_net2host (udt_host2net 0 sample_pocket @ replicate 5 0) = Some sample_got" by code_simp
qed

definition sample_read :: nd_udt_node where
  "sample_read = (uupd (\<lambda>b. b\<lparr>read_again := True, last_recv := 1000, recv_len := 15\<rparr>) (sample_udt 32))\<lparr>update_tm := 1000, last_read := 5\<rparr>"

lemma sample_read_packet: "read_packet_from_socket ((sample_udt 32)\<lparr>update_tm := 1000\<rparr>) 0 (sample_os_at 1 [] [] [DRecv sample_dgram 5]) =
    Some ((15, Some sample_got), sample_read, sample_os_at 2 [] [] [])"
proof -
  have 1: "nd_udp_read ((sample_udt 32)\<lparr>update_tm := 1000\<rparr>) UDT_POCKETBUF_SIZE 0 (sample_os_at 1 [] [] [DRecv sample_dgram 5]) =
      (15, sample_dgram, sample_read, sample_os_at 2 [] [] [])"
    by (simp add: nd_udp_read_def os_eval sample_read_def node_sel sample_dgram_bytes UDT_POCKETBUF_SIZE_def Let_def)
  have 2: "drop 15 (ujunk (sample_os_at 2 [] [] [])) = replicate 5 0" by (simp add: os_eval)
  show ?thesis unfolding read_packet_from_socket_def 1 by (simp add: sample_dgram_bytes 2 Let_def)
qed

lemma sample_wait: "wait_data (sample_udt 32) 0 (sample_os_at 0 [] [] [DRecv sample_dgram 5]) =
    Some ((15, Some sample_got), sample_read, sample_os_at 2 [] [] [])"
proof -
  have "check_income sample_read sample_got 15 = (15, sample_read)"
    by (simp add: check_income_def sample_read_def sample_got_def sample_pocket_def node_sel)
  then show ?thesis by (simp add: wait_data_def idle_update wait_data_loop.simps [of 0 "(sample_udt 32)\<lparr>update_tm := 1000\<rparr>"] sample_read_packet [simplified])
qed

definition sample_stored :: nd_udt_node where
  "sample_stored = (uupd (\<lambda>b. b\<lparr>recv_buffer := sample_buf 32 [1, 2, 3]\<rparr>) sample_read)\<lparr>window_len := 32, need_ack := True, received_sequence := 103, user_data_in := True\<rparr>"

lemma sample_stored_flush: "flush_send_window sample_stored os = Some (0, sample_stored, os)"
  by (simp add: flush_eval sample_stored_def sample_read_def node_sel sample_buf_def lbuf_eval Let_def)

lemma sample_handled: "udt_packet_handler no_user sample_read sample_got 15 (sample_os_at 2 [] [] []) = Some (3, sample_stored, sample_os_at 3 [] [] [])"
proof -
  have 1: "store_payload (sample_read\<lparr>window_len := 32\<rparr>) sample_got 15 os = Some (3, sample_stored)" for os
    by (simp add: store_payload_def pocket_payload_def sample_got_def pocket_eval sample_stored_def sample_read_def node_sel sample_buf_def lbuf_eval Let_def)
      (simp add: numeral_eq_Suc)
  have 2: "ndt_header_size sample_got = 12" "sequence sample_got = 100" "uack (uheader sample_got) = False" "udt_type (uheader sample_got) = 0"
    "uwindow_len sample_got = 32"
    by (simp_all add: sample_got_def sample_pocket_def ndt_header_size_def init_udt_pocket_def init_udt_header_def)
  have 3: "received_sequence sample_read = 100" "lbuf_free_capacity (urecvbuf sample_read) = 32" "pre_list sample_stored = []"
    "set_err 0 ((uupd (\<lambda>b. b\<lparr>last_recv := 1000\<rparr>) sample_read)\<lparr>update_tm := 1000\<rparr>) = sample_read" "has_status sample_read 256 = False"
    by (simp_all add: sample_stored_def sample_read_def node_sel sample_buf_def lbuf_eval has_status_def)
  have "handle_by_type no_user (sample_read\<lparr>window_len := 32\<rparr>) sample_got 15 os = Some (3, sample_stored, os)" for os
    using sample_stored_flush [THEN flush_all_stop] by (simp add: handle_by_type_def handle_income_data_def 1 2 3)
  moreover have "udp_time (sample_os_at 2 [] [] []) = (1000, sample_os_at 3 [] [] [])" by (simp add: os_eval)
  ultimately show ?thesis by (simp add: udt_packet_handler_def 2 3)
qed

lemma sample_recv: "\<exists>n os. udt_recv no_user (sample_udt 32) 10 (sample_os_at 0 [] [] [DRecv sample_dgram 5]) = Some ((3, [1, 2, 3]), n, os)"
proof -
  have 1: "(sample_udt 32)\<lparr>user_data_in := False\<rparr> = sample_udt 32" "is_accept (sample_udt 32) = False" by (simp_all add: node_sel)
  have 2: "urecvbuf sample_stored = sample_buf 32 [1, 2, 3]" by (simp add: sample_stored_def)
  have "lbuf_datalen (sample_buf 32 [1, 2, 3]) = 3" by (simp add: sample_buf_def lbuf_eval)
  moreover obtain b where "lbuf_read (sample_buf 32 [1, 2, 3]) 10 EBUF_ALL = Some (3, [1, 2, 3], b)"
    using lbuf_read_all_spec [of "sample_buf 32 [1, 2, 3]" 10] sample_buf_ok [of 32 "[1, 2, 3]"] by auto
  ultimately show ?thesis by (simp add: udt_recv_def 1 sample_wait sample_handled 2)
qed

definition sample_link :: udt_link where
  "sample_link = \<lparr>accepted = [], delivered = [], wire = [], snode = sample_udt 32, rnode = sample_udt 32\<rparr>"

lemma sample_link_start: "udt_link_start sample_link"
proof -
  have "lbuf_ok (sample_buf 32 [])" "lbuf_data (sample_buf 32 []) = []" using sample_buf_ok [of 32 "[]"] by simp_all
  moreover have "usendbuf (sample_udt 32) = sample_buf 32 []" "urecvbuf (sample_udt 32) = sample_buf 32 []"
    "auto_inc (sample_buf 32 []) = False" by (simp_all add: sample_udt_def sample_buf_def)
  ultimately show ?thesis
    by (simp add: udt_link_start_def sample_link_def Let_def est_def has_status_def) (simp add: node_sel)
qed

lemma sample_link_run:
  "\<exists>l'. (udt_link_step no_user)\<^sup>*\<^sup>* sample_link l' \<and> accepted l' = [1, 2, 3] \<and> delivered l' = [1, 2, 3]"
proof -
  let ?l1 = "sample_link\<lparr>snode := sample_buffered, accepted := [1, 2, 3]\<rparr>"
  let ?l2 = "?l1\<lparr>snode := sample_sent, wire := [sample_dgram]\<rparr>"
  have 1: "udt_link_step no_user sample_link ?l1"
    using user_send [of "sample_os_at 0 [] [] []" sample_link "[1, 2, 3]" 3 sample_buffered "sample_os_at 0 [] [] []" no_user] sample_user_send
    by (simp add: sample_link_def)
  have 2: "udt_link_step no_user ?l1 ?l2"
    using sender_update [of "sample_os_at 0 [] [DSend] []" ?l1 1 sample_sent "sample_os_at 3 [sample_dgram] [] []" no_user] sample_update
    by (simp add: sample_link_def)
  obtain n os where r: "udt_recv no_user (sample_udt 32) 10 (sample_os_at 0 [] [] [DRecv sample_dgram 5]) = Some ((3, [1, 2, 3]), n, os)"
    using sample_recv by blast
  have "remote_addr (sample_udt 32) = 5" by (simp add: node_sel)
  with r have 3: "udt_link_step no_user ?l2 (?l2\<lparr>rnode := n, delivered := [1, 2, 3]\<rparr>)"
    using user_recv [of ?l2 "sample_os_at 0 [] [] [DRecv sample_dgram 5]" no_user 10 3 "[1, 2, 3]" n os]
    by (simp add: sample_link_def)
  have "(udt_link_step no_user)\<^sup>*\<^sup>* sample_link (?l2\<lparr>rnode := n, delivered := [1, 2, 3]\<rparr>)"
    using 1 2 3 by (blast intro: converse_rtranclp_into_rtranclp [where r = "udt_link_step no_user"])
  then show ?thesis by (intro exI [of _ "?l2\<lparr>rnode := n, delivered := [1, 2, 3]\<rparr>"]) simp
qed


lemma take_lbuf_load: "lbuf_ok b \<Longrightarrow> n \<le> length (lbuf_data b) \<Longrightarrow> lbuf_load b (lb_start b) n = Some (take n (lbuf_data b))"
  using lbuf_load_at [of b 0 n] by simp

definition retrans_pocket :: "nd_udt_node \<Rightarrow> nat \<Rightarrow> ndudt_pocket" where
  "retrans_pocket n l = init_udt_pocket\<lparr>sequence := acknowledged_seq n,
     pdata := (if need_ack n then le_of_u32 (received_sequence n) else []) @ take l (lbuf_data (usendbuf n)),
     ulocal_port := local_port n, uwindow_len := of_nat (send_window n)\<rparr>"

lemma write_pocket_counters:
  "write_pocket_to_socket n p os = (r, n', os') \<Longrightarrow> resend_times n' = resend_times n \<and> retrans_timeout n' = retrans_timeout n"
  by (auto simp: write_pocket_to_socket_def nd_udp_send_def set_err_def uupd_def udp_time_def nd_time_def Let_def split: prod.splits if_splits)

lemma retranslate_data_emits:
  assumes ok: "lbuf_ok (usendbuf n)" and unacked: "(if is_retranslate n then sint (retrans_seq n - acknowledged_seq n)
      else sint (send_sequence n - acknowledged_seq n)) = int k" "0 < k"
    and l: "l = min k NDUDT_FRAGMENT_LEN" "l \<le> length (lbuf_data (usendbuf n))" and kernel: "usend_script os = DSend # s"
  shows "\<exists>n' os'. retranslate_data n os = Some (int l, n', os') \<and> usent os' = usent os @ [set_checksum (udt_host2net 0 (retrans_pocket n l))] \<and>
    resend_times n' = resend_times n \<and> retrans_timeout n' = retrans_timeout n"
proof -
  let ?n = "(if is_retranslate n then n else n\<lparr>retrans_seq := acknowledged_seq n\<rparr>)\<lparr>need_ack := False\<rparr>"
  let ?p = "init_udt_pocket\<lparr>sequence := acknowledged_seq n,
     pdata := (if need_ack n then le_of_u32 (received_sequence n) else []) @ take l (lbuf_data (usendbuf n))\<rparr>"
  have sw: "send_window ?n = send_window n" by (simp add: send_window_def)
  have ld: "lbuf_load (usendbuf n) (lb_start (usendbuf n)) l = Some (take l (lbuf_data (usendbuf n)))" by (rule take_lbuf_load [OF ok l(2)])
  obtain r1 n1 o1 where w: "write_pocket_to_socket ?n ?p os = (r1, n1, o1)" by (metis prod_cases3)
  have len: "length (set_checksum (udt_host2net 0 (retrans_pocket n l))) = ndt_header_size ?p + length (pdata ?p)"
    by (simp add: set_checksum_host2net length_host2net retrans_pocket_def ndt_header_size_def)
  have o1: "usent o1 = usent os @ [set_checksum (udt_host2net 0 (retrans_pocket n l))]" "r1 = int (ndt_header_size ?p + length (pdata ?p))"
    using w kernel len unfolding retrans_pocket_def
    by (auto simp: write_pocket_to_socket_def nd_udp_send_def os_sendto_def udp_time_def nd_time_def Let_def sw split: if_splits)
  have n1: "resend_times n1 = resend_times n" "retrans_timeout n1 = retrans_timeout n"
    using write_pocket_counters [OF w] by simp_all
  show ?thesis
  proof (cases "is_retranslate n")
    case True
    then show ?thesis using o1 n1 unacked ld w unfolding retranslate_data_def Let_def by (auto simp: l(1)[symmetric])
  next
    case False
    then show ?thesis using o1 n1 unacked ld w unfolding retranslate_data_def Let_def by (auto simp: l(1)[symmetric])
  qed
qed

lemma retrans_pocket_size:
  assumes "l \<le> length (lbuf_data (usendbuf n))"
  shows "ndt_header_size (retrans_pocket n l) = 12" "length (pdata (retrans_pocket n l)) = (if need_ack n then l + 4 else l)"
  using assms by (simp_all add: retrans_pocket_def ndt_header_size_def init_udt_pocket_def init_udt_header_def le_of_u32_def)

lemma income_data_stored:
  assumes ok: "lbuf_ok (urecvbuf m)" and seq: "sequence p = received_sequence m" "pre_list m = []"
    and d: "pdata p \<noteq> []" "length (pdata p) \<le> lbuf_freespace (urecvbuf m)"
  shows "\<exists>m'. handle_income_data m p (ndt_header_size p + length (pdata p)) os = Some (int (length (pdata p)), m', os) \<and>
    lbuf_data (urecvbuf m') = lbuf_data (urecvbuf m) @ pdata p \<and> received_sequence m' = received_sequence m + of_nat (length (pdata p)) \<and> need_ack m'"
proof -
  have "lb_end (urecvbuf m) + length (pdata p) \<le> buf_capacity (urecvbuf m)"
    using ok d(2) lbuf_freespace_eq [OF ok] by (auto simp: lbuf_ok_def)
  from lbuf_append_spec [OF ok this] obtain b where b: "lbuf_write (os_malloc (uos os)) (urecvbuf m) (pdata p) EBUF_ALL = Some (int (length (pdata p)), b)"
      "lbuf_data b = lbuf_data (urecvbuf m) @ pdata p"
    using d(2) by (auto simp: lbuf_write_def Let_def)
  have fc: "length (pdata p) \<le> lbuf_free_capacity (urecvbuf m)"
    using ok d(2) lbuf_freespace_eq [OF ok]
    by (auto simp: lbuf_free_capacity_def lbuf_capacity_def lbuf_datalen_def size_sub_def lbuf_ok_def split: if_splits)
  let ?m = "(uupd (\<lambda>x. x\<lparr>recv_buffer := b\<rparr>) (m\<lparr>need_ack := True, received_sequence := received_sequence m + of_nat (length (pdata p))\<rparr>))
      \<lparr>user_data_in := True\<rparr>"
  have "store_payload m p (ndt_header_size p + length (pdata p)) os = Some (int (length (pdata p)), ?m)"
    using b(1) by (simp add: store_payload_def pocket_payload_def)
  then have "handle_income_data m p (ndt_header_size p + length (pdata p)) os = Some (int (length (pdata p)), ?m, os)"
    using seq fc d(1) by (simp add: handle_income_data_def)
  then show ?thesis using b(2) by simp
qed

text \<open>C21. A retransmission with an acknowledgement due corrupts the stream. \<open>_retranslate_data\<close> puts the
  acknowledgement in front of the data but then clears the flag that announces it: a peer that waits for
  these bytes takes the four bytes of the acknowledgement for data and stores them in front of it.\<close>

theorem retransmit_stray_bytes:
  assumes ok: "lbuf_ok (usendbuf n)" and need: "need_ack n" and nr: "\<not> is_retranslate n"
    and unacked: "sint (send_sequence n - acknowledged_seq n) = int l" "0 < l" "l \<le> NDUDT_FRAGMENT_LEN" "l \<le> length (lbuf_data (usendbuf n))"
    and kernel: "usend_script os = DSend # s"
    and peer: "lbuf_ok (urecvbuf m)" "received_sequence m = acknowledged_seq n" "pre_list m = []"
      "l + 4 \<le> lbuf_freespace (urecvbuf m)"
  shows "\<exists>n' os' p m'. retranslate_data n os = Some (int l, n', os') \<and> usent os' = usent os @ [set_checksum (udt_host2net 0 p)] \<and>
    handle_income_data m p (ndt_header_size p + length (pdata p)) o2 = Some (int (l + 4), m', o2) \<and>
    lbuf_data (urecvbuf m') = lbuf_data (urecvbuf m) @ le_of_u32 (received_sequence n) @ take l (lbuf_data (usendbuf n))"
proof -
  let ?p = "retrans_pocket n l"
  have l: "l = min l NDUDT_FRAGMENT_LEN" using unacked(3) by simp
  have p: "pdata ?p = le_of_u32 (received_sequence n) @ take l (lbuf_data (usendbuf n))" "sequence ?p = received_sequence m"
    "length (pdata ?p) = l + 4" using need peer(2) unacked(4) retrans_pocket_size [of l n] by (simp_all add: retrans_pocket_def)
  then have "pdata ?p \<noteq> []" "length (pdata ?p) \<le> lbuf_freespace (urecvbuf m)" using peer(4) by (metis add_is_0 list.size(3) zero_neq_numeral, simp only: p(3))
  from income_data_stored [OF peer(1) p(2) peer(3) this, of o2]
    retranslate_data_emits [OF ok _ unacked(2) l unacked(4) kernel] nr unacked(1) p(1,3)
  show ?thesis by metis
qed

text \<open>C20. Lost data is sent again. On a node that sends only, when the retransmission timeout has passed with bytes unacknowledged, the first of
  them go out again under their own sequence number: the first time as many as fit a fragment, and in every later round up to the mark the first
  round has set. The first round sets the count of attempts to 1, each further one counts and doubles the timeout, and once the maximum
  of attempts is reached, nothing is sent and the call fails with \<open>NDERR_WOULD_BLOCK\<close>.\<close>

theorem udt_retransmits:
  assumes at: "sender_at A s0 j v n" and len: "length A < 2 ^ 31" and jv: "j < v"
    and elapsed: "retrans_timeout n \<le> update_tm n - last_resend_tm n" and kernel: "usend_script os = DSend # s"
  shows "if is_retranslate n \<and> MAX_ATTEMPT_SEND \<le> unat (resend_times n)
    then udt_retranslate n os = Some (-1, set_err NDERR_WOULD_BLOCK n, os)
    else \<exists>n' os' p l. udt_retranslate n os = Some (int l, n', os') \<and> usent os' = usent os @ [set_checksum (udt_host2net 0 p)] \<and>
      udt_type (uheader p) = NDUDT_DATA \<and> sequence p = s0 + of_nat j \<and> pdata p = take l (drop j A) \<and> 0 < l \<and>
      int l = min (if is_retranslate n then sint (retrans_seq n - acknowledged_seq n) else int (v - j)) (int NDUDT_FRAGMENT_LEN) \<and>
      is_retranslate n' \<and> sender_inv A s0 n' \<and>
      (if is_retranslate n then resend_times n' = resend_times n + 1 \<and> retrans_timeout n' = push_bit 1 (retrans_timeout n)
       else resend_times n' = 1 \<and> retrans_timeout n' = retrans_timeout n)"
proof -
  have a: "lbuf_ok (usendbuf n)" "\<not> need_ack n" "v \<le> length A" "lbuf_data (usendbuf n) = drop j A" "acknowledged_seq n = s0 + of_nat j"
    "send_sequence n = s0 + of_nat v" using at by (auto simp: sender_at_def)
  have sv: "sint (send_sequence n - acknowledged_seq n) = int (v - j)"
    unfolding a(5,6) using jv a(3) len sint_seq_diff [of v j s0] by auto
  define k where "k = nat (if is_retranslate n then sint (retrans_seq n - acknowledged_seq n) else sint (send_sequence n - acknowledged_seq n))"
  have k: "(if is_retranslate n then sint (retrans_seq n - acknowledged_seq n) else sint (send_sequence n - acknowledged_seq n)) = int k \<and>
    0 < k \<and> k \<le> length A - j"
  proof (cases "is_retranslate n")
    case True
    then obtain q where q: "j < q" "q \<le> length A" "retrans_seq n = s0 + of_nat q" using at by (auto simp: sender_at_def)
    have "sint (retrans_seq n - acknowledged_seq n) = int q - int j"
      unfolding q(3) a(5) using q(1,2) len by (intro sint_seq_diff) auto
    then show ?thesis using True q by (auto simp: k_def)
  next
    case False
    then show ?thesis using sv jv a(3) by (auto simp: k_def)
  qed
  let ?l = "min k NDUDT_FRAGMENT_LEN"
  have l: "?l \<le> length (lbuf_data (usendbuf n))" "0 < ?l" using k a(4) by (auto simp: NDUDT_FRAGMENT_LEN_def)
  obtain n1 os' where r: "retranslate_data n os = Some (int ?l, n1, os')"
    and o: "usent os' = usent os @ [set_checksum (udt_host2net 0 (retrans_pocket n ?l))]"
    and c: "resend_times n1 = resend_times n" "retrans_timeout n1 = retrans_timeout n"
    using retranslate_data_emits [OF a(1) conjunct1 [OF k] _ refl l(1) kernel] k by blast
  have rt: "is_retranslate n1 = is_retranslate n" using retranslate_data_sender [OF at len r] by simp
  have unacked: "\<not> sint (send_sequence n - acknowledged_seq n) \<le> 0" using sv jv by simp
  show ?thesis
  proof (cases "is_retranslate n \<and> MAX_ATTEMPT_SEND \<le> unat (resend_times n)")
    case True
    then show ?thesis using unacked elapsed by (simp add: udt_retranslate_def not_less)
  next
    case False
    let ?n = "if \<not> is_retranslate n1 then n1\<lparr>is_retranslate := True, resend_times := 1\<rparr>
      else n1\<lparr>resend_times := resend_times n1 + 1, retrans_timeout := push_bit 1 (retrans_timeout n1)\<rparr>"
    have u: "udt_retranslate n os = Some (int ?l, ?n, os')"
      using unacked elapsed r l(2) False unfolding udt_retranslate_def by (auto simp: not_less)
    have "sender_inv A s0 ?n"
      using udt_retranslate_sender [OF _ len u] at unfolding sender_inv_def by blast
    moreover have "udt_type (uheader (retrans_pocket n ?l)) = NDUDT_DATA" "sequence (retrans_pocket n ?l) = s0 + of_nat j"
        "pdata (retrans_pocket n ?l) = take ?l (drop j A)"
      using a by (simp_all add: retrans_pocket_def init_udt_pocket_def init_udt_header_def)
    moreover have "int ?l = min (if is_retranslate n then sint (retrans_seq n - acknowledged_seq n) else int (v - j)) (int NDUDT_FRAGMENT_LEN)"
      using k sv by auto
    ultimately show ?thesis
      using u o l(2) rt c False by (auto intro!: exI [of _ ?n] exI [of _ os'] exI [of _ "retrans_pocket n ?l"] exI [of _ ?l])
  qed
qed

text \<open>The loop that empties the send window ends for every behaviour of the kernel.\<close>

theorem flush_all_terminates:
  assumes "sender_inv A s0 n" "length A < 2 ^ 31"
  shows "\<exists>n' os'. flush_all n os = Some (n', os') \<and> sender_inv A s0 n'"
proof -
  obtain j v where "sender_at A s0 j v n" using assms(1) by (auto simp: sender_inv_def)
  from flush_all_defined [OF assms(2) this] obtain x where "flush_all n os = Some x" by fast
  with flush_all_sender [OF assms(2,1) this] show ?thesis by (cases x) auto
qed

lemma sample_sender_at:
  "sender_at [1, 2, 3] 100 0 0 sample_buffered" "sender_at [1, 2, 3] 100 0 3 sample_sent"
proof -
  have b: "lbuf_ok (sample_buf 32 [1, 2, 3])" "lbuf_data (sample_buf 32 [1, 2, 3]) = [1, 2, 3]" "auto_inc (sample_buf 32 [1, 2, 3]) = False"
    using sample_buf_ok [of 32 "[1, 2, 3]"] by simp_all (simp add: sample_buf_def)
  have s: "usendbuf sample_buffered = sample_buf 32 [1, 2, 3]" "usendbuf sample_sent = sample_buf 32 [1, 2, 3]"
    by (simp_all add: sample_buffered_def sample_sent_def)
  have "est sample_buffered" "est sample_sent" "\<not> has_status sample_buffered NETSTAT_FINSEND" "\<not> has_status sample_sent NETSTAT_FINSEND"
    by (simp_all add: sample_buffered_def sample_sent_def node_sel est_def has_status_def)
  with b s show "sender_at [1, 2, 3] 100 0 0 sample_buffered" "sender_at [1, 2, 3] 100 0 3 sample_sent"
    unfolding sender_at_def by (simp_all add: sample_buffered_def sample_sent_def node_sel)
qed

theorem flush_all_terminates_witness:
  "\<exists>n' os'. flush_all sample_buffered (sample_udp_os [DSend, DSend] []) = Some (n', os') \<and> sender_inv [1, 2, 3] 100 n'"
  by (rule flush_all_terminates) (use sample_sender_at in \<open>auto simp: sender_inv_def\<close>)

theorem udt_retransmits_witness:
  "\<exists>n' os' p. udt_retranslate (sample_sent\<lparr>update_tm := 2000\<rparr>) (sample_udp_os [DSend] []) = Some (3, n', os') \<and>
    usent os' = [set_checksum (udt_host2net 0 p)] \<and> pdata p = [1, 2, 3]"
proof -
  have at: "sender_at [1, 2, 3] 100 0 3 (sample_sent\<lparr>update_tm := 2000\<rparr>)"
    by (rule sender_at_same [OF sample_sender_at(2)]) (simp add: send_same_def)
  have "\<not> is_retranslate (sample_sent\<lparr>update_tm := 2000\<rparr>)" "retrans_timeout sample_sent = 500" "last_resend_tm sample_sent = 1000"
    by (simp_all add: sample_sent_def sample_buffered_def node_sel)
  with udt_retransmits [OF at, of "sample_udp_os [DSend] []" "[]"] obtain n' os' p l where
      "udt_retranslate (sample_sent\<lparr>update_tm := 2000\<rparr>) (sample_udp_os [DSend] []) = Some (int l, n', os')"
      "usent os' = [set_checksum (udt_host2net 0 p)]" "pdata p = take l [1, 2, 3]" "int l = 3"
    by (auto simp: sample_udp_os_def NDUDT_FRAGMENT_LEN_def)
  then show ?thesis by (intro exI [of _ n'] exI [of _ os'] exI [of _ p]) simp
qed

theorem retransmit_stray_bytes_witness:
  "\<exists>n' os' p m'. retranslate_data (sample_sent\<lparr>need_ack := True\<rparr>) (sample_udp_os [DSend] []) = Some (3, n', os') \<and>
    usent os' = [set_checksum (udt_host2net 0 p)] \<and>
    handle_income_data (sample_udt 32) p (ndt_header_size p + length (pdata p)) (sample_udp_os [] []) = Some (7, m', sample_udp_os [] []) \<and>
    lbuf_data (urecvbuf m') = [100, 0, 0, 0, 1, 2, 3]"
proof -
  have b: "lbuf_ok (sample_buf 32 [1, 2, 3])" "lbuf_data (sample_buf 32 [1, 2, 3]) = [1, 2, 3]"
    "lbuf_ok (sample_buf 32 [])" "lbuf_data (sample_buf 32 []) = []" "lbuf_freespace (sample_buf 32 []) = 32"
    using sample_buf_ok [of 32 "[1, 2, 3]"] sample_buf_ok [of 32 "[]"] lbuf_freespace_eq [of "sample_buf 32 []"] by simp_all (simp add: sample_buf_def)
  have s: "usendbuf sample_sent = sample_buf 32 [1, 2, 3]" "urecvbuf (sample_udt 32) = sample_buf 32 []"
     "is_retranslate sample_sent = False" "send_sequence sample_sent = 103" "acknowledged_seq sample_sent = 100"
     "received_sequence (sample_udt 32) = 100" "pre_list (sample_udt 32) = []" "received_sequence sample_sent = 100"
    by (simp_all add: sample_buffered_def sample_sent_def node_sel)
  from retransmit_stray_bytes [of "sample_sent\<lparr>need_ack := True\<rparr>" 3 "sample_udp_os [DSend] []" "[]" "sample_udt 32" "sample_udp_os [] []"]
  show ?thesis by (simp add: s b NDUDT_FRAGMENT_LEN_def le_of_u32_def) (simp add: sample_udp_os_def)
qed


text \<open>C22. A close loses data without notice. A node that gets a FIN takes its sequence number for the number of
  received bytes, whatever it has received, and acknowledges it; the closing peer then drops its send buffer
  and is in the same state as if all had arrived.\<close>

theorem fin_loses_data:
  assumes fin: "udt_type (uheader p) = NDUDT_FIN" "\<not> uack (uheader p)" "sequence p = send_sequence n"
    and peer: "\<not> has_status m NETSTAT_RECVCLOSE" "usend_script os = DSend # s"
    and me: "has_status n NETSTAT_FINSEND" "acknowledged_seq n < send_sequence n" "lbuf_ok (usendbuf n)"
  shows "\<exists>m' os' q n'. handle_by_type u m p len os = Some (-1, m', os') \<and> urecvbuf m' = urecvbuf m \<and>
    usent os' = usent os @ [set_checksum (udt_host2net 0 q)] \<and> udt_type (uheader q) = NDUDT_ACK \<and>
    handle_by_type u n q len2 o2 = Some (0, n', o2) \<and> lbuf_data (usendbuf n') = [] \<and> has_status n' NETSTAT_SENDCLOSE"
proof -
  let ?m = "(add_status NETSTAT_RECVCLOSE m)\<lparr>received_sequence := sequence p\<rparr>"
  let ?m1 = "if has_status ?m (NETSTAT_SENDCLOSE + NETSTAT_FINSEND) then add_status NETSTAT_RESET ?m else ?m"
  let ?q = "(set_pocket_type NDUDT_ACK (set_pocket_ack init_udt_pocket (sequence p)))\<lparr>ulocal_port := local_port ?m1, uwindow_len := of_nat (send_window ?m1)\<rparr>"
  have rs: "received_sequence ?m1 = sequence p" by (simp add: status_defs)
  obtain r m2 o1 where a: "udt_send_ack ?m1 os = (r, m2, o1)" by (metis prod_cases3)
  then have o1: "usent o1 = usent os @ [set_checksum (udt_host2net 0 ?q)]"
    using peer(2) unfolding udt_send_ack_def rs
    by (auto simp: write_pocket_to_socket_def nd_udp_send_def os_sendto_def udp_time_def nd_time_def Let_def split: if_splits)
  have "urecvbuf m2 = urecvbuf m" using send_ack_same [OF a] by (simp add: recv_same_def status_defs split: if_splits)
  moreover have "handle_by_type u m p len os = Some (-1, set_err NDERR_CLOSED m2, o1)"
  proof -
    have "handle_fin u m p os = Some (-1, set_err NDERR_CLOSED m2, o1)"
      using fin(2) peer(1) a by (cases "has_status ?m (NETSTAT_SENDCLOSE + NETSTAT_FINSEND)") (simp_all add: handle_fin_def)
    then show ?thesis using fin(1) by (simp add: handle_by_type_def)
  qed
  moreover have q: "udt_type (uheader ?q) = NDUDT_ACK" "ack_seq ?q = send_sequence n"
    using fin(3) by (simp_all add: set_pocket_type_def set_pocket_ack_def)
  obtain b where b: "lbuf_reset (usendbuf n) = Some b" "lbuf_data b = []"
    using lbuf_reset_spec [of "usendbuf n"] me(3) by (auto simp: lbuf_ok_def)
  have nsr: "ustatus n \<noteq> NETSTAT_SYNRECV" using me(1) by (auto simp: has_status_def)
  have "\<exists>n'. handle_ack u n (send_sequence n) o2 = Some (0, n', o2) \<and> usendbuf n' = b \<and> has_status n' NETSTAT_SENDCLOSE"
    using me b nsr by (auto simp: handle_ack_def Let_def status_defs bit_0)
  ultimately show ?thesis using o1 b(2) q by (fastforce simp: handle_by_type_def set_err_def)
qed

lemma seq_wraps:
  assumes "unat (s0 :: u32) + j < 2 ^ 32" "2 ^ 32 \<le> unat s0 + i" "i < 2 ^ 31"
  shows "s0 + of_nat i \<le> s0 + of_nat j"
proof -
  have u: "unat (s0 + of_nat k) = (unat s0 + k) mod 2 ^ 32" for k
    by (simp add: unat_word_ariths unat_of_nat mod_simps)
  have "unat s0 < 2 ^ 32" using unsigned_less [of s0] by simp
  then have "unat (s0 + of_nat i) = unat s0 + i - 2 ^ 32" using assms(2,3) unfolding u by (simp add: mod_if)
  moreover have "unat (s0 + of_nat j) = unat s0 + j" unfolding u using assms(1) by (rule mod_less)
  moreover have "unat s0 + i - 2 ^ 32 \<le> unat s0 + j" using assms(3) by simp
  ultimately show ?thesis by (simp add: word_le_nat_alt)
qed

text \<open>C23. Acknowledgements stop at the wrap-around of the sequence counter. \<open>_handle_ack\<close> compares sequence numbers
  as unsigned integers: when the counter wraps between the bytes acknowledged so far and a new
  acknowledgement of bytes that were sent, the new one is ignored and nothing leaves the send buffer.\<close>

theorem ack_wrap_ignored:
  assumes at: "sender_at A s0 j v n" and "length A < 2 ^ 31" and "j < i" "i \<le> v"
    and wrap: "unat s0 + j < 2 ^ 32" "2 ^ 32 \<le> unat s0 + i"
    and "udt_type (uheader p) = NDUDT_ACK" "ack_seq p = s0 + of_nat i"
  shows "handle_by_type u n p len os = Some (0, n, os)"
proof -
  have "i < 2 ^ 31" "acknowledged_seq n = s0 + of_nat j" using assms by (auto simp: sender_at_def)
  then have "ack_seq p \<le> acknowledged_seq n" using seq_wraps [OF wrap] assms(8) by simp
  then show ?thesis using assms(7) by (simp add: handle_by_type_def handle_ack_def)
qed

theorem fin_loses_data_witness:
  "\<exists>m' os' q n'. handle_by_type no_user (sample_udt 32) ((set_pocket_type NDUDT_FIN init_udt_pocket)\<lparr>sequence := 103\<rparr>) 12 (sample_udp_os [DSend] []) =
      Some (-1, m', os') \<and> lbuf_data (urecvbuf m') = [] \<and> usent os' = [set_checksum (udt_host2net 0 q)] \<and>
    handle_by_type no_user (add_status NETSTAT_FINSEND sample_sent) q 16 (sample_udp_os [] []) = Some (0, n', sample_udp_os [] []) \<and>
    lbuf_data (usendbuf n') = [] \<and> has_status n' NETSTAT_SENDCLOSE"
proof -
  have b: "lbuf_ok (sample_buf 32 [1, 2, 3])" "lbuf_data (sample_buf 32 []) = []"
    using sample_buf_ok [of 32 "[1, 2, 3]"] sample_buf_ok [of 32 "[]"] by simp_all
  have s: "usendbuf (add_status NETSTAT_FINSEND sample_sent) = sample_buf 32 [1, 2, 3]" "urecvbuf (sample_udt 32) = sample_buf 32 []"
     "send_sequence (add_status NETSTAT_FINSEND sample_sent) = 103" "acknowledged_seq (add_status NETSTAT_FINSEND sample_sent) = 100"
    by (simp_all add: sample_buffered_def sample_sent_def node_sel status_defs)
  have st: "\<not> has_status (sample_udt 32) NETSTAT_RECVCLOSE" "has_status (add_status NETSTAT_FINSEND sample_sent) NETSTAT_FINSEND"
    by (simp_all add: sample_buffered_def sample_sent_def node_sel add_status_def set_status_def has_status_def)
  have p: "udt_type (uheader ((set_pocket_type NDUDT_FIN init_udt_pocket)\<lparr>sequence := 103\<rparr>)) = NDUDT_FIN"
    "\<not> uack (uheader ((set_pocket_type NDUDT_FIN init_udt_pocket)\<lparr>sequence := 103\<rparr>))"
    by (simp_all add: set_pocket_type_def init_udt_pocket_def init_udt_header_def)
  have k: "usend_script (sample_udp_os [DSend] []) = DSend # []" by (simp add: sample_udp_os_def)
  have x: "sequence ((set_pocket_type NDUDT_FIN init_udt_pocket)\<lparr>sequence := 103\<rparr>) = send_sequence (add_status NETSTAT_FINSEND sample_sent)"
    "acknowledged_seq (add_status NETSTAT_FINSEND sample_sent) < send_sequence (add_status NETSTAT_FINSEND sample_sent)"
    "lbuf_ok (usendbuf (add_status NETSTAT_FINSEND sample_sent))" unfolding s using b(1) by simp_all
  have e: "lbuf_data (urecvbuf (sample_udt 32)) = []" "usent (sample_udp_os [DSend] []) = []" unfolding s using b(2) by (simp_all add: sample_udp_os_def)
  from fin_loses_data [OF p x(1) st(1) k st(2) x(2,3), of no_user 12 16 "sample_udp_os [] []"] show ?thesis
    unfolding e by (metis append_Nil e(1))
qed

theorem ack_wrap_ignored_witness:
  "handle_by_type no_user (sample_sent\<lparr>acknowledged_seq := 0xFFFFFFFF, send_sequence := 2\<rparr>)
     ((set_pocket_type NDUDT_ACK init_udt_pocket)\<lparr>ack_seq := 2\<rparr>) 16 (sample_udp_os [] []) =
   Some (0, sample_sent\<lparr>acknowledged_seq := 0xFFFFFFFF, send_sequence := 2\<rparr>, sample_udp_os [] [])"
proof -
  have "sender_at [1, 2, 3] 0xFFFFFFFF 0 3 (sample_sent\<lparr>acknowledged_seq := 0xFFFFFFFF, send_sequence := 2\<rparr>)"
    using sample_sender_at(2) unfolding sender_at_def by (simp add: est_def has_status_def) (simp add: sample_sent_def sample_buffered_def node_sel)
  from ack_wrap_ignored [OF this, of 3 "(set_pocket_type NDUDT_ACK init_udt_pocket)\<lparr>ack_seq := 2\<rparr>"] show ?thesis
    by (simp add: set_pocket_type_def)
qed

text \<open>C2. End to end over an unreliable network. On an established connection with data one way on which neither side closes and fewer than 2^31 bytes are
  accepted: whatever the network loses, repeats, delays or reorders, whatever
  strangers send, whatever acknowledgements and other control packets the sender gets and however the kernels and clocks behave, the
  bytes the receiving user has read, followed by those in the receive buffer, are a prefix of the bytes the
  sending side has accepted, as long as every call stays inside its buffers.\<close>

theorem udt_stream_integrity:
  assumes "udt_link_start l" "(udt_link_step u)\<^sup>*\<^sup>* l l'" "length (accepted l') < 2 ^ 31"
  shows "\<exists>rest. accepted l' = delivered l' @ lbuf_data (urecvbuf (rnode l')) @ rest"
proof -
  obtain k where "receiver_inv (accepted l') (send_sequence (snode l)) k (delivered l') (rnode l')"
    using link_reach_inv [OF assms(2) link_start_inv [OF assms(1)]] assms(3) by (auto simp: udt_link_inv_def)
  then have "delivered l' @ lbuf_data (urecvbuf (rnode l')) = take k (accepted l')" by (simp add: receiver_inv_def)
  then have "accepted l' = delivered l' @ lbuf_data (urecvbuf (rnode l')) @ drop k (accepted l')"
    by (metis append_assoc append_take_drop_id)
  then show ?thesis by blast
qed

theorem udt_stream_integrity_witness:
  "\<exists>l' rest. (udt_link_step no_user)\<^sup>*\<^sup>* sample_link l' \<and> delivered l' = [1, 2, 3] \<and>
     accepted l' = delivered l' @ lbuf_data (urecvbuf (rnode l')) @ rest"
proof -
  obtain l' where l: "(udt_link_step no_user)\<^sup>*\<^sup>* sample_link l'" "accepted l' = [1, 2, 3]" "delivered l' = [1, 2, 3]"
    using sample_link_run by blast
  from udt_stream_integrity [OF sample_link_start l(1)] l(2) obtain rest where
    "accepted l' = delivered l' @ lbuf_data (urecvbuf (rnode l')) @ rest" by auto
  with l show ?thesis by blast
qed

end
