(* ===== verification/Vm.thy ===== *)
theory Vm
  imports Nd_Prelude
begin

text \<open>
  The virtual machine of \<^verbatim>\<open>src/nd_vm/src/nd_vm.c\<close>: the byte code, operands, single instructions and programs. A
  value is the bit pattern of a \<open>float\<close>, so the number 0 is the word 0; the floating-point operations of C are a parameter, the record
  \<open>vm_arith\<close>, of which nothing is assumed. The stack pointer is its distance from the start of the stack, and an
  access outside the stack, the memory block or the program has no value (\<open>None\<close>). Memory that the user serves
  through \<open>mm_func\<close> is a list of cells, and \<open>mm_func\<close> gives the cell of an address. The results of \<open>rand\<close> are a
  sequence. Echoing instructions and results is left out: it only prints.
\<close>

section \<open>The machine\<close>

type_synonym vm_value = u32

record vm_arith =
  f_add :: "vm_value \<Rightarrow> vm_value \<Rightarrow> vm_value"
  f_sub :: "vm_value \<Rightarrow> vm_value \<Rightarrow> vm_value"
  f_mul :: "vm_value \<Rightarrow> vm_value \<Rightarrow> vm_value"
  f_div :: "vm_value \<Rightarrow> vm_value \<Rightarrow> vm_value"
  f_less :: "vm_value \<Rightarrow> vm_value \<Rightarrow> bool"
  f_eq :: "vm_value \<Rightarrow> vm_value \<Rightarrow> bool"
  f_of_int :: "int \<Rightarrow> vm_value"
  f_to_int :: "vm_value \<Rightarrow> int"
  f_half :: vm_value
  f_sqrt :: "vm_value \<Rightarrow> vm_value"
  f_ceil :: "vm_value \<Rightarrow> vm_value"
  f_floor :: "vm_value \<Rightarrow> vm_value"

definition VM_STACK_SIZE :: nat where "VM_STACK_SIZE = 32"
definition RAND_MAX :: int where "RAND_MAX = 2147483647"

abbreviation (input) EOP_NOP :: byte where "EOP_NOP \<equiv> 0"
abbreviation (input) EOP_MOV :: byte where "EOP_MOV \<equiv> 1"
abbreviation (input) EOP_ADD :: byte where "EOP_ADD \<equiv> 2"
abbreviation (input) EOP_SUB :: byte where "EOP_SUB \<equiv> 3"
abbreviation (input) EOP_MUL :: byte where "EOP_MUL \<equiv> 4"
abbreviation (input) EOP_DIV :: byte where "EOP_DIV \<equiv> 5"
abbreviation (input) EOP_PUSH :: byte where "EOP_PUSH \<equiv> 6"
abbreviation (input) EOP_POP :: byte where "EOP_POP \<equiv> 7"
abbreviation (input) EOP_MAX :: byte where "EOP_MAX \<equiv> 8"
abbreviation (input) EOP_MIN :: byte where "EOP_MIN \<equiv> 9"
abbreviation (input) EOP_RAND :: byte where "EOP_RAND \<equiv> 10"
abbreviation (input) EOP_LTZERO :: byte where "EOP_LTZERO \<equiv> 11"
abbreviation (input) EOP_PROB :: byte where "EOP_PROB \<equiv> 12"
abbreviation (input) EOP_SQRT :: byte where "EOP_SQRT \<equiv> 13"
abbreviation (input) EOP_ROUND :: byte where "EOP_ROUND \<equiv> 14"
abbreviation (input) EOP_CEIL :: byte where "EOP_CEIL \<equiv> 15"
abbreviation (input) EOP_FLOOR :: byte where "EOP_FLOOR \<equiv> 16"
abbreviation (input) EOP_NUMBERS :: byte where "EOP_NUMBERS \<equiv> 17"

abbreviation (input) EDS_NONE :: byte where "EDS_NONE \<equiv> 0"
abbreviation (input) EDS_IMMEDIATE :: byte where "EDS_IMMEDIATE \<equiv> 1"
abbreviation (input) EDS_ADDRESS :: byte where "EDS_ADDRESS \<equiv> 2"
abbreviation (input) EDS_STACK :: byte where "EDS_STACK \<equiv> 3"
abbreviation (input) EDS_REG1 :: byte where "EDS_REG1 \<equiv> 4"
abbreviation (input) EDS_REG2 :: byte where "EDS_REG2 \<equiv> 5"

record vm_cpu =
  reg1 :: vm_value
  reg2 :: vm_value
  sp :: int
  mm_func :: "(int \<Rightarrow> nat option) option"
  port_mem :: "vm_value list"
  memory :: "vm_value list"
  mem_size :: nat
  stack :: "vm_value list"
  rand_seq :: "nat \<Rightarrow> int"
  rand_cnt :: nat

record vm_instruction_node =
  ins :: byte
  ds1 :: byte
  ds2 :: byte
  val1 :: vm_value
  val2 :: vm_value

definition zero_node :: vm_instruction_node where
  "zero_node = \<lparr>ins = 0, ds1 = 0, ds2 = 0, val1 = 0, val2 = 0\<rparr>"

text \<open>\<open>rnd\<close> is the state of the C library's generator, which the machine does not own.\<close>

definition vm_machine_init :: "vm_value list \<Rightarrow> nat \<Rightarrow> (nat \<Rightarrow> int) \<Rightarrow> vm_cpu" where
  "vm_machine_init mm_addr mm_size rnd = \<lparr>reg1 = 0, reg2 = 0, sp = 0, mm_func = None, port_mem = [],
     memory = mm_addr, mem_size = mm_size, stack = replicate VM_STACK_SIZE 0, rand_seq = rnd, rand_cnt = 0\<rparr>"

definition vm_set_mmfunc :: "vm_cpu \<Rightarrow> (int \<Rightarrow> nat option) option \<Rightarrow> vm_value list \<Rightarrow> nat \<Rightarrow> vm_cpu" where
  "vm_set_mmfunc vm f cells mm_size =
     (case f of None \<Rightarrow> vm | Some g \<Rightarrow> vm\<lparr>mm_func := Some g, port_mem := cells, mem_size := mm_size\<rparr>)"

section \<open>Byte code\<close>

definition get_operand_num :: "byte \<Rightarrow> nat" where
  "get_operand_num i =
     (if i = EOP_NOP then 0
      else if i = EOP_POP \<or> i = EOP_PUSH \<or> i = EOP_LTZERO \<or> i = EOP_PROB \<or> i = EOP_SQRT \<or> i = EOP_ROUND \<or>
              i = EOP_CEIL \<or> i = EOP_FLOOR then 1
      else 2)"

definition check_no_operand :: "byte \<Rightarrow> bool" where
  "check_no_operand i \<longleftrightarrow> i = EOP_NOP \<or> i = EOP_POP"

definition check_instruction_valid :: "byte \<Rightarrow> bool" where
  "check_instruction_valid i \<longleftrightarrow> i < EOP_NUMBERS"

definition has_value :: "byte \<Rightarrow> bool" where
  "has_value ds \<longleftrightarrow> ds = EDS_IMMEDIATE \<or> ds = EDS_ADDRESS \<or> ds = EDS_STACK"

text \<open>The test for a second operand, \<open>if(num)\<close> after \<open>if(num--)\<close>: for an instruction without operands the count is then -1, so
  \<open>NOP\<close> has a second operand.\<close>

definition second_used :: "nat \<Rightarrow> bool" where
  "second_used num \<longleftrightarrow> num \<noteq> 1"

text \<open>One operand: its source byte and, for three sources, four bytes of value. \<open>v\<close> is the value the node holds
  already.\<close>

definition read_operand_code :: "vm_value \<Rightarrow> byte list \<Rightarrow> (byte \<times> vm_value \<times> byte list) option" where
  "read_operand_code v bs = (case bs of
     [] \<Rightarrow> None
   | d # r \<Rightarrow> if has_value d then (case r of
         a # b # c # e # r' \<Rightarrow> Some (d, u32_of_le a b c e, r')
       | _ \<Rightarrow> None)
     else Some (d, v, r))"

definition vm_instruction_2node ::
  "vm_instruction_node \<Rightarrow> byte list \<Rightarrow> (vm_instruction_node \<times> byte list) option" where
  "vm_instruction_2node n bs = (case bs of
     [] \<Rightarrow> None
   | i # r \<Rightarrow> do {
       let n = n\<lparr>ins := i\<rparr>;
       let num = get_operand_num i;
       (n, r) \<leftarrow> (if num \<ge> 1 then do {
           (d, v, r) \<leftarrow> read_operand_code (val1 n) r; Some (n\<lparr>ds1 := d, val1 := v\<rparr>, r)
         } else Some (n, r));
       (if second_used num then do {
           (d, v, r) \<leftarrow> read_operand_code (val2 n) r; Some (n\<lparr>ds2 := d, val2 := v\<rparr>, r)
         } else Some (n, r))
     })"

definition write_operand_code :: "byte \<Rightarrow> vm_value \<Rightarrow> byte list" where
  "write_operand_code d v = d # (if has_value d then le_of_u32 v else [])"

text \<open>The bytes \<open>vm_instruct_2buf\<close> stores; their number is its result.\<close>

definition vm_instruct_2buf :: "vm_instruction_node \<Rightarrow> byte list" where
  "vm_instruct_2buf n =
     (let num = get_operand_num (ins n) in
      ins n # (if num \<ge> 1 then write_operand_code (ds1 n) (val1 n) else []) @
      (if second_used num then write_operand_code (ds2 n) (val2 n) else []))"

section \<open>Operands\<close>

datatype vm_loc = LReg1 | LReg2 | LStack int | LMem int | LPort nat

definition at :: "'a list \<Rightarrow> int \<Rightarrow> 'a option" where
  "at xs i = (if 0 \<le> i \<and> i < int (length xs) then Some (xs ! nat i) else None)"

definition vm_load :: "vm_cpu \<Rightarrow> vm_loc \<Rightarrow> vm_value option" where
  "vm_load vm l = (case l of
     LReg1 \<Rightarrow> Some (reg1 vm) | LReg2 \<Rightarrow> Some (reg2 vm)
   | LStack i \<Rightarrow> at (stack vm) i | LMem i \<Rightarrow> at (memory vm) i | LPort i \<Rightarrow> at (port_mem vm) (int i))"

definition put :: "'a list \<Rightarrow> int \<Rightarrow> 'a \<Rightarrow> 'a list option" where
  "put xs i v = (if 0 \<le> i \<and> i < int (length xs) then Some (xs[nat i := v]) else None)"

definition vm_store :: "vm_cpu \<Rightarrow> vm_loc \<Rightarrow> vm_value \<Rightarrow> vm_cpu option" where
  "vm_store vm l v = (case l of
     LReg1 \<Rightarrow> Some (vm\<lparr>reg1 := v\<rparr>) | LReg2 \<Rightarrow> Some (vm\<lparr>reg2 := v\<rparr>)
   | LStack i \<Rightarrow> map_option (\<lambda>s. vm\<lparr>stack := s\<rparr>) (put (stack vm) i v)
   | LMem i \<Rightarrow> map_option (\<lambda>m. vm\<lparr>memory := m\<rparr>) (put (memory vm) i v)
   | LPort i \<Rightarrow> map_option (\<lambda>m. vm\<lparr>port_mem := m\<rparr>) (put (port_mem vm) (int i) v))"

text \<open>\<open>(vm_adddress)vm->mem_size\<close>: the size cut to a signed 32-bit integer.\<close>

definition mem_limit :: "vm_cpu \<Rightarrow> int" where
  "mem_limit vm = sint (of_nat (mem_size vm) :: u32)"

definition stack_loc :: "vm_cpu \<Rightarrow> vm_value \<Rightarrow> vm_loc option" where
  "stack_loc vm v =
     (let index = sint v in
      if index < 0 then (if 0 \<le> sp vm + index then Some (LStack (sp vm + index)) else None)
      else if index < sp vm then Some (LStack index) else None)"

definition address_loc :: "vm_cpu \<Rightarrow> vm_value \<Rightarrow> vm_loc option" where
  "address_loc vm v =
     (let index = sint v in
      if 0 \<le> index \<and> index < mem_limit vm then
        (case mm_func vm of Some f \<Rightarrow> map_option LPort (f index) | None \<Rightarrow> Some (LMem index))
      else None)"

definition vm_ref_operand :: "byte \<Rightarrow> vm_value \<Rightarrow> vm_cpu \<Rightarrow> vm_loc option" where
  "vm_ref_operand ds v vm =
     (if ds = EDS_REG1 then Some LReg1
      else if ds = EDS_REG2 then Some LReg2
      else if ds = EDS_STACK then stack_loc vm v
      else if ds = EDS_ADDRESS then address_loc vm v
      else None)"

definition vm_getvalue :: "byte \<Rightarrow> vm_value \<Rightarrow> vm_cpu \<Rightarrow> vm_value option" where
  "vm_getvalue ds v vm =
     (if ds = EDS_IMMEDIATE then Some v
      else case vm_ref_operand ds v vm of Some l \<Rightarrow> vm_load vm l | None \<Rightarrow> Some 0)"

text \<open>\<open>_get_memory\<close> serves the debugger; it also accepts the index just behind the memory.\<close>

definition get_memory :: "vm_cpu \<Rightarrow> int \<Rightarrow> vm_loc option" where
  "get_memory vm index =
     (if 0 \<le> index \<and> index \<le> mem_limit vm then
        (case mm_func vm of Some f \<Rightarrow> map_option LPort (f index) | None \<Rightarrow> Some (LMem index))
      else None)"

section \<open>Instructions\<close>

text \<open>The difference of two bounds must be an \<open>int\<close>.\<close>

definition vm_rand :: "vm_arith \<Rightarrow> vm_value \<Rightarrow> vm_value \<Rightarrow> vm_cpu \<Rightarrow> (vm_value \<times> vm_cpu) option" where
  "vm_rand F v1 v2 vm =
     (let range_min = f_to_int F v1; range_max = f_to_int F v2 in
      if range_max = range_min then Some (f_of_int F range_max, vm)
      else
        let mn = min range_min range_max; mx = max range_min range_max; r = rand_seq vm (rand_cnt vm) in
        if mx - mn < 2 ^ 31 then
          Some (f_of_int F (f_to_int F (f_add F (f_mul F (f_div F (f_of_int F r) (f_of_int F RAND_MAX))
                  (f_of_int F (mx - mn))) (f_of_int F mn))), vm\<lparr>rand_cnt := rand_cnt vm + 1\<rparr>)
        else None)"

text \<open>\<open>MOV\<close> and the arithmetic instructions: \<open>f\<close> makes the new value of the first operand, or leaves it.\<close>

definition vm_update ::
  "vm_instruction_node \<Rightarrow> (vm_value \<Rightarrow> vm_value \<Rightarrow> vm_value option) \<Rightarrow> vm_cpu \<Rightarrow> vm_cpu option" where
  "vm_update n f vm = do {
     v2 \<leftarrow> vm_getvalue (ds2 n) (val2 n) vm;
     (case vm_ref_operand (ds1 n) (val1 n) vm of
        None \<Rightarrow> Some vm
      | Some l \<Rightarrow> do {
          old \<leftarrow> vm_load vm l;
          (case f old v2 of None \<Rightarrow> Some vm | Some v \<Rightarrow> vm_store vm l v)
        })
   }"

definition vm_round :: "vm_arith \<Rightarrow> vm_value \<Rightarrow> vm_value" where
  "vm_round F v =
     (if f_less F (0) v then f_of_int F (f_to_int F (f_add F v (f_half F)))
      else if f_eq F v (0) then 0
      else f_of_int F (f_to_int F (f_sub F v (f_half F))))"

definition vm_run_insnode :: "vm_arith \<Rightarrow> vm_instruction_node \<Rightarrow> vm_cpu \<Rightarrow> (int \<times> vm_cpu) option" where
  "vm_run_insnode F n vm =
     (let i = ins n; result = (\<lambda>x. map_option (\<lambda>v. (0, v)) x) in
      if i = EOP_MOV then result (vm_update n (\<lambda>_ b. Some b) vm)
      else if i = EOP_ADD then result (vm_update n (\<lambda>a b. Some (f_add F a b)) vm)
      else if i = EOP_SUB then result (vm_update n (\<lambda>a b. Some (f_sub F a b)) vm)
      else if i = EOP_MUL then result (vm_update n (\<lambda>a b. Some (f_mul F a b)) vm)
      else if i = EOP_DIV then
        result (vm_update n (\<lambda>a b. if f_eq F b (0) then None else Some (f_div F a b)) vm)
      else if i = EOP_PUSH then do {
        v \<leftarrow> vm_getvalue (ds1 n) (val1 n) vm;
        vm \<leftarrow> vm_store vm (LStack (sp vm)) v;
        Some (0, vm\<lparr>sp := sp vm + 1\<rparr>)
      }
      else if i = EOP_POP then
        (case vm_ref_operand (ds1 n) (val1 n) vm of
           Some l \<Rightarrow> do {
             v \<leftarrow> vm_load vm (LStack (sp vm - 1));
             result (vm_store (vm\<lparr>sp := sp vm - 1\<rparr>) l v)
           }
         | None \<Rightarrow> Some (0, vm\<lparr>sp := sp vm - 1\<rparr>))
      else if i = EOP_MAX \<or> i = EOP_MIN \<or> i = EOP_RAND then do {
        a \<leftarrow> vm_getvalue (ds1 n) (val1 n) vm;
        b \<leftarrow> vm_getvalue (ds2 n) (val2 n) vm;
        if i = EOP_MAX then Some (0, vm\<lparr>reg1 := (if f_less F b a then a else b)\<rparr>)
        else if i = EOP_MIN then Some (0, vm\<lparr>reg1 := (if f_less F b a then b else a)\<rparr>)
        else do { (r, vm) \<leftarrow> vm_rand F a b vm; Some (0, vm\<lparr>reg1 := r\<rparr>) }
      }
      else if i = EOP_PROB then do {
        v \<leftarrow> vm_getvalue (ds1 n) (val1 n) vm;
        (vt, vm) \<leftarrow> vm_rand F (f_of_int F 1) (f_of_int F 100) vm;
        let w = f_mul F v (f_of_int F 100);
        Some (0, vm\<lparr>reg1 := f_of_int F (if f_less F vt w \<or> f_eq F vt w then 1 else 0)\<rparr>)
      }
      else if i = EOP_LTZERO \<or> i = EOP_ROUND \<or> i = EOP_CEIL \<or> i = EOP_FLOOR \<or> i = EOP_SQRT then do {
        v \<leftarrow> vm_getvalue (ds1 n) (val1 n) vm;
        Some (0, vm\<lparr>reg1 :=
          (if i = EOP_LTZERO then f_of_int F (if f_less F v (0) then 1 else 0)
           else if i = EOP_ROUND then vm_round F v
           else if i = EOP_CEIL then f_ceil F v
           else if i = EOP_FLOOR then f_floor F v
           else if f_less F (0) v then f_sqrt F v else 0)\<rparr>)
      }
      else if i = EOP_NOP then Some (0, vm)
      else Some (-1, vm))"

definition vm_check_insnode :: "vm_arith \<Rightarrow> vm_value \<Rightarrow> (nat \<Rightarrow> int) \<Rightarrow> vm_instruction_node \<Rightarrow> bool option" where
  "vm_check_insnode F test_mm rnd n = do {
     let vm = vm_set_mmfunc (vm_machine_init [] 0 rnd) (Some (\<lambda>_. Some 0)) [test_mm] (1024 * 1024 * 1024);
     (r, _) \<leftarrow> vm_run_insnode F n vm;
     Some (r = 0)
   }"

section \<open>Programs\<close>

text \<open>\<open>blk\<close> is the memory block of the program, which may be longer than the program; \<open>ip\<close> is the position of the
  next instruction.\<close>

definition vm_step :: "vm_arith \<Rightarrow> byte list \<Rightarrow> nat \<Rightarrow> vm_cpu \<Rightarrow> (int \<times> vm_cpu \<times> nat) option" where
  "vm_step F blk ip vm = do {
     (n, r) \<leftarrow> vm_instruction_2node zero_node (drop ip blk);
     (ret, vm) \<leftarrow> vm_run_insnode F n vm;
     Some (ret, vm, length blk - length r)
   }"

text \<open>\<open>fuel\<close> bounds the number of instructions; every one has at least a byte, so the size of the program is enough.\<close>

fun vm_run_loop :: "nat \<Rightarrow> vm_arith \<Rightarrow> byte list \<Rightarrow> nat \<Rightarrow> nat \<Rightarrow> vm_cpu \<Rightarrow> (int \<times> vm_cpu) option" where
  "vm_run_loop fuel F blk ins_size ip vm =
     (if ip < ins_size then
        (case fuel of
           0 \<Rightarrow> None
         | Suc k \<Rightarrow> do {
             (r, vm, ip) \<leftarrow> vm_step F blk ip vm;
             if r = -1 then Some (-1, vm) else vm_run_loop k F blk ins_size ip vm
           })
      else Some (0, vm))"

declare vm_run_loop.simps [simp del]

definition vm_run_cmd :: "vm_arith \<Rightarrow> vm_cpu \<Rightarrow> byte list \<Rightarrow> nat \<Rightarrow> (int \<times> vm_cpu) option" where
  "vm_run_cmd F vm blk ins_size = vm_run_loop ins_size F blk ins_size 0 vm"

section \<open>Encoding and decoding\<close>

text \<open>What the byte code keeps of a node.\<close>

definition canon :: "vm_instruction_node \<Rightarrow> vm_instruction_node" where
  "canon n = (let num = get_operand_num (ins n) in
     \<lparr>ins = ins n, ds1 = (if num \<ge> 1 then ds1 n else 0), ds2 = (if second_used num then ds2 n else 0),
      val1 = (if num \<ge> 1 \<and> has_value (ds1 n) then val1 n else 0),
      val2 = (if second_used num \<and> has_value (ds2 n) then val2 n else 0)\<rparr>)"

lemma read_write_operand: "read_operand_code w (write_operand_code d v @ r) = Some (d, if has_value d then v else w, r)"
  by (auto simp: read_operand_code_def write_operand_code_def le_of_u32_def)

lemma vm_decode_encode: "vm_instruction_2node zero_node (vm_instruct_2buf n @ r) = Some (canon n, r)"
  by (auto simp: vm_instruction_2node_def vm_instruct_2buf_def canon_def zero_node_def Let_def read_write_operand)

lemma vm_instruct_2buf_nonempty [simp]: "vm_instruct_2buf n \<noteq> []"
  by (simp add: vm_instruct_2buf_def Let_def)

lemma vm_instruct_2buf_length: "1 \<le> length (vm_instruct_2buf n) \<and> length (vm_instruct_2buf n) \<le> 11"
  by (simp add: vm_instruct_2buf_def Let_def write_operand_code_def le_of_u32_def)

section \<open>Programs as lists of instructions\<close>

definition vm_code :: "vm_instruction_node list \<Rightarrow> byte list" where
  "vm_code ns = concat (map vm_instruct_2buf ns)"

fun run_nodes :: "vm_arith \<Rightarrow> vm_instruction_node list \<Rightarrow> vm_cpu \<Rightarrow> (int \<times> vm_cpu) option" where
  "run_nodes F [] vm = Some (0, vm)"
| "run_nodes F (n # ns) vm = do {
     (r, vm) \<leftarrow> vm_run_insnode F (canon n) vm;
     if r = -1 then Some (-1, vm) else run_nodes F ns vm
   }"

lemma vm_run_loop_nodes:
  assumes "length ns \<le> fuel"
  shows "vm_run_loop fuel F (pre @ vm_code ns @ rest) (length pre + length (vm_code ns)) (length pre) vm = run_nodes F ns vm"
  using assms
proof (induction ns arbitrary: fuel pre vm)
  case Nil
  then show ?case by (simp add: vm_run_loop.simps vm_code_def)
next
  case (Cons n ns)
  then obtain k where k: "fuel = Suc k" "length ns \<le> k" by (cases fuel) auto
  let ?b = "vm_instruct_2buf n"
  have c: "vm_code (n # ns) = ?b @ vm_code ns" by (simp add: vm_code_def)
  have st: "vm_step F (pre @ vm_code (n # ns) @ rest) (length pre) vm =
      map_option (\<lambda>(r, v). (r, v, length (pre @ ?b))) (vm_run_insnode F (canon n) vm)"
    by (simp add: vm_step_def c vm_decode_encode) (auto split: Option.bind_split)
  have "length ?b > 0" by simp
  then have lt: "length pre < length pre + length (vm_code (n # ns))" unfolding c by simp
  show ?case
    using lt st Cons.IH [OF k(2), of "pre @ ?b"] by (subst vm_run_loop.simps) (auto simp: k(1) c add.assoc split: Option.bind_split)
qed

lemma length_vm_code: "length ns \<le> length (vm_code ns)"
proof (induction ns)
  case (Cons n ns)
  have "1 \<le> length (vm_instruct_2buf n)" using vm_instruct_2buf_length by blast
  then show ?case using Cons by (simp add: vm_code_def)
qed simp

lemma vm_run_cmd_nodes: "vm_run_cmd F vm (vm_code ns @ rest) (length (vm_code ns)) = run_nodes F ns vm"
  using vm_run_loop_nodes [OF length_vm_code, where pre = "[]"] by (simp add: vm_run_cmd_def)

lemma run_nodes_append:
  "run_nodes F (xs @ ys) vm = do { (r, vm) \<leftarrow> run_nodes F xs vm; if r = -1 then Some (-1, vm) else run_nodes F ys vm }"
proof (induction xs arbitrary: vm)
  case (Cons n xs)
  show ?case by (auto simp: Cons.IH split: Option.bind_split)
qed simp


section \<open>Stack discipline\<close>

definition vm_ok :: "vm_cpu \<Rightarrow> bool" where
  "vm_ok vm \<longleftrightarrow> length (stack vm) = VM_STACK_SIZE \<and> 0 \<le> sp vm \<and> sp vm \<le> int VM_STACK_SIZE \<and>
     (case mm_func vm of None \<Rightarrow> mem_limit vm \<le> int (length (memory vm))
      | Some f \<Rightarrow> (\<forall>i j. f i = Some j \<longrightarrow> j < length (port_mem vm)))"

text \<open>A static check of a program: known instructions, no more than 32 values on the stack, none taken from the
  empty one, and bounds of random numbers that are constants not too far apart.\<close>

definition rand_ok :: "vm_arith \<Rightarrow> vm_instruction_node \<Rightarrow> bool" where
  "rand_ok F n \<longleftrightarrow> ds1 n = EDS_IMMEDIATE \<and> ds2 n = EDS_IMMEDIATE \<and> \<bar>f_to_int F (val1 n) - f_to_int F (val2 n)\<bar> < 2 ^ 31"

fun stack_check :: "vm_arith \<Rightarrow> nat \<Rightarrow> vm_instruction_node list \<Rightarrow> nat option" where
  "stack_check F d [] = Some d"
| "stack_check F d (n # ns) =
     (if \<not> check_instruction_valid (ins n) \<or> ins n = EOP_RAND \<and> \<not> rand_ok F n then None
      else if ins n = EOP_PUSH then (if d < VM_STACK_SIZE then stack_check F (d + 1) ns else None)
      else if ins n = EOP_POP then (if 0 < d then stack_check F (d - 1) ns else None)
      else stack_check F d ns)"

lemma vm_ok_load: "vm_ok vm \<Longrightarrow> vm_ref_operand ds v vm = Some l \<Longrightarrow> \<exists>x. vm_load vm l = Some x"
  by (auto simp: vm_ok_def vm_ref_operand_def stack_loc_def address_loc_def vm_load_def at_def Let_def VM_STACK_SIZE_def
      split: if_splits option.splits)

lemma vm_ok_getvalue: "vm_ok vm \<Longrightarrow> \<exists>x. vm_getvalue ds v vm = Some x"
  by (auto simp: vm_getvalue_def split: option.split dest: vm_ok_load)

definition same_machine :: "vm_cpu \<Rightarrow> vm_cpu \<Rightarrow> bool" where
  "same_machine vm vm' \<longleftrightarrow> sp vm' = sp vm \<and> mm_func vm' = mm_func vm \<and> mem_size vm' = mem_size vm \<and>
     length (stack vm') = length (stack vm) \<and> length (memory vm') = length (memory vm) \<and> length (port_mem vm') = length (port_mem vm)"

lemma same_machine_ok: "same_machine vm vm' \<Longrightarrow> vm_ok vm \<Longrightarrow> vm_ok vm'"
  by (auto simp: same_machine_def vm_ok_def mem_limit_def split: option.splits)

lemma vm_load_store: "vm_load vm l = Some x \<Longrightarrow> \<exists>vm'. vm_store vm l v = Some vm' \<and> same_machine vm vm'"
  by (auto simp: vm_load_def vm_store_def at_def put_def same_machine_def split: vm_loc.splits if_splits)

lemma same_machine_refl [simp]: "same_machine vm vm" by (simp add: same_machine_def)

lemma vm_update_ok: "vm_ok vm \<Longrightarrow> \<exists>vm'. vm_update n f vm = Some vm' \<and> same_machine vm vm'"
proof -
  assume ok: "vm_ok vm"
  obtain v where v: "vm_getvalue (ds2 n) (val2 n) vm = Some v" using vm_ok_getvalue [OF ok] by blast
  show ?thesis
  proof (cases "vm_ref_operand (ds1 n) (val1 n) vm")
    case (Some l)
    from vm_ok_load [OF ok this] obtain x where x: "vm_load vm l = Some x" by blast
    then show ?thesis using v Some vm_load_store [OF x] by (cases "f x v") (auto simp: vm_update_def)
  qed (simp add: vm_update_def v)
qed

lemma same_machine_regs [simp]: "same_machine vm (vm\<lparr>reg1 := a\<rparr>)" "same_machine vm (vm\<lparr>reg1 := a, rand_cnt := c\<rparr>)"
  by (simp_all add: same_machine_def)

lemma vm_rand_ok:
  assumes "\<bar>f_to_int F a - f_to_int F b\<bar> < 2 ^ 31"
  shows "\<exists>r vm'. vm_rand F a b vm = Some (r, vm') \<and> (vm' = vm \<or> vm' = vm\<lparr>rand_cnt := rand_cnt vm + 1\<rparr>)"
  using assms by (auto simp: vm_rand_def Let_def min_def max_def)

lemma canon_sel: "ins (canon n) = ins n" "rand_ok F n \<Longrightarrow> ins n = EOP_RAND \<Longrightarrow> rand_ok F (canon n)"
  by (auto simp: canon_def Let_def rand_ok_def has_value_def get_operand_num_def second_used_def)


lemma run_insnode_push:
  assumes ok: "vm_ok vm" and i: "ins n = EOP_PUSH" and d: "sp vm < int VM_STACK_SIZE"
  shows "\<exists>vm'. vm_run_insnode F n vm = Some (0, vm') \<and> vm_ok vm' \<and> sp vm' = sp vm + 1"
proof -
  obtain v where v: "vm_getvalue (ds1 n) (val1 n) vm = Some v" using vm_ok_getvalue [OF ok] by blast
  have "\<exists>x. vm_load vm (LStack (sp vm)) = Some x" using ok d by (auto simp: vm_ok_def vm_load_def at_def)
  then obtain vm1 where s: "vm_store vm (LStack (sp vm)) v = Some vm1" "same_machine vm vm1"
    using vm_load_store [of vm "LStack (sp vm)"] by blast
  have "vm_ok (vm1\<lparr>sp := sp vm1 + 1\<rparr>)"
    using same_machine_ok [OF s(2) ok] s(2) d by (auto simp: vm_ok_def same_machine_def mem_limit_def split: option.splits)
  then show ?thesis using v s i by (auto simp: vm_run_insnode_def same_machine_def)
qed

lemma run_insnode_pop:
  assumes ok: "vm_ok vm" and i: "ins n = EOP_POP" and d: "0 < sp vm"
  shows "\<exists>vm'. vm_run_insnode F n vm = Some (0, vm') \<and> vm_ok vm' \<and> sp vm' = sp vm - 1"
proof -
  let ?vm = "vm\<lparr>sp := sp vm - 1\<rparr>"
  have ok1: "vm_ok ?vm" using ok d by (auto simp: vm_ok_def mem_limit_def split: option.splits)
  show ?thesis
  proof (cases "vm_ref_operand (ds1 n) (val1 n) vm")
    case (Some l)
    have "\<exists>x. vm_load vm (LStack (sp vm - 1)) = Some x" using ok d by (auto simp: vm_ok_def vm_load_def at_def)
    then obtain v where v: "vm_load vm (LStack (sp vm - 1)) = Some v" by blast
    obtain x where "vm_load vm l = Some x" using vm_ok_load [OF ok Some] by blast
    then have "vm_load ?vm l = Some x" by (cases l) (simp_all add: vm_load_def)
    from vm_load_store [OF this] obtain vm1 where s: "vm_store ?vm l v = Some vm1" "same_machine ?vm vm1" by blast
    then show ?thesis using same_machine_ok [OF s(2) ok1] v Some i by (auto simp: vm_run_insnode_def same_machine_def)
  next
    case None
    then show ?thesis using ok1 i by (simp add: vm_run_insnode_def)
  qed
qed

lemma valid_instructions:
  assumes "check_instruction_valid i"
  shows "i \<in> {0, 1, 2, 3, 4, 5, 6, 7, 8, 9, 10, 11, 12, 13, 14, 15, 16}"
proof -
  have "unat i \<in> set [0..<17]" using assms by (simp add: check_instruction_valid_def word_less_nat_alt)
  then have "(of_nat (unat i) :: byte) \<in> of_nat ` set [0..<17]" by (rule imageI)
  then have "i \<in> of_nat ` set [0..<17]" by simp
  then show ?thesis by (simp add: upt_conv_Cons)
qed

lemma run_insnode_plain:
  assumes ok: "vm_ok vm" and i: "check_instruction_valid (ins n)" "ins n \<noteq> EOP_PUSH" "ins n \<noteq> EOP_POP"
    and r: "ins n = EOP_RAND \<Longrightarrow> rand_ok F n" and p: "f_to_int F (f_of_int F 1) = 1" "f_to_int F (f_of_int F 100) = 100"
  shows "\<exists>vm'. vm_run_insnode F n vm = Some (0, vm') \<and> same_machine vm vm'"
proof -
  obtain a b where ab: "vm_getvalue (ds1 n) (val1 n) vm = Some a" "vm_getvalue (ds2 n) (val2 n) vm = Some b"
    using vm_ok_getvalue [OF ok] by blast
  have rnd: "\<exists>r vm'. vm_rand F a b vm = Some (r, vm') \<and> (\<forall>x. same_machine vm (vm'\<lparr>reg1 := x\<rparr>))" if "ins n = EOP_RAND"
    using r [OF that] vm_rand_ok [of F a b vm] ab by (auto simp: rand_ok_def vm_getvalue_def same_machine_def)
  have pr: "\<exists>r vm'. vm_rand F (f_of_int F 1) (f_of_int F 100) vm = Some (r, vm') \<and> (\<forall>x. same_machine vm (vm'\<lparr>reg1 := x\<rparr>))"
    using vm_rand_ok [of F "f_of_int F 1" "f_of_int F 100" vm] p by (auto simp: same_machine_def)
  have upd: "\<exists>vm'. map_option (\<lambda>v. (0, v)) (vm_update n f vm) = Some (0::int, vm') \<and> same_machine vm vm'" for f
    using vm_update_ok [OF ok, of n f] by auto
  from valid_instructions [OF i(1)] i(2,3) have "ins n \<in> {1, 2, 3, 4, 5} \<or> ins n = 10 \<or> ins n = 12 \<or> ins n \<in> {0, 8, 9, 11, 13, 14, 15, 16}"
    by auto
  then show ?thesis
  proof (elim disjE)
    assume "ins n \<in> {1, 2, 3, 4, 5}"
    then show ?thesis unfolding vm_run_insnode_def Let_def using upd by auto
  next
    assume 10: "ins n = 10"
    from rnd [OF this] obtain r vm' where "vm_rand F a b vm = Some (r, vm')" "same_machine vm (vm'\<lparr>reg1 := r\<rparr>)" by blast
    then show ?thesis using 10 ab by (simp add: vm_run_insnode_def)
  next
    assume 12: "ins n = 12"
    from pr obtain r vm' where v: "vm_rand F (f_of_int F 1) (f_of_int F 100) vm = Some (r, vm')" "\<And>x. same_machine vm (vm'\<lparr>reg1 := x\<rparr>)" by blast
    then show ?thesis using 12 ab by (simp add: vm_run_insnode_def Let_def)
  next
    assume "ins n \<in> {0, 8, 9, 11, 13, 14, 15, 16}"
    then show ?thesis using ab by (auto simp: vm_run_insnode_def)
  qed
qed

lemma run_nodes_ok:
  assumes p: "f_to_int F (f_of_int F 1) = 1" "f_to_int F (f_of_int F 100) = 100"
  shows "vm_ok vm \<Longrightarrow> sp vm = int d \<Longrightarrow> stack_check F d ns = Some d' \<Longrightarrow>
    \<exists>vm'. run_nodes F ns vm = Some (0, vm') \<and> vm_ok vm' \<and> sp vm' = int d'"
proof (induction ns arbitrary: d vm)
  case (Cons n ns)
  have v: "check_instruction_valid (ins n)" and r: "ins n = EOP_RAND \<Longrightarrow> rand_ok F n" using Cons.prems(3) by (auto split: if_splits)
  consider (push) "ins n = EOP_PUSH" "d < VM_STACK_SIZE" "stack_check F (d + 1) ns = Some d'"
    | (pop) "ins n = EOP_POP" "0 < d" "stack_check F (d - 1) ns = Some d'"
    | (plain) "ins n \<noteq> EOP_PUSH" "ins n \<noteq> EOP_POP" "stack_check F d ns = Some d'"
    using Cons.prems(3) by (auto split: if_splits)
  then obtain vm1 e where "vm_run_insnode F (canon n) vm = Some (0, vm1)" "vm_ok vm1" "sp vm1 = int e" "stack_check F e ns = Some d'"
  proof cases
    case push
    then show thesis using run_insnode_push [OF Cons.prems(1), of "canon n" F] Cons.prems(2) that [of _ "d + 1"] by (auto simp: canon_sel)
  next
    case pop
    then show thesis using run_insnode_pop [OF Cons.prems(1), of "canon n" F] Cons.prems(2) that [of _ "d - 1"] by (auto simp: canon_sel)
  next
    case plain
    have "\<exists>vm'. vm_run_insnode F (canon n) vm = Some (0, vm') \<and> same_machine vm vm'"
      by (rule run_insnode_plain [OF Cons.prems(1)]) (use plain v r p in \<open>simp_all add: canon_sel\<close>)
    then obtain vm' where m: "vm_run_insnode F (canon n) vm = Some (0, vm')" "same_machine vm vm'" by blast
    have "sp vm' = int d" using m(2) Cons.prems(2) by (simp add: same_machine_def)
    then show thesis using that m(1) same_machine_ok [OF m(2) Cons.prems(1)] plain(3) by blast
  qed
  then show ?case using Cons.IH by auto
qed simp


text \<open>Every instruction survives its byte code, whatever follows it: decoding returns the node with the fields
  the instruction does not use cleared, and stops right behind it.\<close>

theorem vm_instruction_round_trip:
  "vm_instruction_2node zero_node (vm_instruct_2buf n @ rest) = Some (canon n, rest) \<and> vm_instruct_2buf (canon n) = vm_instruct_2buf n"
  using vm_decode_encode [of n rest]
  by (auto simp: vm_instruct_2buf_def canon_def write_operand_code_def Let_def has_value_def)

text \<open>C7. A program that passes the static stack check runs to its end: no instruction leaves the stack, the memory
  or the program, none is refused, and the stack has the computed depth.\<close>

theorem vm_checked_program_runs:
  assumes "vm_ok vm" "sp vm = int d" "stack_check F d ns = Some d'"
    and "f_to_int F (f_of_int F 1) = 1" "f_to_int F (f_of_int F 100) = 100"
  shows "\<exists>vm'. vm_run_cmd F vm (vm_code ns @ rest) (length (vm_code ns)) = Some (0, vm') \<and> vm_ok vm' \<and> sp vm' = int d'"
  using run_nodes_ok [OF assms(4,5,1,2,3)] by (simp add: vm_run_cmd_nodes)

text \<open>Arithmetic on two's complement integers, for concrete runs.\<close>

definition int_arith :: vm_arith where
  "int_arith = \<lparr>f_add = (+), f_sub = (-), f_mul = (*), f_div = (\<lambda>a b. word_of_int (sint a div sint b)),
     f_less = (\<lambda>a b. sint a < sint b), f_eq = (=), f_of_int = word_of_int, f_to_int = sint, f_half = 0,
     f_sqrt = id, f_ceil = id, f_floor = id\<rparr>"

definition sample_vm :: vm_cpu where "sample_vm = vm_machine_init [5, 6, 7] 3 (\<lambda>_. 0)"

lemma sample_vm_ok: "vm_ok sample_vm" "sp sample_vm = 0"
  by (simp_all add: vm_ok_def sample_vm_def vm_machine_init_def mem_limit_def)

definition sample_program :: "vm_instruction_node list" where
  "sample_program = [\<lparr>ins = EOP_MOV, ds1 = EDS_REG1, ds2 = EDS_ADDRESS, val1 = 0, val2 = 2\<rparr>,
     \<lparr>ins = EOP_PUSH, ds1 = EDS_REG1, ds2 = 0, val1 = 0, val2 = 0\<rparr>, \<lparr>ins = EOP_POP, ds1 = EDS_REG2, ds2 = 0, val1 = 0, val2 = 0\<rparr>]"

theorem vm_checked_program_runs_witness:
  "\<exists>vm'. vm_run_cmd int_arith sample_vm (vm_code sample_program @ [9]) (length (vm_code sample_program)) = Some (0, vm') \<and> sp vm' = 0"
proof -
  have "stack_check int_arith 0 sample_program = Some 0"
    by (simp add: sample_program_def check_instruction_valid_def VM_STACK_SIZE_def)
  from vm_checked_program_runs [OF sample_vm_ok(1) _ this, of "[9]"] sample_vm_ok(2) show ?thesis by (auto simp: int_arith_def)
qed

text \<open>The machine does not check its stack: on a full stack every \<open>PUSH\<close> writes behind the machine, and on an empty
  one a \<open>POP\<close> into a register reads in front of the stack, so \<open>vm_check_insnode\<close>, which runs an instruction on a
  fresh machine, does so for every such \<open>POP\<close>.\<close>

lemma vm_stack_unchecked:
  assumes "length (stack vm) = VM_STACK_SIZE"
  shows "sp vm = int VM_STACK_SIZE \<Longrightarrow> ins n = EOP_PUSH \<Longrightarrow> vm_run_insnode F n vm = None"
    and "sp vm = 0 \<Longrightarrow> ins n = EOP_POP \<Longrightarrow> ds1 n \<in> {EDS_REG1, EDS_REG2} \<Longrightarrow> vm_run_insnode F n vm = None"
    and "ins n = EOP_POP \<Longrightarrow> ds1 n \<in> {EDS_REG1, EDS_REG2} \<Longrightarrow> vm_check_insnode F x rnd n = None"
  using assms
  by (auto simp: vm_run_insnode_def vm_store_def put_def vm_load_def at_def vm_ref_operand_def vm_check_insnode_def
      vm_set_mmfunc_def vm_machine_init_def Let_def split: Option.bind_split)

end
