(* ===== verification/Vm_Asm.thy ===== *)
theory Vm_Asm
  imports Vm Nd_Str
begin

text \<open>
  The assembler of \<^verbatim>\<open>src/nd_vm/src/nd_asm.c\<close>. Texts are C strings as in \<open>Nd_Str\<close>; \<open>code\<close> is the source encoding
  set for the string routines. The conversions between text and \<open>float\<close> of the C library (\<open>atof\<close> and the format
  \<open>%f\<close>) are parameters. Storing a text that does not fit its local buffer with its terminator has no value. Error
  messages are left out.
\<close>

section \<open>Names\<close>

definition vm_op_names :: "string list" where
  "vm_op_names = [''NOP'', ''MOV'', ''ADD'', ''SUB'', ''MUL'', ''DIV'', ''PUSH'', ''POP'', ''MAX'', ''MIN'', ''RAND'', ''LTZERO'',
     ''PROB'', ''SQRT'', ''ROUND'', ''CEIL'', ''FLOOR'']"

definition ASM_BUF :: nat where "ASM_BUF = 128"

fun get_ins_from :: "string list \<Rightarrow> byte \<Rightarrow> byte list \<Rightarrow> byte option" where
  "get_ins_from [] i s = Some 0xFF"
| "get_ins_from (x # xs) i s = do {
     r \<leftarrow> ndstricmp s (cstring x);
     if r = 0 then Some i else get_ins_from xs (i + 1) s
   }"

definition get_ins :: "byte list \<Rightarrow> byte option" where
  "get_ins s = get_ins_from vm_op_names 0 s"

definition get_ins_name :: "byte \<Rightarrow> string option" where
  "get_ins_name i = (if i < EOP_NUMBERS then Some (vm_op_names ! unat i) else None)"

section \<open>Lines\<close>

text \<open>The rest of the text (\<open>None\<close>: a null pointer) and the instruction, where it is stored.\<close>

definition read_instruction :: "nat \<Rightarrow> byte list \<Rightarrow> (byte list option \<times> byte option) option" where
  "read_instruction code src = do {
     (p, buf) \<leftarrow> ndstr_parse_word_n code src (int ASM_BUF);
     if length buf < ASM_BUF then
       (case p of
          None \<Rightarrow> Some (None, None)
        | Some r \<Rightarrow> do {
            i \<leftarrow> get_ins (cstr buf);
            Some (if i = 0xFF then (None, Some i) else (Some r, Some i))
          })
     else None
   }"

text \<open>An operand is its source, its value where one is stored, and the text behind it; \<open>None\<close> inside the result is the
  error return. An address is a 32-bit integer.\<close>

definition bracket_operand :: "nat \<Rightarrow> byte \<Rightarrow> byte list \<Rightarrow> (byte \<times> vm_value option \<times> byte list) option option" where
  "bracket_operand code d s = do {
     (r, buf) \<leftarrow> ndstr_nstr_end code s 0x5D 20;
     (case r of
        [] \<Rightarrow> None
      | c # _ \<Rightarrow>
          if c \<noteq> 0x5D then Some None
          else do {
            k \<leftarrow> ndstr_is_numerals (cstr buf);
            if k = 0 then Some None
            else do { v \<leftarrow> ndstr_atoi_hex (cstr buf); Some (Some (d, Some (ucast v), r)) }
          })
   }"

definition asm_read_operand ::
  "nat \<Rightarrow> (byte list \<Rightarrow> vm_value) \<Rightarrow> byte list \<Rightarrow> (byte \<times> vm_value option \<times> byte list) option option" where
  "asm_read_operand code atof addr = do {
     v \<leftarrow> ndstr_first_valid addr;
     (case v of
        None \<Rightarrow> Some None
      | Some [] \<Rightarrow> None
      | Some (c # s) \<Rightarrow>
          if c = 0x5B then
            (case s of
               [] \<Rightarrow> None
             | c1 # s1 \<Rightarrow>
                 if c1 = 0x73 \<or> c1 = 0x53 then
                   (case s1 of
                      [] \<Rightarrow> None
                    | c2 # s2 \<Rightarrow>
                        if c2 = 0x70 \<or> c2 = 0x50 then do {
                          w \<leftarrow> ndstr_first_valid s2;
                          (case w of None \<Rightarrow> Some None | Some s3 \<Rightarrow> bracket_operand code EDS_STACK s3)
                        } else bracket_operand code EDS_ADDRESS s)
                 else bracket_operand code EDS_ADDRESS s)
          else if IS_BIG_LATIN c \<or> IS_LITTLE_LATIN c then do {
            (p, buf) \<leftarrow> ndstr_parse_word_n code (c # s) 20;
            a \<leftarrow> ndstricmp (cstring ''reg1'') (cstr buf);
            b \<leftarrow> ndstricmp (cstring ''reg2'') (cstr buf);
            (if a = 0 \<or> b = 0 then
               Some (Some (if a = 0 then EDS_REG1 else EDS_REG2, None, case p of None \<Rightarrow> [] | Some r \<Rightarrow> r))
             else Some None)
          }
          else do {
            (out, r, ok) \<leftarrow> ndstr_read_numerals (c # s);
            (case out of
               None \<Rightarrow> Some None
             | Some buf \<Rightarrow>
                 if length buf < ASM_BUF
                 then Some (if ok then Some (EDS_IMMEDIATE, Some (atof (cstr buf)), r) else None)
                 else None)
          })
   }"

text \<open>\<open>strchr\<close>: the text from the first \<open>c\<close> on; an empty list stands for a null pointer here.\<close>

fun c_strchr :: "byte list \<Rightarrow> byte \<Rightarrow> byte list option option" where
  "c_strchr [] c = None"
| "c_strchr (b # bs) c = (if b = c then Some (Some (b # bs)) else if b = 0 then Some None else c_strchr bs c)"

definition set_operand :: "nat \<Rightarrow> byte \<times> vm_value option \<Rightarrow> vm_instruction_node \<Rightarrow> vm_instruction_node" where
  "set_operand k x n = (case x of (d, v) \<Rightarrow>
     if k = 1 then n\<lparr>ds1 := d, val1 := (case v of None \<Rightarrow> val1 n | Some w \<Rightarrow> w)\<rparr>
     else n\<lparr>ds2 := d, val2 := (case v of None \<Rightarrow> val2 n | Some w \<Rightarrow> w)\<rparr>)"

definition second_operand ::
  "nat \<Rightarrow> (byte list \<Rightarrow> vm_value) \<Rightarrow> vm_instruction_node \<Rightarrow> byte list \<Rightarrow> (int \<times> vm_instruction_node) option" where
  "second_operand code atof n addr = do {
     c \<leftarrow> c_strchr addr 0x2C;
     (case c of
        None \<Rightarrow> Some (-1, n)
      | Some r \<Rightarrow> do {
          x \<leftarrow> asm_read_operand code atof (tl r);
          (case x of None \<Rightarrow> Some (-1, n) | Some (d, v, _) \<Rightarrow> Some (1, set_operand 2 (d, v) n))
        })
   }"

definition vm_compiler_line ::
  "nat \<Rightarrow> (byte list \<Rightarrow> vm_value) \<Rightarrow> byte list \<Rightarrow> (int \<times> vm_instruction_node) option" where
  "vm_compiler_line code atof text = do {
     v \<leftarrow> ndstr_first_valid text;
     (case v of
        None \<Rightarrow> Some (-1, zero_node)
      | Some s \<Rightarrow>
          if hd s = 0x23 then Some (0, zero_node)
          else do {
            (p, i) \<leftarrow> read_instruction code s;
            let n = zero_node\<lparr>ins := (case i of None \<Rightarrow> 0 | Some k \<Rightarrow> k)\<rparr>;
            if \<not> check_instruction_valid (ins n) then Some (-1, n)
            else case p of
              None \<Rightarrow> Some (if check_no_operand (ins n) then 1 else -1, n)
            | Some addr \<Rightarrow> do {
                w \<leftarrow> ndstr_first_valid addr;
                (case w of
                   None \<Rightarrow> Some (if check_no_operand (ins n) then 1 else -1, n)
                 | Some a \<Rightarrow>
                     if get_operand_num (ins n) = 0 then second_operand code atof n a
                     else do {
                       x \<leftarrow> asm_read_operand code atof a;
                       (case x of
                          None \<Rightarrow> Some (-1, n)
                        | Some (d, v, r) \<Rightarrow>
                            let n = set_operand 1 (d, v) n in
                            if second_used (get_operand_num (ins n)) then second_operand code atof n r else Some (1, n))
                     })
              }
          })
   }"

section \<open>Files\<close>

text \<open>The lines \<open>fgets\<close> returns, with the result and the bytes written. \<open>chk\<close> is \<open>vm_check_insnode\<close>.\<close>

fun vm_file_compile ::
  "nat \<Rightarrow> (byte list \<Rightarrow> vm_value) \<Rightarrow> (vm_instruction_node \<Rightarrow> bool option) \<Rightarrow> byte list list \<Rightarrow> byte list \<Rightarrow> (int \<times> byte list) option" where
  "vm_file_compile code atof chk [] out = Some (0, out)"
| "vm_file_compile code atof chk (l # ls) out = do {
     v \<leftarrow> ndstr_first_valid l;
     (case v of
        None \<Rightarrow> vm_file_compile code atof chk ls out
      | Some _ \<Rightarrow> do {
          (ret, n) \<leftarrow> vm_compiler_line code atof l;
          ok \<leftarrow> (if ret > 0 then chk n else Some False);
          if ok then vm_file_compile code atof chk ls (out @ vm_instruct_2buf n) else Some (-1, out)
        })
   }"

text \<open>\<open>%x\<close> and \<open>%d\<close>.\<close>

fun hex_digits :: "nat \<Rightarrow> byte list" where
  "hex_digits n = (if n < 16 then [] else hex_digits (n div 16)) @ [bcdText ! (n mod 16)]"

declare hex_digits.simps [simp del]

fun dec_digits :: "nat \<Rightarrow> byte list" where
  "dec_digits n = (if n < 10 then [] else dec_digits (n div 10)) @ [0x30 + of_nat (n mod 10)]"

declare dec_digits.simps [simp del]

definition dec_int :: "int \<Rightarrow> byte list" where
  "dec_int i = (if i < 0 then 0x2D # dec_digits (nat (- i)) else dec_digits (nat i))"

definition ascii :: "string \<Rightarrow> byte list" where
  "ascii s = map (\<lambda>c. of_nat (of_char c)) s"

text \<open>\<open>blanks\<close> is the text between \<open>SP\<close> and the index, which differs for the two operands.\<close>

definition operand_text :: "(vm_value \<Rightarrow> byte list) \<Rightarrow> string \<Rightarrow> byte \<Rightarrow> vm_value \<Rightarrow> byte list" where
  "operand_text fmt_f blanks d v =
     (if d = EDS_IMMEDIATE then fmt_f v
      else if d = EDS_ADDRESS then ascii ''['' @ hex_digits (unat v) @ ascii '']''
      else if d = EDS_STACK then ascii ''[SP'' @ ascii blanks @ dec_int (sint v) @ ascii '']''
      else if d = EDS_REG1 then ascii ''REG1''
      else if d = EDS_REG2 then ascii ''REG2''
      else [])"

text \<open>The text of an instruction without the line end; \<open>None\<close> is the error return. It fits the buffer of 256 bytes
  when \<open>%f\<close> gives at most 100 bytes.\<close>

definition vm_output_asm :: "(vm_value \<Rightarrow> byte list) \<Rightarrow> vm_instruction_node \<Rightarrow> byte list option" where
  "vm_output_asm fmt_f n = (case get_ins_name (ins n) of
     None \<Rightarrow> None
   | Some p \<Rightarrow>
       let num = get_operand_num (ins n) in
       Some ([9] @ ascii p @ [9] @
         (if num \<ge> 1 then operand_text fmt_f ''  '' (ds1 n) (val1 n) else []) @
         (if second_used num then ascii '' ,'' @ [9] @ operand_text fmt_f '' '' (ds2 n) (val2 n) else [])))"

text \<open>The loop of the disassembler over the bytes read, which fill their block; it runs while the pointer is not behind
  the end of them.\<close>

fun rcompile_loop :: "(vm_value \<Rightarrow> byte list) \<Rightarrow> nat \<Rightarrow> byte list \<Rightarrow> nat \<Rightarrow> byte list \<Rightarrow> byte list option" where
  "rcompile_loop fmt_f fuel buf p out =
     (if p \<le> length buf then
        (case fuel of
           0 \<Rightarrow> None
         | Suc k \<Rightarrow> do {
             (n, r) \<leftarrow> vm_instruction_2node zero_node (drop p buf);
             rcompile_loop fmt_f k buf (length buf - length r)
               (out @ (case vm_output_asm fmt_f n of None \<Rightarrow> [] | Some t \<Rightarrow> t @ [10]))
           })
      else Some out)"

declare rcompile_loop.simps [simp del]

definition vm_file_rcompile :: "(vm_value \<Rightarrow> byte list) \<Rightarrow> byte list \<Rightarrow> (int \<times> byte list) option" where
  "vm_file_rcompile fmt_f buf =
     (if buf = [] then Some (-1, []) else map_option (\<lambda>out. (0, out)) (rcompile_loop fmt_f (length buf + 1) buf 0 []))"

lemma decode_rest: "vm_instruction_2node n bs = Some (m, r) \<Longrightarrow> length r \<le> length bs"
  by (auto simp: vm_instruction_2node_def read_operand_code_def Let_def split: list.splits if_splits Option.bind_splits)

text \<open>The disassembler reads past the file: the pointer reaches the end of the bytes and the loop runs once more.\<close>

lemma rcompile_overreads: "p \<le> length buf \<Longrightarrow> rcompile_loop fmt_f fuel buf p out = None"
proof (induction fuel arbitrary: p out)
  case (Suc k)
  show ?case
  proof (cases "vm_instruction_2node zero_node (drop p buf)")
    case None
    then show ?thesis using Suc.prems by (subst rcompile_loop.simps) simp
  next
    case (Some x)
    then show ?thesis using Suc.IH Suc.prems by (subst rcompile_loop.simps) (cases x, auto)
  qed
qed (subst rcompile_loop.simps, simp)

lemma vm_file_rcompile_overreads: "buf \<noteq> [] \<Longrightarrow> vm_file_rcompile fmt_f buf = None"
  by (simp add: vm_file_rcompile_def rcompile_overreads)

end
