(* ===== verification/Formula.thy ===== *)
theory Formula
  imports Vm_Asm
begin

text \<open>
  The formula compiler of \<^verbatim>\<open>src/nd_vm/src/nd_formula.c\<close>: a formula is split into a list of units, each an operand with
  the operator behind it and the operator's level, and the list is turned into assembler lines that are assembled
  one by one into the code buffer. The linked lists of units are lists; the pool the units come from is the number of
  free ones. The recursive functions have fuel; running out of it is no value. The user's replacement of names is a
  parameter. Error messages are left out. The theorems say what the compiled program computes: for units in which no
  operator binds tighter than the one in front of it, the evaluation from left to right; for a product between a
  difference and a sum, a value with another grouping than that of the formula.
\<close>

section \<open>Units\<close>

definition OPERAND_SIZE :: nat where "OPERAND_SIZE = 64"
definition FUNCTION_SIZE :: nat where "FUNCTION_SIZE = 4096"
definition OPUNIT_NUM :: nat where "OPUNIT_NUM = 1024"
definition LEVEL_BRACKET :: int where "LEVEL_BRACKET = 3"

datatype sOperateUnit =
  OpUnit (uop: byte) (is_fun: bool) (ulevel: int) (operand: "byte list") (params: "sOperateUnit list \<times> sOperateUnit list")

record formula_env =
  src_code :: nat
  atof_fn :: "byte list \<Rightarrow> vm_value"
  replace_fn :: "(byte list \<Rightarrow> byte list option) option"

definition GetOpLevel :: "byte \<Rightarrow> int" where
  "GetOpLevel op =
     (if op = 0x3D then 0 else if op = 0x2B \<or> op = 0x2D then 1 else if op = 0x2A \<or> op = 0x2F then 2
      else if op = 0x28 \<or> op = 0x29 then 3 else -1)"

section \<open>Functions\<close>

definition inter_func :: "string list" where
  "inter_func = [''MAX'', ''MIN'', ''RAND'', ''LTZERO'', ''PROB'', ''SET'', ''SQRT'', ''ROUND'', ''CEIL'', ''FLOOR'']"

fun name_in :: "string list \<Rightarrow> byte list \<Rightarrow> bool option" where
  "name_in [] s = Some False"
| "name_in (x # xs) s = do { r \<leftarrow> ndstricmp (cstring x) s; if r = 0 then Some True else name_in xs s }"

definition is_function :: "byte list \<Rightarrow> bool option" where
  "is_function s = name_in inter_func s"

definition get_fun_params :: "byte list \<Rightarrow> nat option" where
  "get_fun_params s = do {
     one \<leftarrow> name_in [''LTZERO'', ''PROB'', ''SQRT'', ''ROUND'', ''CEIL'', ''FLOOR''] s;
     Some (if one then 1 else 2)
   }"

section \<open>Reading\<close>

definition repace_param :: "formula_env \<Rightarrow> byte list \<Rightarrow> byte list option" where
  "repace_param E param = (case replace_fn E of None \<Rightarrow> None | Some f \<Rightarrow> f param)"

text \<open>The result, the text of the operand and the next position (\<open>None\<close>: a null pointer). The operand is written
  to a buffer of 64 bytes without regard to its size.\<close>

definition fits :: "byte list \<Rightarrow> 'a \<Rightarrow> 'a option" where
  "fits buf x = (if length buf < OPERAND_SIZE then Some x else None)"

definition read_operand :: "formula_env \<Rightarrow> byte list \<Rightarrow> (int \<times> byte list \<times> byte list option) option" where
  "read_operand E textbuf = do {
     v \<leftarrow> ndstr_first_valid textbuf;
     (case v of
        None \<Rightarrow> Some (0, [], None)
      | Some [] \<Rightarrow> None
      | Some (c # s) \<Rightarrow>
          if c = 0x28 then Some (2, [], Some s)
          else if c = 0x5B then do {
            (r, buf) \<leftarrow> ndstr_str_end (src_code E) (c # s) 0x5D;
            _ \<leftarrow> fits buf ();
            if r = [] then None
            else if hd r \<noteq> 0x5D then Some (-1, buf, Some r)
            else do {
              k \<leftarrow> ndstr_is_naturalnumber (cstr (tl buf));
              if k = 0 then Some (-1, buf, Some r) else fits (buf @ [0x5D]) (1, buf @ [0x5D], Some (tl r))
            }
          }
          else if IS_NUMERALS c \<or> c = 0x2E \<or> c = 0x2D \<or> c = 0x2B then do {
            (out, r, ok) \<leftarrow> ndstr_read_numerals (c # s);
            let buf = (case out of None \<Rightarrow> [] | Some b \<Rightarrow> b);
            fits buf (if ok then 1 else -1, buf, Some r)
          }
          else do {
            (p, buf) \<leftarrow> ndstr_parse_word (src_code E) (c # s);
            _ \<leftarrow> fits buf ();
            f \<leftarrow> is_function (cstr buf);
            if f then Some (3, buf, p)
            else case repace_param E buf of
              None \<Rightarrow> Some (-1, buf, p)
            | Some t \<Rightarrow> fits t (1, t, p)
          })
   }"

definition readOperator :: "byte list \<Rightarrow> (int \<times> byte \<times> byte list option) option" where
  "readOperator textbuf = do {
     v \<leftarrow> ndstr_first_valid textbuf;
     Some (case v of
       None \<Rightarrow> (0, 0, None)
     | Some s \<Rightarrow>
         if hd s = 0x29 then (2, 0, Some (tl s))
         else if hd s = 0x2B \<or> hd s = 0x2D \<or> hd s = 0x2A \<or> hd s = 0x2F \<or> hd s = 0x3D then (1, hd s, Some (tl s))
         else (-1, 0, Some s))
   }"

text \<open>A parameter up to the comma or bracket that ends it: the text, the rest and the open brackets at the end.\<close>

fun read_func_param :: "byte list \<Rightarrow> nat \<Rightarrow> (byte list \<times> byte list \<times> nat) option" where
  "read_func_param [] is_ok = None"
| "read_func_param (c # s) is_ok =
     (if c = 0 \<or> c = 0x29 \<and> is_ok = 0 \<or> c = 0x2C \<and> is_ok = 0 then Some ([], c # s, is_ok)
      else map_option (\<lambda>(out, r). (c # out, r))
        (read_func_param s (if c = 0x29 then is_ok - 1 else if c = 0x28 then is_ok + 1 else is_ok)))"

section \<open>From text to units\<close>

definition finish_parse :: "bool \<Rightarrow> bool \<Rightarrow> int \<Rightarrow> sOperateUnit list \<Rightarrow> nat \<Rightarrow> int \<times> sOperateUnit list \<times> nat" where
  "finish_parse bReadData have_unit lvl us pool =
     (if lvl \<noteq> 0 then -1 else if bReadData \<and> have_unit \<and> uop (last us) \<noteq> 0 then -1 else 0, us, pool)"

definition set_op :: "byte \<Rightarrow> int \<Rightarrow> sOperateUnit \<Rightarrow> sOperateUnit" where
  "set_op ch l u = OpUnit ch (is_fun u) l (operand u) (params u)"

text \<open>The parameters of a function, at most two. \<open>rec\<close> is the splitting of an expression. One round gives the result,
  whether the closing bracket was read, the unit, the rest of the text and the pool.\<close>

type_synonym parse_fn = "byte list \<Rightarrow> bool \<Rightarrow> bool \<Rightarrow> int \<Rightarrow> sOperateUnit list \<Rightarrow> nat \<Rightarrow> (int \<times> sOperateUnit list \<times> nat) option"

definition parse_param ::
  "parse_fn \<Rightarrow> byte list \<Rightarrow> nat \<Rightarrow> sOperateUnit \<Rightarrow> nat \<Rightarrow> (int \<times> bool \<times> sOperateUnit \<times> byte list \<times> nat) option" where
  "parse_param rec text num u pool = do {
     (p, r, is_ok) \<leftarrow> read_func_param text 0;
     if length p \<ge> FUNCTION_SIZE then None
     else if is_ok \<noteq> 0 then Some (-1, False, u, r, pool)
     else do {
       (ret, us, pool) \<leftarrow> rec (cstr p) True False 0 [] pool;
       let u = OpUnit (uop u) (is_fun u) (ulevel u) (operand u)
         (if num = 0 then (us, snd (params u)) else (fst (params u), us));
       if ret \<noteq> 0 then Some (-1, False, u, r, pool)
       else (case r of
          [] \<Rightarrow> None
        | c # r' \<Rightarrow> Some (0, c = 0x29, u, if c = 0x29 \<or> c = 0x2C then r' else r, pool))
     }
   }"

definition parse_function ::
  "parse_fn \<Rightarrow> sOperateUnit \<Rightarrow> byte list option \<Rightarrow> nat \<Rightarrow> (int \<times> sOperateUnit \<times> byte list option \<times> nat) option" where
  "parse_function rec u textbuf pool = do {
     text \<leftarrow> textbuf;
     v \<leftarrow> ndstr_first_valid text;
     (case v of
        None \<Rightarrow> Some (-1, u, textbuf, pool)
      | Some s \<Rightarrow>
          if hd s \<noteq> 0x28 then Some (-1, u, textbuf, pool)
          else do {
            n \<leftarrow> get_fun_params (cstr (operand u));
            (ret, closed, u, r, pool) \<leftarrow> parse_param rec (tl s) 0 u pool;
            if ret \<noteq> 0 then Some (-1, u, Some r, pool)
            else if closed then Some (if n \<noteq> 1 then -1 else 0, u, Some r, pool)
            else do {
              (ret, _, u, r, pool) \<leftarrow> parse_param rec r 1 u pool;
              Some (if ret \<noteq> 0 \<or> n \<noteq> 2 then -1 else 0, u, Some r, pool)
            }
          })
   }"

text \<open>One round of the loop of \<open>parse_express_2node\<close>, which \<open>rec\<close> continues. \<open>have_unit\<close>: the pointer to the current
  unit, the last of the list, is not null.\<close>

definition parse_round :: "parse_fn \<Rightarrow> formula_env \<Rightarrow> parse_fn" where
  "parse_round rec E text bReadData have_unit lvl us pool = (case text of
     [] \<Rightarrow> None
   | b # _ \<Rightarrow>
       if b = 0 then Some (finish_parse bReadData have_unit lvl us pool)
       else if bReadData then do {
         (ret, buf, next) \<leftarrow> read_operand E text;
         if ret = -1 then Some (-1, us, pool)
         else if ret = 0 then Some (finish_parse True False lvl us pool)
         else if ret = 2 then (case next of None \<Rightarrow> None | Some t \<Rightarrow> rec t True False (lvl + LEVEL_BRACKET) us pool)
         else if pool = 0 then Some (-1, us, pool)
         else do {
           (r, u, next, pool) \<leftarrow> (if ret = 1 then Some (0, OpUnit 0 False 0 buf ([], []), next, pool - 1)
             else parse_function rec (OpUnit 0 True 0 buf ([], [])) next (pool - 1));
           if r \<noteq> 0 then Some (-1, us @ [u], pool)
           else case next of
             None \<Rightarrow> Some (finish_parse False True lvl (us @ [u]) pool)
           | Some t \<Rightarrow> rec t False True lvl (us @ [u]) pool
         }
       }
       else do {
         (ret, ch, next) \<leftarrow> readOperator text;
         if ret = -1 then Some (-1, us, pool)
         else if ret = 0 then Some (finish_parse False have_unit lvl us pool)
         else (case next of
           None \<Rightarrow> None
         | Some t \<Rightarrow>
             if ret = 1 then rec t True True lvl (butlast us @ [set_op ch (lvl + GetOpLevel ch) (last us)]) pool
             else rec t False have_unit (lvl - LEVEL_BRACKET) us pool)
       })"

primrec parse_express_2node :: "nat \<Rightarrow> formula_env \<Rightarrow> parse_fn" where
  "parse_express_2node 0 E = (\<lambda>text bReadData have_unit lvl us pool. None)"
| "parse_express_2node (Suc fuel) E = parse_round (parse_express_2node fuel E) E"

lemma parse_express_2node_code [code]:
  "parse_express_2node 0 E text bReadData have_unit lvl us pool = None"
  "parse_express_2node (Suc fuel) E text bReadData have_unit lvl us pool =
     parse_round (parse_express_2node fuel E) E text bReadData have_unit lvl us pool"
  by simp_all

section \<open>Output\<close>

text \<open>The room left in the code buffer and the code written so far.\<close>

record formula_out_info =
  out_size :: nat
  out_code :: "byte list"

definition asm_printf :: "formula_env \<Rightarrow> byte list \<Rightarrow> formula_out_info \<Rightarrow> (int \<times> formula_out_info) option" where
  "asm_printf E line st = do {
     let buf = take 127 line;
     (ret, n) \<leftarrow> vm_compiler_line (src_code E) (atof_fn E) (cstr buf);
     if ret = -1 then Some (-1, st)
     else
       let bs = (if ret > 0 then vm_instruct_2buf n else buf) in
       if length bs \<le> out_size st
       then Some (0, st\<lparr>out_size := out_size st - length bs, out_code := out_code st @ bs\<rparr>)
       else Some (-1, st)
   }"

text \<open>The callers that ignore the result.\<close>

definition emit :: "formula_env \<Rightarrow> byte list \<Rightarrow> formula_out_info \<Rightarrow> formula_out_info option" where
  "emit E line st = map_option snd (asm_printf E line st)"

definition op_line :: "string \<Rightarrow> byte list \<Rightarrow> byte list \<Rightarrow> byte list" where
  "op_line name a b = [9] @ ascii '' '' @ ascii name @ ascii '' '' @ a @ ascii '' , '' @ b @ ascii '' '' @ [10]"

definition out_op_asm :: "formula_env \<Rightarrow> byte \<Rightarrow> byte list \<Rightarrow> byte list \<Rightarrow> formula_out_info \<Rightarrow> formula_out_info option" where
  "out_op_asm E op a b st =
     (if op = 0x2B then emit E (op_line ''ADD'' a b) st
      else if op = 0x2D then emit E (op_line ''SUB'' a b) st
      else if op = 0x2A then emit E (op_line ''MUL'' a b) st
      else if op = 0x2F then emit E (op_line ''DIV'' a b) st
      else if op = 0x3D then emit E (op_line ''MOV'' a b) st
      else Some st)"

definition push_reg1 :: "byte list" where "push_reg1 = [9] @ ascii '' PUSH REG1 '' @ [10]"
definition pop_reg1 :: "byte list" where "pop_reg1 = [9] @ ascii '' POP REG1 '' @ [10]"
definition mov_reg2_reg1 :: "byte list" where "mov_reg2_reg1 = [9] @ ascii '' MOV REG2 , REG1 '' @ [10]"

section \<open>From units to code\<close>

text \<open>\<open>re\<close> is \<open>run_experssion\<close>: its result, the units it leaves in the list, and the output.\<close>

type_synonym run_fn = "sOperateUnit list \<Rightarrow> formula_out_info \<Rightarrow> (int \<times> sOperateUnit list \<times> formula_out_info) option"

definition run_param :: "run_fn \<Rightarrow> formula_env \<Rightarrow> nat \<Rightarrow> run_fn" where
  "run_param re E param_num us st = do {
     (r, us, st) \<leftarrow> re us st;
     if r = -1 then Some (-1, us, st)
     else do {
       st \<leftarrow> (if param_num > 1 then emit E ([9] @ ascii '' PUSH   REG1'' @ [10]) st else Some st);
       Some (0, us, st)
     }
   }"

definition run_function :: "run_fn \<Rightarrow> formula_env \<Rightarrow> sOperateUnit \<Rightarrow> formula_out_info \<Rightarrow> (int \<times> formula_out_info) option" where
  "run_function re E u st = do {
     n \<leftarrow> get_fun_params (cstr (operand u));
     (r, us, st) \<leftarrow> run_param re E n (fst (params u)) st;
     if r = -1 then Some (-1, st)
     else do {
       (r, _, st) \<leftarrow> (if n > 1 then run_param re E n (snd (params u)) st else Some (0, [], st));
       if r = -1 then Some (-1, st)
       else do {
         set \<leftarrow> ndstricmp (cstr (operand u)) (cstring ''SET'');
         line \<leftarrow> (if set = 0 then (case us of [] \<Rightarrow> None | p # _ \<Rightarrow> Some ([9] @ ascii '' MOV '' @ operand p @ ascii '', REG1'' @ [10]))
                  else Some ([9] @ ascii '' '' @ operand u @
                    (if n = 1 then ascii ''  REG1'' else ascii ''   [SP -2], [SP -1]'') @ [10]));
         st \<leftarrow> emit E line st;
         if n > 1 then do {
           st \<leftarrow> emit E ([9] @ ascii '' POP '' @ [10]) st;
           st \<leftarrow> emit E ([9] @ ascii '' POP '' @ [10]) st;
           Some (0, st)
         } else Some (0, st)
       }
     }
   }"

text \<open>
  The loop of \<open>calcNodeResult\<close> from the current unit over the units behind it. \<open>prev\<close> is the level of the unit in front of
  the current one where the function was called for an inner expression. \<open>rc\<close> continues the loop, or runs it for an
  inner expression. The result is the units left in the list from the current one on.
\<close>

type_synonym calc_fn = "int option \<Rightarrow> sOperateUnit \<Rightarrow> sOperateUnit list \<Rightarrow> bool \<Rightarrow> formula_out_info \<Rightarrow> (sOperateUnit list \<times> formula_out_info) option"

definition calc_first :: "run_fn \<Rightarrow> formula_env \<Rightarrow> sOperateUnit \<Rightarrow> formula_out_info \<Rightarrow> (int \<times> sOperateUnit \<times> formula_out_info) option" where
  "calc_first re E u st =
     (if is_fun u then do {
        (r, st) \<leftarrow> run_function re E u st;
        Some (if r \<noteq> 0 then (-1, u, st) else (0, OpUnit (uop u) False (ulevel u) (operand u) (params u), st))
      } else do {
        st \<leftarrow> emit E ([9] @ ascii '' MOV REG1, '' @ operand u @ [10]) st;
        Some (0, u, st)
      })"

definition calcNodeResult :: "calc_fn \<Rightarrow> run_fn \<Rightarrow> formula_env \<Rightarrow> int option \<Rightarrow> sOperateUnit list \<Rightarrow> formula_out_info \<Rightarrow> (sOperateUnit list \<times> formula_out_info) option" where
  "calcNodeResult rc re E prev us st = (case us of
     [] \<Rightarrow> Some ([], st)
   | u # rest \<Rightarrow> do {
       (r, u, st) \<leftarrow> calc_first re E u st;
       if r = -1 then Some (u # rest, st) else rc prev u rest False st
     })"

definition calc_next :: "run_fn \<Rightarrow> formula_env \<Rightarrow> sOperateUnit \<Rightarrow> formula_out_info \<Rightarrow> (int \<times> sOperateUnit \<times> formula_out_info) option" where
  "calc_next re E u st =
     (if is_fun u then do {
        st \<leftarrow> emit E push_reg1 st;
        (r, st) \<leftarrow> run_function re E u st;
        if r \<noteq> 0 then Some (-1, u, st)
        else do {
          st \<leftarrow> emit E ([9] @ ascii '' MOV REG2, REG1 '' @ [10]) st;
          st \<leftarrow> emit E pop_reg1 st;
          Some (0, OpUnit (uop u) False (ulevel u) (ascii ''REG2'') (params u), st)
        }
      } else Some (0, u, st))"

definition calc_round :: "calc_fn \<Rightarrow> run_fn \<Rightarrow> formula_env \<Rightarrow> calc_fn" where
  "calc_round rc re E prev u rest is_recursion st = (case rest of
     [] \<Rightarrow> Some ([u], st)
   | x # xs \<Rightarrow> do {
       (r, x, st) \<leftarrow> calc_next re E x st;
       if r = -1 then Some (u # x # xs, st)
       else if ulevel u = ulevel x \<or> uop x = 0 then do {
         st \<leftarrow> out_op_asm E (uop u) (ascii ''REG1'') (if is_recursion then ascii ''REG2'' else operand x) st;
         if uop x = 0 then Some (x # xs, st) else rc prev x xs False st
       }
       else if ulevel x < ulevel u then do {
         st \<leftarrow> out_op_asm E (uop u) (ascii ''REG1'') (if is_recursion then ascii ''REG2'' else operand x) st;
         if (case prev of None \<Rightarrow> False | Some l \<Rightarrow> ulevel x < l) then Some (x # xs, st) else rc prev x xs False st
       }
       else do {
         st \<leftarrow> emit E push_reg1 st;
         (us, st) \<leftarrow> calcNodeResult rc re E (Some (ulevel u)) (x # xs) st;
         st \<leftarrow> emit E mov_reg2_reg1 st;
         st \<leftarrow> emit E pop_reg1 st;
         rc prev u us True st
       }
     })"

text \<open>Assignments are right-associative. Behind the last unit of a list stands its header, which is no unit.\<close>

definition run_round :: "calc_fn \<Rightarrow> run_fn \<Rightarrow> formula_env \<Rightarrow> run_fn" where
  "run_round rc re E us st = (case us of
     [] \<Rightarrow> Some (-1, [], st)
   | u # rest \<Rightarrow>
       if uop u = 0x3D then (case rest of
         [] \<Rightarrow> None
       | x # _ \<Rightarrow> do {
           (rest, st) \<leftarrow> (if uop x = 0x3D then do { (_, us, st) \<leftarrow> re rest st; Some (us, st) }
                         else calcNodeResult rc re E None rest st);
           (r, st) \<leftarrow> asm_printf E ([9] @ ascii '' MOV  '' @ operand u @ ascii '', REG1'' @ [10]) st;
           Some (if r = -1 then -1 else 0, u # rest, st)
         })
       else do { (us, st) \<leftarrow> calcNodeResult rc re E None us st; Some (0, us, st) })"

fun calc_loop :: "nat \<Rightarrow> formula_env \<Rightarrow> calc_fn"
  and run_experssion :: "nat \<Rightarrow> formula_env \<Rightarrow> run_fn"
where
  "calc_loop 0 E = (\<lambda>prev u rest is_recursion st. None)"
| "calc_loop (Suc f) E = calc_round (calc_loop f E) (run_experssion f E) E"
| "run_experssion 0 E = (\<lambda>us st. None)"
| "run_experssion (Suc f) E = run_round (calc_loop f E) (run_experssion f E) E"

lemma calc_loop_code [code]:
  "calc_loop 0 E prev u rest is_recursion st = None"
  "calc_loop (Suc f) E prev u rest is_recursion st = calc_round (calc_loop f E) (run_experssion f E) E prev u rest is_recursion st"
  by simp_all

lemma run_experssion_code [code]:
  "run_experssion 0 E us st = None"
  "run_experssion (Suc f) E us st = run_round (calc_loop f E) (run_experssion f E) E us st"
  by simp_all

section \<open>Formulas\<close>

definition oplist_2buf :: "nat \<Rightarrow> formula_env \<Rightarrow> sOperateUnit list \<Rightarrow> nat \<Rightarrow> byte list option" where
  "oplist_2buf fuel E us buf_size = do {
     (r, _, st) \<leftarrow> run_experssion fuel E us \<lparr>out_size = buf_size, out_code = []\<rparr>;
     Some (if r = -1 then [] else out_code st)
   }"

text \<open>The code written; its length is the result of \<open>vm_parse_expression\<close>.\<close>

definition vm_parse_expression :: "nat \<Rightarrow> formula_env \<Rightarrow> byte list \<Rightarrow> nat \<Rightarrow> byte list option" where
  "vm_parse_expression fuel E textbuf buf_size = do {
     (ret, us, _) \<leftarrow> parse_express_2node fuel E textbuf True False 0 [] OPUNIT_NUM;
     if ret = -1 then Some [] else oplist_2buf fuel E us buf_size
   }"

section \<open>What the emitted lines assemble to\<close>

definition is_operand :: "formula_env \<Rightarrow> byte list \<Rightarrow> byte \<Rightarrow> vm_value \<Rightarrow> bool" where
  "is_operand E t d v \<longleftrightarrow> length t < OPERAND_SIZE \<and> (\<exists>w. v = (case w of None \<Rightarrow> 0 | Some x \<Rightarrow> x) \<and>
     (\<forall>c r. c = 0x20 \<or> c = 0x0A \<longrightarrow> (\<exists>x. asm_read_operand (src_code E) (atof_fn E) (0x20 # t @ c # r) = Some (Some (d, w, x)))))"

definition op_node :: "byte \<Rightarrow> byte \<Rightarrow> vm_value \<Rightarrow> vm_instruction_node" where
  "op_node i d v = \<lparr>ins = i, ds1 = EDS_REG1, ds2 = d, val1 = 0, val2 = v\<rparr>"

lemma word_len_ascii: "b \<le> 0x80 \<Longrightarrow> word_len code b = 1" by (auto simp: word_len_def not_less dest: leD)

lemmas char_defs = word_len_ascii latin_or_digit_def IS_NUMERALS_def IS_BIG_LATIN_def IS_LITTLE_LATIN_def

lemma read_reg1:
  "c = 0x20 \<or> c = 0x2C \<Longrightarrow> asm_read_operand code atof (0x52 # 0x45 # 0x47 # 0x31 # c # r) = Some (Some (EDS_REG1, None, c # r))"
  by (auto simp: asm_read_operand_def ndstr_parse_word_n_def char_defs ptr_or_null_def cstring_def to_big_def LITTLE_2_BIG_def Let_def)

lemma read_instruction3:
  assumes "IS_BIG_LATIN a" "IS_BIG_LATIN b" "IS_BIG_LATIN c" "get_ins [a, b, c, 0] = Some i" "i \<noteq> 0xFF"
  shows "read_instruction code (a # b # c # 0x20 # r) = Some (Some (0x20 # r), Some i)"
proof -
  have w: "word_len code x = 1" "x \<noteq> 0" "latin_or_digit x" if "IS_BIG_LATIN x" for x
  proof -
    have "x \<le> 0x80" using that unfolding IS_BIG_LATIN_def by (rule conjE) (erule order_trans, simp)
    then show "word_len code x = 1" by (rule word_len_ascii)
    show "x \<noteq> 0" "latin_or_digit x" using that by (auto simp: IS_BIG_LATIN_def latin_or_digit_def)
  qed
  have "ndstr_parse_word_n code (a # b # c # 0x20 # r) (int ASM_BUF) = Some (Some (0x20 # r), [a, b, c])"
    using w [OF assms(1)] w [OF assms(2)] w [OF assms(3)]
    by (simp add: ndstr_parse_word_n_def ASM_BUF_def ptr_or_null_def) (simp add: char_defs)
  then show ?thesis using assms(4,5) by (simp add: read_instruction_def ASM_BUF_def)
qed

lemma compile_op_line:
  assumes name: "IS_BIG_LATIN a" "IS_BIG_LATIN b" "IS_BIG_LATIN c" "get_ins [a, b, c, 0] = Some i" "check_instruction_valid i" "get_operand_num i = 2"
    and op: "is_operand E t d v" and r: "e = 0x20 \<or> e = 0x0A" "r = e # r'" and blank: "bl = [] \<or> bl = [0x20]"
  shows "vm_compiler_line (src_code E) (atof_fn E) (9 # 0x20 # a # b # c # 0x20 # 0x52 # 0x45 # 0x47 # 0x31 # bl @ 0x2C # 0x20 # t @ r) =
    Some (1, op_node i d v)"
proof -
  have i: "i \<noteq> 0xFF" using name(5) by (auto simp: check_instruction_valid_def)
  have "0x41 \<le> a" using name(1) by (simp add: IS_BIG_LATIN_def)
  then have "0x20 < a" "0x23 < a" by (rule less_le_trans [rotated], simp)+
  then have a: "\<not> a \<le> 0x20" "a \<noteq> 0x23" by auto
  obtain w x where w: "v = (case w of None \<Rightarrow> 0 | Some x \<Rightarrow> x)" "asm_read_operand (src_code E) (atof_fn E) (0x20 # t @ r) = Some (Some (d, w, x))"
    using op r(1) unfolding is_operand_def r(2) by blast
  have "\<exists>q. asm_read_operand (src_code E) (atof_fn E) (0x52 # 0x45 # 0x47 # 0x31 # bl @ 0x2C # 0x20 # t @ r) = Some (Some (EDS_REG1, None, q)) \<and>
      c_strchr q 0x2C = Some (Some (0x2C # 0x20 # t @ r))"
    using blank read_reg1 by auto
  then obtain q where q: "asm_read_operand (src_code E) (atof_fn E) (0x52 # 0x45 # 0x47 # 0x31 # bl @ 0x2C # 0x20 # t @ r) = Some (Some (EDS_REG1, None, q))"
      "c_strchr q 0x2C = Some (Some (0x2C # 0x20 # t @ r))" by blast
  have n: "ins (set_operand 1 (EDS_REG1, None) (zero_node\<lparr>ins := i\<rparr>)) = i" by (simp add: set_operand_def)
  have s: "second_operand (src_code E) (atof_fn E) k q = Some (1, set_operand 2 (d, w) k)" for k
    using q(2) w(2) by (simp add: second_operand_def)
  have "set_operand 2 (d, w) (set_operand 1 (EDS_REG1, None) (zero_node\<lparr>ins := i\<rparr>)) = op_node i d v"
    using w(1) by (simp add: set_operand_def zero_node_def op_node_def split: option.split)
  then show ?thesis
    using a name(5,6) q(1) by (simp add: vm_compiler_line_def second_used_def read_instruction3 [OF name(1-4) i] s n [simplified] Let_def)
qed

lemma op_names: "get_ins [0x4D, 0x4F, 0x56, 0] = Some EOP_MOV" "get_ins [0x41, 0x44, 0x44, 0] = Some EOP_ADD" "get_ins [0x53, 0x55, 0x42, 0] = Some EOP_SUB"
  "get_ins [0x4D, 0x55, 0x4C, 0] = Some EOP_MUL" "get_ins [0x44, 0x49, 0x56, 0] = Some EOP_DIV" by code_simp+

definition appended :: "formula_out_info \<Rightarrow> vm_instruction_node list \<Rightarrow> formula_out_info" where
  "appended st ns = st\<lparr>out_size := out_size st - length (vm_code ns), out_code := out_code st @ vm_code ns\<rparr>"

lemma emit_line:
  assumes "vm_compiler_line (src_code E) (atof_fn E) (cstr line) = Some (1, n)" "length line < 128" "11 \<le> out_size st"
  shows "asm_printf E line st = Some (0, appended st [n])" "emit E line st = Some (appended st [n])"
proof -
  have "length (vm_instruct_2buf n) \<le> out_size st" using vm_instruct_2buf_length [of n] assms(3) by linarith
  then show "asm_printf E line st = Some (0, appended st [n])" using assms(1,2)
    by (simp add: asm_printf_def Let_def appended_def vm_code_def)
  then show "emit E line st = Some (appended st [n])" by (simp add: emit_def)
qed

definition op_ins :: "byte \<Rightarrow> byte" where
  "op_ins op = (if op = 0x2B then EOP_ADD else if op = 0x2D then EOP_SUB else if op = 0x2A then EOP_MUL else EOP_DIV)"

definition arith_ops :: "byte set" where "arith_ops = {0x2B, 0x2D, 0x2A, 0x2F}"

lemma emit_mov:
  assumes "is_operand E t d v" "11 \<le> out_size st"
  shows "emit E ([9] @ ascii '' MOV REG1, '' @ t @ [10]) st = Some (appended st [op_node EOP_MOV d v])"
proof (rule emit_line(2) [OF _ _ assms(2)])
  show "length ([9] @ ascii '' MOV REG1, '' @ t @ [10]) < 128" using assms(1) by (simp add: is_operand_def OPERAND_SIZE_def ascii_def)
  have "vm_compiler_line (src_code E) (atof_fn E) (9 # 0x20 # 0x4D # 0x4F # 0x56 # 0x20 # 0x52 # 0x45 # 0x47 # 0x31 # [] @ 0x2C # 0x20 # t @ [10, 0]) =
    Some (1, op_node EOP_MOV d v)"
    by (rule compile_op_line [OF _ _ _ op_names(1) _ _ assms(1)]) (simp_all add: IS_BIG_LATIN_def check_instruction_valid_def get_operand_num_def)
  then show "vm_compiler_line (src_code E) (atof_fn E) (cstr ([9] @ ascii '' MOV REG1, '' @ t @ [10])) = Some (1, op_node EOP_MOV d v)"
    by (simp add: ascii_def)
qed

lemma emit_op:
  assumes "is_operand E t d v" "11 \<le> out_size st" "op \<in> arith_ops"
  shows "out_op_asm E op (ascii ''REG1'') t st = Some (appended st [op_node (op_ins op) d v])"
proof -
  have len: "length (op_line [a, b, c] (ascii ''REG1'') t) < 128" for a b c
    using assms(1) by (simp add: is_operand_def OPERAND_SIZE_def ascii_def op_line_def)
  have l: "vm_compiler_line (src_code E) (atof_fn E) (9 # 0x20 # a # b # c # 0x20 # 0x52 # 0x45 # 0x47 # 0x31 # [0x20] @ 0x2C # 0x20 # t @ [0x20, 10, 0]) =
    Some (1, op_node i d v)" if "(a, b, c, i) \<in> {(0x41, 0x44, 0x44, EOP_ADD), (0x53, 0x55, 0x42, EOP_SUB), (0x4D, 0x55, 0x4C, EOP_MUL), (0x44, 0x49, 0x56, EOP_DIV)}" for a b c i
    by (rule compile_op_line [OF _ _ _ _ _ _ assms(1)]) (use that op_names in \<open>auto simp: IS_BIG_LATIN_def check_instruction_valid_def get_operand_num_def\<close>)
  have e: "cstr (op_line ''ADD'' (ascii ''REG1'') t) = 9 # 0x20 # 0x41 # 0x44 # 0x44 # 0x20 # 0x52 # 0x45 # 0x47 # 0x31 # [0x20] @ 0x2C # 0x20 # t @ [0x20, 10, 0]"
    "cstr (op_line ''SUB'' (ascii ''REG1'') t) = 9 # 0x20 # 0x53 # 0x55 # 0x42 # 0x20 # 0x52 # 0x45 # 0x47 # 0x31 # [0x20] @ 0x2C # 0x20 # t @ [0x20, 10, 0]"
    "cstr (op_line ''MUL'' (ascii ''REG1'') t) = 9 # 0x20 # 0x4D # 0x55 # 0x4C # 0x20 # 0x52 # 0x45 # 0x47 # 0x31 # [0x20] @ 0x2C # 0x20 # t @ [0x20, 10, 0]"
    "cstr (op_line ''DIV'' (ascii ''REG1'') t) = 9 # 0x20 # 0x44 # 0x49 # 0x56 # 0x20 # 0x52 # 0x45 # 0x47 # 0x31 # [0x20] @ 0x2C # 0x20 # t @ [0x20, 10, 0]"
    by (simp_all add: op_line_def ascii_def)
  have "emit E (op_line ''ADD'' (ascii ''REG1'') t) st = Some (appended st [op_node EOP_ADD d v])"
    "emit E (op_line ''SUB'' (ascii ''REG1'') t) st = Some (appended st [op_node EOP_SUB d v])"
    "emit E (op_line ''MUL'' (ascii ''REG1'') t) st = Some (appended st [op_node EOP_MUL d v])"
    "emit E (op_line ''DIV'' (ascii ''REG1'') t) st = Some (appended st [op_node EOP_DIV d v])"
    by (rule emit_line(2) [OF _ len assms(2)], simp only: e, rule l, simp)+
  then show ?thesis using assms(3) unfolding arith_ops_def by (auto simp: out_op_asm_def op_ins_def)
qed

section \<open>Formulas evaluated from left to right\<close>

text \<open>A chain of operands: the operators do not bind tighter from left to right, the last unit has none.\<close>

fun chain :: "formula_env \<Rightarrow> (sOperateUnit \<Rightarrow> byte \<times> vm_value) \<Rightarrow> sOperateUnit list \<Rightarrow> bool" where
  "chain E w [] = False"
| "chain E w (u # us) = (\<not> is_fun u \<and> is_operand E (operand u) (fst (w u)) (snd (w u)) \<and>
     (case us of [] \<Rightarrow> uop u = 0
      | x # _ \<Rightarrow> uop u \<in> arith_ops \<and> (uop x \<noteq> 0 \<longrightarrow> ulevel x \<le> ulevel u) \<and> chain E w us))"

fun chain_code :: "(sOperateUnit \<Rightarrow> byte \<times> vm_value) \<Rightarrow> sOperateUnit \<Rightarrow> sOperateUnit list \<Rightarrow> vm_instruction_node list" where
  "chain_code w u [] = []"
| "chain_code w u (x # xs) = op_node (op_ins (uop u)) (fst (w x)) (snd (w x)) # chain_code w x xs"

lemma appended_appended: "appended (appended st ns) ms = appended st (ns @ ms)"
  by (simp add: appended_def vm_code_def)

lemma appended_size: "out_size (appended st [n]) \<ge> out_size st - 11"
  using vm_instruct_2buf_length [of n] by (auto simp: appended_def vm_code_def intro: diff_le_mono2)

lemma arith_ops_nonzero: "op \<in> arith_ops \<Longrightarrow> op \<noteq> 0" by (auto simp: arith_ops_def)

lemma calc_loop_chain:
  assumes "chain E w (u # us)" "length us < fuel" "11 * length us \<le> out_size st"
  shows "\<exists>x. calc_loop fuel E None u us False st = Some (x, appended st (chain_code w u us))"
  using assms
proof (induction us arbitrary: u fuel st)
  case Nil
  then obtain k where "fuel = Suc k" by (cases fuel) auto
  then show ?case by (simp add: calc_round_def appended_def vm_code_def)
next
  case (Cons x xs)
  then obtain k where k: "fuel = Suc k" "length xs < k" by (cases fuel) auto
  let ?n = "op_node (op_ins (uop u)) (fst (w x)) (snd (w x))"
  have c: "chain E w (x # xs)" "uop u \<in> arith_ops" "uop x \<noteq> 0 \<longrightarrow> ulevel x \<le> ulevel u"
    using Cons.prems(1) by simp_all
  have nf: "\<not> is_fun x" and io: "is_operand E (operand x) (fst (w x)) (snd (w x))" using c(1) by simp_all
  have o: "out_op_asm E (uop u) (ascii ''REG1'') (operand x) st = Some (appended st [?n])"
    using emit_op [OF io _ c(2)] Cons.prems(3) by simp
  have sz: "11 * length xs \<le> out_size (appended st [?n])" using appended_size [of st ?n] Cons.prems(3) by simp
  from Cons.IH [OF c(1) k(2) sz] obtain y where y: "calc_loop k E None x xs False (appended st [?n]) = Some (y, appended st (chain_code w u (x # xs)))"
    by (auto simp: appended_appended)
  show ?case
  proof (cases "uop x = 0")
    case True
    have "xs = []" using c(1) True arith_ops_nonzero by (cases xs) auto
    then show ?thesis using True nf o by (simp add: k(1) calc_round_def calc_next_def)
  next
    case False
    then have "ulevel u = ulevel x \<or> ulevel x < ulevel u" using c(3) by auto
    then show ?thesis using False nf o y by (auto simp: k(1) calc_round_def calc_next_def)
  qed
qed

lemma run_chain:
  assumes c: "chain E w (u # us)" and f: "length us + 1 < fuel" and size: "11 * (length us + 1) \<le> out_size st"
  shows "\<exists>x. run_experssion fuel E (u # us) st = Some (0, x, appended st (op_node EOP_MOV (fst (w u)) (snd (w u)) # chain_code w u us))"
proof -
  obtain k where k: "fuel = Suc k" "length us < k" using f by (cases fuel) auto
  let ?n = "op_node EOP_MOV (fst (w u)) (snd (w u))"
  have nf: "\<not> is_fun u" and io: "is_operand E (operand u) (fst (w u)) (snd (w u))" using c by simp_all
  have ne: "uop u \<noteq> 0x3D" using c by (cases us) (auto simp: arith_ops_def)
  have m: "emit E ([9] @ ascii '' MOV REG1, '' @ operand u @ [10]) st = Some (appended st [?n])"
    using emit_mov [OF io] size by simp
  have "11 * length us \<le> out_size (appended st [?n])" using appended_size [of st ?n] size by simp
  from calc_loop_chain [OF c k(2) this] obtain x where "calc_loop k E None u us False (appended st [?n]) =
    Some (x, appended st (?n # chain_code w u us))" by (auto simp: appended_appended)
  then show ?thesis using nf ne m by (simp add: k(1) run_round_def calcNodeResult_def calc_first_def)
qed

definition apply_op :: "vm_arith \<Rightarrow> byte \<Rightarrow> vm_value \<Rightarrow> vm_value \<Rightarrow> vm_value" where
  "apply_op F op a b =
     (if op = 0x2B then f_add F a b else if op = 0x2D then f_sub F a b else if op = 0x2A then f_mul F a b
      else if f_eq F b 0 then a else f_div F a b)"

fun left_eval :: "vm_arith \<Rightarrow> (sOperateUnit \<Rightarrow> vm_value) \<Rightarrow> vm_value \<Rightarrow> sOperateUnit \<Rightarrow> sOperateUnit list \<Rightarrow> vm_value" where
  "left_eval F val acc u [] = acc"
| "left_eval F val acc u (x # xs) = left_eval F val (apply_op F (uop u) acc (val x)) x xs"

definition plain :: "byte \<Rightarrow> bool" where "plain d \<longleftrightarrow> d = EDS_IMMEDIATE \<or> d = EDS_ADDRESS"

definition opval :: "vm_cpu \<Rightarrow> byte \<times> vm_value \<Rightarrow> vm_value" where
  "opval vm x = the (vm_getvalue (fst x) (snd x) vm)"

lemma plain_getvalue: "plain d \<Longrightarrow> vm_getvalue d v (vm\<lparr>reg1 := a\<rparr>) = vm_getvalue d v vm"
  by (auto simp: plain_def vm_getvalue_def vm_ref_operand_def address_loc_def mem_limit_def vm_load_def Let_def split: option.split)

lemma canon_op_node: "get_operand_num i = 2 \<Longrightarrow> has_value d \<or> v = 0 \<Longrightarrow> canon (op_node i d v) = op_node i d v"
  by (auto simp: canon_def op_node_def Let_def has_value_def second_used_def)

lemma vm_update_reg1:
  "ds1 n = EDS_REG1 \<Longrightarrow> vm_getvalue (ds2 n) (val2 n) vm = Some x \<Longrightarrow>
   vm_update n f vm = Some (case f (reg1 vm) x of None \<Rightarrow> vm | Some y \<Rightarrow> vm\<lparr>reg1 := y\<rparr>)"
  by (simp add: vm_update_def vm_ref_operand_def vm_load_def vm_store_def split: option.split)

lemma run_op_node:
  assumes "vm_getvalue d v vm = Some x" "has_value d \<or> v = 0"
  shows "op \<in> arith_ops \<Longrightarrow> vm_run_insnode F (canon (op_node (op_ins op) d v)) vm = Some (0, vm\<lparr>reg1 := apply_op F op (reg1 vm) x\<rparr>)"
    and "vm_run_insnode F (canon (op_node EOP_MOV d v)) vm = Some (0, vm\<lparr>reg1 := x\<rparr>)"
proof -
  have c: "canon (op_node i d v) = op_node i d v" if "i \<in> {1, 2, 3, 4, 5}" for i
    using that assms(2) by (intro canon_op_node) (auto simp: get_operand_num_def)
  have u: "vm_update (op_node i d v) f vm = Some (case f (reg1 vm) x of None \<Rightarrow> vm | Some y \<Rightarrow> vm\<lparr>reg1 := y\<rparr>)" for i f
    using assms(1) by (intro vm_update_reg1) (simp_all add: op_node_def)
  have i: "ins (op_node i d v) = i" for i by (simp add: op_node_def)
  show "vm_run_insnode F (canon (op_node EOP_MOV d v)) vm = Some (0, vm\<lparr>reg1 := x\<rparr>)"
    by (simp add: c vm_run_insnode_def i u)
  assume "op \<in> arith_ops"
  then show "vm_run_insnode F (canon (op_node (op_ins op) d v)) vm = Some (0, vm\<lparr>reg1 := apply_op F op (reg1 vm) x\<rparr>)"
    by (auto simp: arith_ops_def op_ins_def c vm_run_insnode_def i u apply_op_def)
qed

lemma run_chain_code:
  assumes "chain E w (u # us)" "\<forall>x \<in> set us. plain (fst (w x))" "vm_ok vm"
  shows "run_nodes F (chain_code w u us) (vm\<lparr>reg1 := a\<rparr>) = Some (0, vm\<lparr>reg1 := left_eval F (\<lambda>x. opval vm (w x)) a u us\<rparr>)"
  using assms(1,2)
proof (induction us arbitrary: u a)
  case (Cons x xs)
  have p: "plain (fst (w x))" using Cons.prems(2) by simp
  obtain y where y: "vm_getvalue (fst (w x)) (snd (w x)) vm = Some y" using vm_ok_getvalue [OF assms(3)] by blast
  have g: "vm_getvalue (fst (w x)) (snd (w x)) (vm\<lparr>reg1 := a\<rparr>) = Some y" using y plain_getvalue [OF p] by simp
  have h: "has_value (fst (w x)) \<or> snd (w x) = 0" using p by (auto simp: plain_def has_value_def)
  have "uop u \<in> arith_ops" "chain E w (x # xs)" using Cons.prems(1) by simp_all
  then show ?case
    using run_op_node(1) [OF g h] Cons.IH [of x "apply_op F (uop u) a y"] Cons.prems(2) y by (simp add: opval_def)
qed simp

text \<open>C4. The units of a formula in which no operator binds tighter than the one in front of it (brackets count through the
  level), all operands being numbers or memory cells, are compiled, given room for the code, to a program that computes
  in the first register what evaluating the units from left to right computes, and changes nothing else of the machine.
\<close>

theorem formula_left_to_right:
  assumes "chain E w (u # us)" "\<forall>x \<in> set (u # us). plain (fst (w x))" "vm_ok vm"
    and "length us + 1 < fuel" "11 * (length us + 1) \<le> buf_size"
  shows "\<exists>code. oplist_2buf fuel E (u # us) buf_size = Some code \<and>
    vm_run_cmd F vm (code @ rest) (length code) =
      Some (0, vm\<lparr>reg1 := left_eval F (\<lambda>x. opval vm (w x)) (opval vm (w u)) u us\<rparr>)"
proof -
  let ?ns = "op_node EOP_MOV (fst (w u)) (snd (w u)) # chain_code w u us"
  have o: "oplist_2buf fuel E (u # us) buf_size = Some (vm_code ?ns)"
    using run_chain [OF assms(1,4), of "\<lparr>out_size = buf_size, out_code = []\<rparr>"] assms(5) by (auto simp: oplist_2buf_def appended_def)
  obtain y where y: "vm_getvalue (fst (w u)) (snd (w u)) vm = Some y" using vm_ok_getvalue [OF assms(3)] by blast
  have h: "has_value (fst (w u)) \<or> snd (w u) = 0" using assms(2) by (auto simp: plain_def has_value_def)
  have "run_nodes F ?ns vm = Some (0, vm\<lparr>reg1 := left_eval F (\<lambda>x. opval vm (w x)) y u us\<rparr>)"
    using run_op_node(2) [OF y h] run_chain_code [OF assms(1) _ assms(3)] assms(2) by simp
  then show ?thesis using o y by (simp add: vm_run_cmd_nodes opval_def)
qed

section \<open>Formulas grouped otherwise\<close>

lemma reg2_operand: "is_operand E (ascii ''REG2'') EDS_REG2 0"
proof -
  have "asm_read_operand code atof (0x20 # ascii ''REG2'' @ c # r) = Some (Some (EDS_REG2, None, c # r))" if "c = 0x20 \<or> c = 0x0A" for code atof c r
    using that by (auto simp: ascii_def asm_read_operand_def ndstr_parse_word_n_def char_defs ptr_or_null_def cstring_def to_big_def
        LITTLE_2_BIG_def Let_def)
  then show ?thesis unfolding is_operand_def by (intro conjI exI [of _ None]) (auto simp: OPERAND_SIZE_def ascii_def)
qed

definition reg_node :: "byte \<Rightarrow> byte \<Rightarrow> byte \<Rightarrow> vm_instruction_node" where
  "reg_node i d e = \<lparr>ins = i, ds1 = d, ds2 = e, val1 = 0, val2 = 0\<rparr>"

lemma fixed_lines:
  "vm_compiler_line code atof (cstr push_reg1) = Some (1, reg_node EOP_PUSH EDS_REG1 0)"
  "vm_compiler_line code atof (cstr pop_reg1) = Some (1, reg_node EOP_POP EDS_REG1 0)"
  "vm_compiler_line code atof (cstr mov_reg2_reg1) = Some (1, reg_node EOP_MOV EDS_REG2 EDS_REG1)"
  by (simp_all add: push_reg1_def pop_reg1_def mov_reg2_reg1_def ascii_def vm_compiler_line_def read_instruction_def
     ndstr_parse_word_n_def ASM_BUF_def char_defs ptr_or_null_def get_ins_def vm_op_names_def cstring_def to_big_def LITTLE_2_BIG_def Let_def
     zero_node_def check_instruction_valid_def get_operand_num_def second_used_def asm_read_operand_def second_operand_def set_operand_def reg_node_def)

lemma emit_fixed:
  assumes "11 \<le> out_size st"
  shows "emit E push_reg1 st = Some (appended st [reg_node EOP_PUSH EDS_REG1 0])"
    "emit E pop_reg1 st = Some (appended st [reg_node EOP_POP EDS_REG1 0])"
    "emit E mov_reg2_reg1 st = Some (appended st [reg_node EOP_MOV EDS_REG2 EDS_REG1])"
  by (rule emit_line(2) [OF fixed_lines(1) _ assms] emit_line(2) [OF fixed_lines(2) _ assms] emit_line(2) [OF fixed_lines(3) _ assms],
      simp add: push_reg1_def pop_reg1_def mov_reg2_reg1_def ascii_def)+

lemma appended_room: "out_size st - 11 * length ns \<le> out_size (appended st ns)"
proof -
  have "length (vm_code ns) \<le> 11 * length ns"
  proof (induction ns)
    case (Cons n ns)
    have "length (vm_instruct_2buf n) \<le> 11" using vm_instruct_2buf_length by blast
    then show ?case using Cons by (simp add: vm_code_def)
  qed (simp add: vm_code_def)
  then show ?thesis by (auto simp: appended_def intro: diff_le_mono2)
qed

lemma wrong_grouping_code:
  assumes "is_operand E a (fst A) (snd A)" "is_operand E b (fst B) (snd B)" "is_operand E c (fst C) (snd C)" "is_operand E d (fst D) (snd D)"
    and op: "op \<in> arith_ops" and size: "88 \<le> buf_size" and f: "6 \<le> fuel"
  shows "oplist_2buf fuel E [OpUnit op False 1 a p, OpUnit 0x2A False 2 b p, OpUnit 0x2B False 1 c p, OpUnit 0 False 0 d p] buf_size =
    Some (vm_code [op_node EOP_MOV (fst A) (snd A), reg_node EOP_PUSH EDS_REG1 0, op_node EOP_MOV (fst B) (snd B),
      op_node EOP_MUL (fst C) (snd C), op_node EOP_ADD (fst D) (snd D), reg_node EOP_MOV EDS_REG2 EDS_REG1,
      reg_node EOP_POP EDS_REG1 0, op_node (op_ins op) EDS_REG2 0])"
proof -
  obtain k where k: "fuel = Suc (Suc (Suc (Suc (Suc (Suc k)))))" using le_Suc_ex [OF f] by (auto simp: numeral_eq_Suc)
  define st where "st = \<lparr>out_size = buf_size, out_code = []\<rparr>"
  have room: "11 \<le> out_size (appended st ns)" if "length ns \<le> 7" for ns
    using appended_room [of st ns] that size by (simp add: st_def)
  have room0: "11 \<le> out_size st" using size by (simp add: st_def)
  have ops: "(0x2A :: byte) \<in> arith_ops" "(0x2B :: byte) \<in> arith_ops" "op_ins 0x2A = EOP_MUL" "op_ins 0x2B = EOP_ADD" "op \<noteq> 0x3D"
    using op by (auto simp: arith_ops_def op_ins_def)
  note emits = emit_mov [OF assms(1) room0] emit_mov [OF assms(2) room] emit_op [OF assms(3) room ops(1)] emit_op [OF assms(4) room ops(2)]
    emit_fixed [OF room] emit_op [OF reg2_operand room op]
  have "\<exists>x. run_experssion fuel E [OpUnit op False 1 a p, OpUnit 0x2A False 2 b p, OpUnit 0x2B False 1 c p, OpUnit 0 False 0 d p] st =
    Some (0, x, appended st [op_node EOP_MOV (fst A) (snd A), reg_node EOP_PUSH EDS_REG1 0, op_node EOP_MOV (fst B) (snd B),
      op_node EOP_MUL (fst C) (snd C), op_node EOP_ADD (fst D) (snd D), reg_node EOP_MOV EDS_REG2 EDS_REG1,
      reg_node EOP_POP EDS_REG1 0, op_node (op_ins op) EDS_REG2 0])"
    using ops by (simp add: k run_round_def calcNodeResult_def calc_first_def calc_round_def calc_next_def emits [simplified] appended_appended)
  then show ?thesis by (auto simp: oplist_2buf_def st_def [symmetric]) (simp add: st_def appended_def)
qed

lemma numeral_not_special:
  assumes "IS_NUMERALS a"
  shows "a \<noteq> 0" "\<not> a \<le> 0x20" "a \<noteq> 0x5B" "\<not> IS_BIG_LATIN a" "\<not> IS_LITTLE_LATIN a" "a \<noteq> 0x2D" "a \<noteq> 0x2B" "a \<noteq> 0x2E"
proof -
  have a: "0x30 \<le> a" "a \<le> 0x39" using assms by (simp_all add: IS_NUMERALS_def)
  have "0x2E < a" "0x20 < a" by (rule less_le_trans [OF _ a(1)], simp)+
  moreover have "a < 0x41" "a < 0x61" by (rule le_less_trans [OF a(2)], simp)+
  ultimately show "a \<noteq> 0" "\<not> a \<le> 0x20" "a \<noteq> 0x5B" "\<not> IS_BIG_LATIN a" "\<not> IS_LITTLE_LATIN a" "a \<noteq> 0x2D" "a \<noteq> 0x2B" "a \<noteq> 0x2E"
    using a by (auto simp: IS_BIG_LATIN_def IS_LITTLE_LATIN_def dest: leD)
qed

lemma read_numerals_digits:
  "\<forall>x \<in> set ds. IS_NUMERALS x \<Longrightarrow> c = 0x20 \<or> c = 0x0A \<Longrightarrow> read_numerals_loop (ds @ c # r) 0 True = Some (ds, c # r, True)"
proof (induction ds)
  case Nil
  then show ?case by (auto simp: IS_NUMERALS_def)
next
  case (Cons d ds)
  then show ?case using numeral_not_special(1) [of d] by simp
qed

lemma digits_operand:
  assumes "ds \<noteq> []" "\<forall>x \<in> set ds. IS_NUMERALS x" "length ds < OPERAND_SIZE"
  shows "is_operand E ds EDS_IMMEDIATE (atof_fn E (cstr ds))"
proof -
  obtain a ds' where ds: "ds = a # ds'" using assms(1) by (cases ds) auto
  have n: "IS_NUMERALS a" using assms(2) ds by simp
  have "asm_read_operand (src_code E) (atof_fn E) (0x20 # ds @ c # r) = Some (Some (EDS_IMMEDIATE, Some (atof_fn E (cstr ds)), c # r))"
    if "c = 0x20 \<or> c = 0x0A" for c r
    using read_numerals_digits [of ds' c r] that assms(2,3) numeral_not_special [OF n] n
    by (simp add: ds asm_read_operand_def ndstr_read_numerals_def OPERAND_SIZE_def ASM_BUF_def)
  then show ?thesis unfolding is_operand_def using assms(3) by (intro conjI exI [of _ "Some (atof_fn E (cstr ds))"]) auto
qed

lemma plain_same:
  "plain d \<Longrightarrow> mm_func vm' = mm_func vm \<Longrightarrow> mem_size vm' = mem_size vm \<Longrightarrow> memory vm' = memory vm \<Longrightarrow> port_mem vm' = port_mem vm \<Longrightarrow>
   vm_getvalue d v vm' = vm_getvalue d v vm"
  by (auto simp: plain_def vm_getvalue_def vm_ref_operand_def address_loc_def mem_limit_def vm_load_def Let_def split: option.split)

lemma run_reg_nodes:
  "vm_run_insnode F (canon (reg_node EOP_MOV EDS_REG2 EDS_REG1)) vm = Some (0, vm\<lparr>reg2 := reg1 vm\<rparr>)"
  "length (stack vm) = VM_STACK_SIZE \<Longrightarrow> 0 \<le> sp vm \<Longrightarrow> sp vm < int VM_STACK_SIZE \<Longrightarrow>
    vm_run_insnode F (canon (reg_node EOP_PUSH EDS_REG1 0)) vm = Some (0, vm\<lparr>stack := (stack vm)[nat (sp vm) := reg1 vm], sp := sp vm + 1\<rparr>)"
  "length (stack vm) = VM_STACK_SIZE \<Longrightarrow> 1 \<le> sp vm \<Longrightarrow> sp vm \<le> int VM_STACK_SIZE \<Longrightarrow>
    vm_run_insnode F (canon (reg_node EOP_POP EDS_REG1 0)) vm = Some (0, vm\<lparr>reg1 := stack vm ! nat (sp vm - 1), sp := sp vm - 1\<rparr>)"
  by (auto simp: canon_def reg_node_def second_used_def get_operand_num_def has_value_def vm_run_insnode_def vm_update_def vm_getvalue_def vm_ref_operand_def
      vm_load_def vm_store_def put_def at_def Let_def)

text \<open>C24. The units of \<open>a - b * c + d\<close> are compiled to a program that computes \<open>a - (b * c + d)\<close>: the inner loop that was
  entered for the product goes on with the sum, since it only stops at an operator of a level below the one in front of
  the product.
\<close>

theorem formula_wrong_grouping:
  assumes "is_operand E a (fst A) (snd A)" "is_operand E b (fst B) (snd B)" "is_operand E c (fst C) (snd C)" "is_operand E d (fst D) (snd D)"
    and pl: "plain (fst A)" "plain (fst B)" "plain (fst C)" "plain (fst D)"
    and "88 \<le> buf_size" "6 \<le> fuel" and ok: "vm_ok vm" and sp: "sp vm < int VM_STACK_SIZE"
  shows "\<exists>code vm'. oplist_2buf fuel E [OpUnit 0x2D False 1 a p, OpUnit 0x2A False 2 b p, OpUnit 0x2B False 1 c p, OpUnit 0 False 0 d p] buf_size =
      Some code \<and> vm_run_cmd F vm (code @ rest) (length code) = Some (0, vm') \<and>
    reg1 vm' = f_sub F (opval vm A) (f_add F (f_mul F (opval vm B) (opval vm C)) (opval vm D))"
proof -
  have g: "vm_getvalue (fst X) (snd X) vm' = Some (opval vm X)" if "plain (fst X)" "mm_func vm' = mm_func vm" "mem_size vm' = mem_size vm"
    "memory vm' = memory vm" "port_mem vm' = port_mem vm" for X vm'
    using plain_same [OF that] vm_ok_getvalue [OF ok] by (metis opval_def option.sel)
  have h: "has_value (fst X) \<or> snd X = 0" if "plain (fst X)" for X :: "byte \<times> vm_value" using that by (auto simp: plain_def has_value_def)
  note mov = run_op_node(2) [OF g h] and arith = run_op_node(1) [OF g h]
  let ?ns = "[op_node EOP_MOV (fst A) (snd A), reg_node EOP_PUSH EDS_REG1 0, op_node EOP_MOV (fst B) (snd B),
      op_node (op_ins 0x2A) (fst C) (snd C), op_node (op_ins 0x2B) (fst D) (snd D), reg_node EOP_MOV EDS_REG2 EDS_REG1,
      reg_node EOP_POP EDS_REG1 0, op_node (op_ins 0x2D) EDS_REG2 0]"
  have ops: "(0x2A :: byte) \<in> arith_ops" "(0x2B :: byte) \<in> arith_ops" "(0x2D :: byte) \<in> arith_ops" by (simp_all add: arith_ops_def)
  have s: "length (stack vm) = VM_STACK_SIZE" "0 \<le> sp vm" using ok by (simp_all add: vm_ok_def)
  have sub: "vm_run_insnode F (canon (op_node (op_ins 0x2D) EDS_REG2 0)) vm' = Some (0, vm'\<lparr>reg1 := f_sub F (reg1 vm') (reg2 vm')\<rparr>)" for vm'
    using run_op_node(1) [of EDS_REG2 0 vm' "reg2 vm'" "0x2D" F] ops(3) by (simp add: vm_getvalue_def vm_ref_operand_def vm_load_def apply_op_def)
  have "\<exists>vm'. run_nodes F ?ns vm = Some (0, vm') \<and> reg1 vm' = f_sub F (opval vm A) (f_add F (f_mul F (opval vm B) (opval vm C)) (opval vm D))"
    using pl s sp by (simp add: mov arith ops sub run_reg_nodes apply_op_def)
  moreover have "oplist_2buf fuel E [OpUnit 0x2D False 1 a p, OpUnit 0x2A False 2 b p, OpUnit 0x2B False 1 c p, OpUnit 0 False 0 d p] buf_size = Some (vm_code ?ns)"
    using wrong_grouping_code [OF assms(1-4) ops(3) assms(9,10), of p] by (simp add: op_ins_def)
  ultimately show ?thesis by (auto simp: vm_run_cmd_nodes)
qed

section \<open>Samples\<close>

text \<open>Decimal numbers as integers.\<close>

definition sample_formula_env :: formula_env where
  "sample_formula_env = \<lparr>src_code = 0, atof_fn = (\<lambda>s. word_of_int (case c_atoi 32 s of Some v \<Rightarrow> v | None \<Rightarrow> 0)), replace_fn = None\<rparr>"

definition number_of :: "sOperateUnit \<Rightarrow> byte \<times> vm_value" where
  "number_of u = (EDS_IMMEDIATE, atof_fn sample_formula_env (cstr (operand u)))"

lemma plain_number_of: "plain (fst (number_of u))"
  by (simp add: number_of_def plain_def)

definition unit_ok :: "byte list \<Rightarrow> bool" where
  "unit_ok ds \<longleftrightarrow> ds \<noteq> [] \<and> (\<forall>x \<in> set ds. IS_NUMERALS x) \<and> length ds < OPERAND_SIZE"

lemma digit_units: "unit_ok ds \<Longrightarrow> is_operand sample_formula_env ds (fst (number_of (OpUnit op f l ds p))) (snd (number_of (OpUnit op f l ds p)))"
  unfolding unit_ok_def number_of_def using digits_operand by simp

lemma sample_digits: "unit_ok [0x31]" "unit_ok [0x32]" "unit_ok [0x33]" "unit_ok [0x34]"
  by (simp_all add: unit_ok_def IS_NUMERALS_def OPERAND_SIZE_def)

text \<open>The formula \<open>(1+2)*3-4\<close> and its units.\<close>

definition bracket_units :: "sOperateUnit list" where
  "bracket_units = [OpUnit 0x2B False 4 [0x31] ([], []), OpUnit 0x2A False 2 [0x32] ([], []), OpUnit 0x2D False 1 [0x33] ([], []),
     OpUnit 0 False 0 [0x34] ([], [])]"

theorem formula_left_to_right_witness:
  "parse_express_2node 20 sample_formula_env (cstring ''(1+2)*3-4'') True False 0 [] OPUNIT_NUM = Some (0, bracket_units, 1020) \<and>
   (\<exists>code vm'. oplist_2buf 6 sample_formula_env bracket_units 44 = Some code \<and>
     vm_run_cmd int_arith sample_vm code (length code) = Some (0, vm') \<and> reg1 vm' = 5)"
proof
  show "parse_express_2node 20 sample_formula_env (cstring ''(1+2)*3-4'') True False 0 [] OPUNIT_NUM = Some (0, bracket_units, 1020)"
    by code_simp
  obtain u us where b: "bracket_units = u # us" "u = hd bracket_units" "us = tl bracket_units" by (simp add: bracket_units_def)
  have c: "chain sample_formula_env number_of (u # us)"
    unfolding b(1) [symmetric] by (simp add: bracket_units_def digit_units sample_digits arith_ops_def)
  have r: "left_eval int_arith (\<lambda>x. opval sample_vm (number_of x)) (opval sample_vm (number_of u)) u us = 5"
    unfolding b(2,3) by code_simp
  have "\<exists>code. oplist_2buf 6 sample_formula_env (u # us) 44 = Some code \<and> vm_run_cmd int_arith sample_vm (code @ []) (length code) =
      Some (0, sample_vm\<lparr>reg1 := left_eval int_arith (\<lambda>x. opval sample_vm (number_of x)) (opval sample_vm (number_of u)) u us\<rparr>)"
    by (rule formula_left_to_right [OF c]) (simp_all add: plain_number_of sample_vm_ok, simp_all add: b(3) bracket_units_def)
  then show "\<exists>code vm'. oplist_2buf 6 sample_formula_env bracket_units 44 = Some code \<and>
     vm_run_cmd int_arith sample_vm code (length code) = Some (0, vm') \<and> reg1 vm' = 5"
    unfolding r b(1) by auto
qed

text \<open>The value of the sample is \<open>-9\<close>, that of the formula \<open>-1\<close>.\<close>

theorem formula_wrong_grouping_witness:
  "\<exists>us code vm'. parse_express_2node 20 sample_formula_env (cstring ''1-2*3+4'') True False 0 [] OPUNIT_NUM = Some (0, us, 1020) \<and>
     oplist_2buf 6 sample_formula_env us 88 = Some code \<and>
     vm_run_cmd int_arith sample_vm code (length code) = Some (0, vm') \<and> reg1 vm' = -9"
proof -
  let ?us = "[OpUnit 0x2D False 1 [0x31] ([], []), OpUnit 0x2A False 2 [0x32] ([], []), OpUnit 0x2B False 1 [0x33] ([], []),
     OpUnit 0 False 0 [0x34] ([], [])]"
  let ?n = "\<lambda>c. number_of (OpUnit 0 False 0 [c] ([], []))"
  have p: "parse_express_2node 20 sample_formula_env (cstring ''1-2*3+4'') True False 0 [] OPUNIT_NUM = Some (0, ?us, 1020)"
    by code_simp
  have v: "f_sub int_arith (opval sample_vm (?n 0x31)) (f_add int_arith (f_mul int_arith (opval sample_vm (?n 0x32)) (opval sample_vm (?n 0x33)))
      (opval sample_vm (?n 0x34))) = -9"
    by code_simp
  have "\<exists>code vm'. oplist_2buf 6 sample_formula_env ?us 88 = Some code \<and> vm_run_cmd int_arith sample_vm (code @ []) (length code) = Some (0, vm') \<and>
      reg1 vm' = f_sub int_arith (opval sample_vm (?n 0x31)) (f_add int_arith (f_mul int_arith (opval sample_vm (?n 0x32)) (opval sample_vm (?n 0x33)))
      (opval sample_vm (?n 0x34)))"
    by (rule formula_wrong_grouping) (simp_all add: digit_units sample_digits plain_number_of sample_vm_ok VM_STACK_SIZE_def)
  then show ?thesis unfolding v using p by auto
qed

end
