(* ===== verification/Base64.thy ===== *)
theory Base64
  imports Nd_Prelude
begin

text \<open>
  The Base64 routines of \<^verbatim>\<open>src/nd_crypt/src/ndcrypt.c\<close>. Encoding writes characters from the start of the
  destination on; the model first gives the characters with the final null character and then stores them, so
  that a destination that is too small has no value. Lengths are below \<open>2 ^ 31\<close>, so that the 32-bit counters do not wrap.
\<close>

definition nd_alphabet :: "byte list" where
  "nd_alphabet = map of_nat ([65..<91] @ [97..<123] @ [48..<58] @ [43, 47])"

definition BASE64_NUMBER_OF_CHARACTERS_PER_LINE :: nat where
  "BASE64_NUMBER_OF_CHARACTERS_PER_LINE = 72"

section \<open>Encoding\<close>

definition sextet1 :: "byte \<Rightarrow> byte" where "sextet1 a = nd_alphabet ! unat (drop_bit 2 a)"

definition sextet2 :: "byte \<Rightarrow> byte \<Rightarrow> byte" where
  "sextet2 a b = nd_alphabet ! unat (push_bit 4 (a AND 0x03) OR drop_bit 4 (b AND 0xF0))"

definition sextet3 :: "byte \<Rightarrow> byte \<Rightarrow> byte" where
  "sextet3 b c = nd_alphabet ! unat (push_bit 2 (b AND 0x0F) OR drop_bit 6 (c AND 0xC0))"

definition sextet4 :: "byte \<Rightarrow> byte" where "sextet4 c = nd_alphabet ! unat (c AND 0x3F)"

text \<open>The loop over the source; \<open>n\<close> is \<open>number_of_bytes_encoded\<close>.\<close>

fun encode_loop :: "byte list \<Rightarrow> nat \<Rightarrow> byte list" where
  "encode_loop [] n = [0x3D, 0]"
| "encode_loop [a] n = [sextet1 a, sextet2 a 0, 0x3D, 0x3D, 0]"
| "encode_loop [a, b] n = [sextet1 a, sextet2 a b, sextet3 b 0, 0x3D, 0]"
| "encode_loop (a # b # c # r) n = [sextet1 a, sextet2 a b, sextet3 b c, sextet4 c] @
     (if (n + 4) mod BASE64_NUMBER_OF_CHARACTERS_PER_LINE = 0 then [13, 10] @ encode_loop r (n + 6)
      else encode_loop r (n + 4))"

definition base64_encode :: "byte list \<Rightarrow> byte list \<Rightarrow> (int \<times> byte list) option" where
  "base64_encode source destination_string = do {
     d \<leftarrow> mem_write destination_string 0 (encode_loop source 0);
     Some (0, d)
   }"

section \<open>Decoding\<close>

text \<open>The tables \<open>inalphabet\<close> and \<open>decoder\<close>. They are filled from the terminator of the alphabet down, which makes
  the null character a member with the value 64.\<close>

definition decoder :: "byte \<Rightarrow> nat option" where
  "decoder c = List.find (\<lambda>i. (nd_alphabet @ [0]) ! i = c) [0..<65]"

text \<open>The loop over the input: whether it ended at a \<open>=\<close>, the bits, the number of characters they come from, and the
  bytes written.\<close>

fun decode_loop :: "byte list \<Rightarrow> u32 \<Rightarrow> nat \<Rightarrow> bool \<times> u32 \<times> nat \<times> byte list" where
  "decode_loop [] bits char_count = (False, bits, char_count, [])"
| "decode_loop (c # cs) bits char_count =
     (if c = 0x3D then (True, bits, char_count, [])
      else case decoder c of
        None \<Rightarrow> decode_loop cs bits char_count
      | Some v \<Rightarrow>
          let bits = bits + of_nat v in
          if char_count + 1 = 4 then
            (case decode_loop cs 0 0 of (e, b, k, out) \<Rightarrow>
               (e, b, k, [ucast (drop_bit 16 bits), ucast (drop_bit 8 bits), ucast bits] @ out))
          else decode_loop cs (push_bit 6 bits) (char_count + 1))"

definition decode_rest :: "bool \<Rightarrow> u32 \<Rightarrow> nat \<Rightarrow> int \<times> byte list" where
  "decode_rest e bits char_count =
     (if e \<and> char_count = 1 then (-1, [])
      else if e \<and> char_count = 2 then (0, [ucast (drop_bit 10 bits)])
      else if e \<and> char_count = 3 then (0, [ucast (drop_bit 16 bits), ucast (drop_bit 8 bits)])
      else (0, []))"

text \<open>The result, \<open>output_len\<close> and the output.\<close>

definition base64_decode :: "byte list \<Rightarrow> byte list \<Rightarrow> (int \<times> nat \<times> byte list) option" where
  "base64_decode input output = (case decode_loop input 0 0 of (e, bits, char_count, bs) \<Rightarrow>
     case decode_rest e bits char_count of (r, rest) \<Rightarrow> do {
       out \<leftarrow> mem_write output 0 (bs @ rest);
       Some (r, length (bs @ rest), out)
     })"

section \<open>Lemmas\<close>

lemma find_nth: "distinct xs \<Longrightarrow> i < length xs \<Longrightarrow> List.find (\<lambda>j. xs ! j = xs ! i) [0..<length xs] = Some i"
  by (auto simp: find_Some_iff distinct_conv_nth intro!: exI [of _ i])

lemma inj_byte: "inj_on (of_nat :: nat \<Rightarrow> byte) {..<256}"
  by (rule inj_on_inverseI [where g = unat]) (simp add: unat_of_nat_eq)

lemma alphabet_distinct: "distinct (nd_alphabet @ [0, 0x3D, 13, 10])"
proof -
  let ?l = "[65..<91] @ [97..<123] @ [48..<58] @ [43, 47] @ [0, 61, 13, 10 :: nat]"
  have "nd_alphabet @ [0, 0x3D, 13, 10] = map of_nat ?l" by (simp add: nd_alphabet_def)
  moreover have "distinct ?l" "set ?l \<subseteq> {..<256}" by auto
  ultimately show ?thesis by (simp only: distinct_map inj_on_subset [OF inj_byte])
qed

lemma alphabet_length: "length nd_alphabet = 64" by (simp add: nd_alphabet_def)

lemma decoder_nth: "i < 65 \<Longrightarrow> decoder ((nd_alphabet @ [0]) ! i) = Some i"
  unfolding decoder_def using find_nth [of "nd_alphabet @ [0]" i] alphabet_distinct alphabet_length by simp

lemma decoder_alphabet: "i < 64 \<Longrightarrow> decoder (nd_alphabet ! i) = Some i" "i < 64 \<Longrightarrow> nd_alphabet ! i \<noteq> 0x3D"
proof -
  assume i: "i < 64"
  then show "decoder (nd_alphabet ! i) = Some i" using decoder_nth [of i] alphabet_length by (simp add: nth_append)
  have "nd_alphabet ! i \<in> set nd_alphabet" using i alphabet_length by (intro nth_mem) simp
  then show "nd_alphabet ! i \<noteq> 0x3D" using alphabet_distinct by auto
qed

text \<open>The decoder takes a null character for a digit.\<close>

lemma decoder_null: "decoder 0 = Some 64"
  using decoder_nth [of 64] alphabet_length by (simp add: nth_append)

lemma decoder_line_end: "decoder 13 = None" "decoder 10 = None"
proof -
  have "c \<notin> set (nd_alphabet @ [0]) \<Longrightarrow> decoder c = None" for c
    unfolding decoder_def find_None_iff using alphabet_length nth_mem [of _ "nd_alphabet @ [0]"] by fastforce
  then show "decoder 13 = None" "decoder 10 = None" using alphabet_distinct by auto
qed

lemma byte_high_bits: "8 \<le> m + n \<Longrightarrow> take_bit m (drop_bit n (b :: byte)) = drop_bit n b"
  by (simp add: take_bit_drop_bit take_bit_word_eq_self)

lemma masks:
  fixes a :: byte
  shows "a AND 0x03 = take_bit 2 a" "a AND 0x0F = take_bit 4 a" "a AND 0x3F = take_bit 6 a"
    "drop_bit 4 (a AND 0xF0) = drop_bit 4 a" "drop_bit 6 (a AND 0xC0) = drop_bit 6 a"
proof -
  have m: "(0x03 :: byte) = mask 2" "(0x0F :: byte) = mask 4" "(0x3F :: byte) = mask 6" by (simp_all add: mask_eq_exp_minus_1)
  show *: "a AND 0x03 = take_bit 2 a" "a AND 0x0F = take_bit 4 a" "a AND 0x3F = take_bit 6 a" for a :: byte
    unfolding m by (rule take_bit_eq_mask [symmetric])+
  have "drop_bit 4 (a AND 0xF0) = drop_bit 4 a AND 0x0F" "drop_bit 6 (a AND 0xC0) = drop_bit 6 a AND 0x03" by simp_all
  then show "drop_bit 4 (a AND 0xF0) = drop_bit 4 a" "drop_bit 6 (a AND 0xC0) = drop_bit 6 a"
    by (simp_all add: * byte_high_bits)
qed

text \<open>The four groups of six bits of three bytes.\<close>

definition sext :: "byte \<Rightarrow> byte \<Rightarrow> byte \<Rightarrow> byte list" where
  "sext a b c = [drop_bit 2 a, push_bit 4 (take_bit 2 a) OR drop_bit 4 b, push_bit 2 (take_bit 4 b) OR drop_bit 6 c, take_bit 6 c]"

lemma sext_six: "s \<in> set (sext a b c) \<Longrightarrow> take_bit 6 s = s"
  by (auto simp: sext_def take_bit_or take_bit_push_bit byte_high_bits)

lemma six_less: "take_bit 6 s = s \<Longrightarrow> unat (s :: byte) < 64"
proof -
  assume "take_bit 6 s = s"
  then have "take_bit 6 (unat s) = unat s" by (metis unsigned_take_bit_eq)
  then show ?thesis using take_bit_nat_less_exp [of 6 "unat s"] by simp
qed

lemma sextets:
  "sextet1 a = nd_alphabet ! unat (sext a b c ! 0)" "sextet2 a b = nd_alphabet ! unat (sext a b c ! 1)"
  "sextet3 b c = nd_alphabet ! unat (sext a b c ! 2)" "sextet4 c = nd_alphabet ! unat (sext a b c ! 3)"
  by (simp_all add: sextet1_def sextet2_def sextet3_def sextet4_def sext_def masks byte_high_bits)

text \<open>Collecting the groups again.\<close>

definition collect6 :: "byte list \<Rightarrow> u32" where
  "collect6 = foldl (\<lambda>bits s. push_bit 6 bits OR ucast s) 0"

lemma add6: "take_bit 6 s = s \<Longrightarrow> push_bit 6 bits + ucast s = push_bit 6 bits OR (ucast (s :: byte) :: u32)"
proof (rule disjunctive_add)
  fix n
  assume "take_bit 6 s = s"
  then have "\<not> bit s n" if "6 \<le> n" using that by (metis bit_take_bit_iff not_le)
  then show "\<not> bit (push_bit 6 bits) n \<or> \<not> bit (ucast s :: u32) n" by (auto simp: bit_simps)
qed

lemma collect_bytes: "collect6 (sext a b c) = u32_of_le c b a 0"
proof (rule bit_word_eqI)
  fix n
  assume "n < LENGTH(32)"
  then consider "n < 6" | "6 \<le> n" "n < 8" | "8 \<le> n" "n < 12" | "12 \<le> n" "n < 16" | "16 \<le> n" "n < 18" | "18 \<le> n" "n < 24" | "24 \<le> n" "n < 32"
    by fastforce
  moreover have "Suc (Suc (n - 18)) = n - 16" if "18 \<le> n" using that by arith
  ultimately show "bit (collect6 (sext a b c)) n = bit (u32_of_le c b a 0) n"
    by cases (auto simp: collect6_def sext_def u32_of_le_def bit_simps byte_no_bit)
qed

lemma decode_six:
  "take_bit 6 s = (s :: byte) \<Longrightarrow> decode_loop (nd_alphabet ! unat s # cs) (push_bit 6 bits) n =
     (let bits = push_bit 6 bits OR ucast s in
      if n + 1 = 4 then
        (case decode_loop cs 0 0 of (e, b, k, out) \<Rightarrow>
           (e, b, k, [ucast (drop_bit 16 bits), ucast (drop_bit 8 bits), ucast bits] @ out))
      else decode_loop cs (push_bit 6 bits) (n + 1))"
proof -
  assume six: "take_bit 6 s = s"
  have "push_bit 6 bits + of_nat (unat s) = push_bit 6 bits OR (ucast s :: u32)" using add6 [OF six] by (simp only: of_nat_unat)
  then show ?thesis
    by (simp only: decode_loop.simps decoder_alphabet [OF six_less [OF six]] if_False option.case Let_def)
qed

lemma decode_sixes:
  "\<forall>s \<in> set ss. take_bit 6 s = (s :: byte) \<Longrightarrow> n + length ss < 4 \<Longrightarrow>
   decode_loop (map (\<lambda>s. nd_alphabet ! unat s) ss @ cs) (push_bit 6 bits) n =
   decode_loop cs (push_bit 6 (foldl (\<lambda>bits s. push_bit 6 bits OR ucast s) bits ss)) (n + length ss)"
proof (induction ss arbitrary: bits n)
  case (Cons s ss)
  have "decode_loop (nd_alphabet ! unat s # map (\<lambda>s. nd_alphabet ! unat s) ss @ cs) (push_bit 6 bits) n =
    decode_loop (map (\<lambda>s. nd_alphabet ! unat s) ss @ cs) (push_bit 6 (push_bit 6 bits OR ucast s)) (n + 1)"
    using Cons.prems by (subst decode_six) (simp_all add: Let_def)
  then show ?case using Cons.IH [of "n + 1" "push_bit 6 bits OR ucast s"] Cons.prems by (simp del: push_bit_or)
qed simp

lemma decode_prefix:
  assumes "k < 4"
  shows "decode_loop (map (\<lambda>s. nd_alphabet ! unat s) (take k (sext a b c)) @ cs) 0 0 =
    decode_loop cs (push_bit 6 (collect6 (take k (sext a b c)))) k"
proof -
  have "\<forall>s \<in> set (take k (sext a b c)). take_bit 6 s = s" using sext_six by (meson in_set_takeD)
  from decode_sixes [OF this, of 0 cs 0] assms show ?thesis by (simp add: collect6_def sext_def)
qed

lemma decode_group:
  "decode_loop ([sextet1 a, sextet2 a b, sextet3 b c, sextet4 c] @ cs) 0 0 =
    (case decode_loop cs 0 0 of (e, bits, k, out) \<Rightarrow> (e, bits, k, [a, b, c] @ out))"
proof -
  let ?t = "take 3 (sext a b c)" and ?d = "sext a b c ! 3"
  have d: "take_bit 6 ?d = ?d" by (simp add: sext_def)
  have "map (\<lambda>s. nd_alphabet ! unat s) ?t = [sextet1 a, sextet2 a b, sextet3 b c]"
    unfolding sextets(1) [of a b c] sextets(2) [of a b c] sextets(3) [of b c a] by (simp add: sext_def)
  then have "decode_loop ([sextet1 a, sextet2 a b, sextet3 b c, sextet4 c] @ cs) 0 0 =
      decode_loop (nd_alphabet ! unat ?d # cs) (push_bit 6 (collect6 ?t)) 3"
    using decode_prefix [of 3 a b c "sextet4 c # cs"] sextets(4) [of c a b] by simp
  moreover have "push_bit 6 (collect6 ?t) OR ucast ?d = u32_of_le c b a 0"
    unfolding collect_bytes [of a b c, symmetric] by (simp add: collect6_def sext_def)
  ultimately show ?thesis using decode_six [OF d, of cs "collect6 ?t" 3] by (simp add: Let_def)
qed

text \<open>One and two bytes at the end.\<close>

lemma collect_one: "ucast (drop_bit 10 (push_bit 6 (collect6 (take 2 (sext a 0 0))))) = a"
proof -
  have "collect6 (take 2 (sext a 0 0)) = push_bit 4 (ucast a)"
  proof (rule bit_word_eqI)
    fix n
    assume "n < LENGTH(32)"
    then consider "n < 4" | "4 \<le> n" "n < 6" | "6 \<le> n" "n < 12" | "12 \<le> n" "n < 32" by fastforce
    moreover have "Suc (Suc (n - 6)) = n - 4" if "6 \<le> n" using that by arith
    ultimately show "bit (collect6 (take 2 (sext a 0 0))) n = bit (push_bit 4 (ucast a :: u32)) n"
      by cases (auto simp: collect6_def sext_def bit_simps byte_no_bit)
  qed
  then show ?thesis by (auto intro!: bit_word_eqI simp: bit_simps)
qed

lemma collect_two: "push_bit 6 (collect6 (take 3 (sext a b 0))) = u32_of_le 0 b a 0"
  unfolding collect_bytes [of a b 0, symmetric] by (simp add: collect6_def sext_def)

lemma line_end_skipped: "decode_loop (13 # 10 # cs) bits k = decode_loop cs bits k"
  by (simp add: decoder_line_end)

lemma encode_decode:
  "\<exists>e bits k out. decode_loop (encode_loop src n @ rest) 0 0 = (e, bits, k, out) \<and> fst (decode_rest e bits k) = 0 \<and>
     out @ snd (decode_rest e bits k) = src"
proof (induction src n rule: encode_loop.induct)
  case (2 a n)
  have "decode_loop ([sextet1 a, sextet2 a 0] @ [0x3D, 0x3D, 0] @ rest) 0 0 = (True, push_bit 6 (collect6 (take 2 (sext a 0 0))), 2, [])"
    using decode_prefix [of 2 a 0 0 "[0x3D, 0x3D, 0] @ rest"] sextets(1,2) [of a 0 0] by (simp add: sext_def)
  then show ?case using collect_one [of a] by (auto simp: decode_rest_def simp del: decode_loop.simps)
next
  case (3 a b n)
  have "decode_loop ([sextet1 a, sextet2 a b, sextet3 b 0] @ [0x3D, 0] @ rest) 0 0 = (True, push_bit 6 (collect6 (take 3 (sext a b 0))), 3, [])"
    using decode_prefix [of 3 a b 0 "[0x3D, 0] @ rest"] sextets(1,2) [of a b 0] sextets(3) [of b 0 a] by (simp add: sext_def)
  then show ?case by (auto simp: decode_rest_def collect_two simp del: decode_loop.simps)
next
  case (4 a b c r n)
  let ?t = "if (n + 4) mod BASE64_NUMBER_OF_CHARACTERS_PER_LINE = 0 then encode_loop r (n + 6) else encode_loop r (n + 4)"
  have "\<exists>e bits k out. decode_loop (?t @ rest) 0 0 = (e, bits, k, out) \<and> fst (decode_rest e bits k) = 0 \<and> out @ snd (decode_rest e bits k) = r"
    using 4 by (auto split: if_split)
  moreover have "decode_loop (encode_loop (a # b # c # r) n @ rest) 0 0 = (case decode_loop (?t @ rest) 0 0 of (e, bits, k, out) \<Rightarrow> (e, bits, k, [a, b, c] @ out))"
    using decode_group [of a b c "?t @ rest"] decode_group [of a b c "[13, 10] @ encode_loop r (n + 6) @ rest"]
      line_end_skipped [of "encode_loop r (n + 6) @ rest"] by (simp split: if_splits del: decode_loop.simps)
  ultimately show ?case by (auto simp del: encode_loop.simps decode_loop.simps)
qed (auto simp: decode_rest_def)

section \<open>Properties\<close>

text \<open>C30. Decoding inverts encoding: for every data that fits the output, decoding the characters \<open>base64_encode\<close> has stored,
  whatever stands behind them, succeeds and returns the data and its length.\<close>

theorem base64_round_trip:
  assumes "base64_encode src dst = Some (0, dst')" "length src \<le> length out"
  shows "base64_decode dst' out = Some (0, length src, src @ drop (length src) out)"
proof -
  obtain rest where "dst' = encode_loop src 0 @ rest" using assms(1) by (auto simp: base64_encode_def mem_write_def split: if_splits)
  moreover obtain e bits k bs where "decode_loop (encode_loop src 0 @ rest) 0 0 = (e, bits, k, bs)" "fst (decode_rest e bits k) = 0"
      "bs @ snd (decode_rest e bits k) = src"
    using encode_decode by blast
  ultimately show ?thesis using assms(2)
    by (cases "decode_rest e bits k") (auto simp: base64_decode_def mem_write_def)
qed

theorem base64_round_trip_witness:
  "\<exists>dst'. base64_encode [1, 2, 3, 4] (replicate 10 0) = Some (0, dst') \<and> base64_decode dst' [7, 7, 7, 7, 9] = Some (0, 4, [1, 2, 3, 4, 9])"
proof -
  have "length (encode_loop [1, 2, 3, 4] 0) = 9" by code_simp
  then have "\<exists>dst'. base64_encode [1, 2, 3, 4] (replicate 10 0) = Some (0, dst')" by (simp add: base64_encode_def mem_write_def)
  then obtain dst' where d: "base64_encode [1, 2, 3, 4] (replicate 10 0) = Some (0, dst')" by blast
  from base64_round_trip [OF d, of "[7, 7, 7, 7, 9]"] d show ?thesis by auto
qed

lemma encode_loop_length_short:
  "n mod 4 = 2 \<Longrightarrow> length (encode_loop src n) = 4 * (length src div 3) + (if length src mod 3 = 0 then 2 else 5)"
proof (induction src n rule: encode_loop.induct)
  case (4 a b c r n)
  have "(n + 4) mod 4 = 2" using 4 by simp
  moreover have "(n + 4) mod 72 \<noteq> 0" using 4(3) by presburger
  moreover have "(3 + length r) div 3 = 1 + length r div 3" by simp
  ultimately show ?case using 4 by (auto simp: BASE64_NUMBER_OF_CHARACTERS_PER_LINE_def)
qed simp_all

lemma encode_loop_length:
  "n = 4 * j \<Longrightarrow> j < 18 \<Longrightarrow> length (encode_loop src n) =
     4 * (length src div 3) + (if length src mod 3 = 0 then 2 else 5) + (if 18 \<le> j + length src div 3 then 2 else 0)"
proof (induction src n arbitrary: j rule: encode_loop.induct)
  case (4 a b c r n)
  have l: "(3 + length r) div 3 = 1 + length r div 3" "(3 + length r) mod 3 = length r mod 3" by simp_all
  show ?case
  proof (cases "j = 17")
    case True
    then have "(n + 6) mod 4 = 2" "(n + 4) mod 72 = 0" using 4(3) by simp_all
    then show ?thesis using encode_loop_length_short [of "n + 6" r] True l
      by (simp add: BASE64_NUMBER_OF_CHARACTERS_PER_LINE_def)
  next
    case False
    then have "(n + 4) mod 72 \<noteq> 0" using 4(3,4) by presburger
    then show ?thesis using 4(2) [of "j + 1"] 4(3,4) False l by (simp add: BASE64_NUMBER_OF_CHARACTERS_PER_LINE_def)
  qed
qed simp_all

text \<open>How much \<open>base64_encode\<close> stores for a source of \<open>l\<close> bytes: four characters for every three bytes, a line break only
  once, behind the first 72 characters, and at the end two characters for a multiple of three (a \<open>=\<close> that no padding
  calls for, and the terminator) or five. It needs a destination of that size, and no more.\<close>

theorem base64_encode_size:
  "let l = length src; n = 4 * (l div 3) + (if l mod 3 = 0 then 2 else 5) + (if 54 \<le> l then 2 else 0) in
   (base64_encode src dst \<noteq> None \<longleftrightarrow> n \<le> length dst)"
proof -
  have "18 \<le> length src div 3 \<longleftrightarrow> 54 \<le> length src" by presburger
  then show ?thesis using encode_loop_length [of 0 0 src] by (simp add: Let_def base64_encode_def mem_write_def)
qed

end
