(* ===== verification/Nd_List.thy ===== *)
theory Nd_List
  imports Nd_Prelude
begin

text \<open>
  The doubly linked lists of \<^verbatim>\<open>include/nd_common/list.h\<close>, which the allocators, the timers and the server use. The
  memory is explicit: two partial maps hold the fields \<open>next\<close> and \<open>prev\<close> of the list heads by their address, and an
  operation on an address that is not allocated has no value. \<open>dlist h head xs\<close> says that the heads \<open>xs\<close> hang in this order
  in the list of \<open>head\<close>; every operation is shown to do to \<open>xs\<close> what its name says and to leave all other lists alone.
\<close>

type_synonym addr = nat

record lheap =
  lnext :: "addr \<rightharpoonup> addr"
  lprev :: "addr \<rightharpoonup> addr"

section \<open>Operations\<close>

definition set_next :: "addr \<Rightarrow> addr \<Rightarrow> lheap \<Rightarrow> lheap option" where
  "set_next p v h = (if lnext h p = None then None else Some (h\<lparr>lnext := (lnext h)(p \<mapsto> v)\<rparr>))"

definition set_prev :: "addr \<Rightarrow> addr \<Rightarrow> lheap \<Rightarrow> lheap option" where
  "set_prev p v h = (if lprev h p = None then None else Some (h\<lparr>lprev := (lprev h)(p \<mapsto> v)\<rparr>))"

definition INIT_LIST_HEAD :: "addr \<Rightarrow> lheap \<Rightarrow> lheap option" where
  "INIT_LIST_HEAD ptr h = do { h \<leftarrow> set_next ptr ptr h; set_prev ptr ptr h }"

definition list_add_between :: "addr \<Rightarrow> addr \<Rightarrow> addr \<Rightarrow> lheap \<Rightarrow> lheap option" where
  "list_add_between new_node prev next h = do {
     h \<leftarrow> set_prev next new_node h;
     h \<leftarrow> set_next new_node next h;
     h \<leftarrow> set_prev new_node prev h;
     set_next prev new_node h
   }"

definition list_add :: "addr \<Rightarrow> addr \<Rightarrow> lheap \<Rightarrow> lheap option" where
  "list_add new_node head h = do { n \<leftarrow> lnext h head; list_add_between new_node head n h }"

definition list_add_tail :: "addr \<Rightarrow> addr \<Rightarrow> lheap \<Rightarrow> lheap option" where
  "list_add_tail new_node head h = do { p \<leftarrow> lprev h head; list_add_between new_node p head h }"

definition list_del_between :: "addr \<Rightarrow> addr \<Rightarrow> lheap \<Rightarrow> lheap option" where
  "list_del_between prev next h = do { h \<leftarrow> set_prev next prev h; set_next prev next h }"

definition list_del :: "addr \<Rightarrow> lheap \<Rightarrow> lheap option" where
  "list_del entry h = do { p \<leftarrow> lprev h entry; n \<leftarrow> lnext h entry; list_del_between p n h }"

definition list_del_init :: "addr \<Rightarrow> lheap \<Rightarrow> lheap option" where
  "list_del_init entry h = do { h \<leftarrow> list_del entry h; INIT_LIST_HEAD entry h }"

definition list_empty :: "addr \<Rightarrow> lheap \<Rightarrow> bool option" where
  "list_empty head h = do { n \<leftarrow> lnext h head; Some (n = head) }"

definition list_join :: "addr \<Rightarrow> addr \<Rightarrow> lheap \<Rightarrow> lheap option" where
  "list_join list head h = do {
     first \<leftarrow> lnext h list;
     if first \<noteq> list then do {
       last \<leftarrow> lprev h list;
       at \<leftarrow> lnext h head;
       h \<leftarrow> set_prev first head h;
       h \<leftarrow> set_next head first h;
       h \<leftarrow> set_next last at h;
       h \<leftarrow> set_prev at last h;
       INIT_LIST_HEAD list h
     } else Some h
   }"

text \<open>\<open>list_for_each\<close>: the heads from \<open>pos\<close> on up to the list head; \<open>fuel\<close> bounds their number.\<close>

fun list_walk :: "nat \<Rightarrow> addr \<Rightarrow> addr \<Rightarrow> lheap \<Rightarrow> addr list option" where
  "list_walk 0 pos head h = (if pos = head then Some [] else None)"
| "list_walk (Suc k) pos head h =
     (if pos = head then Some []
      else do { n \<leftarrow> lnext h pos; xs \<leftarrow> list_walk k n head h; Some (pos # xs) })"

section \<open>Lists in the heap\<close>

fun links :: "lheap \<Rightarrow> addr \<Rightarrow> addr list \<Rightarrow> addr \<Rightarrow> bool" where
  "links h p [] q \<longleftrightarrow> lnext h p = Some q \<and> lprev h q = Some p"
| "links h p (x # xs) q \<longleftrightarrow> lnext h p = Some x \<and> lprev h x = Some p \<and> links h x xs q"

definition dlist :: "lheap \<Rightarrow> addr \<Rightarrow> addr list \<Rightarrow> bool" where
  "dlist h head xs \<longleftrightarrow> links h head xs head \<and> distinct (head # xs)"

definition allocated :: "lheap \<Rightarrow> addr \<Rightarrow> bool" where
  "allocated h p \<longleftrightarrow> lnext h p \<noteq> None \<and> lprev h p \<noteq> None"

text \<open>Nothing outside of \<open>S\<close> changes, and nothing is allocated or freed.\<close>

definition unchanged :: "addr set \<Rightarrow> lheap \<Rightarrow> lheap \<Rightarrow> bool" where
  "unchanged S h h' \<longleftrightarrow> (\<forall>p. p \<notin> S \<longrightarrow> lnext h' p = lnext h p \<and> lprev h' p = lprev h p) \<and>
     dom (lnext h') = dom (lnext h) \<and> dom (lprev h') = dom (lprev h)"

lemma links_append: "links h p (xs @ y # ys) q \<longleftrightarrow> links h p xs y \<and> links h y ys q"
  by (induction xs arbitrary: p) auto

lemma links_next [simp]: "a \<notin> set (p # xs) \<Longrightarrow> links (h\<lparr>lnext := (lnext h)(a \<mapsto> v)\<rparr>) p xs q = links h p xs q"
  by (induction xs arbitrary: p) auto

lemma links_prev [simp]: "a \<notin> set (q # xs) \<Longrightarrow> links (h\<lparr>lprev := (lprev h)(a \<mapsto> v)\<rparr>) p xs q = links h p xs q"
  by (induction xs arbitrary: p) auto

lemma links_cong:
  "(\<And>a. a \<in> set (p # xs) \<Longrightarrow> lnext h' a = lnext h a) \<Longrightarrow> (\<And>a. a \<in> set (q # xs) \<Longrightarrow> lprev h' a = lprev h a) \<Longrightarrow>
   links h' p xs q = links h p xs q"
  by (induction xs arbitrary: p) auto

lemma links_last: "links h p (xs @ [x]) q \<longleftrightarrow> links h p xs x \<and> lnext h x = Some q \<and> lprev h q = Some x"
  by (simp add: links_append)

lemma dlist_unchanged: "unchanged S h h' \<Longrightarrow> S \<inter> set (head # xs) = {} \<Longrightarrow> dlist h' head xs = dlist h head xs"
  unfolding dlist_def unchanged_def using links_cong [of head xs h' h head] by blast

lemma unchanged_allocated: "unchanged S h h' \<Longrightarrow> allocated h' p = allocated h p"
  unfolding unchanged_def allocated_def by (metis domIff)

lemma unchanged_refl [simp]: "unchanged S h h"
  by (simp add: unchanged_def)

lemma unchanged_trans: "unchanged S h h1 \<Longrightarrow> unchanged T h1 h2 \<Longrightarrow> unchanged (S \<union> T) h h2"
  by (simp add: unchanged_def)

lemma unchanged_mono: "unchanged S h h' \<Longrightarrow> S \<subseteq> T \<Longrightarrow> unchanged T h h'"
  by (auto simp: unchanged_def)

lemma links_allocated: "links h p xs q \<Longrightarrow> (\<forall>x \<in> set xs. allocated h x) \<and> lnext h p \<noteq> None \<and> lprev h q \<noteq> None"
  by (induction xs arbitrary: p) (fastforce simp: allocated_def)+

lemma dlist_allocated: "dlist h head xs \<Longrightarrow> x \<in> set (head # xs) \<Longrightarrow> allocated h x"
  using links_allocated [of h head xs head] by (auto simp: dlist_def allocated_def)

section \<open>What the operations do\<close>

lemma list_add_between_ok:
  assumes d: "dlist h head (xs @ ys)" and new: "allocated h new" "new \<notin> set (head # xs @ ys)"
  shows "\<exists>h'. list_add_between new (last (head # xs)) (hd (ys @ [head])) h = Some h' \<and> dlist h' head (xs @ new # ys) \<and>
    unchanged (insert new (set (head # xs @ ys))) h h'"
proof -
  let ?p = "last (head # xs)" and ?n = "hd (ys @ [head])"
  have mem: "?p \<in> set (head # xs)" "?n \<in> set (head # ys)" by (cases ys; simp)+
  have l: "links h head (xs @ ys) head" and dist: "distinct (head # xs @ ys)" using d by (simp_all add: dlist_def)
  have al: "allocated h ?p" "allocated h ?n" using mem dlist_allocated [OF d] by auto
  let ?h = "h\<lparr>lnext := (lnext h)(new \<mapsto> ?n, ?p \<mapsto> new), lprev := (lprev h)(?n \<mapsto> new, new \<mapsto> ?p)\<rparr>"
  have np: "new \<noteq> ?p" "new \<noteq> ?n" using mem new(2) by auto
  have r: "list_add_between new ?p ?n h = Some ?h"
    using al new(1) np by (auto simp: list_add_between_def set_prev_def set_next_def allocated_def)
  have "links ?h head (xs @ new # ys) head"
  proof -
    have p: "links ?h head xs new"
    proof (cases xs rule: rev_cases)
      case (snoc xs' z)
      then have "links h head xs' z" using l by (simp add: links_append)
      then have "links ?h head xs' z"
        using dist new(2) np mem snoc by (subst links_cong [of _ _ _ h]) auto
      then show ?thesis using snoc np by (simp add: links_append)
    qed (use np in simp)
    have q: "links ?h new ys head"
    proof (cases ys)
      case (Cons z ys')
      then have "links h z ys' head" using l by (simp add: links_append)
      then have "links ?h z ys' head"
        using dist new(2) np mem Cons by (subst links_cong [of _ _ _ h]) auto
      then show ?thesis using Cons np by simp
    qed (use np in simp)
    show ?thesis using p q by (simp add: links_append)
  qed
  moreover have "unchanged (insert new (set (head # xs @ ys))) h ?h"
    using al new(1) mem by (auto simp: unchanged_def allocated_def)
  ultimately show ?thesis using r dist new(2) by (auto simp: dlist_def)
qed

lemma list_add_ok:
  assumes "dlist h head xs" "allocated h new" "new \<notin> set (head # xs)"
  shows "\<exists>h'. list_add new head h = Some h' \<and> dlist h' head (new # xs) \<and> unchanged (insert new (set (head # xs))) h h'"
proof -
  have "lnext h head = Some (hd (xs @ [head]))" using assms(1) by (cases xs) (simp_all add: dlist_def)
  then show ?thesis using list_add_between_ok [of h head "[]" xs new] assms by (simp add: list_add_def)
qed

lemma list_add_tail_ok:
  assumes "dlist h head xs" "allocated h new" "new \<notin> set (head # xs)"
  shows "\<exists>h'. list_add_tail new head h = Some h' \<and> dlist h' head (xs @ [new]) \<and> unchanged (insert new (set (head # xs))) h h'"
proof -
  have "lprev h head = Some (last (head # xs))"
    using assms(1) by (cases xs rule: rev_cases) (simp_all add: dlist_def links_append)
  then show ?thesis using list_add_between_ok [of h head xs "[]" new] assms by (simp add: list_add_tail_def)
qed

lemma dlist_ends:
  assumes "dlist h head (xs @ x # ys)"
  shows "lprev h x = Some (last (head # xs))" "lnext h x = Some (hd (ys @ [head]))"
proof -
  have l: "links h head xs x" "links h x ys head" using assms by (simp_all add: dlist_def links_append)
  show "lprev h x = Some (last (head # xs))" using l(1) by (cases xs rule: rev_cases) (simp_all add: links_append)
  show "lnext h x = Some (hd (ys @ [head]))" using l(2) by (cases ys) simp_all
qed

lemma list_del_ok:
  assumes d: "dlist h head (xs @ x # ys)"
  shows "\<exists>h'. list_del x h = Some h' \<and> dlist h' head (xs @ ys) \<and> unchanged (set (head # xs @ ys)) h h'"
proof -
  let ?p = "last (head # xs)" and ?n = "hd (ys @ [head])"
  have mem: "?p \<in> set (head # xs)" "?n \<in> set (head # ys)" by (cases ys; simp)+
  have l: "links h head xs x" "links h x ys head" and dist: "distinct (head # xs @ x # ys)"
    using d by (simp_all add: dlist_def links_append)
  have al: "allocated h ?p" "allocated h ?n" using mem dlist_allocated [OF d] by auto
  let ?h = "h\<lparr>lnext := (lnext h)(?p \<mapsto> ?n), lprev := (lprev h)(?n \<mapsto> ?p)\<rparr>"
  have r: "list_del x h = Some ?h"
    using al dlist_ends [OF d] by (auto simp: list_del_def list_del_between_def set_prev_def set_next_def allocated_def)
  have "links ?h head (xs @ ys) head"
  proof (cases xs rule: rev_cases)
    case Nil
    then show ?thesis
    proof (cases ys)
      case (Cons z ys')
      then have "links h z ys' head" using l by simp
      then have "links ?h z ys' head" using dist Nil Cons by (subst links_cong [of _ _ _ h]) auto
      then show ?thesis using Nil Cons by simp
    qed simp
  next
    case (snoc xs' z)
    then have "links h head xs' z" using l by (simp add: links_append)
    then have 1: "links ?h head xs' z" using dist mem snoc by (subst links_cong [of _ _ _ h]) auto
    show ?thesis
    proof (cases ys)
      case (Cons w ys')
      then have "links h w ys' head" using l by simp
      then have "links ?h w ys' head" using dist snoc Cons by (subst links_cong [of _ _ _ h]) auto
      then show ?thesis using 1 snoc Cons by (simp add: links_append)
    qed (use 1 snoc in \<open>simp add: links_append\<close>)
  qed
  moreover have "unchanged (set (head # xs @ ys)) h ?h"
    using al mem by (auto simp: unchanged_def allocated_def)
  ultimately show ?thesis using r dist by (auto simp: dlist_def)
qed

lemma init_head_ok:
  assumes "allocated h x"
  shows "\<exists>h'. INIT_LIST_HEAD x h = Some h' \<and> dlist h' x [] \<and> unchanged {x} h h'"
  using assms by (auto simp: INIT_LIST_HEAD_def set_next_def set_prev_def allocated_def dlist_def unchanged_def)

lemma list_del_init_ok:
  assumes d: "dlist h head (xs @ x # ys)"
  shows "\<exists>h'. list_del_init x h = Some h' \<and> dlist h' head (xs @ ys) \<and> dlist h' x [] \<and> unchanged (set (head # xs @ x # ys)) h h'"
proof -
  obtain h1 where h1: "list_del x h = Some h1" "dlist h1 head (xs @ ys)" "unchanged (set (head # xs @ ys)) h h1"
    using list_del_ok [OF d] by blast
  have "allocated h1 x" using unchanged_allocated [OF h1(3)] dlist_allocated [OF d] by auto
  then obtain h2 where h2: "INIT_LIST_HEAD x h1 = Some h2" "dlist h2 x []" "unchanged {x} h1 h2"
    using init_head_ok by blast
  have "{x} \<inter> set (head # xs @ ys) = {}" using d by (auto simp: dlist_def)
  then have "dlist h2 head (xs @ ys)" using dlist_unchanged [OF h2(3)] h1(2) by blast
  moreover have "unchanged (set (head # xs @ x # ys)) h h2"
    using unchanged_trans [OF h1(3) h2(3)] by (rule unchanged_mono) auto
  ultimately show ?thesis using h1(1) h2(1,2) by (auto simp: list_del_init_def)
qed

lemma dlist_rotate: "dlist h a (x # xs) \<Longrightarrow> dlist h x (xs @ [a])"
  by (auto simp: dlist_def links_append)

text \<open>The idiom that takes all entries of a list: a new head is put in front of them and the old head is taken out.\<close>

lemma list_take_over_ok:
  assumes "dlist h root xs" "allocated h header" "header \<notin> set (root # xs)"
  shows "\<exists>h1 h2. list_add header root h = Some h1 \<and> list_del_init root h1 = Some h2 \<and> dlist h2 header xs \<and> dlist h2 root [] \<and>
    unchanged (insert header (set (root # xs))) h h2"
proof -
  obtain h1 where h1: "list_add header root h = Some h1" "dlist h1 root (header # xs)" "unchanged (insert header (set (root # xs))) h h1"
    using list_add_ok [OF assms] by blast
  obtain h2 where "list_del_init root h1 = Some h2" "dlist h2 header xs" "dlist h2 root []"
      "unchanged (set (header # xs @ [root])) h1 h2"
    using list_del_init_ok [of h1 header xs root "[]"] dlist_rotate [OF h1(2)] by auto
  with h1 unchanged_trans [OF h1(3), of "set (header # xs @ [root])" h2] show ?thesis
    by (metis unchanged_mono Un_absorb empty_set list.simps(15) set_append Un_insert_right sup_bot.right_neutral insert_commute)
qed

text \<open>\<open>list_join\<close> puts the entries of one list in front of those of another.\<close>

lemma list_join_ok:
  assumes x: "dlist h list xs" and y: "dlist h head ys" and dj: "set (list # xs) \<inter> set (head # ys) = {}"
  shows "\<exists>h'. list_join list head h = Some h' \<and> dlist h' head (xs @ ys) \<and> dlist h' list [] \<and>
    unchanged (set (list # xs @ head # ys)) h h'"
proof (cases xs)
  case Nil
  then show ?thesis using x y by (auto simp: list_join_def dlist_def)
next
  case (Cons f xs')
  obtain xs'' e where snoc: "xs = xs'' @ [e]" using Cons that by (metis list.distinct(1) rev_exhaust)
  obtain t where t: "t = hd (ys @ [head])" by blast
  have lx: "links h list xs list" "distinct (list # xs)" and ly: "links h head ys head" "distinct (head # ys)"
    using x y by (simp_all add: dlist_def)
  have f: "lnext h list = Some f" "links h f xs' list" using lx Cons by simp_all
  have e: "lprev h list = Some e" "links h list xs'' e" using lx(1) unfolding snoc links_append by simp_all
  have at: "lnext h head = Some t" "t \<in> set (head # ys)" using ly t by (cases ys; simp)+
  have "f \<in> set xs" using Cons by simp
  moreover have "e \<in> set xs" using snoc by simp
  ultimately have fe: "f \<in> set xs" "e \<in> set xs" .
  have al: "allocated h f" "allocated h e" "allocated h t" "allocated h head" "allocated h list"
    using dlist_allocated [OF x] dlist_allocated [OF y] at(2) fe by auto
  have ne: "f \<noteq> list" "e \<noteq> list" "f \<noteq> head" "e \<noteq> head" "list \<noteq> head" "t \<noteq> f" "t \<noteq> e" "t \<noteq> list"
    using lx(2) dj at(2) fe by auto
  let ?h = "h\<lparr>lnext := (lnext h)(head \<mapsto> f, e \<mapsto> t, list \<mapsto> list), lprev := (lprev h)(f \<mapsto> head, t \<mapsto> e, list \<mapsto> list)\<rparr>"
  have r: "list_join list head h = Some ?h"
    using f(1) e(1) at(1) al ne
    by (auto simp: list_join_def set_prev_def set_next_def INIT_LIST_HEAD_def allocated_def fun_upd_twist)
  have *: "links ?h head xs t"
  proof -
    have "links ?h head xs'' e"
    proof (cases xs'')
      case Nil
      then show ?thesis using Cons snoc ne by auto
    next
      case (Cons g zs)
      then have g: "g = f" using \<open>xs = f # xs'\<close> snoc by simp
      have "links h f zs e" using e(2) Cons g by simp
      have xs: "xs = f # zs @ [e]" using snoc Cons g by simp
      have nin: "e \<notin> set (f # zs)" "f \<notin> set (e # zs)" "list \<notin> set (f # e # zs)" "head \<notin> set (f # e # zs)" "t \<notin> set (f # e # zs)"
        using lx(2) dj at(2) unfolding xs by auto
      have "lnext ?h a = lnext h a" if "a \<in> set (f # zs)" for a using that nin(1,3,4) by auto
      moreover have "lprev ?h a = lprev h a" if "a \<in> set (e # zs)" for a using that nin(2,3,5) by auto
      ultimately have "links ?h f zs e" using \<open>links h f zs e\<close> links_cong [of f zs ?h h e] by blast
      then show ?thesis using Cons g ne by simp
    qed
    then show ?thesis using snoc ne by (simp add: links_append)
  qed
  then have "links ?h head (xs @ ys) head"
  proof (cases ys)
    case (Cons z ys')
    have "links h z ys' head" using ly(1) Cons by simp
    have nin: "e \<notin> set (z # ys')" "list \<notin> set (head # z # ys')" "f \<notin> set (head # ys')" "head \<notin> set (z # ys')" "z \<notin> set (head # ys')"
      using ly(2) dj fe unfolding Cons by auto
    have "lnext ?h a = lnext h a" if "a \<in> set (z # ys')" for a using that nin(1,2,4) by auto
    moreover have "lprev ?h a = lprev h a" if "a \<in> set (head # ys')" for a using that nin(2,3,5) t Cons by auto
    ultimately have "links ?h z ys' head" using \<open>links h z ys' head\<close> links_cong [of z ys' ?h h head] by blast
    then show ?thesis using * Cons t by (simp add: links_append)
  qed (use * t in simp)
  moreover have "dlist ?h list []" using ne by (simp add: dlist_def)
  moreover have "unchanged (set (list # xs @ head # ys)) h ?h"
    using al at(2) fe by (auto simp: unchanged_def allocated_def)
  ultimately show ?thesis using r lx(2) ly(2) dj by (auto simp: dlist_def)
qed

lemma list_walk_links:
  "links h p xs head \<Longrightarrow> distinct xs \<Longrightarrow> head \<notin> set xs \<Longrightarrow> length xs \<le> k \<Longrightarrow> list_walk k (hd (xs @ [head])) head h = Some xs"
proof (induction xs arbitrary: p k)
  case (Cons x xs)
  then obtain j where j: "k = Suc j" "length xs \<le> j" by (cases k) auto
  have "lnext h x = Some (hd (xs @ [head]))" using Cons.prems(1) by (cases xs) simp_all
  then show ?case using Cons j by auto
next
  case Nil
  then show ?case by (cases k) simp_all
qed

lemma list_walk_ok: "dlist h head xs \<Longrightarrow> length xs \<le> k \<Longrightarrow> lnext h head = Some n \<Longrightarrow> list_walk k n head h = Some xs"
  using list_walk_links [of h head xs head k] by (cases xs) (auto simp: dlist_def)

end
