(* ===== verification/Static_Alloc.thy ===== *)
theory Static_Alloc
  imports Nd_List
begin

text \<open>
  The allocator of equally sized nodes of \<^verbatim>\<open>src/nd_common/src/nd_static_alloc.c\<close>. It takes one block from a memory pool and
  strings its nodes on a free list through their first bytes. \<open>node_pool\<close> is the contract of such an allocator towards its
  clients, with what holds along every sequence of calls; the allocator interprets it. The lock around the list makes the
  operations atomic and has no effect of its own.
\<close>

section \<open>The contract\<close>

text \<open>The states a client can reach: it allocates, frees nodes it holds and writes to nodes it holds. The set is that of
  the nodes it holds.\<close>

inductive pool_reach ::
  "('s \<Rightarrow> (addr option \<times> 's) option) \<Rightarrow> (addr \<Rightarrow> 's \<Rightarrow> 's option) \<Rightarrow> (addr \<Rightarrow> addr \<Rightarrow> addr \<Rightarrow> 's \<Rightarrow> 's option) \<Rightarrow> 's \<Rightarrow> 's \<Rightarrow> addr set \<Rightarrow> bool"
  for alloc free upd s0 where
  start: "pool_reach alloc free upd s0 s0 {}"
| take: "pool_reach alloc free upd s0 s L \<Longrightarrow> alloc s = Some (Some p, s') \<Longrightarrow> pool_reach alloc free upd s0 s' (insert p L)"
| full: "pool_reach alloc free upd s0 s L \<Longrightarrow> alloc s = Some (None, s') \<Longrightarrow> pool_reach alloc free upd s0 s' L"
| give: "pool_reach alloc free upd s0 s L \<Longrightarrow> p \<in> L \<Longrightarrow> free p s = Some s' \<Longrightarrow> pool_reach alloc free upd s0 s' (L - {p})"
| touch: "pool_reach alloc free upd s0 s L \<Longrightarrow> p \<in> L \<Longrightarrow> upd p a b s = Some s' \<Longrightarrow> pool_reach alloc free upd s0 s' L"

locale node_pool =
  fixes inv :: "'s \<Rightarrow> addr set \<Rightarrow> bool" and nodes :: "'s \<Rightarrow> addr set"
    and alloc :: "'s \<Rightarrow> (addr option \<times> 's) option" and free :: "addr \<Rightarrow> 's \<Rightarrow> 's option"
    and upd :: "addr \<Rightarrow> addr \<Rightarrow> addr \<Rightarrow> 's \<Rightarrow> 's option"
  assumes held: "inv s L \<Longrightarrow> L \<subseteq> nodes s"
    and alloc_node: "inv s L \<Longrightarrow> L \<noteq> nodes s \<Longrightarrow>
      \<exists>p s'. alloc s = Some (Some p, s') \<and> p \<in> nodes s - L \<and> inv s' (insert p L) \<and> nodes s' = nodes s"
    and alloc_full: "inv s (nodes s) \<Longrightarrow> \<exists>s'. alloc s = Some (None, s') \<and> inv s' (nodes s) \<and> nodes s' = nodes s"
    and free_node: "inv s L \<Longrightarrow> p \<in> L \<Longrightarrow> \<exists>s'. free p s = Some s' \<and> inv s' (L - {p}) \<and> nodes s' = nodes s"
    and upd_node: "inv s L \<Longrightarrow> p \<in> L \<Longrightarrow> \<exists>s'. upd p a b s = Some s' \<and> inv s' L \<and> nodes s' = nodes s"
begin

lemma reach_inv:
  assumes "pool_reach alloc free upd s0 s L" "inv s0 {}"
  shows "inv s L \<and> nodes s = nodes s0"
  using assms
proof (induction rule: pool_reach.induct)
  case (take s L p s')
  then have i: "inv s L" "nodes s = nodes s0" by auto
  have ne: "L \<noteq> nodes s" using alloc_full [of s] i take.hyps(2) by auto
  from alloc_node [OF i(1) ne] take.hyps(2) i(2) show ?case by auto
next
  case (full s L s')
  then have i: "inv s L" "nodes s = nodes s0" by auto
  have eq: "L = nodes s" using alloc_node [OF i(1)] full.hyps(2) by auto
  from alloc_full [of s] i full.hyps(2) eq show ?case by auto
next
  case (give s L p s')
  then show ?case using free_node [of s L p] by auto
next
  case (touch s L p a b s')
  then show ?case using upd_node [of s L p a b] by auto
qed simp

lemma reach_calls:
  assumes r: "pool_reach alloc free upd s0 s L" and i: "inv s0 {}"
  shows "L \<subseteq> nodes s0"
    and "\<exists>s'. if L = nodes s0 then alloc s = Some (None, s') else \<exists>p \<in> nodes s0 - L. alloc s = Some (Some p, s')"
    and "p \<in> L \<Longrightarrow> \<exists>s'. free p s = Some s'"
proof -
  have inv: "inv s L" "nodes s = nodes s0" using reach_inv [OF r i] by auto
  show "L \<subseteq> nodes s0" using held [OF inv(1)] inv(2) by simp
  show "\<exists>s'. if L = nodes s0 then alloc s = Some (None, s') else \<exists>p \<in> nodes s0 - L. alloc s = Some (Some p, s')"
    using alloc_node [OF inv(1)] alloc_full [of s] inv by (cases "L = nodes s0") auto
  show "p \<in> L \<Longrightarrow> \<exists>s'. free p s = Some s'" using free_node [OF inv(1)] by blast
qed

end

section \<open>The allocator\<close>

record nd_static_alloc =
  sa_node_size :: nat
  sa_capacity :: int
  allocated_num :: int
  sa_errno :: nat
  sa_free_list :: addr
  sa_addr :: addr

type_synonym sa_state = "nd_static_alloc \<times> lheap"

definition GET_SA_ALLOC_MIN_SIZE :: "nat \<Rightarrow> nat" where
  "GET_SA_ALLOC_MIN_SIZE sz = max 16 sz"

text \<open>The loop that strings \<open>num\<close> nodes from \<open>a\<close> on.\<close>

fun sa_fill :: "nat \<Rightarrow> addr \<Rightarrow> nat \<Rightarrow> addr \<Rightarrow> lheap \<Rightarrow> lheap option" where
  "sa_fill 0 a node_size free_list h = Some h"
| "sa_fill (Suc num) a node_size free_list h = do {
     h \<leftarrow> INIT_LIST_HEAD a h;
     h \<leftarrow> list_add a free_list h;
     sa_fill num (a + node_size) node_size free_list h
   }"

text \<open>\<open>hdr\<close> is the size of the allocator's own structure and \<open>off\<close> the offset of the list head in it; \<open>pool_alloc\<close> is the
  memory pool. The inner \<open>None\<close> is a null pointer.\<close>

definition nd_sa_create ::
  "nat \<Rightarrow> nat \<Rightarrow> (nat \<Rightarrow> lheap \<Rightarrow> (addr \<times> lheap) option) \<Rightarrow> nat \<Rightarrow> nat \<Rightarrow> lheap \<Rightarrow> (nd_static_alloc option \<times> lheap) option" where
  "nd_sa_create hdr off pool_alloc node_num node_size h =
     (let node_size = GET_SA_ALLOC_MIN_SIZE node_size;
          raw_len = (node_num * node_size + hdr) mod 2 ^ 64 in
      case pool_alloc raw_len h of
        None \<Rightarrow> Some (None, h)
      | Some (a, h) \<Rightarrow> do {
          h \<leftarrow> INIT_LIST_HEAD (a + off) h;
          h \<leftarrow> sa_fill node_num (a + hdr) node_size (a + off) h;
          Some (Some \<lparr>sa_node_size = node_size, sa_capacity = int node_num, allocated_num = 0, sa_errno = NDERR_SUCCESS,
            sa_free_list = a + off, sa_addr = a + hdr\<rparr>, h)
        })"

definition nd_sa_alloc :: "sa_state \<Rightarrow> (addr option \<times> sa_state) option" where
  "nd_sa_alloc s = (case s of (A, h) \<Rightarrow> do {
     let A = A\<lparr>sa_errno := NDERR_SUCCESS\<rparr>;
     pos \<leftarrow> lnext h (sa_free_list A);
     if pos = sa_free_list A then Some (None, A\<lparr>sa_errno := NDERR_LIMITED\<rparr>, h)
     else do {
       h \<leftarrow> list_del_init pos h;
       Some (Some pos, A\<lparr>allocated_num := allocated_num A + 1\<rparr>, h)
     }
   })"

definition nd_sa_free :: "addr \<Rightarrow> sa_state \<Rightarrow> sa_state option" where
  "nd_sa_free a s = (case s of (A, h) \<Rightarrow>
     if a = 0 then Some (A, h)
     else do {
       h \<leftarrow> INIT_LIST_HEAD a h;
       h \<leftarrow> list_add_tail a (sa_free_list A) h;
       Some (A\<lparr>allocated_num := allocated_num A - 1\<rparr>, h)
     })"

definition nd_sa_capacity :: "nd_static_alloc \<Rightarrow> int" where
  "nd_sa_capacity A = sa_capacity A"

definition nd_sa_freenum :: "nd_static_alloc \<Rightarrow> int" where
  "nd_sa_freenum A = sa_capacity A - allocated_num A"

definition nd_sa_getsize :: "nd_static_alloc \<Rightarrow> nat" where
  "nd_sa_getsize A = sa_node_size A"

text \<open>\<open>pool_free\<close> gives the block back.\<close>

definition nd_sa_destroy :: "(nd_static_alloc \<Rightarrow> lheap \<Rightarrow> lheap) \<Rightarrow> nd_static_alloc option \<Rightarrow> lheap \<Rightarrow> int \<times> lheap" where
  "nd_sa_destroy pool_free sa h = (case sa of None \<Rightarrow> (-1, h) | Some A \<Rightarrow> (0, pool_free A h))"

text \<open>The holder of a node writes whatever it likes over the bytes the free list used.\<close>

definition user_write :: "addr \<Rightarrow> addr \<Rightarrow> addr \<Rightarrow> sa_state \<Rightarrow> sa_state option" where
  "user_write p a b s = (case s of (A, h) \<Rightarrow> do { h \<leftarrow> set_next p a h; h \<leftarrow> set_prev p b h; Some (A, h) })"

section \<open>The invariant\<close>

definition sa_nodes :: "sa_state \<Rightarrow> addr set" where
  "sa_nodes s = (\<lambda>i. sa_addr (fst s) + i * sa_node_size (fst s)) ` {..<nat (sa_capacity (fst s))}"

definition sa_inv :: "sa_state \<Rightarrow> addr set \<Rightarrow> bool" where
  "sa_inv s L \<longleftrightarrow> (case s of (A, h) \<Rightarrow> 16 \<le> sa_node_size A \<and> 0 \<le> sa_capacity A \<and> sa_free_list A \<notin> sa_nodes s \<and> 0 \<notin> sa_nodes s \<and>
     L \<subseteq> sa_nodes s \<and> (\<forall>p \<in> sa_nodes s. allocated h p) \<and> allocated_num A = int (card L) \<and>
     (\<exists>xs. dlist h (sa_free_list A) xs \<and> set xs = sa_nodes s - L))"

lemma finite_sa_nodes [simp]: "finite (sa_nodes s)" by (simp add: sa_nodes_def)

lemma sa_nodes_sel [simp]: "sa_nodes (A\<lparr>sa_errno := e\<rparr>, h) = sa_nodes (A, h')" "sa_nodes (A\<lparr>allocated_num := n\<rparr>, h) = sa_nodes (A, h')"
  by (simp_all add: sa_nodes_def)

lemma sa_inv_sel:
  assumes "sa_inv (A, h) L"
  obtains xs where "dlist h (sa_free_list A) xs" "set xs = sa_nodes (A, h) - L" "L \<subseteq> sa_nodes (A, h)" "sa_free_list A \<notin> sa_nodes (A, h)"
    "\<And>p. p \<in> sa_nodes (A, h) \<Longrightarrow> allocated h p" "allocated_num A = int (card L)"
  using assms by (auto simp: sa_inv_def)

lemma sa_inv_step:
  assumes "sa_inv (A, h) L" "unchanged S h h'" "dlist h' (sa_free_list A) xs" "set xs = sa_nodes (A, h) - L'" "L' \<subseteq> sa_nodes (A, h)"
    and "n = int (card L')"
  shows "sa_inv (A\<lparr>allocated_num := n\<rparr>, h') L'"
  using assms unchanged_allocated [OF assms(2)] unfolding sa_inv_def by (auto simp: sa_nodes_def)

lemma sa_inv_errno: "sa_inv (A\<lparr>sa_errno := e\<rparr>, h) L = sa_inv (A, h) L"
  by (simp add: sa_inv_def sa_nodes_def)

lemma sa_alloc_node:
  assumes inv: "sa_inv s L" and "L \<noteq> sa_nodes s"
  shows "\<exists>p s'. nd_sa_alloc s = Some (Some p, s') \<and> p \<in> sa_nodes s - L \<and> sa_inv s' (insert p L) \<and> sa_nodes s' = sa_nodes s"
proof -
  obtain A h where s: "s = (A, h)" by (cases s)
  obtain xs where xs: "dlist h (sa_free_list A) xs" "set xs = sa_nodes s - L" "L \<subseteq> sa_nodes s" "allocated_num A = int (card L)"
    using sa_inv_sel [OF inv [unfolded s]] s by metis
  obtain p ys where p: "xs = p # ys" using xs(2,3) assms(2) by (cases xs) auto
  have pos: "lnext h (sa_free_list A) = Some p" "p \<noteq> sa_free_list A" using xs(1) p by (auto simp: dlist_def)
  obtain h' where h': "list_del_init p h = Some h'" "dlist h' (sa_free_list A) ys" "unchanged (set (sa_free_list A # p # ys)) h h'"
    using list_del_init_ok [of h _ "[]" p ys] xs(1) p by auto
  let ?A = "A\<lparr>sa_errno := 0, allocated_num := allocated_num A + 1\<rparr>"
  have "set ys = sa_nodes (A, h) - insert p L" "p \<in> sa_nodes s - L" using xs(1,2) p s by (auto simp: dlist_def)
  moreover have "finite L" using xs(3) finite_sa_nodes by (rule finite_subset)
  ultimately have "sa_inv (A\<lparr>allocated_num := allocated_num A + 1\<rparr>, h') (insert p L)"
    using xs(3,4) s by (intro sa_inv_step [OF inv [unfolded s] h'(3,2)]) auto
  then have "sa_inv (?A, h') (insert p L)" by (simp add: sa_inv_def sa_nodes_def)
  moreover have "nd_sa_alloc s = Some (Some p, ?A, h')" using pos h'(1) by (simp add: nd_sa_alloc_def s)
  moreover have "sa_nodes (?A, h') = sa_nodes s" by (simp add: sa_nodes_def s)
  ultimately show ?thesis using \<open>p \<in> sa_nodes s - L\<close> by blast
qed

lemma sa_alloc_full:
  assumes inv: "sa_inv s (sa_nodes s)"
  shows "\<exists>s'. nd_sa_alloc s = Some (None, s') \<and> sa_inv s' (sa_nodes s) \<and> sa_nodes s' = sa_nodes s"
proof -
  obtain A h where s: "s = (A, h)" by (cases s)
  have "dlist h (sa_free_list A) []" using inv by (auto simp: sa_inv_def s)
  then have "nd_sa_alloc s = Some (None, A\<lparr>sa_errno := NDERR_LIMITED\<rparr>, h)" by (simp add: nd_sa_alloc_def s dlist_def)
  then show ?thesis using inv by (simp add: s sa_inv_errno sa_nodes_def)
qed

lemma sa_free_node:
  assumes inv: "sa_inv s L" and p: "p \<in> L"
  shows "\<exists>s'. nd_sa_free p s = Some s' \<and> sa_inv s' (L - {p}) \<and> sa_nodes s' = sa_nodes s"
proof -
  obtain A h where s: "s = (A, h)" by (cases s)
  obtain xs where xs: "dlist h (sa_free_list A) xs" "set xs = sa_nodes (A, h) - L" "L \<subseteq> sa_nodes (A, h)" "allocated_num A = int (card L)"
      "\<And>q. q \<in> sa_nodes (A, h) \<Longrightarrow> allocated h q" "sa_free_list A \<notin> sa_nodes (A, h)"
    using sa_inv_sel [OF inv [unfolded s]] by metis
  have np: "p \<noteq> 0" "p \<notin> set (sa_free_list A # xs)" "allocated h p" using p xs inv by (auto simp: s sa_inv_def)
  obtain h1 where h1: "INIT_LIST_HEAD p h = Some h1" "unchanged {p} h h1" using init_head_ok [OF np(3)] by blast
  have d1: "dlist h1 (sa_free_list A) xs" using dlist_unchanged [OF h1(2), of "sa_free_list A" xs] xs(1) np(2) by auto
  have "allocated h1 p" using unchanged_allocated [OF h1(2)] np(3) by simp
  from list_add_tail_ok [OF d1 this np(2)] obtain h2 where h2: "list_add_tail p (sa_free_list A) h1 = Some h2"
      "dlist h2 (sa_free_list A) (xs @ [p])" "unchanged (insert p (set (sa_free_list A # xs))) h1 h2" by blast
  have "finite L" using xs(3) finite_sa_nodes by (rule finite_subset)
  then have "int (card (L - {p})) = allocated_num A - 1" using p xs(4) by (simp add: card_Diff_singleton card_gt_0_iff)
       (metis One_nat_def Suc_leI card_gt_0_iff empty_iff int_ops(2) of_nat_diff)
  moreover have "set (xs @ [p]) = sa_nodes (A, h) - (L - {p})" using xs(2,3) p by auto
  ultimately have "sa_inv (A\<lparr>allocated_num := allocated_num A - 1\<rparr>, h2) (L - {p})"
    using xs(3) by (intro sa_inv_step [OF inv [unfolded s] unchanged_trans [OF h1(2) h2(3)] h2(2)]) auto
  then show ?thesis using h1(1) h2(1) np(1) by (simp add: nd_sa_free_def s sa_nodes_def)
qed

lemma sa_user_write:
  assumes inv: "sa_inv s L" and p: "p \<in> L"
  shows "\<exists>s'. user_write p a b s = Some s' \<and> sa_inv s' L \<and> sa_nodes s' = sa_nodes s"
proof -
  obtain A h where s: "s = (A, h)" by (cases s)
  obtain xs where xs: "dlist h (sa_free_list A) xs" "set xs = sa_nodes (A, h) - L" "L \<subseteq> sa_nodes (A, h)" "allocated_num A = int (card L)"
      "\<And>q. q \<in> sa_nodes (A, h) \<Longrightarrow> allocated h q" "sa_free_list A \<notin> sa_nodes (A, h)"
    using sa_inv_sel [OF inv [unfolded s]] by metis
  let ?h = "h\<lparr>lnext := (lnext h)(p \<mapsto> a), lprev := (lprev h)(p \<mapsto> b)\<rparr>"
  have al: "allocated h p" and np: "{p} \<inter> set (sa_free_list A # xs) = {}" using p xs by auto
  have u: "unchanged {p} h ?h" using al by (auto simp: unchanged_def allocated_def)
  have w: "user_write p a b s = Some (A, ?h)" using al by (auto simp: user_write_def set_next_def set_prev_def allocated_def s)
  have "dlist ?h (sa_free_list A) xs" using dlist_unchanged [OF u np] xs(1) by blast
  from sa_inv_step [OF inv [unfolded s] u this xs(2,3,4)] have "sa_inv (A, ?h) L" by simp
  then show ?thesis using w by (simp add: s sa_nodes_def)
qed

interpretation sa: node_pool sa_inv sa_nodes nd_sa_alloc nd_sa_free user_write
proof
  show "L \<subseteq> sa_nodes s" if "sa_inv s L" for s L using that by (cases s) (auto simp: sa_inv_def)
qed (fact sa_alloc_node sa_alloc_full sa_free_node sa_user_write)+

section \<open>Creation\<close>

lemma sa_fill_ok:
  assumes "dlist h fl xs" "0 < sz" "\<forall>i < num. allocated h (a + i * sz)" "\<forall>i < num. a + i * sz \<notin> set (fl # xs)"
  shows "\<exists>h'. sa_fill num a sz fl h = Some h' \<and> dlist h' fl (rev (map (\<lambda>i. a + i * sz) [0..<num]) @ xs) \<and> (\<forall>p. allocated h' p = allocated h p)"
  using assms
proof (induction num arbitrary: a h xs)
  case (Suc num)
  have a: "allocated h a" "a \<notin> set (fl # xs)" using Suc.prems(3,4) by force+
  obtain h1 where h1: "INIT_LIST_HEAD a h = Some h1" "unchanged {a} h h1" using init_head_ok [OF a(1)] by blast
  have "dlist h1 fl xs" using dlist_unchanged [OF h1(2), of fl xs] Suc.prems(1) a(2) by auto
  from list_add_ok [OF this _ a(2)] unchanged_allocated [OF h1(2)] a(1) obtain h2 where
    h2: "list_add a fl h1 = Some h2" "dlist h2 fl (a # xs)" "unchanged (insert a (set (fl # xs))) h1 h2" by blast
  have al: "allocated h2 p = allocated h p" for p using unchanged_allocated [OF h1(2)] unchanged_allocated [OF h2(3)] by simp
  have shift: "a + sz + i * sz = a + Suc i * sz" for i by simp
  have "\<forall>i < num. a + sz + i * sz \<notin> set (fl # a # xs)" using Suc.prems(2,4) unfolding shift by force
  moreover have "\<forall>i < num. allocated h2 (a + sz + i * sz)" using Suc.prems(3) al unfolding shift by force
  ultimately obtain h3 where h3: "sa_fill num (a + sz) sz fl h2 = Some h3"
      "dlist h3 fl (rev (map (\<lambda>i. a + sz + i * sz) [0..<num]) @ a # xs)" "\<forall>p. allocated h3 p = allocated h2 p"
    using Suc.IH [OF h2(2) Suc.prems(2)] by blast
  have "map (\<lambda>i. a + i * sz) [0..<Suc num] = a # map (\<lambda>i. a + sz + i * sz) [0..<num]"
    by (simp add: map_Suc_upt [symmetric] upt_conv_Cons del: upt_Suc)
  then have "rev (map (\<lambda>i. a + i * sz) [0..<Suc num]) @ xs = rev (map (\<lambda>i. a + sz + i * sz) [0..<num]) @ a # xs" by simp
  then show ?case using h1(1) h2(1) h3 al by simp
qed simp

text \<open>What the allocator relies on: the pool returns a block that is not at address 0 and whose bytes can be used.\<close>

definition pool_gives_memory :: "(nat \<Rightarrow> lheap \<Rightarrow> (addr \<times> lheap) option) \<Rightarrow> bool" where
  "pool_gives_memory pool \<longleftrightarrow>
     (\<forall>n h a h'. pool n h = Some (a, h') \<longrightarrow> 0 < a \<and> (\<forall>p. a \<le> p \<and> p + 16 \<le> a + n \<longrightarrow> allocated h' p))"

lemma sa_create_ok:
  assumes pool: "pool (num * GET_SA_ALLOC_MIN_SIZE node_size + hdr) h = Some (a, h0)" and "pool_gives_memory pool" "off + 16 \<le> hdr"
    and "num * GET_SA_ALLOC_MIN_SIZE node_size + hdr < 2 ^ 64"
  shows "\<exists>A h1. nd_sa_create hdr off pool num node_size h = Some (Some A, h1) \<and> sa_inv (A, h1) {} \<and> sa_capacity A = int num \<and> node_size \<le> sa_node_size A"
proof -
  let ?sz = "GET_SA_ALLOC_MIN_SIZE node_size"
  let ?len = "num * ?sz + hdr"
  have len: "?len mod 2 ^ 64 = ?len" using assms(4) by (rule mod_less)
  have al: "0 < a" "\<And>p. a \<le> p \<Longrightarrow> p + 16 \<le> a + ?len \<Longrightarrow> allocated h0 p" using assms(2) pool by (auto simp: pool_gives_memory_def)
  have sz: "16 \<le> ?sz" "node_size \<le> ?sz" by (simp_all add: GET_SA_ALLOC_MIN_SIZE_def)
  have "allocated h0 (a + off)" using al(2) assms(3) by simp
  then obtain h2 where h2: "INIT_LIST_HEAD (a + off) h0 = Some h2" "dlist h2 (a + off) []" "unchanged {a + off} h0 h2"
    using init_head_ok by blast
  have node: "a + hdr + i * ?sz + 16 \<le> a + ?len" if "i < num" for i
  proof -
    have "Suc i * ?sz \<le> num * ?sz" using that by (intro mult_le_mono1) simp
    then show ?thesis using sz(1) by simp
  qed
  have al2: "\<forall>i < num. allocated h2 (a + hdr + i * ?sz)"
    using al(2) node unchanged_allocated [OF h2(3)] by auto
  have "\<forall>i < num. a + hdr + i * ?sz \<notin> set [a + off]" using assms(3) by auto
  with sa_fill_ok [OF h2(2) _ al2] sz(1) obtain h3 where
    h3: "sa_fill num (a + hdr) ?sz (a + off) h2 = Some h3" "dlist h3 (a + off) (rev (map (\<lambda>i. a + hdr + i * ?sz) [0..<num]))"
      "\<And>p. allocated h3 p = allocated h2 p" by auto
  define A where "A = \<lparr>sa_node_size = ?sz, sa_capacity = int num, allocated_num = 0, sa_errno = 0, sa_free_list = a + off, sa_addr = a + hdr\<rparr>"
  have "nd_sa_create hdr off pool num node_size h = Some (Some A, h3)"
    using h2(1) h3(1) pool unfolding nd_sa_create_def len Let_def A_def by simp
  moreover have "sa_nodes (A, h3) = set (rev (map (\<lambda>i. a + hdr + i * ?sz) [0..<num]))" by (auto simp: sa_nodes_def A_def)
  then have "sa_inv (A, h3) {}" using h3(2) al(1) al2 h3(3) sz assms(3) unfolding sa_inv_def A_def by auto
  moreover have "sa_capacity A = int num" "node_size \<le> sa_node_size A" using sz by (simp_all add: A_def)
  ultimately show ?thesis by blast
qed

lemma sa_nodes_card: "16 \<le> sa_node_size A \<Longrightarrow> card (sa_nodes (A, h)) = nat (sa_capacity A)"
  unfolding sa_nodes_def by (subst card_image) (auto simp: inj_on_def)

lemma sa_nodes_apart:
  assumes "p \<in> sa_nodes (A, h)" "q \<in> sa_nodes (A, h)" "p \<noteq> q"
  shows "p + sa_node_size A \<le> q \<or> q + sa_node_size A \<le> p"
proof -
  obtain i j where "p = sa_addr A + i * sa_node_size A" "q = sa_addr A + j * sa_node_size A" using assms(1,2) by (auto simp: sa_nodes_def)
  moreover from this assms(3) have "Suc i \<le> j \<or> Suc j \<le> i" by (metis Suc_leI linorder_neqE_nat)
  then have "Suc i * sa_node_size A \<le> j * sa_node_size A \<or> Suc j * sa_node_size A \<le> i * sa_node_size A"
    using mult_le_mono1 by blast
  ultimately show ?thesis by auto
qed

lemma sa_create_layout:
  assumes "pool (num * GET_SA_ALLOC_MIN_SIZE node_size + hdr) h = Some (blk, h0)" "num * GET_SA_ALLOC_MIN_SIZE node_size + hdr < 2 ^ 64"
    and "nd_sa_create hdr off pool num node_size h = Some (Some A, h1)"
  shows "sa_addr A = blk + hdr" "sa_node_size A = GET_SA_ALLOC_MIN_SIZE node_size"
  using assms(3) unfolding nd_sa_create_def Let_def mod_less [OF assms(2)] assms(1) by (auto split: Option.bind_splits)

lemma sa_nodes_inside:
  assumes "p \<in> sa_nodes (A, h)"
  shows "sa_addr A \<le> p \<and> p + sa_node_size A \<le> sa_addr A + nat (sa_capacity A) * sa_node_size A"
proof -
  obtain i where i: "p = sa_addr A + i * sa_node_size A" "i < nat (sa_capacity A)" using assms by (auto simp: sa_nodes_def)
  then have "Suc i * sa_node_size A \<le> nat (sa_capacity A) * sa_node_size A" by (intro mult_le_mono1) simp
  then show ?thesis using i(1) by simp
qed

text \<open>C28. When the memory pool gives a block, \<open>nd_sa_create\<close> makes an allocator of it, and along every sequence of allocations, frees of held nodes and
  writes to held nodes it works like a set of \<open>node_num\<close> nodes: an allocation hands out a node nobody holds as long as there is one and a null
  pointer otherwise; the node lies inside the block, behind the allocator's own structure, with its requested size, and overlaps no held node; freeing
  works, and \<open>nd_sa_freenum\<close> counts.\<close>

theorem static_alloc_hands_out_free_nodes:
  assumes blk: "pool (num * GET_SA_ALLOC_MIN_SIZE node_size + hdr) h = Some (blk, h0)" and "pool_gives_memory pool" "off + 16 \<le> hdr"
    and small: "num * GET_SA_ALLOC_MIN_SIZE node_size + hdr < 2 ^ 64"
  shows "\<exists>A h1. nd_sa_create hdr off pool num node_size h = Some (Some A, h1) \<and>
    (\<forall>s L. pool_reach nd_sa_alloc nd_sa_free user_write (A, h1) s L \<longrightarrow>
      (\<exists>s'. if card L = num then nd_sa_alloc s = Some (None, s')
         else \<exists>p. nd_sa_alloc s = Some (Some p, s') \<and> p \<notin> L \<and> (\<forall>q \<in> L. p + node_size \<le> q \<or> q + node_size \<le> p) \<and>
           blk + hdr \<le> p \<and> p + node_size \<le> blk + (num * GET_SA_ALLOC_MIN_SIZE node_size + hdr)) \<and>
      (\<forall>p \<in> L. \<exists>s'. nd_sa_free p s = Some s') \<and> nd_sa_freenum (fst s) = int num - int (card L))"
proof -
  obtain A h1 where c: "nd_sa_create hdr off pool num node_size h = Some (Some A, h1)" "sa_inv (A, h1) {}" "sa_capacity A = int num" "node_size \<le> sa_node_size A"
    using sa_create_ok [OF assms] by auto
  note lay = sa_create_layout [OF blk small c(1)]
  let ?N = "sa_nodes (A, h1)"
  have card: "card ?N = num" using sa_nodes_card [of A h1] c(2,3) by (auto simp: sa_inv_def)
  have inside: "blk + hdr \<le> p \<and> p + node_size \<le> blk + (num * GET_SA_ALLOC_MIN_SIZE node_size + hdr)" if "p \<in> ?N" for p
    using sa_nodes_inside [OF that] lay c(3,4) by auto
  have "(\<exists>s'. if card L = num then nd_sa_alloc s = Some (None, s')
      else \<exists>p. nd_sa_alloc s = Some (Some p, s') \<and> p \<notin> L \<and> (\<forall>q \<in> L. p + node_size \<le> q \<or> q + node_size \<le> p) \<and>
        blk + hdr \<le> p \<and> p + node_size \<le> blk + (num * GET_SA_ALLOC_MIN_SIZE node_size + hdr)) \<and>
      (\<forall>p \<in> L. \<exists>s'. nd_sa_free p s = Some s') \<and> nd_sa_freenum (fst s) = int num - int (card L)"
    if r: "pool_reach nd_sa_alloc nd_sa_free user_write (A, h1) s L" for s L
  proof -
    note calls = sa.reach_calls [OF r c(2)]
    have full: "card L = num \<longleftrightarrow> L = ?N" using calls(1) card finite_sa_nodes card_subset_eq by metis
    have apart: "p + node_size \<le> q \<or> q + node_size \<le> p" if "p \<in> ?N" "q \<in> L" "p \<notin> L" for p q
      using sa_nodes_apart [of p A h1 q] that calls(1) c(4) by fastforce
    have "sa_inv s L" "sa_nodes s = ?N" using sa.reach_inv [OF r c(2)] by auto
    then have "sa_capacity (fst s) = int num" "allocated_num (fst s) = int (card L)"
      using sa_nodes_card [of "fst s" "snd s"] card by (auto simp: sa_inv_def)
    moreover have "\<exists>s'. if card L = num then nd_sa_alloc s = Some (None, s')
        else \<exists>p. nd_sa_alloc s = Some (Some p, s') \<and> p \<notin> L \<and> (\<forall>q \<in> L. p + node_size \<le> q \<or> q + node_size \<le> p) \<and>
          blk + hdr \<le> p \<and> p + node_size \<le> blk + (num * GET_SA_ALLOC_MIN_SIZE node_size + hdr)"
      using calls(2) apart inside unfolding full by (auto split: if_splits)
    ultimately show ?thesis using calls(3) by (simp add: nd_sa_freenum_def)
  qed
  then show ?thesis using c(1) by blast
qed

definition sample_pool :: "nat \<Rightarrow> lheap \<Rightarrow> (addr \<times> lheap) option" where
  "sample_pool n h = (let m = (\<lambda>p. if 64 \<le> p \<and> p + 16 \<le> 64 + n then Some 0 else None) in Some (64, \<lparr>lnext = m, lprev = m\<rparr>))"

lemma sample_pool_ok: "pool_gives_memory sample_pool"
  by (auto simp: pool_gives_memory_def sample_pool_def allocated_def Let_def split: if_splits)

theorem static_alloc_hands_out_free_nodes_witness:
  "\<exists>A h1 p s'. nd_sa_create 64 16 sample_pool 2 20 \<lparr>lnext = Map.empty, lprev = Map.empty\<rparr> = Some (Some A, h1) \<and>
     nd_sa_alloc (A, h1) = Some (Some p, s') \<and> 128 \<le> p \<and> p + 20 \<le> 168 \<and> nd_sa_freenum A = 2"
proof -
  let ?h = "\<lparr>lnext = Map.empty, lprev = Map.empty\<rparr>"
  obtain h0 where h0: "sample_pool (2 * GET_SA_ALLOC_MIN_SIZE 20 + 64) ?h = Some (64, h0)" by (simp add: sample_pool_def Let_def)
  have "(16 :: nat) + 16 \<le> 64" "2 * GET_SA_ALLOC_MIN_SIZE 20 + 64 < 2 ^ 64" by (simp_all add: GET_SA_ALLOC_MIN_SIZE_def)
  from static_alloc_hands_out_free_nodes [OF h0 sample_pool_ok this]
  show ?thesis
  proof (elim exE conjE)
    fix A h1
    assume c: "nd_sa_create 64 16 sample_pool 2 20 ?h = Some (Some A, h1)"
    assume "\<forall>s L. pool_reach nd_sa_alloc nd_sa_free user_write (A, h1) s L \<longrightarrow>
      (\<exists>s'. if card L = 2 then nd_sa_alloc s = Some (None, s')
         else \<exists>p. nd_sa_alloc s = Some (Some p, s') \<and> p \<notin> L \<and> (\<forall>q \<in> L. p + 20 \<le> q \<or> q + 20 \<le> p) \<and>
           64 + 64 \<le> p \<and> p + 20 \<le> 64 + (2 * GET_SA_ALLOC_MIN_SIZE 20 + 64)) \<and>
      (\<forall>p \<in> L. \<exists>s'. nd_sa_free p s = Some s') \<and> nd_sa_freenum (fst s) = int 2 - int (card L)"
    from this [rule_format, OF pool_reach.start] c show ?thesis by (auto simp: GET_SA_ALLOC_MIN_SIZE_def)
  qed
qed

end
