(* ===== verification/Node_Mgr.thy ===== *)
theory Node_Mgr
  imports Static_Alloc
begin

text \<open>
  The node manager of \<^verbatim>\<open>src/nd_common/src/node_mgr.c\<close>: a table of slots in which a server registers its sessions and which
  gives them their 16-bit session ids. A slot is used by its reference count and belongs to a thread; only that thread can
  lock the node. \<open>self\<close> is \<open>nd_thread_self()\<close>. The atomic operations on the counts are single steps here. The manager's
  function table is not modelled: the operations are those \<open>nd_node_mgr_create\<close> installs. A null pointer is the address 0; the
  table itself is \<open>None\<close> after the manager is destroyed, and using it then has no value.
\<close>

section \<open>State\<close>

record srvnode_info =
  used :: int
  nowner :: nat
  node_addr :: addr

record node_root =
  max_conn_num :: nat
  connect_num :: int
  base_id :: int
  nparam :: nat
  node_alloctor :: "nd_static_alloc option"
  connmgr_addr :: "srvnode_info list option"
  nnode_size :: nat

definition zero_slot :: srvnode_info where
  "zero_slot = \<lparr>used = 0, nowner = 0, node_addr = 0\<rparr>"

definition nd_node_preinit :: node_root where
  "nd_node_preinit = \<lparr>max_conn_num = 0, connect_num = 0, base_id = 0, nparam = 0, node_alloctor = None, connmgr_addr = None, nnode_size = 0\<rparr>"

text \<open>\<open>sa_create\<close> is \<open>nd_sa_create\<close> on the pool of the manager, \<open>mem\<close> whether the pool has room for the table, and \<open>pool_free\<close>
  gives the block of an allocator back.\<close>

definition nd_node_mgr_create ::
  "(nat \<Rightarrow> nat \<Rightarrow> lheap \<Rightarrow> (nd_static_alloc option \<times> lheap) option) \<Rightarrow> (nd_static_alloc \<Rightarrow> lheap \<Rightarrow> lheap) \<Rightarrow> bool \<Rightarrow>
   nat \<Rightarrow> nat \<Rightarrow> u16 \<Rightarrow> node_root \<Rightarrow> lheap \<Rightarrow> (int \<times> node_root \<times> lheap) option" where
  "nd_node_mgr_create sa_create pool_free mem max_num node_size start_id root h = do {
     let root = root\<lparr>nparam := 0, max_conn_num := max_num, connect_num := 0, base_id := int (unat start_id), nnode_size := node_size\<rparr>;
     (root, h) \<leftarrow> (if node_size > 0 then do { (sa, h) \<leftarrow> sa_create max_num node_size h; Some (root\<lparr>node_alloctor := sa\<rparr>, h) }
                   else Some (root, h));
     if node_size > 0 \<and> node_alloctor root = None then Some (-1, root, h)
     else if mem then Some (0, root\<lparr>connmgr_addr := Some (replicate max_num zero_slot)\<rparr>, h)
     else Some (-1, root\<lparr>node_alloctor := None, connmgr_addr := None\<rparr>, snd (nd_sa_destroy pool_free (node_alloctor root) h))
   }"

definition nd_node_mgr_destroy :: "(nd_static_alloc \<Rightarrow> lheap \<Rightarrow> lheap) \<Rightarrow> node_root \<Rightarrow> lheap \<Rightarrow> node_root \<times> lheap" where
  "nd_node_mgr_destroy pool_free root h =
     (if connmgr_addr root = None then (root, h)
      else (root\<lparr>connmgr_addr := None, node_alloctor := None\<rparr>, snd (nd_sa_destroy pool_free (node_alloctor root) h)))"

text \<open>The index of a node id; \<open>None\<close> when it is out of range.\<close>

definition node_index :: "node_root \<Rightarrow> u16 \<Rightarrow> nat option" where
  "node_index root node_id =
     (let index = int (unat node_id) - base_id root in
      if index < 0 \<or> index \<ge> int (max_conn_num root) then None else Some (nat index))"

text \<open>Reading and writing a slot of the table.\<close>

definition get_slot :: "node_root \<Rightarrow> nat \<Rightarrow> srvnode_info option" where
  "get_slot root i = (case connmgr_addr root of None \<Rightarrow> None | Some t \<Rightarrow> if i < length t then Some (t ! i) else None)"

definition set_slot :: "node_root \<Rightarrow> nat \<Rightarrow> srvnode_info \<Rightarrow> node_root option" where
  "set_slot root i n = (case connmgr_addr root of
     None \<Rightarrow> None | Some t \<Rightarrow> if i < length t then Some (root\<lparr>connmgr_addr := Some (t[i := n])\<rparr>) else None)"

section \<open>Accepting and releasing\<close>

text \<open>The loop of \<open>_nd_node_accept\<close>: the index of the first free slot among the next \<open>k\<close> from \<open>index\<close> on.\<close>

fun accept_scan :: "nat \<Rightarrow> nat \<Rightarrow> node_root \<Rightarrow> nat option option" where
  "accept_scan 0 index root = Some None"
| "accept_scan (Suc k) index root = do {
     let index = (if index \<ge> max_conn_num root then 0 else index);
     node \<leftarrow> get_slot root index;
     if used node = 0 then Some (Some index) else accept_scan k (index + 1) root
   }"

definition nd_node_accept :: "nat \<Rightarrow> addr \<Rightarrow> node_root \<Rightarrow> (u16 \<times> node_root) option" where
  "nd_node_accept self socket_node root = do {
     r \<leftarrow> accept_scan (max_conn_num root) (nparam root) root;
     (case r of
        None \<Rightarrow> Some (0, root)
      | Some index \<Rightarrow> do {
          root \<leftarrow> set_slot root index \<lparr>used = 1, nowner = self, node_addr = socket_node\<rparr>;
          Some (word_of_int (int index + base_id root), root\<lparr>connect_num := connect_num root + 1\<rparr>)
        })
   }"

definition nd_node_deaccept :: "u16 \<Rightarrow> node_root \<Rightarrow> (int \<times> node_root) option" where
  "nd_node_deaccept node_id root = (case node_index root node_id of
     None \<Rightarrow> Some (-1, root)
   | Some index \<Rightarrow> do {
       root \<leftarrow> set_slot root index \<lparr>used = 0, nowner = 0, node_addr = 0\<rparr>;
       Some (0, root\<lparr>connect_num := connect_num root - 1\<rparr>)
     })"

definition nd_node_inc_ref :: "u16 \<Rightarrow> node_root \<Rightarrow> (int \<times> node_root) option" where
  "nd_node_inc_ref node_id root = (case node_index root node_id of
     None \<Rightarrow> Some (-1, root)
   | Some index \<Rightarrow> do {
       node \<leftarrow> get_slot root index;
       if used node > 0 then do { root \<leftarrow> set_slot root index (node\<lparr>used := used node + 1\<rparr>); Some (0, root) }
       else Some (-1, root)
     })"

definition nd_node_dec_ref :: "u16 \<Rightarrow> node_root \<Rightarrow> node_root option" where
  "nd_node_dec_ref node_id root = (case node_index root node_id of
     None \<Rightarrow> Some root
   | Some index \<Rightarrow> do { node \<leftarrow> get_slot root index; set_slot root index (node\<lparr>used := used node - 1\<rparr>) })"

section \<open>Locking\<close>

definition nd_node_lock :: "nat \<Rightarrow> u16 \<Rightarrow> node_root \<Rightarrow> addr option" where
  "nd_node_lock self node_id root = (case node_index root node_id of
     None \<Rightarrow> Some 0
   | Some index \<Rightarrow> do {
       node \<leftarrow> get_slot root index;
       Some (if used node = 0 then 0 else if nowner node \<noteq> self then 0 else node_addr node)
     })"

definition nd_node_safe_lock :: "nat \<Rightarrow> u16 \<Rightarrow> node_root \<Rightarrow> addr option" where
  "nd_node_safe_lock self node_id root = nd_node_lock self node_id root"

definition nd_node_trylock :: "nat \<Rightarrow> u16 \<Rightarrow> node_root \<Rightarrow> addr option" where
  "nd_node_trylock self node_id root = nd_node_lock self node_id root"

definition nd_node_unlock :: "u16 \<Rightarrow> node_root \<Rightarrow> node_root" where
  "nd_node_unlock node_id root = root"

definition nd_node_search :: "nat \<Rightarrow> u16 \<Rightarrow> node_root \<Rightarrow> addr option" where
  "nd_node_search self node_id root = nd_node_trylock self node_id root"

definition nd_node_set_owner :: "u16 \<Rightarrow> nat \<Rightarrow> node_root \<Rightarrow> node_root option" where
  "nd_node_set_owner node_id owner root = (case node_index root node_id of
     None \<Rightarrow> Some root
   | Some index \<Rightarrow> do { node \<leftarrow> get_slot root index; set_slot root index (node\<lparr>nowner := owner\<rparr>) })"

definition nd_node_get_owner :: "u16 \<Rightarrow> node_root \<Rightarrow> nat option" where
  "nd_node_get_owner node_id root = (case node_index root node_id of
     None \<Rightarrow> Some 0
   | Some index \<Rightarrow> do { node \<leftarrow> get_slot root index; Some (nowner node) })"

text \<open>\<open>nd_node_change_owner\<close> goes over every slot when there is any node at all.\<close>

fun change_owner_loop :: "nat \<Rightarrow> u16 \<Rightarrow> nat \<Rightarrow> node_root \<Rightarrow> node_root option" where
  "change_owner_loop 0 nodeid owner root = Some root"
| "change_owner_loop (Suc k) nodeid owner root = do { root \<leftarrow> nd_node_set_owner nodeid owner root; change_owner_loop k (nodeid + 1) owner root }"

definition nd_node_change_owner :: "nat \<Rightarrow> node_root \<Rightarrow> node_root option" where
  "nd_node_change_owner owner root =
     (if connect_num root > 0 then change_owner_loop (max_conn_num root) (word_of_int (base_id root)) owner root else Some root)"

definition nd_node_free_num :: "node_root \<Rightarrow> int option" where
  "nd_node_free_num root = map_option nd_sa_freenum (node_alloctor root)"

definition nd_node_capacity :: "node_root \<Rightarrow> int option" where
  "nd_node_capacity root = map_option nd_sa_capacity (node_alloctor root)"

definition nd_node_set_allocator :: "nd_static_alloc option \<Rightarrow> node_root \<Rightarrow> node_root" where
  "nd_node_set_allocator allocator root = root\<lparr>node_alloctor := allocator\<rparr>"

section \<open>Going over the nodes\<close>

text \<open>\<open>cb\<close> gets the id of every used slot and may change the manager and whatever else it works on.\<close>

fun walk_loop :: "(u16 \<Rightarrow> node_root \<times> 's \<Rightarrow> node_root \<times> 's) \<Rightarrow> nat \<Rightarrow> nat \<Rightarrow> int \<Rightarrow> node_root \<times> 's \<Rightarrow> (node_root \<times> 's) option" where
  "walk_loop cb 0 i num s = Some s"
| "walk_loop cb (Suc k) i num s =
     (if num > 0 then do {
        node \<leftarrow> get_slot (fst s) i;
        if used node > 0 then walk_loop cb k (i + 1) (num - 1) (cb (word_of_int (int i + base_id (fst s))) s)
        else walk_loop cb k (i + 1) num s
      } else Some s)"

definition nd_node_walk_node :: "(u16 \<Rightarrow> node_root \<times> 's \<Rightarrow> node_root \<times> 's) \<Rightarrow> node_root \<times> 's \<Rightarrow> (node_root \<times> 's) option" where
  "nd_node_walk_node cb s = walk_loop cb (max_conn_num (fst s)) 0 (connect_num (fst s)) s"

record node_iterator =
  it_node_id :: u16
  it_numbers :: u16
  it_total :: u16

text \<open>The scan of \<open>_nd_node_lock_first\<close> and \<open>_nd_node_lock_next\<close> over \<open>k\<close> slots from \<open>i\<close> on; only the latter stops when as many
  used slots as there were nodes have been seen (\<open>bounded\<close>).\<close>

fun lock_scan :: "bool \<Rightarrow> nat \<Rightarrow> nat \<Rightarrow> nat \<Rightarrow> node_iterator \<Rightarrow> node_root \<Rightarrow> (addr \<times> node_iterator) option" where
  "lock_scan bounded self 0 i it root = Some (0, it\<lparr>it_node_id := 0\<rparr>)"
| "lock_scan bounded self (Suc k) i it root =
     (if bounded \<and> it_numbers it \<ge> it_total it then Some (0, it\<lparr>it_node_id := 0\<rparr>)
      else do {
        node \<leftarrow> get_slot root i;
        if used node > 0 then
          let it = it\<lparr>it_numbers := it_numbers it + 1\<rparr> in
          if nowner node = self then Some (node_addr node, it)
          else lock_scan bounded self k (i + 1) (it\<lparr>it_node_id := it_node_id it + 1\<rparr>) root
        else lock_scan bounded self k (i + 1) (it\<lparr>it_node_id := it_node_id it + 1\<rparr>) root
      })"

definition nd_node_lock_first :: "nat \<Rightarrow> node_iterator \<Rightarrow> node_root \<Rightarrow> (addr \<times> node_iterator) option" where
  "nd_node_lock_first self it root =
     (if connect_num root < 1 then Some (0, it)
      else lock_scan False self (max_conn_num root) 0
        \<lparr>it_node_id = word_of_int (base_id root), it_numbers = 0, it_total = word_of_int (connect_num root)\<rparr> root)"

text \<open>An iterator that does not stand on a slot trips the assertion or leaves the table.\<close>

definition nd_node_lock_next :: "nat \<Rightarrow> node_iterator \<Rightarrow> node_root \<Rightarrow> (addr \<times> node_iterator) option" where
  "nd_node_lock_next self it root = do {
     i \<leftarrow> node_index root (it_node_id it);
     lock_scan True self (max_conn_num root - (i + 1)) (i + 1) (it\<lparr>it_node_id := it_node_id it + 1\<rparr>) root
   }"

definition nd_node_unlock_iterator :: "node_iterator \<Rightarrow> node_iterator" where
  "nd_node_unlock_iterator it = \<lparr>it_node_id = 0, it_numbers = 0, it_total = 0\<rparr>"

text \<open>The loop with which the server goes over the nodes of a thread: \<open>lock_first\<close>, then \<open>lock_next\<close> until it returns a null
  pointer. The result is the nodes visited; \<open>fuel\<close> bounds the number of rounds.\<close>

fun visit_rest :: "nat \<Rightarrow> nat \<Rightarrow> addr \<times> node_iterator \<Rightarrow> node_root \<Rightarrow> addr list option" where
  "visit_rest 0 self x root = None"
| "visit_rest (Suc fuel) self x root =
     (if fst x = 0 then Some []
      else do {
        y \<leftarrow> nd_node_lock_next self (snd x) root;
        rest \<leftarrow> visit_rest fuel self y root;
        Some (fst x # rest)
      })"

definition visit_nodes :: "nat \<Rightarrow> nat \<Rightarrow> node_iterator \<Rightarrow> node_root \<Rightarrow> addr list option" where
  "visit_nodes fuel self it root = do { x \<leftarrow> nd_node_lock_first self it root; visit_rest fuel self x root }"

section \<open>The table as a map\<close>

definition in_use :: "srvnode_info \<Rightarrow> bool" where "in_use n \<longleftrightarrow> used n > 0"

definition nm_table :: "node_root \<Rightarrow> u16 \<rightharpoonup> addr \<times> nat" where
  "nm_table root node_id = (case node_index root node_id of
     None \<Rightarrow> None
   | Some i \<Rightarrow> (case get_slot root i of None \<Rightarrow> None | Some n \<Rightarrow> if in_use n then Some (node_addr n, nowner n) else None))"

definition nm_ok :: "node_root \<Rightarrow> bool" where
  "nm_ok root \<longleftrightarrow> (\<exists>t. connmgr_addr root = Some t \<and> length t = max_conn_num root \<and> 0 < base_id root \<and>
     base_id root + int (max_conn_num root) \<le> 65536 \<and> nparam root = 0 \<and> (\<forall>n \<in> set t. 0 \<le> used n) \<and>
     connect_num root = int (length (filter in_use t)))"

definition slot_id :: "node_root \<Rightarrow> nat \<Rightarrow> u16" where
  "slot_id root i = word_of_int (int i + base_id root)"

lemma nm_okE:
  assumes "nm_ok root"
  obtains t where "connmgr_addr root = Some t" "length t = max_conn_num root" "0 < base_id root" "base_id root + int (max_conn_num root) \<le> 65536"
    "nparam root = 0" "\<And>n. n \<in> set t \<Longrightarrow> 0 \<le> used n" "connect_num root = int (length (filter in_use t))"
  using assms by (auto simp: nm_ok_def)

lemma slot_id_uint: "nm_ok root \<Longrightarrow> i < max_conn_num root \<Longrightarrow> int (unat (slot_id root i)) = int i + base_id root"
  by (auto simp: slot_id_def nm_ok_def unsigned_of_int take_bit_int_eq_self simp del: of_int_add of_int_of_nat_eq)

lemma node_index_iff:
  assumes "nm_ok root" "i < max_conn_num root"
  shows "node_index root nid = Some i \<longleftrightarrow> nid = slot_id root i"
proof
  assume "node_index root nid = Some i"
  then have "int (unat nid) = int i + base_id root" by (auto simp: node_index_def Let_def split: if_splits)
  then have "int (unat nid) = int (unat (slot_id root i))" using slot_id_uint [OF assms] by simp
  then show "nid = slot_id root i" by (simp only: of_nat_eq_iff word_unat_eq_iff)
next
  assume "nid = slot_id root i"
  then show "node_index root nid = Some i" using slot_id_uint [OF assms] assms(2) by (simp add: node_index_def Let_def)
qed

lemma node_index_bound: "node_index root nid = Some i \<Longrightarrow> i < max_conn_num root"
  by (auto simp: node_index_def Let_def split: if_splits)

lemma slot_id_nonzero: "nm_ok root \<Longrightarrow> i < max_conn_num root \<Longrightarrow> slot_id root i \<noteq> 0"
  using slot_id_uint [of root i] by (auto simp: nm_ok_def)

lemma filter_update_length:
  "i < length t \<Longrightarrow> int (length (filter P (t[i := n]))) = int (length (filter P t)) + (if P n then 1 else 0) - (if P (t ! i) then 1 else 0)"
proof (induction t arbitrary: i)
  case (Cons x t)
  show ?case
  proof (cases i)
    case (Suc j)
    then show ?thesis using Cons.IH [of j] Cons.prems by (auto split: if_splits)
  qed simp
qed simp

text \<open>Writing a slot: the map changes at its nid, and the invariant stays when the count follows.\<close>

lemma set_slot_ok:
  assumes ok: "nm_ok root" and t: "connmgr_addr root = Some t" and i: "i < max_conn_num root" and n: "0 \<le> used n"
    and c: "c = connect_num root + (if in_use n then 1 else 0) - (if in_use (t ! i) then 1 else 0)"
  shows "set_slot root i n = Some (root\<lparr>connmgr_addr := Some (t[i := n])\<rparr>)"
    and "nm_ok (root\<lparr>connmgr_addr := Some (t[i := n]), connect_num := c\<rparr>)"
    and "nm_table (root\<lparr>connmgr_addr := Some (t[i := n]), connect_num := c\<rparr>) =
      (nm_table root)(slot_id root i := if in_use n then Some (node_addr n, nowner n) else None)"
proof -
  have l: "length t = max_conn_num root" using ok t by (auto simp: nm_ok_def)
  show "set_slot root i n = Some (root\<lparr>connmgr_addr := Some (t[i := n])\<rparr>)" using t i l by (simp add: set_slot_def)
  show "nm_ok (root\<lparr>connmgr_addr := Some (t[i := n]), connect_num := c\<rparr>)"
    using ok t i l n c filter_update_length [of i t in_use n] by (auto simp: nm_ok_def dest!: set_update_subset_insert [THEN subsetD])
  show "nm_table (root\<lparr>connmgr_addr := Some (t[i := n]), connect_num := c\<rparr>) =
      (nm_table root)(slot_id root i := if in_use n then Some (node_addr n, nowner n) else None)" (is "?l = ?r")
  proof
    fix nid
    have ni: "node_index (root\<lparr>connmgr_addr := Some (t[i := n]), connect_num := c\<rparr>) x = node_index root x" for x by (simp add: node_index_def)
    show "?l nid = ?r nid"
    proof (cases "nid = slot_id root i")
      case True
      then have "node_index root nid = Some i" using node_index_iff [OF ok i] by simp
      then show ?thesis using True i l by (simp add: nm_table_def ni get_slot_def)
    next
      case False
      then have "node_index root nid \<noteq> Some i" using node_index_iff [OF ok i] by simp
      then show ?thesis using False t by (auto simp: nm_table_def ni get_slot_def split: option.split)
    qed
  qed
qed

lemma nm_table_slot:
  assumes "nm_ok root" "connmgr_addr root = Some t" "i < max_conn_num root"
  shows "nm_table root (slot_id root i) = (if in_use (t ! i) then Some (node_addr (t ! i), nowner (t ! i)) else None)"
proof -
  have "node_index root (slot_id root i) = Some i" "length t = max_conn_num root"
    using node_index_iff [OF assms(1,3)] assms(1,2) by (auto simp: nm_ok_def)
  then show ?thesis using assms by (simp add: nm_table_def get_slot_def)
qed

lemma nm_table_card:
  assumes "nm_ok root" "connmgr_addr root = Some t"
  shows "dom (nm_table root) = slot_id root ` {i. i < max_conn_num root \<and> in_use (t ! i)}"
    and "card (dom (nm_table root)) = length (filter in_use t)"
proof -
  have l: "length t = max_conn_num root" using assms by (auto simp: nm_ok_def)
  show d: "dom (nm_table root) = slot_id root ` {i. i < max_conn_num root \<and> in_use (t ! i)}"
  proof (intro equalityI subsetI)
    fix nid
    assume "nid \<in> dom (nm_table root)"
    then obtain i where i: "node_index root nid = Some i" by (auto simp: nm_table_def split: option.splits)
    then have "nid = slot_id root i" "i < max_conn_num root" using node_index_iff [OF assms(1)] node_index_bound by blast+
    then show "nid \<in> slot_id root ` {i. i < max_conn_num root \<and> in_use (t ! i)}"
      using \<open>nid \<in> dom (nm_table root)\<close> nm_table_slot [OF assms] by (auto split: if_splits)
  qed (use nm_table_slot [OF assms] in auto)
  have "inj_on (slot_id root) {i. i < max_conn_num root \<and> in_use (t ! i)}"
    using node_index_iff [OF assms(1)] by (intro inj_onI) (metis mem_Collect_eq option.inject)
  then show "card (dom (nm_table root)) = length (filter in_use t)" by (simp add: d card_image length_filter_conv_card l)
qed

section \<open>The contract\<close>

text \<open>What a server relies on: accepting gives a node an unused id, releasing frees it, and locking finds the node for its
  owner. The map is from ids to nodes and their owners.\<close>

locale node_table =
  fixes inv :: "'r \<Rightarrow> bool" and tab :: "'r \<Rightarrow> u16 \<rightharpoonup> addr \<times> nat" and cap :: "'r \<Rightarrow> nat"
    and accept :: "nat \<Rightarrow> addr \<Rightarrow> 'r \<Rightarrow> (u16 \<times> 'r) option" and deaccept :: "u16 \<Rightarrow> 'r \<Rightarrow> (int \<times> 'r) option"
    and lock :: "nat \<Rightarrow> u16 \<Rightarrow> 'r \<Rightarrow> addr option"
  assumes accept_free: "inv r \<Longrightarrow> card (dom (tab r)) \<noteq> cap r \<Longrightarrow>
      \<exists>nid r'. accept self a r = Some (nid, r') \<and> nid \<noteq> 0 \<and> tab r nid = None \<and> tab r' = (tab r)(nid \<mapsto> (a, self)) \<and> inv r' \<and> cap r' = cap r"
    and accept_full: "inv r \<Longrightarrow> card (dom (tab r)) = cap r \<Longrightarrow> accept self a r = Some (0, r)"
    and deaccept_used: "inv r \<Longrightarrow> tab r nid \<noteq> None \<Longrightarrow>
      \<exists>r'. deaccept nid r = Some (0, r') \<and> tab r' = (tab r)(nid := None) \<and> inv r' \<and> cap r' = cap r"
    and lock_node: "inv r \<Longrightarrow> lock self nid r = Some (case tab r nid of None \<Rightarrow> 0 | Some (a, ow) \<Rightarrow> if ow = self then a else 0)"
    and no_zero: "inv r \<Longrightarrow> tab r 0 = None"

datatype table_op = Accept nat addr | Deaccept u16

text \<open>A run of a client that releases only ids it has been given; \<open>m\<close> is the map it keeps in its mind, and the results are the ids.\<close>

fun table_run :: "(nat \<Rightarrow> addr \<Rightarrow> 'r \<Rightarrow> (u16 \<times> 'r) option) \<Rightarrow> (u16 \<Rightarrow> 'r \<Rightarrow> (int \<times> 'r) option) \<Rightarrow> table_op list \<Rightarrow>
    (u16 \<rightharpoonup> addr \<times> nat) \<Rightarrow> 'r \<Rightarrow> ((u16 \<rightharpoonup> addr \<times> nat) \<times> 'r) option" where
  "table_run accept deaccept [] m r = Some (m, r)"
| "table_run accept deaccept (Accept self a # ops) m r = do {
     (nid, r) \<leftarrow> accept self a r;
     table_run accept deaccept ops (if nid = 0 then m else m(nid \<mapsto> (a, self))) r
   }"
| "table_run accept deaccept (Deaccept nid # ops) m r =
     (if m nid = None then table_run accept deaccept ops m r
      else do { (_, r) \<leftarrow> deaccept nid r; table_run accept deaccept ops (m(nid := None)) r })"

context node_table
begin

lemma run_map:
  assumes "inv r"
  shows "\<exists>m' r'. table_run accept deaccept ops (tab r) r = Some (m', r') \<and> inv r' \<and> tab r' = m' \<and> cap r' = cap r"
  using assms
proof (induction ops arbitrary: r)
  case (Cons x ops)
  show ?case
  proof (cases x)
    case (Accept self a)
    show ?thesis
    proof (cases "card (dom (tab r)) = cap r")
      case True
      then show ?thesis using Accept Cons accept_full [OF Cons.prems] by simp
    next
      case False
      then obtain nid r' where r': "accept self a r = Some (nid, r')" "nid \<noteq> 0" "tab r' = (tab r)(nid \<mapsto> (a, self))" "inv r'" "cap r' = cap r"
        using accept_free [OF Cons.prems] by blast
      then show ?thesis using Accept Cons.IH [OF r'(4)] by (simp flip: r'(3))
    qed
  next
    case (Deaccept nid)
    show ?thesis
    proof (cases "tab r nid = None")
      case True
      then show ?thesis using Deaccept Cons by simp
    next
      case False
      then obtain r' where r': "deaccept nid r = Some (0, r')" "tab r' = (tab r)(nid := None)" "inv r'" "cap r' = cap r"
        using deaccept_used [OF Cons.prems] by blast
      then show ?thesis using Deaccept Cons.IH [OF r'(3)] False by (auto simp flip: r'(2))
    qed
  qed
qed simp

end

section \<open>The manager keeps the contract\<close>

lemma accept_scan_find:
  assumes "connmgr_addr root = Some t" "length t = max_conn_num root" "i + k = max_conn_num root"
  shows "accept_scan k i root = Some (List.find (\<lambda>j. used (t ! j) = 0) [i..<max_conn_num root])"
  using assms(3)
proof (induction k arbitrary: i)
  case (Suc k)
  then have i: "i < max_conn_num root" by simp
  then show ?case using Suc.IH [of "i + 1"] Suc.prems assms(1,2) by (simp add: get_slot_def upt_conv_Cons)
qed simp

lemma find_upt_Some: "List.find P [0..<n] = Some i \<Longrightarrow> i < n \<and> P i"
  by (auto simp: find_Some_iff)

lemma node_accept_free:
  assumes ok: "nm_ok root" and free: "card (dom (nm_table root)) \<noteq> max_conn_num root"
  shows "\<exists>nid root'. nd_node_accept self a root = Some (nid, root') \<and> nid \<noteq> 0 \<and> nm_table root nid = None \<and>
    nm_table root' = (nm_table root)(nid \<mapsto> (a, self)) \<and> nm_ok root' \<and> max_conn_num root' = max_conn_num root"
proof -
  obtain t where t: "connmgr_addr root = Some t" "length t = max_conn_num root" "nparam root = 0" "\<And>n. n \<in> set t \<Longrightarrow> 0 \<le> used n"
    using nm_okE [OF ok] by metis
  have "\<exists>n \<in> set t. \<not> in_use n"
    using free nm_table_card(2) [OF ok t(1)] t(2) by (metis filter_True)
  then obtain j where "j < length t" "used (t ! j) = 0" using t(4) by (metis in_set_conv_nth in_use_def not_less order_antisym)
  then have "List.find (\<lambda>j. used (t ! j) = 0) [0..<max_conn_num root] \<noteq> None" using t(2) by (auto simp: find_None_iff)
  then obtain i where i: "List.find (\<lambda>j. used (t ! j) = 0) [0..<max_conn_num root] = Some i" by blast
  have i': "i < max_conn_num root" "used (t ! i) = 0" using find_upt_Some [OF i] by auto
  let ?n = "\<lparr>used = 1, nowner = self, node_addr = a\<rparr>"
  have c: "connect_num root + 1 = connect_num root + (if in_use ?n then 1 else 0) - (if in_use (t ! i) then 1 else 0)"
    using i'(2) by (simp add: in_use_def)
  note s = set_slot_ok [OF ok t(1) i'(1) _ c]
  let ?r = "root\<lparr>connmgr_addr := Some (t[i := ?n]), connect_num := connect_num root + 1\<rparr>"
  have "nd_node_accept self a root = Some (slot_id root i, ?r)"
    using accept_scan_find [OF t(1,2), of 0 "max_conn_num root"] i s(1) t(3) by (simp add: nd_node_accept_def slot_id_def)
  moreover have "nm_table ?r = (nm_table root)(slot_id root i \<mapsto> (a, self))" "nm_ok ?r" using s(2,3) by (simp_all add: in_use_def)
  moreover have "nm_table root (slot_id root i) = None" using nm_table_slot [OF ok t(1) i'(1)] i'(2) by (simp add: in_use_def)
  ultimately show ?thesis using slot_id_nonzero [OF ok i'(1)] by auto
qed

lemma node_accept_full:
  assumes ok: "nm_ok root" and full: "card (dom (nm_table root)) = max_conn_num root"
  shows "nd_node_accept self a root = Some (0, root)"
proof -
  obtain t where t: "connmgr_addr root = Some t" "length t = max_conn_num root" "nparam root = 0" using nm_okE [OF ok] by metis
  have "filter in_use t = t"
    using full nm_table_card(2) [OF ok t(1)] t(2) by (metis length_filter_less less_irrefl filter_id_conv)
  then have "\<forall>n \<in> set t. in_use n" by (simp add: filter_id_conv)
  then have "List.find (\<lambda>j. used (t ! j) = 0) [0..<max_conn_num root] = None"
    using t(2) by (auto simp: find_None_iff in_use_def all_set_conv_all_nth)
  then show ?thesis using accept_scan_find [OF t(1,2), of 0 "max_conn_num root"] t(3) by (simp add: nd_node_accept_def)
qed

lemma nm_table_used:
  assumes ok: "nm_ok root" and "nm_table root nid \<noteq> None"
  obtains t i where "connmgr_addr root = Some t" "length t = max_conn_num root" "i < max_conn_num root" "nid = slot_id root i"
    "node_index root nid = Some i" "in_use (t ! i)" "nm_table root nid = Some (node_addr (t ! i), nowner (t ! i))"
proof -
  obtain t where t: "connmgr_addr root = Some t" "length t = max_conn_num root" using nm_okE [OF ok] by metis
  obtain i where i: "node_index root nid = Some i" using assms(2) by (auto simp: nm_table_def split: option.splits)
  have b: "i < max_conn_num root" "nid = slot_id root i" using node_index_bound [OF i] node_index_iff [OF ok] i by blast+
  show thesis using that [OF t b i] nm_table_slot [OF ok t(1) b(1)] assms(2) b(2) by (auto split: if_splits)
qed

lemma node_deaccept_used:
  assumes ok: "nm_ok root" and "nm_table root nid \<noteq> None"
  shows "\<exists>root'. nd_node_deaccept nid root = Some (0, root') \<and> nm_table root' = (nm_table root)(nid := None) \<and> nm_ok root' \<and>
    max_conn_num root' = max_conn_num root"
proof -
  obtain t i where i: "connmgr_addr root = Some t" "i < max_conn_num root" "nid = slot_id root i" "node_index root nid = Some i" "in_use (t ! i)"
    using nm_table_used [OF assms] by metis
  let ?n = "\<lparr>used = 0, nowner = 0, node_addr = 0\<rparr>"
  have c: "connect_num root - 1 = connect_num root + (if in_use ?n then 1 else 0) - (if in_use (t ! i) then 1 else 0)"
    using i(5) by (simp add: in_use_def)
  note s = set_slot_ok [OF ok i(1,2) _ c]
  let ?r = "root\<lparr>connmgr_addr := Some (t[i := ?n]), connect_num := connect_num root - 1\<rparr>"
  have "nd_node_deaccept nid root = Some (0, ?r)" using i(4) s(1) by (simp add: nd_node_deaccept_def)
  moreover have "nm_table ?r = (nm_table root)(nid := None)" "nm_ok ?r" using s(2,3) i(3) by (simp_all add: in_use_def)
  ultimately show ?thesis by auto
qed

lemma node_lock_table:
  assumes ok: "nm_ok root"
  shows "nd_node_lock self nid root = Some (case nm_table root nid of None \<Rightarrow> 0 | Some (a, ow) \<Rightarrow> if ow = self then a else 0)"
proof -
  obtain t where t: "connmgr_addr root = Some t" "length t = max_conn_num root" "\<And>n. n \<in> set t \<Longrightarrow> 0 \<le> used n" using nm_okE [OF ok] by metis
  show ?thesis
  proof (cases "node_index root nid")
    case None
    then show ?thesis by (simp add: nd_node_lock_def nm_table_def)
  next
    case (Some i)
    then have "i < length t" using node_index_bound t(2) by metis
    then show ?thesis using Some t(1) t(3) [of "t ! i"] by (auto simp: nd_node_lock_def nm_table_def get_slot_def in_use_def)
  qed
qed

lemma nm_table_zero: "nm_ok root \<Longrightarrow> nm_table root 0 = None"
  by (auto simp: nm_table_def node_index_def nm_ok_def Let_def)

interpretation nm: node_table nm_ok nm_table max_conn_num nd_node_accept nd_node_deaccept nd_node_lock
  by unfold_locales (fact node_accept_free node_accept_full node_deaccept_used node_lock_table nm_table_zero)+

lemma node_create_ok:
  assumes "nd_node_mgr_create sa_create pool_free mem max_num node_size start_id root h = Some (0, root', h')"
    and "start_id \<noteq> 0" "unat start_id + max_num \<le> 65536"
  shows "nm_ok root' \<and> nm_table root' = Map.empty \<and> max_conn_num root' = max_num"
proof -
  have r: "connmgr_addr root' = Some (replicate max_num zero_slot)" "max_conn_num root' = max_num" "base_id root' = int (unat start_id)"
      "nparam root' = 0" "connect_num root' = 0"
    using assms(1) by (auto simp: nd_node_mgr_create_def Let_def split: if_splits Option.bind_splits)
  have "0 < unat start_id" using assms(2) by (simp add: unat_gt_0)
  then have "0 < int (unat start_id)" "int (unat start_id) + int max_num \<le> 65536"
    using assms(3) by (simp only: of_nat_0_less_iff, linarith)
  then have ok: "nm_ok root'" using r by (auto simp: nm_ok_def zero_slot_def in_use_def)
  moreover have "nm_table root' = Map.empty"
    using r by (auto simp: nm_table_def get_slot_def zero_slot_def in_use_def split: option.split)
  ultimately show ?thesis using r(2) by simp
qed

section \<open>Visiting the nodes of a thread\<close>

definition mine :: "nat \<Rightarrow> srvnode_info \<Rightarrow> bool" where
  "mine self n \<longleftrightarrow> in_use n \<and> nowner n = self"

text \<open>The iterator on slot \<open>j\<close>.\<close>

definition iter_at :: "node_root \<Rightarrow> srvnode_info list \<Rightarrow> nat \<Rightarrow> node_iterator" where
  "iter_at root t j = \<lparr>it_node_id = slot_id root j, it_numbers = of_nat (length (filter in_use (take (j + 1) t))),
     it_total = of_nat (length (filter in_use t))\<rparr>"

lemma slot_id_Suc: "slot_id root i + 1 = slot_id root (i + 1)"
  by (simp add: slot_id_def algebra_simps)

lemma lock_scan_find:
  assumes t: "connmgr_addr root = Some t" "length t = max_conn_num root" "max_conn_num root < 65536"
    and "i + k = max_conn_num root"
    and "it = \<lparr>it_node_id = slot_id root i, it_numbers = of_nat (length (filter in_use (take i t))), it_total = of_nat (length (filter in_use t))\<rparr>"
  shows "\<exists>it0. lock_scan b self k i it root =
    Some (case List.find (\<lambda>j. mine self (t ! j)) [i..<max_conn_num root] of None \<Rightarrow> (0, it0) | Some j \<Rightarrow> (node_addr (t ! j), iter_at root t j))"
  using assms(4,5)
proof (induction k arbitrary: i it)
  case (Suc k)
  then have i: "i < length t" using t(2) by simp
  have find: "List.find (\<lambda>j. mine self (t ! j)) [i..<max_conn_num root] =
      (if mine self (t ! i) then Some i else List.find (\<lambda>j. mine self (t ! j)) [i + 1..<max_conn_num root])"
    using i t(2) by (simp add: upt_conv_Cons)
  have tk: "filter in_use (take (i + 1) t) = filter in_use (take i t) @ (if in_use (t ! i) then [t ! i] else [])"
    using i by (simp add: take_Suc_conv_app_nth)
  define it' where "it' = \<lparr>it_node_id = slot_id root (i + 1), it_numbers = of_nat (length (filter in_use (take (i + 1) t))),
    it_total = of_nat (length (filter in_use t))\<rparr>"
  have step: "lock_scan b self (Suc k) i it root =
      (if b \<and> it_numbers it \<ge> it_total it then Some (0, it\<lparr>it_node_id := 0\<rparr>)
       else if mine self (t ! i) then Some (node_addr (t ! i), iter_at root t i) else lock_scan b self k (i + 1) it' root)"
    using i t tk Suc.prems(2) by (auto simp: get_slot_def slot_id_Suc mine_def iter_at_def it'_def Let_def simp flip: in_use_def)
  obtain it0 where IH: "lock_scan b self k (i + 1) it' root = Some (case List.find (\<lambda>j. mine self (t ! j)) [i + 1..<max_conn_num root] of
      None \<Rightarrow> (0, it0) | Some j \<Rightarrow> (node_addr (t ! j), iter_at root t j))"
    using Suc.IH [of "i + 1" it'] Suc.prems(1) it'_def by auto
  show ?case
  proof (cases "it_numbers it \<ge> it_total it")
    case True
    have "length (filter in_use (take i t)) < 65536" "length (filter in_use t) < 65536"
      using t(2,3) length_filter_le [of in_use "take i t"] length_filter_le [of in_use t] by simp_all
    then have "length (filter in_use t) \<le> length (filter in_use (take i t))"
      using True Suc.prems(2) by (simp add: word_le_nat_alt unat_of_nat_eq)
    moreover have "filter in_use t = filter in_use (take i t) @ filter in_use (drop i t)"
      by (metis append_take_drop_id filter_append)
    ultimately have none: "filter in_use (drop i t) = []" by (metis add_le_same_cancel1 le_zero_eq length_0_conv length_append)
    then have "\<not> in_use (t ! j)" if "i \<le> j" "j < length t" for j
    proof -
      have "drop i t ! (j - i) \<in> set (drop i t)" using that by (intro nth_mem) simp
      then show ?thesis using none that by (simp add: filter_empty_conv)
    qed
    then have n: "List.find (\<lambda>j. mine self (t ! j)) [i..<max_conn_num root] = None"
      using i t(2) by (auto simp: find_None_iff mine_def)
    then show ?thesis using IH find unfolding step by (auto split: if_splits)
  next
    case False
    then show ?thesis using IH find by (auto simp: step simp del: lock_scan.simps)
  qed
qed auto

lemma visit_rest_ok:
  assumes t: "connmgr_addr root = Some t" "length t = max_conn_num root" "max_conn_num root < 65536" and ok: "nm_ok root"
    and nz: "\<forall>n \<in> set t. in_use n \<longrightarrow> node_addr n \<noteq> 0"
  shows "j \<le> max_conn_num root \<Longrightarrow> max_conn_num root - j < fuel \<Longrightarrow>
    visit_rest fuel self (case List.find (\<lambda>k. mine self (t ! k)) [j..<max_conn_num root] of None \<Rightarrow> (0, it0)
      | Some k \<Rightarrow> (node_addr (t ! k), iter_at root t k)) root = Some (map node_addr (filter (mine self) (drop j t)))"
proof (induction fuel arbitrary: j it0)
  case (Suc fuel)
  show ?case
  proof (cases "List.find (\<lambda>k. mine self (t ! k)) [j..<max_conn_num root]")
    case None
    then have "\<forall>k \<in> {j..<length t}. \<not> mine self (t ! k)" using t(2) by (auto simp: find_None_iff)
    then have "filter (mine self) (drop j t) = []"
      using t(2) by (auto simp: filter_empty_conv in_set_conv_nth)
    then show ?thesis using None by simp
  next
    case (Some k)
    then obtain l where l: "l < max_conn_num root - j" "k = [j..<max_conn_num root] ! l" "mine self (t ! k)"
        "\<forall>m < l. \<not> mine self (t ! ([j..<max_conn_num root] ! m))"
      by (auto simp: find_Some_iff)
    have k: "k = j + l" "k < max_conn_num root" "j \<le> k" using l(1,2) by auto
    have before: "\<forall>m < l. \<not> mine self (t ! (j + m))" using l(1,4) by auto
    have d: "drop j t = map (\<lambda>m. t ! (j + m)) [0..<l] @ t ! k # drop (k + 1) t"
    proof -
      have "drop j t = take l (drop j t) @ drop k t" using k(1) by (metis add.commute append_take_drop_id drop_drop)
      moreover have "take l (drop j t) = map (\<lambda>m. t ! (j + m)) [0..<l]" using k t(2) by (intro nth_equalityI) auto
      ultimately show ?thesis using k(2) t(2) by (simp add: Cons_nth_drop_Suc)
    qed
    have f: "filter (mine self) (drop j t) = t ! k # filter (mine self) (drop (k + 1) t)"
      unfolding d using before l(3) by (simp add: filter_map comp_def filter_empty_conv)
    have "node_addr (t ! k) \<noteq> 0" using nz l(3) k(2) t(2) by (auto simp: mine_def)
    moreover obtain it1 where "nd_node_lock_next self (iter_at root t k) root =
        Some (case List.find (\<lambda>j. mine self (t ! j)) [k + 1..<max_conn_num root] of None \<Rightarrow> (0, it1) | Some j \<Rightarrow> (node_addr (t ! j), iter_at root t j))"
    proof -
      have "node_index root (slot_id root k) = Some k" using node_index_iff [OF ok k(2)] by simp
      then show thesis using that lock_scan_find [OF t(1-3), of "k + 1" "max_conn_num root - (k + 1)" _ True self] k(2)
        by (auto simp: nd_node_lock_next_def iter_at_def slot_id_Suc)
    qed
    moreover have "visit_rest fuel self (case List.find (\<lambda>j. mine self (t ! j)) [k + 1..<max_conn_num root] of None \<Rightarrow> (0, it1)
        | Some j \<Rightarrow> (node_addr (t ! j), iter_at root t j)) root = Some (map node_addr (filter (mine self) (drop (k + 1) t)))"
      using k Suc.prems by (intro Suc.IH) auto
    ultimately show ?thesis using Some f by simp
  qed
qed simp

section \<open>Properties\<close>

text \<open>C25. A manager made by \<open>nd_node_mgr_create\<close> with ids from 1 on behaves, over every sequence of accepts and releases, like the
  map from the ids it has handed out to the nodes and their owners: a lock returns the node exactly to its owner, and
  a further accept returns an id that is not in use, or 0 exactly when the table is full.\<close>

theorem node_mgr_is_a_map:
  assumes "nd_node_mgr_create sa_create pool_free mem max_num node_size start_id root0 h = Some (0, root, h')"
    and "start_id \<noteq> 0" "unat start_id + max_num \<le> 65536"
  shows "\<exists>m root'. table_run nd_node_accept nd_node_deaccept ops Map.empty root = Some (m, root') \<and>
    (\<forall>self nid. nd_node_lock self nid root' = Some (case m nid of None \<Rightarrow> 0 | Some (a, ow) \<Rightarrow> if ow = self then a else 0)) \<and>
    (\<forall>self a. \<exists>nid root''. nd_node_accept self a root' = Some (nid, root'') \<and> m nid = None \<and> (nid = 0 \<longleftrightarrow> card (dom m) = max_num))"
proof -
  have c: "nm_ok root" "nm_table root = Map.empty" "max_conn_num root = max_num" using node_create_ok [OF assms] by auto
  obtain root' where r: "table_run nd_node_accept nd_node_deaccept ops Map.empty root = Some (nm_table root', root')" "nm_ok root'"
      "max_conn_num root' = max_num"
    using nm.run_map [OF c(1)] c(2,3) by auto
  have "\<exists>nid root''. nd_node_accept self a root' = Some (nid, root'') \<and> nm_table root' nid = None \<and>
      (nid = 0 \<longleftrightarrow> card (dom (nm_table root')) = max_num)" for self a
    using nm.accept_free [OF r(2), of self a] nm.accept_full [OF r(2), of self a] nm.no_zero [OF r(2)] r(3)
    by (cases "card (dom (nm_table root')) = max_num") auto
  then show ?thesis using r(1) nm.lock_node [OF r(2)] by blast
qed

definition sample_sa_create :: "nat \<Rightarrow> nat \<Rightarrow> lheap \<Rightarrow> (nd_static_alloc option \<times> lheap) option" where
  "sample_sa_create = nd_sa_create 64 16 sample_pool"

theorem node_mgr_is_a_map_witness:
  "\<exists>root h' m root'. nd_node_mgr_create sample_sa_create (\<lambda>A h. h) True 2 0 1 nd_node_preinit \<lparr>lnext = Map.empty, lprev = Map.empty\<rparr> = Some (0, root, h') \<and>
     table_run nd_node_accept nd_node_deaccept [Accept 7 100, Accept 7 200, Deaccept 1] Map.empty root = Some (m, root') \<and>
     nd_node_lock 7 2 root' = Some (case m 2 of None \<Rightarrow> 0 | Some (a, ow) \<Rightarrow> if ow = 7 then a else 0)"
proof -
  let ?h = "\<lparr>lnext = Map.empty, lprev = Map.empty\<rparr>"
  obtain root h' where c: "nd_node_mgr_create sample_sa_create (\<lambda>A h. h) True 2 0 1 nd_node_preinit ?h = Some (0, root, h')"
    by (simp add: nd_node_mgr_create_def Let_def)
  from node_mgr_is_a_map [OF c, of "[Accept 7 100, Accept 7 200, Deaccept 1]"] c show ?thesis by auto
qed

text \<open>C26. The loop of \<open>lock_first\<close> and \<open>lock_next\<close> visits exactly the nodes of the calling thread, each once and in the order of their
  ids, and ends.\<close>

theorem visit_nodes_complete:
  assumes ok: "nm_ok root" and t: "connmgr_addr root = Some t" and nz: "\<forall>n \<in> set t. in_use n \<longrightarrow> node_addr n \<noteq> 0"
  shows "visit_nodes (max_conn_num root + 1) self it root = Some (map node_addr (filter (mine self) t))"
proof (cases "connect_num root < 1")
  case True
  then have "filter in_use t = []" using ok t by (auto simp: nm_ok_def)
  then have "filter (mine self) t = []" by (auto simp: filter_empty_conv mine_def)
  then show ?thesis using True by (simp add: visit_nodes_def nd_node_lock_first_def)
next
  case False
  have l: "length t = max_conn_num root" "max_conn_num root < 65536" "connect_num root = int (length (filter in_use t))"
    using ok t by (auto simp: nm_ok_def)
  obtain it0 where "nd_node_lock_first self it root = Some (case List.find (\<lambda>j. mine self (t ! j)) [0..<max_conn_num root] of
      None \<Rightarrow> (0, it0) | Some j \<Rightarrow> (node_addr (t ! j), iter_at root t j))"
    using lock_scan_find [OF t l(1,2), of 0 "max_conn_num root" _ False self] False l(3) by (auto simp: nd_node_lock_first_def slot_id_def)
  then show ?thesis using visit_rest_ok [OF t l(1,2) ok nz, of 0 "max_conn_num root + 1" self it0] by (simp add: visit_nodes_def)
qed

definition sample_root :: node_root where
  "sample_root = nd_node_preinit\<lparr>max_conn_num := 3, connect_num := 2, base_id := 1, connmgr_addr := Some [zero_slot,
     \<lparr>used = 1, nowner = 7, node_addr = 100\<rparr>, \<lparr>used = 2, nowner = 7, node_addr = 200\<rparr>]\<rparr>"

lemma sample_root_ok: "nm_ok sample_root"
  by (simp add: nm_ok_def sample_root_def nd_node_preinit_def zero_slot_def in_use_def)

theorem visit_nodes_complete_witness: "visit_nodes 4 7 \<lparr>it_node_id = 0, it_numbers = 0, it_total = 0\<rparr> sample_root = Some [100, 200]"
proof -
  obtain t where t: "connmgr_addr sample_root = Some t" "\<forall>n \<in> set t. in_use n \<longrightarrow> node_addr n \<noteq> 0"
      "map node_addr (filter (mine 7) t) = [100, 200]"
    by (simp add: sample_root_def zero_slot_def in_use_def mine_def)
  have "max_conn_num sample_root + 1 = 4" by (simp add: sample_root_def)
  then show ?thesis using visit_nodes_complete [OF sample_root_ok t(1,2), of 7] t(3) by simp
qed

text \<open>A slot with the count -1: what accepting and releasing other nodes make of it.\<close>

definition lost_slot :: srvnode_info where
  "lost_slot = \<lparr>used = -1, nowner = 0, node_addr = 0\<rparr>"

definition slot_lost :: "node_root \<Rightarrow> nat \<Rightarrow> node_root \<Rightarrow> bool" where
  "slot_lost root i r \<longleftrightarrow> (\<exists>t. connmgr_addr r = Some t \<and> length t = max_conn_num root \<and> t ! i = lost_slot \<and>
     max_conn_num r = max_conn_num root \<and> base_id r = base_id root \<and> nparam r = 0)"

lemma slot_lost_index: "slot_lost root i r \<Longrightarrow> node_index r nid = node_index root nid"
  by (auto simp: slot_lost_def node_index_def)

lemma accept_lost:
  assumes ok: "nm_ok root" and i: "i < max_conn_num root" and l: "slot_lost root i r"
  shows "\<exists>x r'. nd_node_accept self a r = Some (x, r') \<and> x \<noteq> slot_id root i \<and> slot_lost root i r'"
proof -
  obtain t where t: "connmgr_addr r = Some t" "length t = max_conn_num root" "t ! i = lost_slot" "max_conn_num r = max_conn_num root"
      "base_id r = base_id root" "nparam r = 0"
    using l by (auto simp: slot_lost_def)
  have scan: "accept_scan (max_conn_num root) 0 r = Some (List.find (\<lambda>j. used (t ! j) = 0) [0..<max_conn_num root])"
    using accept_scan_find [of r t 0 "max_conn_num root"] t by simp
  show ?thesis
  proof (cases "List.find (\<lambda>j. used (t ! j) = 0) [0..<max_conn_num root]")
    case None
    then show ?thesis using scan t l slot_id_nonzero [OF ok i] by (simp add: nd_node_accept_def)
  next
    case (Some j)
    then have j: "j < max_conn_num root" "used (t ! j) = 0" using find_upt_Some by blast+
    then have "j \<noteq> i" using t(3) by (auto simp: lost_slot_def)
    then have "slot_id root j \<noteq> slot_id root i"
      using node_index_iff [OF ok j(1)] node_index_iff [OF ok i] by (metis option.inject)
    then show ?thesis
      using scan Some t j \<open>j \<noteq> i\<close> by (simp add: nd_node_accept_def set_slot_def slot_id_def slot_lost_def)
  qed
qed

lemma deaccept_lost:
  assumes i: "i < max_conn_num root" and nid: "node_index root nid = Some i" "x \<noteq> nid" and ok: "nm_ok root" and l: "slot_lost root i r"
  shows "\<exists>y r'. nd_node_deaccept x r = Some (y, r') \<and> slot_lost root i r'"
proof (cases "node_index root x")
  case None
  then show ?thesis using l slot_lost_index [OF l, of x] by (simp add: nd_node_deaccept_def)
next
  case (Some j)
  then have "j \<noteq> i" "j < max_conn_num root"
    using nid node_index_iff [OF ok i] node_index_bound [OF Some] by auto
  then show ?thesis
    using l Some slot_lost_index [OF l, of x] by (auto simp: nd_node_deaccept_def set_slot_def slot_lost_def)
qed

lemma run_lost:
  assumes ok: "nm_ok root" and i: "i < max_conn_num root" and nid: "nid = slot_id root i"
  shows "slot_lost root i r \<Longrightarrow> m nid = None \<Longrightarrow>
    \<exists>m' r'. table_run nd_node_accept nd_node_deaccept ops m r = Some (m', r') \<and> m' nid = None \<and> slot_lost root i r'"
proof (induction ops arbitrary: m r)
  case (Cons x ops)
  have ix: "node_index root nid = Some i" using node_index_iff [OF ok i] nid by simp
  show ?case
  proof (cases x)
    case (Accept self a)
    obtain y r' where "nd_node_accept self a r = Some (y, r')" "y \<noteq> nid" "slot_lost root i r'"
      using accept_lost [OF ok i Cons.prems(1)] nid by blast
    then show ?thesis using Accept Cons.IH [of r'] Cons.prems(2) by auto
  next
    case (Deaccept y)
    show ?thesis
    proof (cases "m y = None")
      case False
      then have "y \<noteq> nid" using Cons.prems(2) by auto
      then obtain z r' where "nd_node_deaccept y r = Some (z, r')" "slot_lost root i r'"
        using deaccept_lost [OF i ix _ ok Cons.prems(1)] by blast
      then show ?thesis using Deaccept Cons.IH [of r'] Cons.prems(2) False by auto
    qed (use Deaccept Cons in simp)
  qed
qed simp

text \<open>C27. A reference that outlives its node loses the slot. When a node is released while somebody holds a reference, the count goes
  to 0, and dropping the reference takes it to -1. From then on, whatever nodes are accepted and however the accepted ones are released, the count
  stays -1 and no node is ever given that id again; locking the id returns a null pointer to every thread.\<close>

theorem stale_reference_loses_slot:
  assumes ok: "nm_ok root" and used: "nm_table root nid \<noteq> None"
  shows "\<exists>r1 r2 r3. nd_node_inc_ref nid root = Some (0, r1) \<and> nd_node_deaccept nid r1 = Some (0, r2) \<and> nd_node_dec_ref nid r2 = Some r3 \<and>
    (\<forall>ops. \<exists>m r i. table_run nd_node_accept nd_node_deaccept ops (nm_table r3) r3 = Some (m, r) \<and> m nid = None \<and>
       node_index r nid = Some i \<and> get_slot r i = Some \<lparr>used = -1, nowner = 0, node_addr = 0\<rparr> \<and> (\<forall>self. nd_node_lock self nid r = Some 0))"
proof -
  obtain t i where i: "connmgr_addr root = Some t" "length t = max_conn_num root" "i < max_conn_num root" "nid = slot_id root i"
      "node_index root nid = Some i" "in_use (t ! i)"
    using nm_table_used [OF assms] by metis
  let ?r1 = "root\<lparr>connmgr_addr := Some (t[i := (t ! i)\<lparr>used := used (t ! i) + 1\<rparr>])\<rparr>"
  let ?r2 = "root\<lparr>connmgr_addr := Some (t[i := zero_slot]), connect_num := connect_num root - 1\<rparr>"
  let ?r3 = "root\<lparr>connmgr_addr := Some (t[i := lost_slot]), connect_num := connect_num root - 1\<rparr>"
  have n: "node_index ?r1 nid = Some i" "node_index ?r2 nid = Some i" "node_index ?r3 nid = Some i" using i(5) by (simp_all add: node_index_def)
  have 1: "nd_node_inc_ref nid root = Some (0, ?r1)" using i by (simp add: nd_node_inc_ref_def get_slot_def set_slot_def in_use_def)
  have 2: "nd_node_deaccept nid ?r1 = Some (0, ?r2)" using i n(1) by (simp add: nd_node_deaccept_def set_slot_def zero_slot_def)
  have 3: "nd_node_dec_ref nid ?r2 = Some ?r3" using i n(2) by (simp add: nd_node_dec_ref_def get_slot_def set_slot_def zero_slot_def lost_slot_def)
  have "nparam root = 0" using ok by (auto simp: nm_ok_def)
  then have l: "slot_lost root i ?r3" using i by (simp add: slot_lost_def)
  have "nm_table ?r3 nid = None" using n(3) i by (simp add: nm_table_def get_slot_def in_use_def lost_slot_def)
  then have run: "\<exists>m r. table_run nd_node_accept nd_node_deaccept ops (nm_table ?r3) ?r3 = Some (m, r) \<and> m nid = None \<and> slot_lost root i r" for ops
    by (rule run_lost [OF ok i(3,4) l])
  have lost: "node_index r nid = Some i \<and> get_slot r i = Some \<lparr>used = -1, nowner = 0, node_addr = 0\<rparr> \<and> (\<forall>self. nd_node_lock self nid r = Some 0)"
    if "slot_lost root i r" for r
    using that slot_lost_index [OF that, of nid] i(3,5) by (auto simp: slot_lost_def get_slot_def nd_node_lock_def lost_slot_def)
  show ?thesis
    using 1 2 3 run lost by (intro exI [of _ ?r1] exI [of _ ?r2] exI [of _ ?r3]) meson
qed

theorem stale_reference_loses_slot_witness:
  "\<exists>r1 r2 r3. nd_node_inc_ref 2 sample_root = Some (0, r1) \<and> nd_node_deaccept 2 r1 = Some (0, r2) \<and> nd_node_dec_ref 2 r2 = Some r3 \<and>
    (\<forall>ops. \<exists>m r i. table_run nd_node_accept nd_node_deaccept ops (nm_table r3) r3 = Some (m, r) \<and> m 2 = None \<and>
       node_index r 2 = Some i \<and> get_slot r i = Some \<lparr>used = -1, nowner = 0, node_addr = 0\<rparr> \<and> (\<forall>self. nd_node_lock self 2 r = Some 0))"
proof (rule stale_reference_loses_slot [OF sample_root_ok])
  show "nm_table sample_root 2 \<noteq> None"
    by (simp add: nm_table_def node_index_def get_slot_def sample_root_def in_use_def nd_node_preinit_def)
qed

end
