(* ===== verification/Timer.thy ===== *)
theory Timer
  imports Nd_List
begin

text \<open>
  The timers of \<^verbatim>\<open>src/nd_common/src/nd_timer.c\<close>. A timer is a node in a linked list; its address is that of its list head. The state
  holds the root, the timer nodes and the list memory. An update takes all timers out of the list, runs those that are
  due and joins the rest with what was added in the meantime. Deletions are requested in a buffer of 16 ids and
  carried out by the next update. The callbacks are a parameter: they work on the timer state and a state of their own.
  Locks and atomic operations are single steps; \<open>nd_compare_swap\<close> returns whether it stored, as on every platform of the library.
\<close>

section \<open>State\<close>

definition DELBUF_SIZE :: nat where "DELBUF_SIZE = 16"

datatype eTimeType = ETT_LOOP | ETT_ONCE | ETT_DESTROY

record timer_node =
  timer_id :: u32
  run_type :: eTimeType
  tparam :: nat
  tentry :: nat
  last_time :: ndtime_t
  interval :: ndtime_t

record timer_state =
  tnum :: int
  start_id :: u32
  tlist :: addr
  del_buf :: "u32 list"
  tnodes :: "addr \<rightharpoonup> timer_node"
  theap :: lheap

text \<open>Memory from the pool, with unspecified contents, and its return.\<close>

definition cell_new :: "addr \<Rightarrow> lheap \<Rightarrow> lheap" where
  "cell_new a h = h\<lparr>lnext := (lnext h)(a \<mapsto> 0), lprev := (lprev h)(a \<mapsto> 0)\<rparr>"

definition cell_free :: "addr \<Rightarrow> lheap \<Rightarrow> lheap" where
  "cell_free a h = h\<lparr>lnext := (lnext h)(a := None), lprev := (lprev h)(a := None)\<rparr>"

definition timer_free :: "addr \<Rightarrow> timer_state \<Rightarrow> timer_state" where
  "timer_free a st = st\<lparr>tnodes := (tnodes st)(a := None), theap := cell_free a (theap st)\<rparr>"

text \<open>List operations on the memory of the state.\<close>

definition on_heap :: "(lheap \<Rightarrow> lheap option) \<Rightarrow> timer_state \<Rightarrow> timer_state option" where
  "on_heap f st = map_option (\<lambda>h. st\<lparr>theap := h\<rparr>) (f (theap st))"

section \<open>Adding and deleting\<close>

text \<open>\<open>root\<close> is the address of the list head in the memory of the new root, \<open>None\<close> when there is none.\<close>

definition nd_timer_create :: "addr option \<Rightarrow> lheap \<Rightarrow> timer_state option option" where
  "nd_timer_create root h = (case root of
     None \<Rightarrow> Some None
   | Some a \<Rightarrow> do {
       h \<leftarrow> INIT_LIST_HEAD a (cell_new a h);
       Some (Some \<lparr>tnum = 0, start_id = 0, tlist = a, del_buf = replicate DELBUF_SIZE 0, tnodes = Map.empty, theap = h\<rparr>)
     })"

text \<open>\<open>mem\<close> is the address the pool returns; a null function is 0.\<close>

definition nd_timer_add :: "addr option \<Rightarrow> nat \<Rightarrow> nat \<Rightarrow> ndtime_t \<Rightarrow> eTimeType \<Rightarrow> ndtime_t \<Rightarrow> timer_state \<Rightarrow> (u32 \<times> timer_state) option" where
  "nd_timer_add mem func param iv rt now st =
     (if func = 0 then Some (0, st)
      else case mem of
        None \<Rightarrow> Some (0, st)
      | Some a \<Rightarrow> do {
          let st = st\<lparr>start_id := start_id st + 1, theap := cell_new a (theap st)\<rparr>;
          let node = \<lparr>timer_id = start_id st, run_type = rt, tparam = param, tentry = func, last_time = now, interval = iv\<rparr>;
          let st = st\<lparr>tnodes := (tnodes st)(a \<mapsto> node)\<rparr>;
          st \<leftarrow> on_heap (INIT_LIST_HEAD a) st;
          st \<leftarrow> on_heap (list_add_tail a (tlist st)) st;
          Some (timer_id node, st\<lparr>tnum := tnum st + 1\<rparr>)
        })"

text \<open>The loop of \<open>nd_timer_del\<close>: it goes on while it stores and stops where it cannot. The result is the last value of \<open>ret\<close>.\<close>

fun del_scan :: "u32 \<Rightarrow> u32 list \<Rightarrow> int \<Rightarrow> int \<times> u32 list" where
  "del_scan i [] ret = (ret, [])"
| "del_scan i (x # xs) ret =
     (if x = 0 then (case del_scan i xs 1 of (r, ys) \<Rightarrow> (r, i # ys)) else (0, x # xs))"

definition nd_timer_del :: "u32 \<Rightarrow> timer_state \<Rightarrow> int \<times> timer_state" where
  "nd_timer_del i st =
     (if i = 0 then (-1, st)
      else case del_scan i (del_buf st) (-1) of (ret, buf) \<Rightarrow> (if ret = 0 then 0 else -1, st\<lparr>del_buf := buf\<rparr>))"

text \<open>The address of the first node with an id, from \<open>pos\<close> on.\<close>

fun find_timer :: "nat \<Rightarrow> addr \<Rightarrow> u32 \<Rightarrow> timer_state \<Rightarrow> addr option option" where
  "find_timer 0 pos i st = (if pos = tlist st then Some None else None)"
| "find_timer (Suc k) pos i st =
     (if pos = tlist st then Some None
      else do {
        node \<leftarrow> tnodes st pos;
        if timer_id node = i then Some (Some pos)
        else do { n \<leftarrow> lnext (theap st) pos; find_timer k n i st }
      })"

text \<open>\<open>fuel\<close> bounds the length of the list.\<close>

definition del_from_list :: "nat \<Rightarrow> u32 \<Rightarrow> timer_state \<Rightarrow> timer_state option" where
  "del_from_list fuel i st = do {
     first \<leftarrow> lnext (theap st) (tlist st);
     r \<leftarrow> find_timer fuel first i st;
     (case r of
        None \<Rightarrow> Some st
      | Some a \<Rightarrow> do { st \<leftarrow> on_heap (list_del a) st; Some (timer_free a (st\<lparr>tnum := tnum st - 1\<rparr>)) })
   }"

fun tryto_del_loop :: "nat \<Rightarrow> nat \<Rightarrow> nat \<Rightarrow> timer_state \<Rightarrow> timer_state option" where
  "tryto_del_loop fuel 0 i st = Some st"
| "tryto_del_loop fuel (Suc k) i st = do {
     let x = del_buf st ! i;
     let st = st\<lparr>del_buf := (del_buf st)[i := 0]\<rparr>;
     st \<leftarrow> (if x \<noteq> 0 then del_from_list fuel x st else Some st);
     tryto_del_loop fuel k (i + 1) st
   }"

definition tryto_del_timer :: "nat \<Rightarrow> timer_state \<Rightarrow> timer_state option" where
  "tryto_del_timer fuel st = tryto_del_loop fuel DELBUF_SIZE 0 st"

section \<open>Updating\<close>

text \<open>\<open>run f p\<close> calls the function \<open>f\<close> with the parameter \<open>p\<close>.\<close>

type_synonym 'u callback = "nat \<Rightarrow> nat \<Rightarrow> timer_state \<times> 'u \<Rightarrow> (int \<times> timer_state \<times> 'u) option"

definition due :: "ndtime_t \<Rightarrow> timer_node \<Rightarrow> bool" where
  "due now n \<longleftrightarrow> run_type n \<noteq> ETT_DESTROY \<and> (now - last_time n \<ge> interval n \<or> interval n < 10)"

text \<open>One round of the loop for the timer at \<open>pos\<close>: the result of its function, where it is called.\<close>

definition update_one :: "'u callback \<Rightarrow> ndtime_t \<Rightarrow> addr \<Rightarrow> timer_state \<times> 'u \<Rightarrow> (int option \<times> timer_state \<times> 'u) option" where
  "update_one run now pos s = do {
     node \<leftarrow> tnodes (fst s) pos;
     if \<not> due now node then Some (None, s)
     else do {
       (r, st, u) \<leftarrow> run (tentry node) (tparam node) s;
       node \<leftarrow> tnodes st pos;
       if run_type node = ETT_ONCE \<or> r = -1 then do {
         st \<leftarrow> on_heap (list_del pos) st;
         Some (Some r, timer_free pos st, u)
       }
       else Some (Some r, st\<lparr>tnodes := (tnodes st)(pos \<mapsto> node\<lparr>last_time := now\<rparr>)\<rparr>, u)
     }
   }"

text \<open>\<open>list_for_each_safe\<close> over the local list \<open>header\<close>: the address of the following entry is read before the body. The result
  lists the timers called, with their results.\<close>

fun update_loop :: "nat \<Rightarrow> 'u callback \<Rightarrow> ndtime_t \<Rightarrow> addr \<Rightarrow> addr \<Rightarrow> timer_state \<times> 'u \<Rightarrow> ((addr \<times> int) list \<times> timer_state \<times> 'u) option" where
  "update_loop 0 run now header pos s = (if pos = header then Some ([], s) else None)"
| "update_loop (Suc k) run now header pos s =
     (if pos = header then Some ([], s)
      else do {
        next \<leftarrow> lnext (theap (fst s)) pos;
        (r, s) \<leftarrow> update_one run now pos s;
        (cs, s) \<leftarrow> update_loop k run now header next s;
        Some ((case r of None \<Rightarrow> [] | Some x \<Rightarrow> [(pos, x)]) @ cs, s)
      })"

text \<open>The result of \<open>nd_timer_update\<close> is the number of calls.\<close>

definition nd_timer_update :: "nat \<Rightarrow> 'u callback \<Rightarrow> ndtime_t \<Rightarrow> addr \<Rightarrow> timer_state \<times> 'u \<Rightarrow> ((addr \<times> int) list \<times> timer_state \<times> 'u) option" where
  "nd_timer_update fuel run now header s = (case s of (st, u) \<Rightarrow>
     if tnum st < 1 then Some ([], st, u)
     else do {
       st \<leftarrow> tryto_del_timer fuel st;
       st \<leftarrow> on_heap (INIT_LIST_HEAD header) (st\<lparr>theap := cell_new header (theap st)\<rparr>);
       st \<leftarrow> on_heap (list_add header (tlist st)) st;
       st \<leftarrow> on_heap (list_del_init (tlist st)) st;
       first \<leftarrow> lnext (theap st) header;
       (cs, st, u) \<leftarrow> update_loop fuel run now header first (st, u);
       st \<leftarrow> on_heap (list_join header (tlist st)) st;
       Some (cs, st\<lparr>theap := cell_free header (theap st)\<rparr>, u)
     })"

text \<open>Destruction calls the functions of the timers made for it.\<close>

fun destroy_loop :: "nat \<Rightarrow> 'u callback \<Rightarrow> addr \<Rightarrow> addr \<Rightarrow> timer_state \<times> 'u \<Rightarrow> (timer_state \<times> 'u) option" where
  "destroy_loop 0 run header pos s = (if pos = header then Some s else None)"
| "destroy_loop (Suc k) run header pos s =
     (if pos = header then Some s
      else do {
        next \<leftarrow> lnext (theap (fst s)) pos;
        node \<leftarrow> tnodes (fst s) pos;
        (st, u) \<leftarrow> (if run_type node = ETT_DESTROY then do { (_, s) \<leftarrow> run (tentry node) (tparam node) s; Some s } else Some s);
        st \<leftarrow> on_heap (list_del pos) st;
        destroy_loop k run header next (timer_free pos st, u)
      })"

definition nd_timer_destroy :: "nat \<Rightarrow> 'u callback \<Rightarrow> addr \<Rightarrow> timer_state option \<times> 'u \<Rightarrow> (int \<times> timer_state option \<times> 'u) option" where
  "nd_timer_destroy fuel run header s = (case s of
     (None, u) \<Rightarrow> Some (-1, None, u)
   | (Some st, u) \<Rightarrow> do {
       st \<leftarrow> on_heap (INIT_LIST_HEAD header) (st\<lparr>theap := cell_new header (theap st)\<rparr>);
       st \<leftarrow> on_heap (list_add header (tlist st)) st;
       st \<leftarrow> on_heap (list_del_init (tlist st)) st;
       first \<leftarrow> lnext (theap st) header;
       (_, u) \<leftarrow> destroy_loop fuel run header first (st, u);
       Some (0, None, u)
     })"

section \<open>The lists of an update\<close>

definition timer_ok :: "timer_state \<Rightarrow> addr list \<Rightarrow> bool" where
  "timer_ok st xs \<longleftrightarrow> dlist (theap st) (tlist st) xs \<and> (\<forall>a \<in> set xs. tnodes st a \<noteq> None) \<and> length (del_buf st) = DELBUF_SIZE"

text \<open>During an update: the timers \<open>hs\<close> hang in the local list, the timers \<open>ys\<close> in that of the root.\<close>

definition updating :: "timer_state \<Rightarrow> addr \<Rightarrow> addr list \<Rightarrow> addr list \<Rightarrow> bool" where
  "updating st header hs ys \<longleftrightarrow> dlist (theap st) header hs \<and> timer_ok st ys \<and> set (header # hs) \<inter> set (tlist st # ys) = {} \<and>
     (\<forall>a \<in> set hs. tnodes st a \<noteq> None)"

text \<open>A callback may add timers and request deletions, but leaves the timers there are alone.\<close>

definition callback_ok :: "'u callback \<Rightarrow> bool" where
  "callback_ok run \<longleftrightarrow> (\<forall>f p st u header hs ys. updating st header hs ys \<longrightarrow>
     (\<exists>r st' u' zs. run f p (st, u) = Some (r, st', u') \<and> updating st' header hs (ys @ zs) \<and> tlist st' = tlist st \<and>
       (\<forall>a \<in> set (hs @ ys). tnodes st' a = tnodes st a)))"

lemma dlist_cell_new: "a \<notin> set (head # xs) \<Longrightarrow> dlist (cell_new a h) head xs = dlist h head xs"
  unfolding dlist_def cell_new_def by (subst links_cong [of _ _ _ h]) auto

lemma dlist_cell_free: "a \<notin> set (head # xs) \<Longrightarrow> dlist (cell_free a h) head xs = dlist h head xs"
  unfolding dlist_def cell_free_def by (subst links_cong [of _ _ _ h]) auto

lemma allocated_cell_new [simp]: "allocated (cell_new a h) a"
  by (simp add: allocated_def cell_new_def)

lemma fresh_not_in: "dlist h head xs \<Longrightarrow> \<not> allocated h a \<Longrightarrow> a \<notin> set (head # xs)"
  using dlist_allocated by blast

lemma on_heap_Some: "f (theap st) = Some h \<Longrightarrow> on_heap f st = Some (st\<lparr>theap := h\<rparr>)"
  by (simp add: on_heap_def)

text \<open>Adding a timer keeps the lists and appends to that of the root.\<close>

lemma timer_add_updating:
  assumes u: "updating st header hs ys" and new: "\<not> allocated (theap st) a" and f: "func \<noteq> 0"
  shows "\<exists>st'. nd_timer_add (Some a) func param iv rt now st = Some (start_id st + 1, st') \<and> updating st' header hs (ys @ [a]) \<and>
    tlist st' = tlist st \<and> (\<forall>x \<in> set (hs @ ys). tnodes st' x = tnodes st x)"
proof -
  let ?h = "cell_new a (theap st)"
  have d: "dlist (theap st) header hs" "dlist (theap st) (tlist st) ys" using u by (simp_all add: updating_def timer_ok_def)
  have n: "a \<notin> set (header # hs)" "a \<notin> set (tlist st # ys)" using fresh_not_in [OF d(1) new] fresh_not_in [OF d(2) new] by blast+
  obtain h1 where h1: "INIT_LIST_HEAD a ?h = Some h1" "unchanged {a} ?h h1" using init_head_ok [of ?h a] by auto
  have d1: "dlist h1 header hs" "dlist h1 (tlist st) ys"
    using dlist_unchanged [OF h1(2)] dlist_cell_new [OF n(1)] dlist_cell_new [OF n(2)] d n by auto
  have al: "allocated h1 a" using unchanged_allocated [OF h1(2)] by simp
  obtain h2 where h2: "list_add_tail a (tlist st) h1 = Some h2" "dlist h2 (tlist st) (ys @ [a])" "unchanged (insert a (set (tlist st # ys))) h1 h2"
    using list_add_tail_ok [OF d1(2) al n(2)] by blast
  have "insert a (set (tlist st # ys)) \<inter> set (header # hs) = {}" using u n(1) by (auto simp: updating_def)
  then have "dlist h2 header hs" using dlist_unchanged [OF h2(3)] d1(1) by blast
  then show ?thesis
    using f h1(1) h2(1,2) u n by (auto simp: nd_timer_add_def on_heap_def Let_def updating_def timer_ok_def)
qed

lemma del_scan_length: "length (snd (del_scan i xs r)) = length xs"
proof (induction xs arbitrary: r)
  case (Cons x xs)
  then show ?case by (cases "del_scan i xs 1") (auto simp: Cons.IH [of 1, symmetric])
qed simp

lemma timer_del_updating:
  assumes "updating st header hs ys"
  shows "updating (snd (nd_timer_del i st)) header hs ys \<and> tlist (snd (nd_timer_del i st)) = tlist st \<and> tnodes (snd (nd_timer_del i st)) = tnodes st"
  using assms del_scan_length [of i "del_buf st" "-1"] by (auto simp: nd_timer_del_def updating_def timer_ok_def split: prod.split)

section \<open>One timer\<close>

lemma update_one_ok:
  assumes u: "updating st header (ks @ pos # hs) ys" and cb: "callback_ok run"
  defines "n \<equiv> the (tnodes st pos)"
  shows "\<exists>r st' v' zs. update_one run now pos (st, v) = Some (r, st', v') \<and> tlist st' = tlist st \<and> (r \<noteq> None \<longleftrightarrow> due now n) \<and>
    updating st' header (ks @ (if r \<noteq> None \<and> (run_type n = ETT_ONCE \<or> r = Some (-1)) then [] else [pos]) @ hs) (ys @ zs) \<and>
    (\<forall>a \<in> set (ks @ hs @ ys). tnodes st' a = tnodes st a) \<and>
    (\<not> (r \<noteq> None \<and> (run_type n = ETT_ONCE \<or> r = Some (-1))) \<longrightarrow> tnodes st' pos = Some (if r = None then n else n\<lparr>last_time := now\<rparr>))"
proof -
  have n: "tnodes st pos = Some n" using u by (auto simp: updating_def n_def)
  show ?thesis
  proof (cases "due now n")
    case False
    then show ?thesis using u n by (intro exI [of _ None] exI [of _ st] exI [of _ v] exI [of _ "[]"]) (simp add: update_one_def)
  next
    case True
    obtain r st1 v' zs where r: "run (tentry n) (tparam n) (st, v) = Some (r, st1, v')" "updating st1 header (ks @ pos # hs) (ys @ zs)"
        "tlist st1 = tlist st" "\<forall>a \<in> set (ks @ pos # hs @ ys). tnodes st1 a = tnodes st a"
      using cb u unfolding callback_ok_def by (metis append.assoc append_Cons)
    have n1: "tnodes st1 pos = Some n" using r(4) n by simp
    have d: "dlist (theap st1) header (ks @ pos # hs)" "dlist (theap st1) (tlist st1) (ys @ zs)"
        "set (header # ks @ pos # hs) \<inter> set (tlist st1 # ys @ zs) = {}"
      using r(2) by (simp_all add: updating_def timer_ok_def)
    have pos: "pos \<notin> set (header # ks @ hs)" "pos \<notin> set (tlist st1 # ys @ zs)" using d by (auto simp: dlist_def)
    show ?thesis
    proof (cases "run_type n = ETT_ONCE \<or> r = -1")
      case rm: True
      obtain h where h: "list_del pos (theap st1) = Some h" "dlist h header (ks @ hs)" "unchanged (set (header # ks @ hs)) (theap st1) h"
        using list_del_ok [OF d(1)] by blast
      have "dlist h (tlist st1) (ys @ zs)" using dlist_unchanged [OF h(3)] d(2,3) by auto
      then have d': "dlist (cell_free pos h) (tlist st1) (ys @ zs)" "dlist (cell_free pos h) header (ks @ hs)"
        using dlist_cell_free pos h(2) by blast+
      let ?st = "timer_free pos (st1\<lparr>theap := h\<rparr>)"
      have "update_one run now pos (st, v) = Some (Some r, ?st, v')"
        using True n n1 r(1) rm h(1) by (simp add: update_one_def on_heap_def)
      moreover have "updating ?st header (ks @ hs) (ys @ zs)"
        using r(2) d' pos by (auto simp: updating_def timer_ok_def timer_free_def)
      ultimately show ?thesis using True rm r(3,4) pos by (intro exI [of _ "Some r"] exI [of _ ?st] exI [of _ v'] exI [of _ zs])
          (auto simp: timer_free_def)
    next
      case keep: False
      let ?st = "st1\<lparr>tnodes := (tnodes st1)(pos \<mapsto> n\<lparr>last_time := now\<rparr>)\<rparr>"
      have "update_one run now pos (st, v) = Some (Some r, ?st, v')"
        using True n n1 r(1) keep by (simp add: update_one_def)
      moreover have "updating ?st header (ks @ pos # hs) (ys @ zs)" using r(2) by (auto simp: updating_def timer_ok_def)
      ultimately show ?thesis using True keep r(3,4) pos by (intro exI [of _ "Some r"] exI [of _ ?st] exI [of _ v'] exI [of _ zs]) auto
    qed
  qed
qed

section \<open>All timers\<close>

text \<open>A called timer goes when it is made for one call or its function returns -1.\<close>

definition gone :: "(addr \<rightharpoonup> timer_node) \<Rightarrow> (addr \<times> int) list \<Rightarrow> addr \<Rightarrow> bool" where
  "gone nodes cs a \<longleftrightarrow> (\<exists>r. (a, r) \<in> set cs \<and> (run_type (the (nodes a)) = ETT_ONCE \<or> r = -1))"

definition after_update :: "ndtime_t \<Rightarrow> timer_node \<Rightarrow> timer_node" where
  "after_update now n = (if due now n then n\<lparr>last_time := now\<rparr> else n)"

lemma update_loop_ok:
  assumes cb: "callback_ok run"
  shows "updating st header (ks @ hs) ys \<Longrightarrow> length hs \<le> k \<Longrightarrow>
    \<exists>cs st' v' zs. update_loop k run now header (hd (hs @ [header])) (st, v) = Some (cs, st', v') \<and> tlist st' = tlist st \<and>
      map fst cs = filter (\<lambda>a. due now (the (tnodes st a))) hs \<and>
      updating st' header (ks @ filter (\<lambda>a. \<not> gone (tnodes st) cs a) hs) (ys @ zs) \<and>
      (\<forall>a \<in> set (ks @ ys). tnodes st' a = tnodes st a) \<and>
      (\<forall>a \<in> set hs. \<not> gone (tnodes st) cs a \<longrightarrow> tnodes st' a = Some (after_update now (the (tnodes st a))))"
proof (induction hs arbitrary: k st v ks ys)
  case Nil
  then show ?case by (cases k) (auto intro: exI [of _ "[]"])
next
  case (Cons pos hs)
  obtain j where j: "k = Suc j" "length hs \<le> j" using Cons.prems(2) by (cases k) auto
  let ?n = "the (tnodes st pos)"
  obtain r st1 v1 zs where one: "update_one run now pos (st, v) = Some (r, st1, v1)" "tlist st1 = tlist st" "r \<noteq> None \<longleftrightarrow> due now ?n"
      "updating st1 header (ks @ (if r \<noteq> None \<and> (run_type ?n = ETT_ONCE \<or> r = Some (-1)) then [] else [pos]) @ hs) (ys @ zs)"
      "\<forall>a \<in> set (ks @ hs @ ys). tnodes st1 a = tnodes st a"
      "\<not> (r \<noteq> None \<and> (run_type ?n = ETT_ONCE \<or> r = Some (-1))) \<longrightarrow> tnodes st1 pos = Some (if r = None then ?n else ?n\<lparr>last_time := now\<rparr>)"
    using update_one_ok [OF Cons.prems(1) cb, of now v] by (elim exE conjE) (rule that)
  let ?k = "if r \<noteq> None \<and> (run_type ?n = ETT_ONCE \<or> r = Some (-1)) then [] else [pos]"
  have up: "updating st1 header ((ks @ ?k) @ hs) (ys @ zs)" using one(4) by (simp only: append_assoc)
  obtain cs st' v' zs' where loop: "update_loop j run now header (hd (hs @ [header])) (st1, v1) = Some (cs, st', v')" "tlist st' = tlist st1"
      "map fst cs = filter (\<lambda>a. due now (the (tnodes st1 a))) hs"
      "updating st' header ((ks @ ?k) @ filter (\<lambda>a. \<not> gone (tnodes st1) cs a) hs) ((ys @ zs) @ zs')"
      "\<forall>a \<in> set ((ks @ ?k) @ ys @ zs). tnodes st' a = tnodes st1 a"
      "\<forall>a \<in> set hs. \<not> gone (tnodes st1) cs a \<longrightarrow> tnodes st' a = Some (after_update now (the (tnodes st1 a)))"
    using Cons.IH [OF up j(2), of v1] by (elim exE conjE) (rule that)
  have dl: "dlist (theap st) header (ks @ pos # hs)" using Cons.prems(1) by (simp add: updating_def)
  then have pos: "pos \<notin> set hs" "pos \<noteq> header" by (auto simp: dlist_def)
  have nxt: "lnext (theap st) pos = Some (hd (hs @ [header]))" using dlist_ends(2) [OF dl] .
  define cs1 where "cs1 = (case r of None \<Rightarrow> [] | Some x \<Rightarrow> [(pos, x)]) @ cs"
  have run: "update_loop k run now header (hd ((pos # hs) @ [header])) (st, v) = Some (cs1, st', v')"
    using pos(2) nxt one(1) loop(1) by (simp add: j(1) cs1_def)
  have same: "tnodes st1 a = tnodes st a" if "a \<in> set hs" for a using one(5) that by simp
  have fs: "fst ` set cs \<subseteq> set hs" using arg_cong [OF loop(3), of set] by auto
  have g: "gone (tnodes st) cs1 a = gone (tnodes st1) cs a" if "a \<in> set hs" for a
    using that pos(1) same by (auto simp: gone_def cs1_def split: option.split)
  have gp: "gone (tnodes st) cs1 pos \<longleftrightarrow> r \<noteq> None \<and> (run_type ?n = ETT_ONCE \<or> r = Some (-1))"
    using fs pos(1) by (force simp: gone_def cs1_def split: option.split)
  have "map fst cs1 = filter (\<lambda>a. due now (the (tnodes st a))) (pos # hs)"
    using loop(3) one(3) same by (auto simp: cs1_def cong: filter_cong split: option.split)
  moreover have "filter (\<lambda>a. \<not> gone (tnodes st) cs1 a) (pos # hs) = ?k @ filter (\<lambda>a. \<not> gone (tnodes st1) cs a) hs"
    using g gp by (auto cong: filter_cong)
  then have "updating st' header (ks @ filter (\<lambda>a. \<not> gone (tnodes st) cs1 a) (pos # hs)) (ys @ zs @ zs')" using loop(4) by simp
  moreover have "\<forall>a \<in> set (ks @ ys). tnodes st' a = tnodes st a" using loop(5) one(5) by auto
  moreover have "\<forall>a \<in> set (pos # hs). \<not> gone (tnodes st) cs1 a \<longrightarrow> tnodes st' a = Some (after_update now (the (tnodes st a)))"
    using g gp loop(5,6) one(3,6) same by (auto simp: after_update_def split: if_splits)
  moreover have "tlist st' = tlist st" using loop(2) one(2) by simp
  ultimately show ?case using run by blast
qed

section \<open>Deletion\<close>

definition id_of :: "timer_state \<Rightarrow> addr \<Rightarrow> u32" where
  "id_of st a = timer_id (the (tnodes st a))"

lemma id_of_del_buf [simp]: "id_of (st\<lparr>del_buf := b\<rparr>) = id_of st"
  by (simp add: id_of_def fun_eq_iff)

lemma find_timer_ok:
  "links (theap st) p xs (tlist st) \<Longrightarrow> tlist st \<notin> set xs \<Longrightarrow> \<forall>a \<in> set xs. tnodes st a \<noteq> None \<Longrightarrow> length xs \<le> k \<Longrightarrow>
    find_timer k (hd (xs @ [tlist st])) i st = Some (find (\<lambda>a. id_of st a = i) xs)"
proof (induction xs arbitrary: p k)
  case Nil
  then show ?case by (cases k) auto
next
  case (Cons x xs)
  obtain j where j: "k = Suc j" "length xs \<le> j" using Cons.prems(4) by (cases k) auto
  have l: "links (theap st) x xs (tlist st)" using Cons.prems(1) by simp
  then have "lnext (theap st) x = Some (hd (xs @ [tlist st]))" by (cases xs) auto
  then show ?case using Cons.IH [OF l _ _ j(2)] Cons.prems by (auto simp: j(1) id_of_def)
qed

text \<open>What a deletion keeps: the timers that are left, and free memory.\<close>

definition keeps :: "timer_state \<Rightarrow> timer_state \<Rightarrow> addr list \<Rightarrow> bool" where
  "keeps st st' xs \<longleftrightarrow> tlist st' = tlist st \<and> (\<forall>a \<in> set xs. tnodes st' a = tnodes st a) \<and> (\<forall>a. allocated (theap st') a \<longrightarrow> allocated (theap st) a)"

lemma find_None_filter: "find P xs = None \<Longrightarrow> filter (\<lambda>x. \<not> P x) xs = xs"
  by (auto simp: find_None_iff filter_id_conv)

lemma find_Some_split: "find P xs = Some x \<Longrightarrow> \<exists>us vs. xs = us @ x # vs \<and> P x \<and> (\<forall>u \<in> set us. \<not> P u)"
proof (induction xs)
  case (Cons y ys)
  show ?case
  proof (cases "P y")
    case True
    then show ?thesis using Cons.prems by (intro exI [of _ "[]"] exI [of _ ys]) simp
  next
    case False
    then obtain us vs where "ys = us @ x # vs" "P x" "\<forall>u \<in> set us. \<not> P u" using Cons by auto
    then show ?thesis using False by (intro exI [of _ "y # us"] exI [of _ vs]) simp
  qed
qed simp

lemma del_from_list_ok:
  assumes ok: "timer_ok st xs" and dis: "distinct (map (id_of st) xs)" and fuel: "length xs \<le> fuel"
  shows "\<exists>st'. del_from_list fuel i st = Some st' \<and> timer_ok st' (filter (\<lambda>a. id_of st a \<noteq> i) xs) \<and> del_buf st' = del_buf st \<and>
    keeps st st' (filter (\<lambda>a. id_of st a \<noteq> i) xs)"
proof -
  have d: "dlist (theap st) (tlist st) xs" and nodes: "\<forall>a \<in> set xs. tnodes st a \<noteq> None" using ok by (simp_all add: timer_ok_def)
  then have l: "links (theap st) (tlist st) xs (tlist st)" "tlist st \<notin> set xs" by (auto simp: dlist_def)
  then have first: "lnext (theap st) (tlist st) = Some (hd (xs @ [tlist st]))" by (cases xs) auto
  note find = find_timer_ok [OF l nodes fuel, of i]
  show ?thesis
  proof (cases "find (\<lambda>a. id_of st a = i) xs")
    case None
    then show ?thesis using find first ok find_None_filter [OF None] by (simp add: del_from_list_def keeps_def)
  next
    case (Some a)
    obtain us vs where xs: "xs = us @ a # vs" "id_of st a = i" "\<forall>u \<in> set us. id_of st u \<noteq> i" using find_Some_split [OF Some] by blast
    have "\<forall>v \<in> set vs. id_of st v \<noteq> i" using dis xs(2) by (auto simp: xs(1)) (metis imageI)
    then have rest: "filter (\<lambda>a. id_of st a \<noteq> i) xs = us @ vs" using xs(2,3) by (simp add: xs(1) filter_id_conv)
    obtain h where h: "list_del a (theap st) = Some h" "dlist h (tlist st) (us @ vs)" "unchanged (set (tlist st # us @ vs)) (theap st) h"
      using list_del_ok d unfolding xs(1) by blast
    have a: "a \<notin> set (tlist st # us @ vs)" using d by (auto simp: dlist_def xs(1))
    let ?st = "timer_free a (st\<lparr>theap := h, tnum := tnum st - 1\<rparr>)"
    have "del_from_list fuel i st = Some ?st" using find first Some h(1) by (simp add: del_from_list_def on_heap_def)
    moreover have "timer_ok ?st (us @ vs)"
      using ok a dlist_cell_free [OF a] h(2) by (auto simp: timer_ok_def timer_free_def xs(1))
    moreover have "keeps st ?st (us @ vs)"
      using a unchanged_allocated [OF h(3)] by (auto simp: keeps_def timer_free_def cell_free_def allocated_def split: if_splits)
    ultimately show ?thesis unfolding rest by (auto simp: timer_free_def)
  qed
qed

lemma keeps_trans: "keeps st st1 xs \<Longrightarrow> keeps st1 st2 ys \<Longrightarrow> set ys \<subseteq> set xs \<Longrightarrow> keeps st st2 ys"
  by (auto simp: keeps_def subset_iff)

lemma tryto_del_loop_ok:
  "timer_ok st xs \<Longrightarrow> distinct (map (id_of st) xs) \<Longrightarrow> length xs \<le> fuel \<Longrightarrow> i + k = DELBUF_SIZE \<Longrightarrow>
    \<exists>st'. tryto_del_loop fuel k i st = Some st' \<and>
      timer_ok st' (filter (\<lambda>a. id_of st a \<notin> set (drop i (del_buf st)) - {0}) xs) \<and>
      keeps st st' (filter (\<lambda>a. id_of st a \<notin> set (drop i (del_buf st)) - {0}) xs)"
proof (induction k arbitrary: i st xs)
  case 0
  then have "drop i (del_buf st) = []" by (simp add: timer_ok_def)
  then show ?case using 0 by (simp add: keeps_def)
next
  case (Suc k)
  let ?x = "del_buf st ! i" and ?st = "st\<lparr>del_buf := (del_buf st)[i := 0]\<rparr>"
  let ?ys = "filter (\<lambda>a. ?x = 0 \<or> id_of st a \<noteq> ?x) xs"
  have dr: "drop i (del_buf st) = ?x # drop (Suc i) (del_buf st)"
    using Suc.prems(1,4) by (simp add: timer_ok_def Cons_nth_drop_Suc)
  have ok: "timer_ok ?st xs" "distinct (map (id_of ?st) xs)" using Suc.prems(1,2) by (simp_all add: timer_ok_def)
  have "\<exists>st1. (if ?x \<noteq> 0 then del_from_list fuel ?x ?st else Some ?st) = Some st1 \<and> timer_ok st1 ?ys \<and> del_buf st1 = del_buf ?st \<and> keeps st st1 ?ys"
  proof (cases "?x = 0")
    case True
    then show ?thesis using ok by (simp add: keeps_def)
  next
    case False
    then show ?thesis using del_from_list_ok [OF ok Suc.prems(3), of ?x] by (auto simp: keeps_def id_of_def)
  qed
  then obtain st1 where one: "(if ?x \<noteq> 0 then del_from_list fuel ?x ?st else Some ?st) = Some st1" "timer_ok st1 ?ys" "del_buf st1 = del_buf ?st"
    "keeps st st1 ?ys" by blast
  have same: "id_of st1 a = id_of st a" if "a \<in> set ?ys" for a using one(4) that unfolding keeps_def id_of_def by metis
  have "map (id_of st1) ?ys = map (id_of st) ?ys" using same by (meson map_cong)
  then have dis: "distinct (map (id_of st1) ?ys)" using Suc.prems(2) by (metis distinct_map_filter)
  have len: "length ?ys \<le> fuel" using Suc.prems(3) length_filter_le le_trans by blast
  have buf: "drop (Suc i) (del_buf st1) = drop (Suc i) (del_buf st)" using one(3) by simp
  let ?zs = "filter (\<lambda>a. id_of st1 a \<notin> set (drop (Suc i) (del_buf st1)) - {0}) ?ys"
  have zs: "?zs = filter (\<lambda>a. id_of st a \<notin> set (drop i (del_buf st)) - {0}) xs"
    unfolding buf dr filter_filter by (rule filter_cong) (use same in auto)
  obtain st' where "tryto_del_loop fuel k (Suc i) st1 = Some st'" "timer_ok st' ?zs" "keeps st1 st' ?zs"
    using Suc.IH [OF one(2) dis len, of "Suc i"] Suc.prems(4) by auto
  moreover from this(3) have "keeps st st' ?zs" by (rule keeps_trans [OF one(4)]) auto
  ultimately show ?case using one(1) unfolding zs by (auto simp: Let_def)
qed

section \<open>The update\<close>

lemma take_over_updating:
  assumes ok: "timer_ok st xs" and new: "\<not> allocated (theap st) header"
  shows "\<exists>st1 st2 st3. on_heap (INIT_LIST_HEAD header) (st\<lparr>theap := cell_new header (theap st)\<rparr>) = Some st1 \<and>
    on_heap (list_add header (tlist st1)) st1 = Some st2 \<and> on_heap (list_del_init (tlist st2)) st2 = Some st3 \<and>
    updating st3 header xs [] \<and> tlist st3 = tlist st \<and> tnodes st3 = tnodes st"
proof -
  let ?h = "cell_new header (theap st)"
  have d: "dlist (theap st) (tlist st) xs" using ok by (simp add: timer_ok_def)
  have n: "header \<notin> set (tlist st # xs)" using fresh_not_in [OF d new] .
  obtain h1 where h1: "INIT_LIST_HEAD header ?h = Some h1" "unchanged {header} ?h h1" using init_head_ok [of ?h header] by auto
  have d1: "dlist h1 (tlist st) xs" using dlist_unchanged [OF h1(2)] dlist_cell_new [OF n] d n by auto
  have al: "allocated h1 header" using unchanged_allocated [OF h1(2)] by simp
  obtain h2 h3 where h: "list_add header (tlist st) h1 = Some h2" "list_del_init (tlist st) h2 = Some h3" "dlist h3 header xs" "dlist h3 (tlist st) []"
    using list_take_over_ok [OF d1 al n] by blast
  have "set (header # xs) \<inter> set (tlist st # []) = {}" using n d by (auto simp: dlist_def)
  then show ?thesis using h1(1) h ok by (auto simp: on_heap_def updating_def timer_ok_def)
qed

text \<open>The timers that are not on the deletion list.\<close>

definition alive :: "timer_state \<Rightarrow> addr list \<Rightarrow> addr list" where
  "alive st xs = filter (\<lambda>a. id_of st a \<notin> set (del_buf st) - {0}) xs"

text \<open>C29. An update on a list of timers with different ids removes those whose deletion was requested and, of the rest, runs exactly
  the ones that are due, each once and in the order of the list. The timers that stay are in the same order, in front of those the
  callbacks have added, and those that ran carry the time of the update; for callbacks that add timers and request deletions.\<close>

theorem timer_update_runs_due:
  assumes "timer_ok st xs" and "distinct (map (id_of st) xs)" and "1 \<le> tnum st" and "\<not> allocated (theap st) header"
    and "callback_ok run" and "length xs \<le> fuel"
  shows "\<exists>cs st' v' zs. nd_timer_update fuel run now header (st, v) = Some (cs, st', v') \<and>
    map fst cs = filter (\<lambda>a. due now (the (tnodes st a))) (alive st xs) \<and>
    timer_ok st' (filter (\<lambda>a. \<not> gone (tnodes st) cs a) (alive st xs) @ zs) \<and>
    (\<forall>a \<in> set (alive st xs). \<not> gone (tnodes st) cs a \<longrightarrow> tnodes st' a = Some (after_update now (the (tnodes st a))))"
proof -
  obtain st1 where st1: "tryto_del_timer fuel st = Some st1" "timer_ok st1 (alive st xs)" "keeps st st1 (alive st xs)"
    using tryto_del_loop_ok [OF assms(1,2,6), of 0 DELBUF_SIZE] by (auto simp: tryto_del_timer_def alive_def)
  have fresh: "\<not> allocated (theap st1) header" using st1(3) assms(4) by (auto simp: keeps_def)
  obtain sa sb st2 where st2: "on_heap (INIT_LIST_HEAD header) (st1\<lparr>theap := cell_new header (theap st1)\<rparr>) = Some sa"
      "on_heap (list_add header (tlist sa)) sa = Some sb" "on_heap (list_del_init (tlist sb)) sb = Some st2"
      "updating st2 header (alive st xs) []" "tlist st2 = tlist st1" "tnodes st2 = tnodes st1"
    using take_over_updating [OF st1(2) fresh] by (elim exE conjE) (rule that)
  have same: "tnodes st2 a = tnodes st a" if "a \<in> set (alive st xs)" for a using st1(3) st2(6) that by (simp add: keeps_def)
  have first: "lnext (theap st2) header = Some (hd (alive st xs @ [header]))"
    using st2(4) by (cases "alive st xs") (auto simp: updating_def dlist_def)
  have up: "updating st2 header ([] @ alive st xs) []" using st2(4) by simp
  have len: "length (alive st xs) \<le> fuel" using assms(6) unfolding alive_def by (rule le_trans [OF length_filter_le])
  obtain cs st3 v3 zs where st3: "update_loop fuel run now header (hd (alive st xs @ [header])) (st2, v) = Some (cs, st3, v3)" "tlist st3 = tlist st2"
      "map fst cs = filter (\<lambda>a. due now (the (tnodes st2 a))) (alive st xs)"
      "updating st3 header ([] @ filter (\<lambda>a. \<not> gone (tnodes st2) cs a) (alive st xs)) ([] @ zs)"
      "\<forall>a \<in> set ([] @ []). tnodes st3 a = tnodes st2 a"
      "\<forall>a \<in> set (alive st xs). \<not> gone (tnodes st2) cs a \<longrightarrow> tnodes st3 a = Some (after_update now (the (tnodes st2 a)))"
    using update_loop_ok [OF assms(5) up len, of now v] by (elim exE conjE) (rule that)
  have g: "gone (tnodes st2) cs a = gone (tnodes st) cs a" if "a \<in> set (alive st xs)" for a using same [OF that] by (simp add: gone_def)
  let ?ks = "filter (\<lambda>a. \<not> gone (tnodes st) cs a) (alive st xs)"
  have ks: "updating st3 header ?ks zs" using st3(4) g by (simp cong: filter_cong)
  obtain h where h: "list_join header (tlist st3) (theap st3) = Some h" "dlist h (tlist st3) (?ks @ zs)"
    using list_join_ok [of "theap st3" header ?ks "tlist st3" zs] ks by (auto simp: updating_def timer_ok_def)
  have "header \<notin> set (tlist st3 # ?ks @ zs)" using ks by (auto simp: updating_def dlist_def)
  then have "dlist (cell_free header h) (tlist st3) (?ks @ zs)" using dlist_cell_free h(2) by blast
  then have "timer_ok (st3\<lparr>theap := cell_free header h\<rparr>) (?ks @ zs)" using ks by (auto simp: timer_ok_def updating_def)
  moreover have "nd_timer_update fuel run now header (st, v) = Some (cs, st3\<lparr>theap := cell_free header h\<rparr>, v3)"
    using assms(3) st1(1) st2(1,2,3) first st3(1) on_heap_Some [of "list_join header (tlist st3)", OF h(1)] by (simp add: nd_timer_update_def)
  moreover have "map fst cs = filter (\<lambda>a. due now (the (tnodes st a))) (alive st xs)" using st3(3) same by (simp cong: filter_cong)
  moreover have "\<forall>a \<in> set (alive st xs). \<not> gone (tnodes st) cs a \<longrightarrow> tnodes st3 a = Some (after_update now (the (tnodes st a)))"
    using st3(6) g same by auto
  ultimately show ?thesis
    by (intro exI [of _ cs] exI [of _ "st3\<lparr>theap := cell_free header h\<rparr>"] exI [of _ v3] exI [of _ zs]) simp
qed

text \<open>Three timers; the second is made for one call, the deletion of the third is requested. The function 1 adds a timer at address 50
  unless there is one, the function 2 requests a deletion.\<close>

definition sample_timers :: timer_state where
  "sample_timers = \<lparr>tnum = 3, start_id = 3, tlist = 100, del_buf = replicate DELBUF_SIZE 3,
     tnodes = [10 \<mapsto> \<lparr>timer_id = 1, run_type = ETT_LOOP, tparam = 0, tentry = 1, last_time = 0, interval = 100\<rparr>,
       20 \<mapsto> \<lparr>timer_id = 2, run_type = ETT_ONCE, tparam = 1, tentry = 2, last_time = 0, interval = 100\<rparr>,
       30 \<mapsto> \<lparr>timer_id = 3, run_type = ETT_LOOP, tparam = 0, tentry = 1, last_time = 0, interval = 100\<rparr>],
     theap = \<lparr>lnext = [100 \<mapsto> 10, 10 \<mapsto> 20, 20 \<mapsto> 30, 30 \<mapsto> 100], lprev = [100 \<mapsto> 30, 10 \<mapsto> 100, 20 \<mapsto> 10, 30 \<mapsto> 20]\<rparr>\<rparr>"

definition sample_callback :: "unit callback" where
  "sample_callback f p s = (case s of (st, u) \<Rightarrow>
     if f = 1 \<and> \<not> allocated (theap st) 50 then map_option (\<lambda>(_, st). (0, st, u)) (nd_timer_add (Some 50) 2 1 100 ETT_ONCE 0 st)
     else Some (0, snd (nd_timer_del (of_nat p) st), u))"

lemma sample_callback_ok: "callback_ok sample_callback"
  unfolding callback_ok_def
proof (intro allI impI)
  fix f p st u header hs ys
  assume up: "updating st header hs ys"
  show "\<exists>r st' u' zs. sample_callback f p (st, u) = Some (r, st', u') \<and> updating st' header hs (ys @ zs) \<and> tlist st' = tlist st \<and>
       (\<forall>a \<in> set (hs @ ys). tnodes st' a = tnodes st a)"
  proof (cases "f = 1 \<and> \<not> allocated (theap st) 50")
    case True
    then show ?thesis using timer_add_updating [OF up, of 50 2 1 100 ETT_ONCE 0] by (fastforce simp: sample_callback_def)
  next
    case False
    then have "sample_callback f p (st, u) = Some (0, snd (nd_timer_del (of_nat p) st), u)" by (auto simp: sample_callback_def)
    then show ?thesis using timer_del_updating [OF up, of "of_nat p"] by (intro exI [of _ 0] exI [of _ "snd (nd_timer_del (of_nat p) st)"] exI [of _ u] exI [of _ "[]"]) simp
  qed
qed

lemma sample_timers_ok:
  "timer_ok sample_timers [10, 20, 30]" "distinct (map (id_of sample_timers) [10, 20, 30])" "1 \<le> tnum sample_timers"
  "\<not> allocated (theap sample_timers) 200"
  by (simp_all add: timer_ok_def sample_timers_def dlist_def id_of_def allocated_def)

theorem timer_update_runs_due_witness:
  "\<exists>cs st' v' zs. nd_timer_update 3 sample_callback 100 200 (sample_timers, ()) = Some (cs, st', v') \<and> map fst cs = [10, 20] \<and>
    timer_ok st' (filter (\<lambda>a. \<not> gone (tnodes sample_timers) cs a) [10, 20] @ zs)"
proof -
  have al: "alive sample_timers [10, 20, 30] = [10, 20]" by (simp add: alive_def sample_timers_def id_of_def DELBUF_SIZE_def)
  have du: "filter (\<lambda>a. due 100 (the (tnodes sample_timers a))) [10, 20] = [10, 20]" by (simp add: due_def sample_timers_def)
  have "length [10, 20, 30 :: addr] \<le> 3" by simp
  from timer_update_runs_due [OF sample_timers_ok sample_callback_ok this, of 100 "()", unfolded al du] show ?thesis
    by (elim exE conjE) (intro exI conjI; assumption)
qed

text \<open>Only one deletion can be requested between two updates: into an empty buffer, \<open>nd_timer_del\<close> stores the id in all 16 places and
  reports failure. The next request reports success and is lost.\<close>

theorem timer_del_loses_requests:
  assumes "del_buf st = replicate DELBUF_SIZE 0" and "i \<noteq> 0" and "j \<noteq> 0"
  shows "nd_timer_del i st = (-1, st\<lparr>del_buf := replicate DELBUF_SIZE i\<rparr>) \<and>
    nd_timer_del j (snd (nd_timer_del i st)) = (0, snd (nd_timer_del i st))"
proof

  have "del_scan i (replicate n 0) 1 = (1, replicate n i)" for n by (induction n) auto
  then have *: "del_scan i (replicate DELBUF_SIZE 0) (-1) = (1, replicate DELBUF_SIZE i)" by (simp add: DELBUF_SIZE_def numeral_eq_Suc)
  then show one: "nd_timer_del i st = (-1, st\<lparr>del_buf := replicate DELBUF_SIZE i\<rparr>)" using assms by (simp add: nd_timer_del_def)
  show "nd_timer_del j (snd (nd_timer_del i st)) = (0, snd (nd_timer_del i st))"
    using assms by (simp add: one nd_timer_del_def DELBUF_SIZE_def numeral_eq_Suc)
qed

theorem timer_del_loses_requests_witness:
  "snd (nd_timer_del 2 (snd (nd_timer_del 1 (sample_timers\<lparr>del_buf := replicate DELBUF_SIZE 0\<rparr>)))) = sample_timers\<lparr>del_buf := replicate DELBUF_SIZE 1\<rparr>"
  using timer_del_loses_requests [of "sample_timers\<lparr>del_buf := replicate DELBUF_SIZE 0\<rparr>" 1 2] by fastforce

end
