(* ===== verification/Xml_Text.thy ===== *)
theory Xml_Text
  imports Nd_Str
begin

text \<open>
  The text of values and attributes in \<^verbatim>\<open>src/nd_common/src/nd_xml.c\<close>: entities, the reading of quoted and of plain text, and the
  writing of text with entities. Pointers into a text are the rest of its block, as in \<open>Nd_Str\<close>; \<open>code\<close> is the encoding set
  with \<open>ndstr_set_code\<close>. A routine that stores to a buffer gets the room left in it and has no value when it would store past
  its end. Bytes of a buffer that the code leaves unset are not read: where it would use one the result has no value either.
\<close>

section \<open>The C library\<close>

text \<open>\<open>strchr\<close> and \<open>strstr\<close>, for a pattern without a null character; the inner \<open>None\<close> is a null pointer.\<close>

fun ndstrchr :: "byte list \<Rightarrow> byte \<Rightarrow> byte list option option" where
  "ndstrchr [] c = None"
| "ndstrchr (b # bs) c = (if b = c then Some (Some (b # bs)) else if b = 0 then Some None else ndstrchr bs c)"

fun ndstrstr :: "byte list \<Rightarrow> byte list \<Rightarrow> byte list option option" where
  "ndstrstr [] pat = None"
| "ndstrstr (b # bs) pat =
     (if take (length pat) (b # bs) = pat then Some (Some (b # bs)) else if b = 0 then Some None else ndstrstr bs pat)"

definition lit :: "string \<Rightarrow> byte list" where
  "lit s = map (\<lambda>c. of_nat (of_char c)) s"

text \<open>The C string at the start of a block.\<close>

definition c_text :: "byte list \<Rightarrow> byte list" where
  "c_text bs = takeWhile (\<lambda>b. b \<noteq> 0) bs"

section \<open>Reading\<close>

definition is_mark_end :: "byte list \<Rightarrow> bool option" where
  "is_mark_end p = (case p of
     [] \<Rightarrow> None | a # r \<Rightarrow> if a = 0x2F then (case r of [] \<Rightarrow> None | b # _ \<Rightarrow> Some (b = 0x3E)) else Some False)"

definition is_mark_start :: "byte list \<Rightarrow> bool option" where
  "is_mark_start p = (case p of
     [] \<Rightarrow> None | a # r \<Rightarrow> if a = 0x3C then (case r of [] \<Rightarrow> None | b # _ \<Rightarrow> Some (b = 0x2F)) else Some False)"

text \<open>The character of an entity name.\<close>

fun entity_char :: "(byte list \<times> byte) list \<Rightarrow> byte list \<Rightarrow> byte option option" where
  "entity_char [] name = Some None"
| "entity_char ((e, c) # es) name = do {
     r \<leftarrow> ndstricmp (cstr name) (cstr e);
     if r = 0 then Some (Some c) else entity_char es name
   }"

definition entities :: "(byte list \<times> byte) list" where
  "entities = [(lit ''amp'', 0x26), (lit ''lt'', 0x3C), (lit ''gt'', 0x3E), (lit ''quot'', 0x22), (lit ''apos'', 0x27)]"

text \<open>The rest of the text and the character stored; \<open>None\<close> when nothing is stored (\<open>src\<close> does not start with an ampersand or the
  entity is unknown).\<close>

definition read_replace_text :: "byte list \<Rightarrow> (byte list \<times> byte option) option" where
  "read_replace_text src = (case src of
     [] \<Rightarrow> None
   | a # p \<Rightarrow>
       if a \<noteq> 0x26 then Some (src, None)
       else do {
         (q, name) \<leftarrow> ndstr_nstr_ansi p 0x3B 15;
         (case q of
            [] \<Rightarrow> None
          | b # q' \<Rightarrow>
              if b \<noteq> 0x3B then Some (p, Some a)
              else do { c \<leftarrow> entity_char entities name; Some (q', c) })
       })"

text \<open>The test whether an ampersand starts an entity.\<close>

definition entity_start :: "byte list \<Rightarrow> bool option" where
  "entity_start p = (case p of
     [] \<Rightarrow> None
   | a # r \<Rightarrow> if a = 0x26 then (case r of [] \<Rightarrow> None | b # _ \<Rightarrow> Some (IS_LITTLE_LATIN b \<or> IS_BIG_LATIN b)) else Some False)"

text \<open>The loop of \<open>_xml_read_attrval\<close> behind the opening quote, with \<open>room\<close> bytes left in the buffer (\<open>size\<close>): the rest of the text and what is
  stored. The terminator needs a byte of its own, but the loop runs until \<open>room\<close> is 0.\<close>

lemma read_replace_shorter:
  "read_replace_text src = Some (q, Some c) \<Longrightarrow> length q < length src"
  by (auto simp: read_replace_text_def ndstr_nstr_ansi_def split: list.splits if_splits bind_splits dest!: copy_words_split)

function attrval_loop :: "nat \<Rightarrow> byte list \<Rightarrow> nat \<Rightarrow> (byte list \<times> byte list) option" where
  "attrval_loop code p room = (case p of
     [] \<Rightarrow> None
   | a # r \<Rightarrow>
       if a = 0 \<or> room = 0 then (if room = 0 then None else Some (p, []))
       else if a = 0x22 then Some (r, [])
       else do {
         e \<leftarrow> entity_start p;
         if e then do {
           (q, c) \<leftarrow> read_replace_text p;
           c \<leftarrow> c;
           (q, out) \<leftarrow> attrval_loop code q (room - 1);
           Some (q, c # out)
         }
         else let k = word_len code a in
           if k \<le> length p \<and> k \<le> room then do {
             (q, out) \<leftarrow> attrval_loop code (drop k p) (room - k);
             Some (q, take k p @ out)
           }
           else None
       })"
  by pat_completeness auto
termination
  by (relation "measure (\<lambda>(code, p, room). length p)") (auto dest: read_replace_shorter)

declare attrval_loop.simps [simp del]

text \<open>The search for the opening quote; a null pointer when there is none in front of a \<open>>\<close>.\<close>

fun attr_quote :: "byte list \<Rightarrow> byte list option option" where
  "attr_quote [] = None"
| "attr_quote (b # bs) = (if b = 0x22 then Some (Some bs) else if b = 0 \<or> b = 0x3E then Some None else attr_quote bs)"

definition xml_read_attrval :: "nat \<Rightarrow> byte list \<Rightarrow> nat \<Rightarrow> (byte list \<times> byte list) option option" where
  "xml_read_attrval code xmlbuf sz = do {
     q \<leftarrow> attr_quote xmlbuf;
     (case q of
        None \<Rightarrow> Some None
      | Some p \<Rightarrow> do { r \<leftarrow> attrval_loop code p sz; Some (Some r) })
   }"

text \<open>The value of an element up to the end mark: the rest of the text and the bytes, without their terminator.\<close>

function xml_read_value :: "nat \<Rightarrow> byte list \<Rightarrow> (byte list \<times> byte list) option" where
  "xml_read_value code p = (case p of
     [] \<Rightarrow> None
   | a # r \<Rightarrow>
       if a = 0 then Some (p, [])
       else do {
         e \<leftarrow> entity_start p;
         if e then do {
           (q, c) \<leftarrow> read_replace_text p;
           c \<leftarrow> c;
           (q, out) \<leftarrow> xml_read_value code q;
           Some (q, c # out)
         }
         else do {
           m \<leftarrow> is_mark_start p;
           if m then Some (p, [])
           else let k = word_len code a in
             if k \<le> length p then do {
               (q, out) \<leftarrow> xml_read_value code (drop k p);
               Some (q, take k p @ out)
             }
             else None
         }
       })"
  by pat_completeness auto
termination
  by (relation "measure (\<lambda>(code, p). length p)") (auto dest: read_replace_shorter)

declare xml_read_value.simps [simp del]

lemma read_replace_shorter2:
  "read_replace_text (0x26 # p) = Some (q, c) \<Longrightarrow> length q < length (0x26 # p)"
  by (auto simp: read_replace_text_def ndstr_nstr_ansi_def split: list.splits if_splits bind_splits dest!: copy_words_split)

text \<open>The size of a value, for which an unknown entity counts one byte.\<close>

function xml_get_value_size :: "nat \<Rightarrow> byte list \<Rightarrow> nat option" where
  "xml_get_value_size code p = (case p of
     [] \<Rightarrow> None
   | a # r \<Rightarrow>
       if a = 0 then Some 0
       else do {
         e \<leftarrow> entity_start p;
         if e then do {
           (q, c) \<leftarrow> read_replace_text p;
           n \<leftarrow> xml_get_value_size code q;
           Some (n + 1)
         }
         else do {
           m \<leftarrow> is_mark_start p;
           if m then Some 0
           else let k = word_len code a in
             if k \<le> length p then do { n \<leftarrow> xml_get_value_size code (drop k p); Some (n + k) }
             else None
         }
       })"
  by pat_completeness auto
termination
  by (relation "measure (\<lambda>(code, p). length p)") (auto simp: entity_start_def dest: read_replace_shorter2 split: if_splits list.splits)

declare xml_get_value_size.simps [simp del]

section \<open>Writing\<close>

definition entity_text :: "byte \<Rightarrow> byte list option" where
  "entity_text a =
     (if a = 0x27 then Some (lit ''&apos;'') else if a = 0x22 then Some (lit ''&quot;'') else if a = 0x26 then Some (lit ''&amp;'')
      else if a = 0x3C then Some (lit ''&lt;'') else if a = 0x3E then Some (lit ''&gt;'') else None)"

text \<open>The loop of \<open>_out_replace_text\<close> with \<open>room\<close> bytes left in the buffer (\<open>buf_size\<close>). \<open>strncat\<close> stores its text, cut to \<open>room\<close>, and a
  terminator behind it, which is past the end when the text takes all the room.\<close>

function out_replace_loop :: "nat \<Rightarrow> byte list \<Rightarrow> nat \<Rightarrow> byte list option" where
  "out_replace_loop code p room = (case p of
     [] \<Rightarrow> None
   | a # r \<Rightarrow>
       if a = 0 \<or> room = 0 then (if room = 0 then None else Some [])
       else case entity_text a of
         Some e \<Rightarrow> if length e < room then map_option ((@) e) (out_replace_loop code r (room - length e)) else None
       | None \<Rightarrow> let k = word_len code a in
           if k \<le> length p \<and> k < room then map_option ((@) (take k p)) (out_replace_loop code (drop k p) (room - k)) else None)"
  by pat_completeness auto
termination
  by (relation "measure (\<lambda>(code, p, room). length p)") auto

declare out_replace_loop.simps [simp del]

text \<open>The result as a string: it ends at the first null character stored.\<close>

definition out_replace_text :: "nat \<Rightarrow> byte list \<Rightarrow> nat \<Rightarrow> byte list option" where
  "out_replace_text code src len = map_option c_text (out_replace_loop code src len)"

section \<open>Round trip\<close>

text \<open>The text with entities, for texts of whole characters.\<close>

function escape :: "nat \<Rightarrow> byte list \<Rightarrow> byte list" where
  "escape code [] = []"
| "escape code (b # bs) = (case entity_text b of Some e \<Rightarrow> e @ escape code bs
     | None \<Rightarrow> take (word_len code b) (b # bs) @ escape code (drop (word_len code b) (b # bs)))"
  by pat_completeness auto
termination
  by (relation "measure (\<lambda>(code, src). length src)") (simp_all del: drop_Cons)

declare escape.simps(2) [simp del]

lemma entity_text_len: "entity_text b = Some e \<Longrightarrow> word_len code b = 1"
  by (auto simp: entity_text_def word_len_def split: if_splits)

text \<open>Induction over whole characters, which are either replaced by an entity or copied.\<close>

lemma whole_induct [consumes 2, case_names Nil Entity Char]:
  assumes "whole_chars code s" "0 \<notin> set s"
    and "P []"
    and "\<And>b e s. entity_text b = Some e \<Longrightarrow> b \<noteq> 0 \<Longrightarrow> whole_chars code s \<Longrightarrow> 0 \<notin> set s \<Longrightarrow> P s \<Longrightarrow> P (b # s)"
    and "\<And>b c s. entity_text b = None \<Longrightarrow> b \<noteq> 0 \<Longrightarrow> word_len code b = Suc (length c) \<Longrightarrow> whole_chars code s \<Longrightarrow> 0 \<notin> set (c @ s) \<Longrightarrow> P s \<Longrightarrow>
      P (b # c @ s)"
  shows "P s"
  using assms(1,2)
proof (induction s rule: measure_induct_rule [of length])
  case (less s)
  show ?case
  proof (cases s)
    case Nil
    then show ?thesis using assms(3) by simp
  next
    case (Cons b bs)
    let ?k = "word_len code b"
    have k: "?k \<le> Suc (length bs)" "whole_chars code (drop ?k (b # bs))" "b \<noteq> 0" "0 \<notin> set bs"
      using less.prems by (simp_all add: Let_def Cons)
    obtain j where j: "?k = Suc j" using word_len_pos [of code b] by (cases ?k) auto
    have ih: "P (drop j bs)" using k j Cons by (intro less.IH) (auto dest: in_set_dropD)
    show ?thesis
    proof (cases "entity_text b")
      case None
      have "P (b # take j bs @ drop j bs)"
        using None k j ih by (intro assms(5)) (auto dest: in_set_takeD in_set_dropD)
      then show ?thesis by (simp add: Cons)
    next
      case (Some e)
      then have "j = 0" using entity_text_len j by fastforce
      then show ?thesis using Some k ih j unfolding Cons by (intro assms(4)) auto
    qed
  qed
qed

lemma escape_Entity [simp]: "entity_text b = Some e \<Longrightarrow> escape code (b # s) = e @ escape code s"
  by (simp add: escape.simps(2))

lemma escape_Char [simp]:
  "entity_text b = None \<Longrightarrow> word_len code b = Suc (length c) \<Longrightarrow> escape code (b # c @ s) = (b # c) @ escape code s"
  by (simp add: escape.simps(2))

lemma escape_nonzero: "whole_chars code s \<Longrightarrow> 0 \<notin> set s \<Longrightarrow> 0 \<notin> set (escape code s)"
proof (induction rule: whole_induct)
  case (Entity b e s)
  then show ?case by (auto simp: entity_text_def lit_def split: if_splits)
qed auto

lemma out_replace_escape:
  assumes "whole_chars code s" "0 \<notin> set s" "length (escape code s) < room"
  shows "out_replace_loop code (s @ 0 # x) room = Some (escape code s)"
  using assms
proof (induction arbitrary: room rule: whole_induct)
  case Nil
  then show ?case by (simp add: out_replace_loop.simps)
next
  case (Entity b e s)
  then show ?case by (subst out_replace_loop.simps) auto
next
  case (Char b c s)
  then show ?case by (subst out_replace_loop.simps) (auto simp: Let_def)
qed

lemma out_replace_text_escape:
  "whole_chars code s \<Longrightarrow> 0 \<notin> set s \<Longrightarrow> length (escape code s) < room \<Longrightarrow> out_replace_text code (s @ 0 # x) room = Some (escape code s)"
  using escape_nonzero [of code s] out_replace_escape [of code s room x]
  by (auto simp: out_replace_text_def c_text_def takeWhile_eq_all_conv)

text \<open>What is read back from an entity.\<close>

lemma read_entity:
  assumes "entity_text b = Some e"
  shows "read_replace_text (e @ x) = Some (x, Some b)" "entity_start (e @ x) = Some True" "e \<noteq> []" "hd e = 0x26"
proof -
  have lits: "lit ''&apos;'' = [0x26, 0x61, 0x70, 0x6F, 0x73, 0x3B]" "lit ''&quot;'' = [0x26, 0x71, 0x75, 0x6F, 0x74, 0x3B]"
    "lit ''&amp;'' = [0x26, 0x61, 0x6D, 0x70, 0x3B]" "lit ''&lt;'' = [0x26, 0x6C, 0x74, 0x3B]" "lit ''&gt;'' = [0x26, 0x67, 0x74, 0x3B]"
    by (simp_all add: lit_def)
  have ents: "entities = [([0x61, 0x6D, 0x70], 0x26), ([0x6C, 0x74], 0x3C), ([0x67, 0x74], 0x3E), ([0x71, 0x75, 0x6F, 0x74], 0x22), ([0x61, 0x70, 0x6F, 0x73], 0x27)]"
    by (simp add: entities_def lit_def)
  show "read_replace_text (e @ x) = Some (x, Some b)"
    using assms by (auto simp: entity_text_def lits ents read_replace_text_def ndstr_nstr_ansi_def word_len_def Let_def to_big_def IS_LITTLE_LATIN_def LITTLE_2_BIG_def
      split: if_splits)
  show "entity_start (e @ x) = Some True" "e \<noteq> []" "hd e = 0x26"
    using assms by (auto simp: entity_text_def lits entity_start_def IS_LITTLE_LATIN_def split: if_splits)
qed

lemma no_entity: "entity_text b = None \<longleftrightarrow> b \<notin> {0x27, 0x22, 0x26, 0x3C, 0x3E}"
  by (auto simp: entity_text_def)

lemma read_value_escape:
  assumes "whole_chars code s" "0 \<notin> set s"
  shows "xml_read_value code (escape code s @ 0x3C # 0x2F # x) = Some (0x3C # 0x2F # x, s) \<and>
    xml_get_value_size code (escape code s @ 0x3C # 0x2F # x) = Some (length s)"
  using assms
proof (induction rule: whole_induct)
  case Nil
  then show ?case by (simp add: xml_read_value.simps xml_get_value_size.simps entity_start_def is_mark_start_def)
next
  case (Entity b e s)
  let ?y = "escape code s @ 0x3C # 0x2F # x"
  obtain r where e: "e = 0x26 # r" using read_entity(3,4) [OF Entity(1)] by (cases e) auto
  show ?case using read_entity(1,2) [OF Entity(1), of ?y] Entity
    by (simp add: e xml_read_value.simps [of _ "0x26 # _"] xml_get_value_size.simps [of _ "0x26 # _"])
next
  case (Char b c s)
  then show ?case
    by (simp add: no_entity Let_def xml_read_value.simps [of _ "b # _"] xml_get_value_size.simps [of _ "b # _"] entity_start_def is_mark_start_def)
qed

lemma read_attrval_escape:
  assumes "whole_chars code s" "0 \<notin> set s" "length s < room"
  shows "attrval_loop code (escape code s @ 0x22 # x) room = Some (x, s)"
  using assms
proof (induction arbitrary: room rule: whole_induct)
  case Nil
  then show ?case by (simp add: attrval_loop.simps)
next
  case (Entity b e s)
  let ?y = "escape code s @ 0x22 # x"
  obtain r where e: "e = 0x26 # r" using read_entity(3,4) [OF Entity(1)] by (cases e) auto
  show ?case using read_entity(1,2) [OF Entity(1), of ?y] Entity
    by (simp add: e attrval_loop.simps [of _ "0x26 # _"])
next
  case (Char b c s)
  then show ?case by (simp add: no_entity Let_def attrval_loop.simps [of _ "b # _"] entity_start_def)
qed

end
