(* ===== verification/Xml.thy ===== *)
theory Xml
  imports Xml_Text
begin

text \<open>
  XML trees of \<^verbatim>\<open>src/nd_common/src/nd_xml.c\<close>, their parser and their printers. A tree is a datatype: the list \<open>lst_sub\<close> of a node holds its
  children, and the parent of a node is the node in whose list it stands. The block of a value and that of an attribute, with its
  name and its value behind each other, are byte lists; their unused bytes are 0. Memory can always be allocated. Pointers into the text are
  the rest of its block. The parser recurses with fuel, and more fuel than the length of the text gives the same result.
\<close>

section \<open>Trees\<close>

abbreviation (input) MAX_XMLNAME_SIZE :: nat where "MAX_XMLNAME_SIZE \<equiv> 64"

record ndxml_attr =
  name_size :: u16
  value_size :: u16
  attr_block :: "byte list"

datatype ndxml = Ndxml (xname: "byte list") (xvalue: "byte list option") (val_size: nat) (attr_num: int) (lst_attr: "ndxml_attr list")
  (sub_num: int) (lst_sub: "ndxml list")

definition init_xml_node :: ndxml where
  "init_xml_node = Ndxml [] None 0 0 [] 0 []"

text \<open>A name with its terminator; an array of 64 bytes without one is the name alone, so that reading on has no value.\<close>

definition name_block :: "ndxml \<Rightarrow> byte list" where
  "name_block n = (if length (xname n) < MAX_XMLNAME_SIZE then cstr (xname n) else xname n)"

definition ROUND4 :: "nat \<Rightarrow> nat" where
  "ROUND4 n = n div 4 * 4"

definition c_string :: "byte list \<Rightarrow> byte list option" where
  "c_string bs = (if 0 \<in> set bs then Some (c_text bs) else None)"

definition attr_name :: "ndxml_attr \<Rightarrow> byte list" where
  "attr_name a = c_text (attr_block a)"

definition attr_value :: "ndxml_attr \<Rightarrow> byte list" where
  "attr_value a = c_text (drop (unat (name_size a)) (attr_block a))"

definition alloc_attrib_node :: "byte list \<Rightarrow> byte list \<Rightarrow> ndxml_attr" where
  "alloc_attrib_node name value =
     (let len = ROUND4 (length name + 4); val_len = ROUND4 (length value + 4) in
      \<lparr>name_size = of_nat len, value_size = of_nat val_len,
        attr_block = name @ replicate (len - length name) 0 @ value @ replicate (val_len - length value) 0\<rparr>)"

definition add_attr :: "ndxml_attr \<Rightarrow> ndxml \<Rightarrow> ndxml" where
  "add_attr a n = Ndxml (xname n) (xvalue n) (val_size n) (attr_num n + 1) (lst_attr n @ [a]) (sub_num n) (lst_sub n)"

definition add_sub :: "ndxml \<Rightarrow> ndxml \<Rightarrow> ndxml" where
  "add_sub c n = Ndxml (xname n) (xvalue n) (val_size n) (attr_num n) (lst_attr n) (sub_num n + 1) (lst_sub n @ [c])"

definition set_value :: "byte list option \<Rightarrow> nat \<Rightarrow> ndxml \<Rightarrow> ndxml" where
  "set_value v sz n = Ndxml (xname n) v sz (attr_num n) (lst_attr n) (sub_num n) (lst_sub n)"

section \<open>The parser\<close>

text \<open>\<open>*parse_end\<close> after a call: not assigned, a null pointer, or a place in the text. \<open>*error_addr\<close> is the place or a null pointer.\<close>

datatype parse_end = Unset | Null | At "byte list"

type_synonym parse_result = "ndxml option \<times> parse_end \<times> byte list option"

text \<open>Comments and headers in front of an element. \<open>L\<close> is the length of \<open>xmlbuf\<close>, so that \<open>L - length p\<close> is the offset of \<open>p\<close> in it.\<close>

lemma ndstrstr_shorter: "ndstrstr p pat = Some (Some q) \<Longrightarrow> length q \<le> length p"
  by (induction p) (auto split: if_splits)

lemma first_valid_shorter: "ndstr_first_valid p = Some (Some q) \<Longrightarrow> length q \<le> length p \<and> q \<noteq> [] \<and> hd q > 0x20"
  by (induction p) (auto split: if_splits)

function parse_marked :: "nat \<Rightarrow> int \<Rightarrow> byte list \<Rightarrow> byte list option \<Rightarrow> (byte list option \<times> byte list option) option" where
  "parse_marked L sz pstart err =
     (if int L - int (length pstart) < sz then do {
        v \<leftarrow> ndstr_first_valid pstart;
        (case v of
           None \<Rightarrow> Some (None, Some pstart)
         | Some paddr \<Rightarrow>
             if hd paddr \<noteq> 0x3C then Some (None, Some pstart)
             else if int L - int (length paddr) \<ge> sz then Some (None, None)
             else (case paddr of
               a # b # r \<Rightarrow>
                 if b = 0x3F then do {
                   q \<leftarrow> ndstrstr r (lit ''?>'');
                   (case q of
                      None \<Rightarrow> Some (None, Some pstart)
                    | Some q \<Rightarrow> if int L - int (length q) \<ge> sz then Some (None, Some pstart)
                                else parse_marked L sz (drop 2 q) (Some pstart))
                 }
                 else if b = 0x21 then
                   (case r of
                      [] \<Rightarrow> None
                    | c # r' \<Rightarrow>
                        if c \<noteq> 0x2D then Some (None, Some pstart)
                        else (case r' of
                          [] \<Rightarrow> None
                        | d # r'' \<Rightarrow>
                            if d \<noteq> 0x2D then Some (None, Some pstart)
                            else do {
                              q \<leftarrow> ndstrstr r'' (lit ''-->'');
                              (case q of
                                 None \<Rightarrow> Some (None, Some pstart)
                               | Some q \<Rightarrow> if int L - int (length q) \<ge> sz then Some (None, Some pstart)
                                           else parse_marked L sz (drop 3 q) (Some pstart))
                            }))
                 else Some (Some paddr, None)
             | _ \<Rightarrow> None))
      } else Some (None, err))"
  by pat_completeness auto
termination
  by (relation "measure (\<lambda>(L, sz, p, err). length p)") (auto dest!: first_valid_shorter ndstrstr_shorter)

declare parse_marked.simps [simp del]

text \<open>Attributes: the end of the element (\<open>/>\<close>), the end of its head (\<open>>\<close> or the end of the text), or an error. The arrays for names
  have 64 bytes, that for a value 4096.\<close>

datatype attribs_result = AEnd "byte list" ndxml "byte list option" | AOpen "byte list" ndxml "byte list option" | AFail parse_end "byte list option"

lemma ndstrchr_shorter: "ndstrchr p c = Some (Some q) \<Longrightarrow> length q \<le> length p"
  by (induction p) (auto split: if_splits)

lemma attr_quote_shorter: "attr_quote p = Some (Some q) \<Longrightarrow> length q \<le> length p"
  by (induction p) (auto split: if_splits)

lemma read_replace_Cons: "read_replace_text (a # r) = Some (q, Some c) \<Longrightarrow> length q \<le> length r"
  using read_replace_shorter [of "a # r" q c] by simp

lemma attrval_shorter: "attrval_loop code p room = Some (q, out) \<Longrightarrow> length q \<le> length p"
proof (induction p arbitrary: room out rule: measure_induct_rule [of length])
  case (less p)
  from less.prems show ?case
    by (subst (asm) attrval_loop.simps)
      (auto simp: Let_def split: list.splits if_splits bind_splits dest!: less.IH [rotated] read_replace_Cons)
qed

lemma read_attrval_shorter: "xml_read_attrval code p sz = Some (Some (q, out)) \<Longrightarrow> length q \<le> length p"
  by (auto simp: xml_read_attrval_def split: option.splits bind_splits dest!: attr_quote_shorter attrval_shorter)

function parse_attribs :: "nat \<Rightarrow> byte list \<Rightarrow> ndxml \<Rightarrow> byte list option \<Rightarrow> attribs_result option" where
  "parse_attribs code paddr node err = (case paddr of
     [] \<Rightarrow> None
   | a # _ \<Rightarrow>
       if a = 0 then Some (AOpen paddr node err)
       else do {
         v \<leftarrow> ndstr_first_valid paddr;
         p \<leftarrow> v;
         e \<leftarrow> is_mark_end p;
         if e then Some (AEnd (drop 2 p) node err)
         else if hd p = 0x3E then Some (AOpen (tl p) node err)
         else do {
           (ret, name) \<leftarrow> ndstr_parse_variant_n code p (int MAX_XMLNAME_SIZE);
           if ret \<le> 0 then Some (AFail Null (Some p))
           else do {
             name \<leftarrow> name;
             if length name < MAX_XMLNAME_SIZE then do {
               let q = drop (nat ret) p;
               r \<leftarrow> ndstrchr q 0x3D;
               (case r of
                  None \<Rightarrow> Some (AFail Null (Some q))
                | Some r \<Rightarrow> do {
                    v \<leftarrow> xml_read_attrval code r 4096;
                    (case v of
                       None \<Rightarrow> Some (AFail Unset (Some r))
                     | Some (p', val) \<Rightarrow> parse_attribs code p' (add_attr (alloc_attrib_node (c_text name) (c_text val)) node) (Some r))
                  })
             }
             else None
           }
         }
       })"
  by pat_completeness auto
termination
  by (relation "measure (\<lambda>(code, p, node, err). length p)") (fastforce dest!: first_valid_shorter ndstrchr_shorter read_attrval_shorter)+

declare parse_attribs.simps [simp del]

text \<open>The end mark (\<open>READ_END\<close>).\<close>

definition parse_close :: "nat \<Rightarrow> ndxml \<Rightarrow> byte list \<Rightarrow> byte list option \<Rightarrow> parse_result option" where
  "parse_close code node p err = do {
     m \<leftarrow> is_mark_start p;
     if \<not> m then Some (None, Null, Some p)
     else do {
       v \<leftarrow> ndstr_first_valid (drop 2 p);
       q \<leftarrow> v;
       (r, end_name) \<leftarrow> ndstr_parse_word code q;
       if length end_name < MAX_XMLNAME_SIZE then do {
         c \<leftarrow> ndstricmp (name_block node) (cstr (c_text end_name));
         if c \<noteq> 0 then Some (None, Null, r)
         else do {
           r \<leftarrow> r;
           t \<leftarrow> ndstrchr r 0x3E;
           t \<leftarrow> t;
           Some (Some node, At (tl t), err)
         }
       }
       else None
     }
   }"

text \<open>The value of an element, in a block of its own.\<close>

definition parse_value :: "nat \<Rightarrow> ndxml \<Rightarrow> byte list \<Rightarrow> byte list option \<Rightarrow> parse_result option" where
  "parse_value code node p err = do {
     n \<leftarrow> xml_get_value_size code p;
     let sz = ROUND4 (n + 8);
     (q, val) \<leftarrow> xml_read_value code p;
     blk \<leftarrow> mem_write (replicate sz 0) 0 (cstr val);
     parse_close code (set_value (Some blk) sz node) q err
   }"

text \<open>An element up to its children; the children follow at \<open>HSub\<close>.\<close>

datatype head_result = HDone parse_result | HSub "byte list" ndxml "byte list option"

definition parse_body :: "nat \<Rightarrow> attribs_result \<Rightarrow> head_result option" where
  "parse_body code a = (case a of
     AFail pe err \<Rightarrow> Some (HDone (None, pe, err))
   | AEnd p node err \<Rightarrow> Some (HDone (Some node, At p, err))
   | AOpen p node err \<Rightarrow> do {
       v \<leftarrow> ndstr_first_valid p;
       p \<leftarrow> v;
       m \<leftarrow> is_mark_start p;
       if m then map_option HDone (parse_close code node p err)
       else if hd p = 0x3C then Some (HSub p node err)
       else map_option HDone (parse_value code node p err)
     })"

definition parse_head :: "nat \<Rightarrow> byte list \<Rightarrow> int \<Rightarrow> byte list option \<Rightarrow> head_result option" where
  "parse_head code xmlbuf sz err = do {
     (paddr, err) \<leftarrow> parse_marked (length xmlbuf) sz xmlbuf err;
     (case paddr of
        None \<Rightarrow> Some (HDone (None, Null, if err = None then Some xmlbuf else err))
      | Some paddr \<Rightarrow> do {
          m \<leftarrow> is_mark_start paddr;
          if m then Some (HDone (None, At paddr, None))
          else do {
            v \<leftarrow> ndstr_first_valid (tl paddr);
            (case v of
               None \<Rightarrow> Some (HDone (None, Null, err))
             | Some p \<Rightarrow>
                 if hd p = 0x3E \<or> hd p = 0x3C \<or> hd p = 0x22 \<or> hd p = 0x2F then Some (HDone (None, Null, Some p))
                 else do {
                   (ret, name) \<leftarrow> ndstr_parse_variant_n code p (int MAX_XMLNAME_SIZE);
                   if ret \<le> 0 then Some (HDone (None, Null, err))
                   else do {
                     name \<leftarrow> name;
                     if length name < MAX_XMLNAME_SIZE then do {
                       a \<leftarrow> parse_attribs code (drop (nat ret) p) (Ndxml (c_text name) None 0 0 [] 0 []) err;
                       parse_body code a
                     }
                     else None
                   }
                 })
          }
        })
   }"

text \<open>The loop over the children behind one parsed child: the loop goes on at a place of the text with the node extended, or ends with a
  result.\<close>

definition after_child :: "nat \<Rightarrow> ndxml \<Rightarrow> parse_result \<Rightarrow> head_result option" where
  "after_child code node x = (case x of (new_xml, parsed, err) \<Rightarrow>
     if new_xml = None \<and> err \<noteq> None \<and> parsed = Null then Some (HDone (None, Null, err))
     else (case parsed of
       At q \<Rightarrow> do {
         let node = (case new_xml of None \<Rightarrow> node | Some c \<Rightarrow> add_sub c node);
         v \<leftarrow> ndstr_first_valid q;
         p \<leftarrow> v;
         m \<leftarrow> is_mark_start p;
         if m then map_option HDone (parse_close code node p err) else Some (HSub p node err)
       }
     | _ \<Rightarrow> None))"

text \<open>An element, and the loop over its children. \<open>xmlbuf\<close> and \<open>sz\<close> of the loop are those of the element.\<close>

fun parse_xmlbuf :: "nat \<Rightarrow> nat \<Rightarrow> byte list \<Rightarrow> int \<Rightarrow> byte list option \<Rightarrow> parse_result option"
and parse_children :: "nat \<Rightarrow> nat \<Rightarrow> byte list \<Rightarrow> int \<Rightarrow> byte list \<Rightarrow> ndxml \<Rightarrow> byte list option \<Rightarrow> parse_result option" where
  "parse_xmlbuf 0 code xmlbuf sz err = None"
| "parse_xmlbuf (Suc fuel) code xmlbuf sz err = do {
     h \<leftarrow> parse_head code xmlbuf sz err;
     (case h of HDone r \<Rightarrow> Some r | HSub p node err \<Rightarrow> parse_children fuel code xmlbuf sz p node err)
   }"
| "parse_children 0 code xmlbuf sz p node err = None"
| "parse_children (Suc fuel) code xmlbuf sz p node err = do {
     x \<leftarrow> parse_xmlbuf fuel code p (sz - (int (length xmlbuf) - int (length p))) err;
     h \<leftarrow> after_child code node x;
     (case h of HDone r \<Rightarrow> Some r | HSub p node err \<Rightarrow> parse_children fuel code xmlbuf sz p node err)
   }"

text \<open>The length of a text in its block.\<close>

definition ndxml_from_text :: "nat \<Rightarrow> byte list \<Rightarrow> ndxml option option" where
  "ndxml_from_text code text = do {
     s \<leftarrow> c_string text;
     (r, _, _) \<leftarrow> parse_xmlbuf (length text + 2) code text (int (length s)) None;
     Some r
   }"

section \<open>The printers\<close>

definition has_value :: "ndxml \<Rightarrow> bool" where
  "has_value n \<longleftrightarrow> (case xvalue n of None \<Rightarrow> False | Some blk \<Rightarrow> c_text blk \<noteq> [])"

text \<open>The texts of attributes and values go through a buffer of 4096 bytes.\<close>

definition write_attr :: "nat \<Rightarrow> ndxml_attr \<Rightarrow> byte list option" where
  "write_attr code a =
     (if attr_value a \<noteq> [] then do {
        t \<leftarrow> out_replace_text code (cstr (attr_value a)) 4096;
        Some (lit '' '' @ attr_name a @ lit ''=\"'' @ t @ lit ''\"'')
      }
      else Some (lit '' '' @ attr_name a @ lit ''=\"\"''))"

fun write_attrs :: "nat \<Rightarrow> ndxml_attr list \<Rightarrow> byte list option" where
  "write_attrs code [] = Some []"
| "write_attrs code (a # as) = do { t \<leftarrow> write_attr code a; r \<leftarrow> write_attrs code as; Some (t @ r) }"

definition indent :: "nat \<Rightarrow> byte list" where
  "indent deep = replicate deep 9"

text \<open>\<open>xml_write\<close>: the text that goes to the file.\<close>

fun xml_write :: "nat \<Rightarrow> ndxml \<Rightarrow> nat \<Rightarrow> byte list option"
and xml_write_subs :: "nat \<Rightarrow> ndxml list \<Rightarrow> nat \<Rightarrow> byte list option" where
  "xml_write code (Ndxml nm v vs an attrs sn subs) deep = (let n = Ndxml nm v vs an attrs sn subs in do {
     name \<leftarrow> c_string (name_block n);
     at \<leftarrow> write_attrs code attrs;
     let start = indent deep @ lit ''<'' @ name @ at;
     if has_value n then do {
       t \<leftarrow> out_replace_text code (the v) 4096;
       Some (start @ lit ''>'' @ t @ lit ''</'' @ name @ lit ''>\<newline>'')
     }
     else if sn > 0 then do {
       t \<leftarrow> xml_write_subs code subs (deep + 1);
       Some (start @ lit ''>\<newline>'' @ t @ indent deep @ lit ''</'' @ name @ lit ''>\<newline>'')
     }
     else Some (start @ lit ''/>\<newline>'')
   })"
| "xml_write_subs code [] deep = Some []"
| "xml_write_subs code (n # ns) deep = do { t \<leftarrow> xml_write code n deep; r \<leftarrow> xml_write_subs code ns deep; Some (t @ r) }"

definition ndxml_output :: "nat \<Rightarrow> ndxml \<Rightarrow> byte list option" where
  "ndxml_output code node = xml_write code node 0"

text \<open>\<open>snprintf\<close> at offset \<open>p\<close> of a buffer with \<open>sz\<close> bytes said to be left: it stores what fits and returns the length of the whole text, by
  which the callers move on.\<close>

type_synonym out_buf = "byte list \<times> nat \<times> nat"

definition print_at :: "byte list \<Rightarrow> out_buf \<Rightarrow> out_buf option" where
  "print_at t b = (case b of (buf, p, sz) \<Rightarrow> do {
     buf \<leftarrow> (if sz = 0 then Some buf else mem_write buf p (take (sz - 1) t @ [0]));
     Some (buf, p + length t, size_sub sz (length t))
   })"

fun tobuf_attrs :: "nat \<Rightarrow> ndxml_attr list \<Rightarrow> out_buf \<Rightarrow> out_buf option" where
  "tobuf_attrs code [] b = Some b"
| "tobuf_attrs code (a # as) b = do { t \<leftarrow> write_attr code a; b \<leftarrow> print_at t b; tobuf_attrs code as b }"

fun xml_tobuf :: "nat \<Rightarrow> ndxml \<Rightarrow> out_buf \<Rightarrow> out_buf option"
and xml_tobuf_subs :: "nat \<Rightarrow> ndxml list \<Rightarrow> out_buf \<Rightarrow> out_buf option" where
  "xml_tobuf code (Ndxml nm v vs an attrs sn subs) b = (let n = Ndxml nm v vs an attrs sn subs in do {
     name \<leftarrow> c_string (name_block n);
     b \<leftarrow> print_at (lit ''<'' @ name) b;
     b \<leftarrow> tobuf_attrs code attrs b;
     if has_value n then do {
       t \<leftarrow> out_replace_text code (the v) 4096;
       print_at (lit ''>'' @ t @ lit ''</'' @ name @ lit ''> '') b
     }
     else if sn > 0 then do {
       b \<leftarrow> print_at (lit ''> '') b;
       b \<leftarrow> xml_tobuf_subs code subs b;
       print_at (lit ''</'' @ name @ lit ''> '') b
     }
     else print_at (lit ''/> '') b
   })"
| "xml_tobuf_subs code [] b = Some b"
| "xml_tobuf_subs code (n # ns) b = do { b \<leftarrow> xml_tobuf code n b; xml_tobuf_subs code ns b }"

text \<open>The length returned and the buffer.\<close>

definition ndxml_to_buf :: "nat \<Rightarrow> ndxml \<Rightarrow> byte list \<Rightarrow> nat \<Rightarrow> (nat \<times> byte list) option" where
  "ndxml_to_buf code root buf sz = do {
     (buf, p, _) \<leftarrow> (if xname root \<noteq> [] then xml_tobuf code root (buf, 0, sz) else xml_tobuf_subs code (lst_sub root) (buf, 0, sz));
     Some (p, buf)
   }"

section \<open>Files\<close>

text \<open>The contents of the file that \<open>ndxml_save_ex\<close> writes.\<close>

definition ndxml_save_ex :: "nat \<Rightarrow> ndxml \<Rightarrow> byte list \<Rightarrow> byte list option" where
  "ndxml_save_ex code root header = do {
     t \<leftarrow> xml_write_subs code (lst_sub root) 0;
     Some ((if header \<noteq> [] then lit ''<?xml '' @ header @ lit '' ?>\<newline>'' else []) @ t)
   }"

fun save_attrs :: "ndxml_attr list \<Rightarrow> out_buf \<Rightarrow> out_buf option" where
  "save_attrs [] b = Some b"
| "save_attrs (a # as) b = do { b \<leftarrow> print_at (lit '' '' @ attr_name a @ lit ''=\"'' @ attr_value a @ lit ''\"'') b; save_attrs as b }"

text \<open>The header from the attributes of the root; \<open>enc\<close> is the encoding of the build. The buffer has 4096 bytes.\<close>

definition ndxml_save :: "byte list \<Rightarrow> nat \<Rightarrow> ndxml \<Rightarrow> byte list option" where
  "ndxml_save enc code root = do {
     (buf, p, sz) \<leftarrow> save_attrs (lst_attr root) (replicate 4096 0, 0, 4096);
     (buf, _, _) \<leftarrow> (if hd buf = 0 then print_at (lit ''version=\"1.0\" encoding=\"'' @ enc @ lit ''\"'') (buf, p, sz) else Some (buf, p, sz));
     header \<leftarrow> c_string buf;
     ndxml_save_ex code root header
   }"

text \<open>The attributes of the file header. The arrays have 64 and 1024 bytes.\<close>

lemma parse_word_shorter: "ndstr_parse_word code p = Some (Some r, name) \<Longrightarrow> length p = length name + length r"
  by (auto simp: ndstr_parse_word_def ptr_or_null_def split: bind_splits list.splits if_splits dest!: copy_words_split)

lemma str_end_shorter: "ndstr_str_end code p e = Some (r, out) \<Longrightarrow> length p = length out + length r"
  by (auto simp: ndstr_str_end_def split: bind_splits dest!: copy_words_split)

function fileinfo_attribs :: "nat \<Rightarrow> byte list \<Rightarrow> byte list \<Rightarrow> ndxml \<Rightarrow> (int \<times> ndxml) option" where
  "fileinfo_attribs code p pEnd root =
     (if length p > length pEnd then do {
        v \<leftarrow> ndstr_first_valid p;
        p \<leftarrow> v;
        (q, name) \<leftarrow> ndstr_parse_word code p;
        if length name < MAX_XMLNAME_SIZE then
          (if name = [] then Some (0, root)
           else do {
             q \<leftarrow> q;
             r \<leftarrow> ndstrchr q 0x22;
             (case r of
                None \<Rightarrow> Some (-1, root)
              | Some r \<Rightarrow> do {
                  (r, val) \<leftarrow> ndstr_str_end code (tl r) 0x22;
                  if length val < 1024 then fileinfo_attribs code (tl r) pEnd (add_attr (alloc_attrib_node (c_text name) (c_text val)) root)
                  else None
                })
           })
        else None
      } else Some (0, root))"
  by pat_completeness auto
termination
proof (relation "measure (\<lambda>(code, p, e, root). length p)", goal_cases)
  case (2 code p pEnd root v p' x q name q' r r' y r'' val)
  then show ?case
    using first_valid_shorter [of p p'] parse_word_shorter [of code p' q' name] ndstrchr_shorter [of q' "0x22" r'] str_end_shorter [of code "tl r'" "0x22" r'' val]
    by (cases name) auto
qed simp

declare fileinfo_attribs.simps [simp del]

definition xml_parse_fileinfo :: "nat \<Rightarrow> ndxml \<Rightarrow> byte list \<Rightarrow> (int \<times> ndxml) option" where
  "xml_parse_fileinfo code root start = do {
     v \<leftarrow> ndstr_first_valid start;
     (case v of
        None \<Rightarrow> Some (-1, root)
      | Some p \<Rightarrow> do {
          p \<leftarrow> ndstrstr p (lit ''<?'');
          (case p of
             None \<Rightarrow> Some (0, root)
           | Some p \<Rightarrow> do {
               p \<leftarrow> ndstrstr p (lit ''xml'');
               (case p of
                  None \<Rightarrow> Some (0, root)
                | Some p \<Rightarrow> do {
                    let p = drop 3 p;
                    pEnd \<leftarrow> ndstrstr p (lit ''?>'');
                    (case pEnd of
                       None \<Rightarrow> Some (-1, root)
                     | Some pEnd \<Rightarrow> fileinfo_attribs code p pEnd root)
                  })
             })
        })
   }"

text \<open>One round of the loop over the elements of a file: the loop ends with a result and a root, or goes on at a place of the text.
  \<open>data_len\<close> stays the length of the whole text.\<close>

datatype load_round = LDone int ndxml | LGo "byte list" "byte list option" ndxml

definition xml_load_round :: "nat \<Rightarrow> int \<Rightarrow> byte list \<Rightarrow> byte list option \<Rightarrow> ndxml \<Rightarrow> load_round option" where
  "xml_load_round code data_len parse_addr err root = do {
     v \<leftarrow> ndstr_first_valid parse_addr;
     (case v of
        None \<Rightarrow> Some (LDone 0 root)
      | Some p \<Rightarrow> do {
          (node, pe, err) \<leftarrow> parse_xmlbuf (length p + 2) code p data_len err;
          if node = None \<and> err \<noteq> None then Some (LDone (-1) init_xml_node)
          else do {
            let root = (case node of None \<Rightarrow> root | Some c \<Rightarrow> add_sub c root);
            (case pe of
               Null \<Rightarrow> Some (LDone 0 root)
             | At [] \<Rightarrow> None
             | At (b # q) \<Rightarrow> Some (if b = 0 then LDone 0 root else LGo (b # q) err root)
             | Unset \<Rightarrow> Some (LGo p err root))
          }
        })
   }"

text \<open>\<open>k\<close> rounds, as far as the loop goes, and the loop to its end.\<close>

fun xml_load_rounds :: "nat \<Rightarrow> nat \<Rightarrow> int \<Rightarrow> load_round \<Rightarrow> load_round option" where
  "xml_load_rounds 0 code data_len l = Some l"
| "xml_load_rounds (Suc k) code data_len l = (case l of
     LDone r root \<Rightarrow> Some l
   | LGo p err root \<Rightarrow> Option.bind (xml_load_round code data_len p err root) (xml_load_rounds k code data_len))"

fun xml_load_loop :: "nat \<Rightarrow> nat \<Rightarrow> int \<Rightarrow> byte list \<Rightarrow> byte list option \<Rightarrow> ndxml \<Rightarrow> (int \<times> ndxml) option" where
  "xml_load_loop 0 code data_len parse_addr err root = None"
| "xml_load_loop (Suc fuel) code data_len parse_addr err root = do {
     l \<leftarrow> xml_load_round code data_len parse_addr err root;
     (case l of LDone r root \<Rightarrow> Some (r, root) | LGo p err root \<Rightarrow> xml_load_loop fuel code data_len p err root)
   }"

definition xml_load_from_buf :: "nat \<Rightarrow> byte list \<Rightarrow> int \<Rightarrow> ndxml \<Rightarrow> (int \<times> ndxml) option" where
  "xml_load_from_buf code buf sz root = xml_load_loop (length buf + 1) code sz buf None root"

end
