(* ===== verification/Xml_Print.thy ===== *)
theory Xml_Print
  imports Xml
begin

text \<open>
  What the printers of \<open>Xml\<close> write is parsed back to the same tree. \<open>xml_text\<close> is the text of a tree with given white space between the
  elements; both printers write such a text, and the parser reads every such text. \<open>xml_abs\<close> is what a tree means: names, values,
  attributes and children, without the sizes of its blocks.
\<close>

section \<open>Meaning and text of a tree\<close>

datatype xtree = XT "byte list" "byte list" "(byte list \<times> byte list) list" "xtree list"

definition value_text :: "ndxml \<Rightarrow> byte list" where
  "value_text n = (case xvalue n of None \<Rightarrow> [] | Some blk \<Rightarrow> c_text blk)"

fun xml_abs :: "ndxml \<Rightarrow> xtree" where
  "xml_abs (Ndxml nm v vs an as sn subs) =
     XT nm (case v of None \<Rightarrow> [] | Some blk \<Rightarrow> c_text blk) (map (\<lambda>a. (attr_name a, attr_value a)) as) (map xml_abs subs)"

text \<open>The counters of the nodes agree with their lists.\<close>

fun xml_wf :: "ndxml \<Rightarrow> bool" where
  "xml_wf (Ndxml nm v vs an as sn subs) \<longleftrightarrow> an = int (length as) \<and> sn = int (length subs) \<and> (\<forall>c \<in> set subs. xml_wf c)"

definition name_char :: "byte \<Rightarrow> bool" where
  "name_char b \<longleftrightarrow> latin_or_digit b \<or> b = 0x5F \<or> b = 0x24"

definition name_ok :: "byte list \<Rightarrow> bool" where
  "name_ok s \<longleftrightarrow> s \<noteq> [] \<and> length s < MAX_XMLNAME_SIZE \<and> (\<forall>b \<in> set s. name_char b)"

definition text_ok :: "nat \<Rightarrow> byte list \<Rightarrow> bool" where
  "text_ok code s \<longleftrightarrow> whole_chars code s \<and> length (escape code s) < 4096"

text \<open>A tree that survives printing and parsing: names of letters, digits, underscores and dollar signs; texts of whole characters
  that fit the printer's buffer; values that do not start with white space and only in leaves.\<close>

fun xml_printable :: "nat \<Rightarrow> ndxml \<Rightarrow> bool" where
  "xml_printable code (Ndxml nm v vs an as sn subs) \<longleftrightarrow> name_ok nm \<and>
     (\<forall>a \<in> set as. name_ok (attr_name a) \<and> text_ok code (attr_value a)) \<and>
     (case v of None \<Rightarrow> True | Some blk \<Rightarrow> 0 \<in> set blk \<and> text_ok code (c_text blk) \<and> (c_text blk \<noteq> [] \<longrightarrow> hd blk > 0x20 \<and> subs = [])) \<and>
     (\<forall>c \<in> set subs. xml_printable code c)"

definition attr_text :: "nat \<Rightarrow> ndxml_attr \<Rightarrow> byte list" where
  "attr_text code a = 0x20 # attr_name a @ 0x3D # 0x22 # escape code (attr_value a) @ [0x22]"

fun xml_text :: "nat \<Rightarrow> (nat \<Rightarrow> byte list) \<Rightarrow> byte list \<Rightarrow> ndxml \<Rightarrow> nat \<Rightarrow> byte list" where
  "xml_text code ind nl (Ndxml nm v vs an as sn subs) deep = 0x3C # nm @ concat (map (attr_text code) as) @
     (let val = (case v of None \<Rightarrow> [] | Some blk \<Rightarrow> c_text blk) in
      if val \<noteq> [] then 0x3E # escape code val @ 0x3C # 0x2F # nm @ [0x3E]
      else if subs \<noteq> [] then
        0x3E # nl @ concat (map (\<lambda>c. ind (deep + 1) @ xml_text code ind nl c (deep + 1) @ nl) subs) @ ind deep @ 0x3C # 0x2F # nm @ [0x3E]
      else [0x2F, 0x3E])"

section \<open>Characters and names\<close>

lemma name_charD:
  assumes "name_char b"
  shows "b \<noteq> 0" "b > 0x20" "b \<noteq> 0x3E" "b \<noteq> 0x3C" "b \<noteq> 0x22" "b \<noteq> 0x2F" "b \<noteq> 0x3D" "b \<noteq> 0x21" "b \<noteq> 0x3F" "word_len code b = 1"
  using assms unfolding name_char_def latin_or_digit_def IS_NUMERALS_def IS_BIG_LATIN_def IS_LITTLE_LATIN_def word_len_def
  by (auto simp: word_le_nat_alt word_less_nat_alt)

lemma copy_words_plain:
  assumes "\<forall>b \<in> set s. b \<noteq> 0 \<and> \<not> stop b \<and> word_len code b = 1" "stop c \<or> c = 0" "case n of None \<Rightarrow> True | Some k \<Rightarrow> int (length s) \<le> k"
  shows "copy_words code stop n (s @ c # x) = Some (s, c # x)"
  using assms
proof (induction s arbitrary: n)
  case (Cons b s)
  have "copy_words code stop (map_option (\<lambda>m. m - 1) n) (s @ c # x) = Some (s, c # x)"
    using Cons.prems by (intro Cons.IH) (auto split: option.splits)
  then show ?case using Cons.prems by (auto split: option.splits)
qed auto

definition tag_stop :: "byte \<Rightarrow> bool" where
  "tag_stop c \<longleftrightarrow> c = 0x20 \<or> c = 0x2F \<or> c = 0x3E \<or> c = 0x3D"

lemma parse_variant_name:
  assumes "name_ok s" "tag_stop c"
  shows "ndstr_parse_variant_n code (s @ c # x) (int MAX_XMLNAME_SIZE) = Some (int (length s), Some s)"
proof -
  let ?stop = "\<lambda>a. \<not> (code \<noteq> E_SRC_CODE_ANSI \<and> a > 0x80 \<or> latin_or_digit a \<or> a = 0x5F \<or> a = 0x2E \<or> a = 0x24)"
  have "?stop c" using assms(2) by (auto simp: tag_stop_def latin_or_digit_def IS_NUMERALS_def IS_BIG_LATIN_def IS_LITTLE_LATIN_def)
  moreover have *: "\<forall>b \<in> set s. b \<noteq> 0 \<and> \<not> ?stop b \<and> word_len code b = 1"
    using assms(1) name_charD by (auto simp: name_ok_def name_char_def)
  ultimately have "copy_words code ?stop (Some (int MAX_XMLNAME_SIZE)) (s @ c # x) = Some (s, c # x)"
    using assms(1) by (intro copy_words_plain) (auto simp: name_ok_def)
  moreover obtain b t where "s = b # t" "\<not> ?stop b" using assms(1) * by (cases s) (auto simp: name_ok_def)
  ultimately show ?thesis by (simp add: ndstr_parse_variant_n_def Let_def)
qed

lemma parse_word_name:
  assumes "name_ok s" "tag_stop c"
  shows "ndstr_parse_word code (s @ c # x) = Some (Some (c # x), s)"
proof -
  let ?stop = "\<lambda>a. \<not> (latin_or_digit a \<or> a = 0x5F \<or> a = 0x24 \<or> a = 0x40 \<or> code \<noteq> E_SRC_CODE_ANSI \<and> a > 0x80)"
  have "?stop c" "c \<noteq> 0" using assms(2) by (auto simp: tag_stop_def latin_or_digit_def IS_NUMERALS_def IS_BIG_LATIN_def IS_LITTLE_LATIN_def)
  moreover have "\<forall>b \<in> set s. b \<noteq> 0 \<and> \<not> ?stop b \<and> word_len code b = 1"
    using assms(1) name_charD by (auto simp: name_ok_def name_char_def)
  ultimately have "copy_words code ?stop None (s @ c # x) = Some (s, c # x)" by (intro copy_words_plain) auto
  then show ?thesis using \<open>c \<noteq> 0\<close> by (simp add: ndstr_parse_word_def ptr_or_null_def)
qed

lemma name_okD: "name_ok s \<Longrightarrow> 0 \<notin> set s \<and> s \<noteq> [] \<and> length s < 64"
  using name_charD(1) by (auto simp: name_ok_def)

lemma c_text_id: "0 \<notin> set s \<Longrightarrow> c_text s = s"
  by (auto simp: c_text_def takeWhile_eq_all_conv)

lemma c_text_append: "0 \<notin> set s \<Longrightarrow> c_text (s @ 0 # x) = s"
  unfolding c_text_def by (subst takeWhile_append2) auto

lemma c_text_nonzero: "0 \<notin> set (c_text s)"
  by (auto simp: c_text_def dest: set_takeWhileD)

lemma hd_c_text: "c_text s \<noteq> [] \<Longrightarrow> hd (c_text s) = hd s"
  by (cases s) (auto simp: c_text_def split: if_splits)

lemma white_skip: "\<forall>b \<in> set w. b \<noteq> 0 \<and> b \<le> 0x20 \<Longrightarrow> ndstr_first_valid (w @ p) = ndstr_first_valid p"
  by (induction w) auto

lemma first_valid_here: "b > 0x20 \<Longrightarrow> ndstr_first_valid (b # p) = Some (Some (b # p))"
  by auto

lemma escape_longer: "whole_chars code s \<Longrightarrow> 0 \<notin> set s \<Longrightarrow> length s \<le> length (escape code s)"
proof (induction rule: whole_induct)
  case (Entity b e s)
  then show ?case by (auto simp: entity_text_def lit_def split: if_splits)
qed auto

section \<open>Attributes\<close>

lemma ROUND4_more: "n < ROUND4 (n + 4)" "ROUND4 (n + 4) \<le> n + 4"
  unfolding ROUND4_def by presburger+

lemma alloc_attrib_sel:
  assumes "0 \<notin> set name" "0 \<notin> set value" "length name < 65532"
  shows "attr_name (alloc_attrib_node name value) = name" "attr_value (alloc_attrib_node name value) = value"
proof -
  let ?l = "ROUND4 (length name + 4)" and ?v = "ROUND4 (length value + 4)"
  have l: "length name < ?l" "?l < 2 ^ 16" "length value < ?v" using ROUND4_more [of "length name"] ROUND4_more [of "length value"] assms(3) by auto
  have r: "replicate (?l - length name) 0 = 0 # replicate (?l - length name - 1) (0 :: byte)"
    "replicate (?v - length value) 0 = 0 # replicate (?v - length value - 1) (0 :: byte)"
    using l by (simp_all flip: replicate_Suc)
  show "attr_name (alloc_attrib_node name value) = name"
    by (simp add: attr_name_def alloc_attrib_node_def Let_def r(1) c_text_append assms(1))
  have "unat (of_nat ?l :: u16) = ?l" using l by (intro unat_of_nat_eq) simp
  then have "drop (unat (name_size (alloc_attrib_node name value))) (attr_block (alloc_attrib_node name value)) = value @ replicate (?v - length value) 0"
    using l by (simp add: alloc_attrib_node_def Let_def)
  then show "attr_value (alloc_attrib_node name value) = value" by (simp add: attr_value_def r(2) c_text_append assms(2))
qed

definition with_attrs :: "ndxml_attr list \<Rightarrow> ndxml \<Rightarrow> ndxml" where
  "with_attrs as n = fold (\<lambda>a. add_attr (alloc_attrib_node (attr_name a) (attr_value a))) as n"

lemma parse_attribs_text:
  assumes "\<forall>a \<in> set as. name_ok (attr_name a) \<and> text_ok code (attr_value a)"
  shows "\<exists>err'. parse_attribs code (concat (map (attr_text code) as) @ 0x2F # 0x3E # r) node err = Some (AEnd r (with_attrs as node) err')"
    and "\<exists>err'. parse_attribs code (concat (map (attr_text code) as) @ 0x3E # r) node err = Some (AOpen r (with_attrs as node) err')"
proof -
  have step: "\<exists>err'. parse_attribs code (attr_text code a @ p) node err =
      parse_attribs code p (add_attr (alloc_attrib_node (attr_name a) (attr_value a)) node) err'"
    if a: "name_ok (attr_name a)" "text_ok code (attr_value a)" for a p node err
  proof -
    let ?n = "attr_name a" and ?v = "attr_value a"
    let ?q = "0x3D # 0x22 # escape code ?v @ 0x22 # p"
    obtain b t where b: "?n = b # t" "name_char b" using a(1) by (cases ?n) (auto simp: name_ok_def)
    have z: "0 \<notin> set ?v" by (simp add: attr_value_def c_text_nonzero)
    have v: "attrval_loop code (escape code ?v @ 0x22 # p) 4096 = Some (p, ?v)"
      using a(2) z escape_longer [of code ?v] by (intro read_attrval_escape) (auto simp: text_ok_def)
    have e: "is_mark_end (b # t @ ?q) = Some False" using name_charD(6) [OF b(2)] by (simp add: is_mark_end_def)
    have "ndstr_parse_variant_n code (b # t @ ?q) 64 = Some (int (length ?n), Some ?n)"
      using parse_variant_name [OF a(1), of "0x3D" code "tl ?q"] b(1) by (simp add: tag_stop_def)
    moreover have "nat (1 + int (length t)) = Suc (length t)" by simp
    ultimately show ?thesis
      using e v z name_okD [OF a(1)] name_charD [OF b(2)]
      by (subst parse_attribs.simps) (auto simp: attr_text_def b(1) xml_read_attrval_def c_text_id Let_def)
  qed
  show "\<exists>err'. parse_attribs code (concat (map (attr_text code) as) @ 0x2F # 0x3E # r) node err = Some (AEnd r (with_attrs as node) err')"
    using assms
  proof (induction as arbitrary: node err)
    case Nil
    then show ?case by (subst parse_attribs.simps) (simp add: is_mark_end_def with_attrs_def)
  next
    case (Cons a as)
    then show ?case using step [of a "concat (map (attr_text code) as) @ 0x2F # 0x3E # r" node err] by (auto simp: with_attrs_def)
  qed
  show "\<exists>err'. parse_attribs code (concat (map (attr_text code) as) @ 0x3E # r) node err = Some (AOpen r (with_attrs as node) err')"
    using assms
  proof (induction as arbitrary: node err)
    case Nil
    then show ?case by (subst parse_attribs.simps) (simp add: is_mark_end_def with_attrs_def)
  next
    case (Cons a as)
    then show ?case using step [of a "concat (map (attr_text code) as) @ 0x3E # r" node err] by (auto simp: with_attrs_def)
  qed
qed

lemma with_attrs_sel:
  "xname (with_attrs as n) = xname n" "xvalue (with_attrs as n) = xvalue n" "attr_num (with_attrs as n) = attr_num n + int (length as)"
  "lst_attr (with_attrs as n) = lst_attr n @ map (\<lambda>a. alloc_attrib_node (attr_name a) (attr_value a)) as"
  "sub_num (with_attrs as n) = sub_num n" "lst_sub (with_attrs as n) = lst_sub n" "val_size (with_attrs as n) = val_size n"
  unfolding with_attrs_def by (induction as arbitrary: n) (auto simp: add_attr_def)

section \<open>Elements\<close>

lemma parse_marked_at:
  assumes "\<forall>b \<in> set w. b \<noteq> 0 \<and> b \<le> 0x20" "b \<noteq> 0x3F" "b \<noteq> 0x21" "int L - int (length (0x3C # b # p)) < sz"
  shows "parse_marked L sz (w @ 0x3C # b # p) err = Some (Some (0x3C # b # p), None)"
  using assms white_skip [OF assms(1), of "0x3C # b # p"] by (subst parse_marked.simps) simp

lemma parse_marked_here:
  assumes "\<forall>b \<in> set w. b \<noteq> 0 \<and> b \<le> 0x20" "b \<noteq> 0x3F" "b \<noteq> 0x21" "int (length w) < sz"
  shows "parse_marked (length (w @ 0x3C # b # p)) sz (w @ 0x3C # b # p) err = Some (Some (0x3C # b # p), None)"
  using parse_marked_at [OF assms(1,2,3)] assms(4) by simp

lemma parse_close_name:
  assumes "name_ok nm" "xname node = nm"
  shows "parse_close code node (0x3C # 0x2F # nm @ 0x3E # rest) err = Some (Some node, At rest, err)"
proof -
  obtain b t where b: "nm = b # t" "name_char b" using assms(1) by (cases nm) (auto simp: name_ok_def)
  have fv: "ndstr_first_valid (nm @ 0x3E # rest) = Some (Some (nm @ 0x3E # rest))"
    using first_valid_here [OF name_charD(2) [OF b(2)]] by (simp add: b(1) del: ndstr_first_valid.simps)
  have nz: "0 \<notin> set nm" "length nm < 64" using name_okD [OF assms(1)] by auto
  obtain r where "ndstricmp (cstr nm @ []) (cstr nm @ []) = Some r" "r = 0" using ndstricmp_correct [OF nz(1) nz(1), of "[]" "[]"] by blast
  then show ?thesis using fv nz assms(2) parse_word_name [OF assms(1), of "0x3E" code rest]
    by (simp add: parse_close_def is_mark_start_def name_block_def c_text_id tag_stop_def)
qed

lemma parse_head_name:
  assumes "\<forall>b \<in> set w. b \<noteq> 0 \<and> b \<le> 0x20" "name_ok nm" "tag_stop c" "int (length w) < sz"
  shows "parse_head code (w @ 0x3C # nm @ c # p) sz err = do { a \<leftarrow> parse_attribs code (c # p) (Ndxml nm None 0 0 [] 0 []) None; parse_body code a }"
proof -
  obtain b t where b: "nm = b # t" "name_char b" using assms(2) by (cases nm) (auto simp: name_ok_def)
  note nc = name_charD [OF b(2)]
  have "parse_marked (length (w @ 0x3C # nm @ c # p)) sz (w @ 0x3C # nm @ c # p) err = Some (Some (0x3C # nm @ c # p), None)"
    using parse_marked_here [OF assms(1) nc(9,8) assms(4), of "t @ c # p" err] by (simp add: b(1))
  moreover have "ndstr_first_valid (nm @ c # p) = Some (Some (nm @ c # p))"
    using first_valid_here [OF nc(2)] by (simp add: b(1) del: ndstr_first_valid.simps)
  moreover have "is_mark_start (0x3C # nm @ c # p) = Some False" using nc(6) by (simp add: is_mark_start_def b(1))
  moreover have "\<not> (hd (nm @ c # p) = 0x3E \<or> hd (nm @ c # p) = 0x3C \<or> hd (nm @ c # p) = 0x22 \<or> hd (nm @ c # p) = 0x2F)" using nc by (simp add: b(1))
  moreover have "int (length nm) > 0" "length nm < 64" "c_text nm = nm" using name_okD [OF assms(2)] by (auto simp: c_text_id)
  ultimately show ?thesis using parse_variant_name [OF assms(2,3), of code p] by (simp add: parse_head_def)
qed

lemma parse_value_text:
  assumes "text_ok code val" "0 \<notin> set val" "name_ok nm" "xname node = nm"
  shows "\<exists>blk k. parse_value code node (escape code val @ 0x3C # 0x2F # nm @ 0x3E # rest) err = Some (Some (set_value (Some blk) k node), At rest, err) \<and> c_text blk = val"
proof -
  let ?k = "ROUND4 (length val + 8)"
  have k: "length val + 1 \<le> ?k" unfolding ROUND4_def by presburger
  obtain blk where blk: "mem_write (replicate ?k 0) 0 (cstr val) = Some blk" "c_text blk = val"
    using k assms(2) by (auto simp: mem_write_def c_text_append)
  have "parse_value code node (escape code val @ 0x3C # 0x2F # nm @ 0x3E # rest) err =
      parse_close code (set_value (Some blk) ?k node) (0x3C # 0x2F # nm @ 0x3E # rest) err"
    using read_value_escape [of code val "nm @ 0x3E # rest"] assms(1,2) blk(1) by (simp add: parse_value_def text_ok_def Let_def)
  then show ?thesis using parse_close_name [OF assms(3), of "set_value (Some blk) ?k node" code rest err] assms(4) blk(2) by (auto simp: set_value_def)
qed

lemma escape_head:
  assumes "whole_chars code val" "0 \<notin> set val" "val \<noteq> []" "hd val > 0x20"
  obtains b r where "escape code val = b # r" "b > 0x20" "b \<noteq> 0x3C"
proof -
  obtain a s where val: "val = a # s" using assms(3) by (cases val) auto
  show thesis
  proof (cases "entity_text a")
    case None
    obtain k where k: "word_len code a = Suc k" using word_len_pos [of code a] by (cases "word_len code a") auto
    then have "escape code val = a # take k s @ escape code (drop k s)" using None by (simp add: val escape.simps(2))
    then show ?thesis using None assms(4) that by (simp add: val no_entity)
  next
    case (Some e)
    then obtain r where "e = 0x26 # r" using read_entity(3,4) [OF Some] by (cases e) auto
    then show ?thesis using Some that by (simp add: val)
  qed
qed

definition white :: "byte list \<Rightarrow> bool" where
  "white w \<longleftrightarrow> (\<forall>b \<in> set w. b \<noteq> 0 \<and> b \<le> 0x20)"

lemma xml_text_start: "\<exists>r. xml_text code ind nl n deep = 0x3C # r \<and> r \<noteq> []"
  by (cases n) (auto simp: Let_def)

lemma text_not_mark: "xml_printable code n \<Longrightarrow> \<exists>b r. xml_text code ind nl n deep = 0x3C # b # r \<and> name_char b"
  by (cases n) (auto simp: name_ok_def neq_Nil_conv)

text \<open>The loop over the children, given that each child is parsed.\<close>

lemma parse_children_text:
  assumes "\<And>c fuel w rest sz err. c \<in> set cs \<Longrightarrow> white w \<Longrightarrow> int (length (w @ xml_text code ind nl c deep)) \<le> sz \<Longrightarrow>
      length (xml_text code ind nl c deep) \<le> fuel \<Longrightarrow>
      \<exists>n' err'. parse_xmlbuf fuel code (w @ xml_text code ind nl c deep @ rest) sz err = Some (Some n', At rest, err') \<and> xml_abs n' = xml_abs c \<and> xml_wf n'"
    and "\<forall>c \<in> set cs. xml_printable code c" "cs \<noteq> []" "name_ok nm" "xname node = nm" "white nl" "\<And>d. white (ind d)"
    and "tl_text = concat (map (\<lambda>c. ind deep @ xml_text code ind nl c deep @ nl) (tl cs)) @ ind d0 @ 0x3C # 0x2F # nm @ 0x3E # rest"
    and "int (length X) - int (length rest) \<le> sz" "length (xml_text code ind nl (hd cs) deep @ nl @ tl_text) - length rest < fuel"
  shows "\<exists>ns err'. parse_children fuel code X sz (xml_text code ind nl (hd cs) deep @ nl @ tl_text) node err =
    Some (Some (fold add_sub ns node), At rest, err') \<and> map xml_abs ns = map xml_abs cs \<and> (\<forall>n \<in> set ns. xml_wf n)"
  using assms
proof (induction cs arbitrary: node err fuel tl_text)
  case (Cons c cs)
  obtain k where k: "fuel = Suc k" using Cons.prems(10) by (cases fuel) auto
  let ?t = "xml_text code ind nl c deep" and ?p = "xml_text code ind nl c deep @ nl @ tl_text"
  have lt: "length rest \<le> length tl_text" using Cons.prems(8) by simp
  have lk: "length ?t \<le> k" using Cons.prems(10) lt k by simp
  obtain n' err' where n': "parse_xmlbuf k code ?p (sz - (int (length X) - int (length ?p))) err = Some (Some n', At (nl @ tl_text), err')"
      "xml_abs n' = xml_abs c" "xml_wf n'"
    using Cons.prems(1) [of c "[]" "sz - (int (length X) - int (length ?p))" k "nl @ tl_text" err] Cons.prems(9) lt lk by (auto simp: white_def)
  show ?case
  proof (cases cs)
    case Nil
    let ?close = "0x3C # 0x2F # nm @ 0x3E # rest"
    have "white (nl @ ind d0)" using Cons.prems(6,7) by (auto simp: white_def)
    then have "ndstr_first_valid (nl @ tl_text) = Some (Some ?close)"
      using white_skip [of "nl @ ind d0" ?close] Cons.prems(8) Nil by (simp add: white_def)
    moreover have "parse_close code (add_sub n' node) ?close err' = Some (Some (add_sub n' node), At rest, err')"
      using Cons.prems(5) by (intro parse_close_name [OF Cons.prems(4)]) (simp add: add_sub_def)
    ultimately have "after_child code node (Some n', At (nl @ tl_text), err') = Some (HDone (Some (add_sub n' node), At rest, err'))"
      by (simp add: after_child_def is_mark_start_def)
    then show ?thesis using n' k Nil by (intro exI [of _ "[n']"] exI [of _ err']) simp
  next
    case (Cons d ds)
    let ?tl = "concat (map (\<lambda>c. ind deep @ xml_text code ind nl c deep @ nl) ds) @ ind d0 @ 0x3C # 0x2F # nm @ 0x3E # rest"
    let ?q = "xml_text code ind nl d deep @ nl @ ?tl"
    have tt: "tl_text = ind deep @ ?q" using Cons.prems(8) Cons by simp
    obtain b r where br: "xml_text code ind nl d deep = 0x3C # b # r" "name_char b" using text_not_mark Cons.prems(2) Cons by fastforce
    have "white (nl @ ind deep)" using Cons.prems(6,7) by (auto simp: white_def)
    then have "ndstr_first_valid (nl @ tl_text) = Some (Some ?q)"
      using white_skip [of "nl @ ind deep" ?q] br(1) by (simp add: tt white_def)
    moreover have "is_mark_start ?q = Some False" using br name_charD(6) [OF br(2)] by (simp add: is_mark_start_def)
    ultimately have ac: "after_child code node (Some n', At (nl @ tl_text), err') = Some (HSub ?q (add_sub n' node) err')"
      by (simp add: after_child_def)
    have "\<exists>ns err''. parse_children k code X sz (xml_text code ind nl (hd cs) deep @ nl @ ?tl) (add_sub n' node) err' =
        Some (Some (fold add_sub ns (add_sub n' node)), At rest, err'') \<and> map xml_abs ns = map xml_abs cs \<and> (\<forall>n \<in> set ns. xml_wf n)"
    proof (rule Cons.IH)
      show "xname (add_sub n' node) = nm" using Cons.prems(5) by (simp add: add_sub_def)
      show "length (xml_text code ind nl (hd cs) deep @ nl @ ?tl) - length rest < k"
        using Cons.prems(10) k br(1) xml_text_start [of code ind nl c deep] lt by (auto simp: tt Cons)
    qed (use Cons.prems Cons in auto)
    then obtain ns err'' where ns: "parse_children k code X sz (xml_text code ind nl (hd cs) deep @ nl @ ?tl) (add_sub n' node) err' =
        Some (Some (fold add_sub ns (add_sub n' node)), At rest, err'')" "map xml_abs ns = map xml_abs cs" "\<forall>n \<in> set ns. xml_wf n"
      by (elim exE conjE) (rule that)
    have "hd cs = d" using Cons by simp
    note ns = ns [unfolded this]
    then show ?thesis using n' ac k by (intro exI [of _ "n' # ns"] exI [of _ err'']) simp
  qed
qed simp

lemma fold_add_sub:
  "xname (fold add_sub ns n) = xname n" "xvalue (fold add_sub ns n) = xvalue n" "attr_num (fold add_sub ns n) = attr_num n"
  "lst_attr (fold add_sub ns n) = lst_attr n" "sub_num (fold add_sub ns n) = sub_num n + int (length ns)" "lst_sub (fold add_sub ns n) = lst_sub n @ ns"
  by (induction ns arbitrary: n) (auto simp: add_sub_def)

lemma xml_abs_sel: "xml_abs n = XT (xname n) (value_text n) (map (\<lambda>a. (attr_name a, attr_value a)) (lst_attr n)) (map xml_abs (lst_sub n))"
  by (cases n) (simp add: value_text_def)

lemma xml_wf_sel: "xml_wf n \<longleftrightarrow> attr_num n = int (length (lst_attr n)) \<and> sub_num n = int (length (lst_sub n)) \<and> (\<forall>c \<in> set (lst_sub n). xml_wf c)"
  by (cases n) simp

lemma attrs_abs:
  assumes "\<forall>a \<in> set as. name_ok (attr_name a)"
  shows "map (\<lambda>a. (attr_name a, attr_value a)) (map (\<lambda>a. alloc_attrib_node (attr_name a) (attr_value a)) as) = map (\<lambda>a. (attr_name a, attr_value a)) as"
proof -
  have "attr_name (alloc_attrib_node (attr_name a) (attr_value a)) = attr_name a \<and> attr_value (alloc_attrib_node (attr_name a) (attr_value a)) = attr_value a"
    if "a \<in> set as" for a
    using alloc_attrib_sel [of "attr_name a" "attr_value a"] name_okD [of "attr_name a"] assms that c_text_nonzero by (auto simp: attr_value_def)
  then show ?thesis by simp
qed

text \<open>Every such text is parsed to a tree with the same meaning.\<close>

lemma parse_xml_text:
  assumes "xml_printable code n" "white w" "white nl" "\<And>d. white (ind d)" "int (length (w @ xml_text code ind nl n deep)) \<le> sz"
    "length (xml_text code ind nl n deep) \<le> fuel"
  shows "\<exists>n' err'. parse_xmlbuf fuel code (w @ xml_text code ind nl n deep @ rest) sz err = Some (Some n', At rest, err') \<and>
    xml_abs n' = xml_abs n \<and> xml_wf n'"
  using assms
proof (induction n arbitrary: w deep sz fuel rest err)
  case (Ndxml nm v vs an as sn subs)
  let ?as = "concat (map (attr_text code) as)" and ?X = "w @ xml_text code ind nl (Ndxml nm v vs an as sn subs) deep @ rest"
  let ?n0 = "Ndxml nm None 0 0 [] 0 []"
  have nm: "name_ok nm" and ats: "\<forall>a \<in> set as. name_ok (attr_name a) \<and> text_ok code (attr_value a)" using Ndxml.prems(1) by auto
  have pos: "int (length w) < sz" using Ndxml.prems(5) by (simp add: Let_def)
  obtain k where k: "fuel = Suc k" using Ndxml.prems(6) by (cases fuel) (auto simp: Let_def)
  have w: "\<forall>b \<in> set w. b \<noteq> 0 \<and> b \<le> 0x20" using Ndxml.prems(2) by (simp add: white_def)
  have stop: "\<exists>c q. ?as @ c0 # p = c # q \<and> tag_stop c" if "tag_stop c0" for c0 p using that by (cases as) (auto simp: attr_text_def tag_stop_def)
  have head: "parse_head code (w @ 0x3C # nm @ ?as @ c0 # p) sz err = do { a \<leftarrow> parse_attribs code (?as @ c0 # p) ?n0 None; parse_body code a }" if "tag_stop c0" for c0 p
    using stop [OF that, of p] parse_head_name [OF w nm _ pos] by auto
  define n1 where "n1 = with_attrs as ?n0"
  have n1: "xname n1 = nm" "value_text n1 = []" "lst_sub n1 = []" "sub_num n1 = 0" "attr_num n1 = int (length (lst_attr n1))"
      "map (\<lambda>a. (attr_name a, attr_value a)) (lst_attr n1) = map (\<lambda>a. (attr_name a, attr_value a)) as"
    using attrs_abs [of as] ats by (auto simp: n1_def with_attrs_sel value_text_def simp del: map_map)
  define val where "val = (case v of None \<Rightarrow> [] | Some blk \<Rightarrow> c_text blk)"
  consider (leaf) "val \<noteq> []" | (inner) "val = []" "subs \<noteq> []" | (empty) "val = []" "subs = []" by blast
  then show ?case
  proof cases
    case empty
    then have X: "?X = w @ 0x3C # nm @ ?as @ 0x2F # 0x3E # rest" by (simp add: val_def Let_def)
    obtain err' where "parse_attribs code (?as @ 0x2F # 0x3E # rest) ?n0 None = Some (AEnd rest n1 err')"
      using parse_attribs_text(1) [OF ats] unfolding n1_def by blast
    then have "parse_head code ?X sz err = Some (HDone (Some n1, At rest, err'))"
      unfolding X using head [of "0x2F"] by (simp add: tag_stop_def parse_body_def)
    moreover have "xml_abs n1 = xml_abs (Ndxml nm v vs an as sn subs) \<and> xml_wf n1"
      using n1 empty by (simp add: xml_abs_sel [of n1] xml_wf_sel [of n1] val_def)
    ultimately show ?thesis by (simp add: k)
  next
    case leaf
    have sub: "subs = []" and t: "text_ok code val" "hd val > 0x20" "0 \<notin> set val"
      using Ndxml.prems(1) leaf c_text_nonzero by (auto simp: val_def hd_c_text split: option.splits)
    let ?p = "escape code val @ 0x3C # 0x2F # nm @ 0x3E # rest"
    have X: "?X = w @ 0x3C # nm @ ?as @ 0x3E # ?p" using leaf by (simp add: val_def Let_def)
    obtain err' where a: "parse_attribs code (?as @ 0x3E # ?p) ?n0 None = Some (AOpen ?p n1 err')"
      using parse_attribs_text(2) [OF ats] unfolding n1_def by blast
    obtain b r where br: "escape code val = b # r" "b > 0x20" "b \<noteq> 0x3C" using escape_head t leaf unfolding text_ok_def by metis
    obtain blk kk where pv: "parse_value code n1 ?p err' = Some (Some (set_value (Some blk) kk n1), At rest, err')" "c_text blk = val"
      using parse_value_text [OF t(1,3) nm n1(1)] by blast
    have "parse_body code (AOpen ?p n1 err') = Some (HDone (Some (set_value (Some blk) kk n1), At rest, err'))"
      using br pv(1) first_valid_here [OF br(2)] by (simp add: parse_body_def is_mark_start_def del: ndstr_first_valid.simps)
    then have "parse_head code ?X sz err = Some (HDone (Some (set_value (Some blk) kk n1), At rest, err'))"
      unfolding X using head [of "0x3E"] a by (simp add: tag_stop_def)
    moreover have "xml_abs (set_value (Some blk) kk n1) = xml_abs (Ndxml nm v vs an as sn subs) \<and> xml_wf (set_value (Some blk) kk n1)"
      using n1 sub pv(2) by (simp add: set_value_def val_def)
    ultimately show ?thesis by (simp add: k)
  next
    case inner
    let ?ct = "\<lambda>c. xml_text code ind nl c (deep + 1)"
    let ?tl = "concat (map (\<lambda>c. ind (deep + 1) @ ?ct c @ nl) (tl subs)) @ ind deep @ 0x3C # 0x2F # nm @ 0x3E # rest"
    let ?q = "?ct (hd subs) @ nl @ ?tl"
    let ?p = "nl @ ind (deep + 1) @ ?q"
    have X: "?X = w @ 0x3C # nm @ ?as @ 0x3E # ?p" using inner by (cases subs) (simp_all add: val_def Let_def)
    obtain err' where a: "parse_attribs code (?as @ 0x3E # ?p) ?n0 None = Some (AOpen ?p n1 err')"
      using parse_attribs_text(2) [OF ats] unfolding n1_def by blast
    have pr: "\<forall>c \<in> set subs. xml_printable code c" using Ndxml.prems(1) by simp
    obtain b r where br: "?ct (hd subs) = 0x3C # b # r" "name_char b" using text_not_mark pr inner(2) by (meson hd_in_set)
    have "white (nl @ ind (deep + 1))" using Ndxml.prems(3,4) by (auto simp: white_def)
    then have fv: "ndstr_first_valid ?p = Some (Some ?q)" using white_skip [of "nl @ ind (deep + 1)" ?q] br(1) by (simp add: white_def)
    have "is_mark_start ?q = Some False" using br name_charD(6) [OF br(2)] by (simp add: is_mark_start_def)
    then have "parse_body code (AOpen ?p n1 err') = Some (HSub ?q n1 err')" using fv br(1) by (simp add: parse_body_def)
    then have h: "parse_head code ?X sz err = Some (HSub ?q n1 err')"
      unfolding X using head [of "0x3E"] a by (simp add: tag_stop_def)
    have "\<exists>ns err''. parse_children k code ?X sz ?q n1 err' = Some (Some (fold add_sub ns n1), At rest, err'') \<and> map xml_abs ns = map xml_abs subs \<and> (\<forall>n \<in> set ns. xml_wf n)"
    proof (rule parse_children_text)
      show "\<exists>n' err'. parse_xmlbuf fuel code (w @ ?ct c @ rest) sz err = Some (Some n', At rest, err') \<and> xml_abs n' = xml_abs c \<and> xml_wf n'"
        if "c \<in> set subs" "white w" "int (length (w @ ?ct c)) \<le> sz" "length (?ct c) \<le> fuel" for c fuel w rest sz err
        using Ndxml.IH [OF that(1)] pr that Ndxml.prems(3,4) by blast
      show "int (length ?X) - int (length rest) \<le> sz" using Ndxml.prems(5) by simp
      have "length ?X = length w + length (xml_text code ind nl (Ndxml nm v vs an as sn subs) deep) + length rest" by simp
      then have "length (?q) + length nm + 2 \<le> length (xml_text code ind nl (Ndxml nm v vs an as sn subs) deep) + length rest" unfolding X by simp
      then show "length ?q - length rest < k" using Ndxml.prems(6) k name_okD [OF nm] by simp
    qed (use pr inner nm n1(1) Ndxml.prems in auto)
    then obtain ns err'' where ns: "parse_children k code ?X sz ?q n1 err' = Some (Some (fold add_sub ns n1), At rest, err'')"
      "map xml_abs ns = map xml_abs subs" "\<forall>n \<in> set ns. xml_wf n" by (elim exE conjE) (rule that)
    have "xml_abs (fold add_sub ns n1) = xml_abs (Ndxml nm v vs an as sn subs) \<and> xml_wf (fold add_sub ns n1)"
      using n1 ns(2,3) inner(1) by (simp add: xml_abs_sel [of "fold add_sub ns n1"] xml_wf_sel [of "fold add_sub ns n1"] fold_add_sub value_text_def val_def)
    then show ?thesis using h ns(1) by (simp add: k)
  qed
qed

section \<open>The printers\<close>

lemma write_attrs_text:
  "\<forall>a \<in> set as. name_ok (attr_name a) \<and> text_ok code (attr_value a) \<Longrightarrow> write_attrs code as = Some (concat (map (attr_text code) as)) \<and>
    (\<forall>a \<in> set as. write_attr code a = Some (attr_text code a))"
proof (induction as)
  case (Cons a as)
  have "out_replace_text code (attr_value a @ 0 # []) 4096 = Some (escape code (attr_value a))"
    using Cons.prems c_text_nonzero by (intro out_replace_text_escape) (auto simp: text_ok_def attr_value_def)
  then have "write_attr code a = Some (attr_text code a)" by (auto simp: write_attr_def attr_text_def lit_def)
  then show ?case using Cons by simp
qed simp

lemma c_string_name: "name_ok nm \<Longrightarrow> xname n = nm \<Longrightarrow> c_string (name_block n) = Some nm"
  using name_okD [of nm] by (simp add: c_string_def name_block_def c_text_append)

lemma out_replace_value:
  assumes "0 \<in> set blk" "text_ok code (c_text blk)"
  shows "out_replace_text code blk 4096 = Some (escape code (c_text blk))"
proof -
  obtain x where "blk = c_text blk @ 0 # x"
    using assms(1) unfolding c_text_def by (metis (mono_tags, lifting) dropWhile_eq_Cons_conv hd_dropWhile list.collapse takeWhile_dropWhile_id dropWhile_eq_Nil_conv)
  then show ?thesis using out_replace_text_escape [of code "c_text blk" 4096 x] assms(2) c_text_nonzero by (simp add: text_ok_def)
qed

lemma has_value_iff: "has_value (Ndxml nm v vs an as sn subs) \<longleftrightarrow> (case v of None \<Rightarrow> [] | Some blk \<Rightarrow> c_text blk) \<noteq> []"
  by (auto simp: has_value_def split: option.splits)

lemma xml_write_text:
  "xml_printable code n \<Longrightarrow> xml_wf n \<Longrightarrow> xml_write code n deep = Some (indent deep @ xml_text code indent [10] n deep @ [10])"
  "\<forall>c \<in> set cs. xml_printable code c \<and> xml_wf c \<Longrightarrow>
    xml_write_subs code cs deep = Some (concat (map (\<lambda>c. indent deep @ xml_text code indent [10] c deep @ [10]) cs))"
proof (induction code n deep and code cs deep rule: xml_write_xml_write_subs.induct)
  case (1 code nm v vs an attrs sn subs deep)
  have nm: "c_string (name_block (Ndxml nm v vs an attrs sn subs)) = Some nm" using "1.prems"(1) by (intro c_string_name) auto
  have at: "write_attrs code attrs = Some (concat (map (attr_text code) attrs))" using write_attrs_text [of attrs code] "1.prems"(1) by simp
  have v: "out_replace_text code (the v) 4096 = Some (escape code (case v of None \<Rightarrow> [] | Some blk \<Rightarrow> c_text blk))"
    if "has_value (Ndxml nm v vs an attrs sn subs)" using that "1.prems"(1) out_replace_value by (auto simp: has_value_def split: option.splits)
  have sub: "xml_write_subs code subs (deep + 1) = Some (concat (map (\<lambda>c. indent (deep + 1) @ xml_text code indent [10] c (deep + 1) @ [10]) subs))"
    if "\<not> has_value (Ndxml nm v vs an attrs sn subs)" "sn > 0" using "1.IH" [OF refl nm at refl that] "1.prems" by simp
  show ?case using nm at v sub "1.prems"(2) by (auto simp: Let_def has_value_iff lit_def)
qed simp_all

text \<open>\<open>b'\<close> is \<open>b\<close> with a text appended.\<close>

definition printed :: "out_buf \<Rightarrow> byte list \<Rightarrow> out_buf \<Rightarrow> bool" where
  "printed b t b' \<longleftrightarrow> (case (b, b') of ((buf, p, sz), (buf', p', sz')) \<Rightarrow>
     p' = p + length t \<and> sz' = sz - length t \<and> length buf' = length buf \<and> take p' buf' = take p buf @ t)"

definition ended :: "out_buf \<Rightarrow> bool" where
  "ended b \<longleftrightarrow> (case b of (buf, p, sz) \<Rightarrow> p < length buf \<and> buf ! p = 0)"

definition fits :: "out_buf \<Rightarrow> byte list \<Rightarrow> bool" where
  "fits b t \<longleftrightarrow> (case b of (buf, p, sz) \<Rightarrow> length t < sz \<and> p + sz \<le> length buf)"

lemma print_at_fits:
  assumes "fits b t"
  shows "\<exists>b'. print_at t b = Some b' \<and> printed b t b' \<and> ended b'"
proof -
  obtain buf p sz where b: "b = (buf, p, sz)" by (cases b) auto
  have "p + length (t @ [0]) \<le> length buf" "take (sz - 1) t = t" "sz \<noteq> 0" using assms by (auto simp: fits_def b)
  then show ?thesis using assms by (auto simp: print_at_def printed_def ended_def fits_def b mem_write_def nth_append)
qed

lemma printed_append: "printed b s b' \<Longrightarrow> printed b' t b'' \<Longrightarrow> printed b (s @ t) b''"
  by (auto simp: printed_def split: prod.splits)

lemma printed_Nil: "printed b [] b"
  by (auto simp: printed_def split: prod.splits)

lemma fits_after: "fits b (s @ t) \<Longrightarrow> printed b s b' \<Longrightarrow> fits b' t"
  by (auto simp: printed_def fits_def split: prod.splits)

lemma fits_front: "fits b (s @ t) \<Longrightarrow> fits b s"
  by (auto simp: fits_def split: prod.splits)

text \<open>A step that prints in front of the rest.\<close>

lemma print_step:
  assumes "fits b (s @ t)"
  obtains b' where "print_at s b = Some b'" "printed b s b'" "ended b'" "fits b' t"
  using print_at_fits [OF fits_front [OF assms]] fits_after [OF assms] by blast

lemma tobuf_attrs_text:
  "\<forall>a \<in> set as. write_attr code a = Some (attr_text code a) \<Longrightarrow> fits b (concat (map (attr_text code) as) @ t) \<Longrightarrow>
    \<exists>b'. tobuf_attrs code as b = Some b' \<and> printed b (concat (map (attr_text code) as)) b' \<and> fits b' t"
proof (induction as arbitrary: b)
  case Nil
  then show ?case by (simp add: printed_Nil)
next
  case (Cons a as)
  obtain b1 where b1: "print_at (attr_text code a) b = Some b1" "printed b (attr_text code a) b1" "fits b1 (concat (map (attr_text code) as) @ t)"
    by (rule print_step [of b "attr_text code a" "concat (map (attr_text code) as) @ t"]) (use Cons.prems(2) in simp)
  obtain b' where "tobuf_attrs code as b1 = Some b'" "printed b1 (concat (map (attr_text code) as)) b'" "fits b' t" using Cons.IH [OF _ b1(3)] Cons.prems(1) by auto
  then show ?case using b1 printed_append Cons.prems(1) by fastforce
qed

abbreviation buf_text :: "nat \<Rightarrow> ndxml \<Rightarrow> nat \<Rightarrow> byte list" where
  "buf_text code \<equiv> xml_text code (\<lambda>_. []) [0x20]"

lemma xml_tobuf_text:
  "xml_printable code n \<Longrightarrow> xml_wf n \<Longrightarrow> fits b ((buf_text code n deep @ [0x20]) @ t) \<Longrightarrow>
    \<exists>b'. xml_tobuf code n b = Some b' \<and> printed b (buf_text code n deep @ [0x20]) b' \<and> ended b' \<and> fits b' t"
  "\<forall>c \<in> set cs. xml_printable code c \<and> xml_wf c \<Longrightarrow> fits b (concat (map (\<lambda>c. buf_text code c deep @ [0x20]) cs) @ t) \<Longrightarrow>
    \<exists>b'. xml_tobuf_subs code cs b = Some b' \<and> printed b (concat (map (\<lambda>c. buf_text code c deep @ [0x20]) cs)) b' \<and> fits b' t"
proof (induction code n b and code cs b arbitrary: deep t and deep t rule: xml_tobuf_xml_tobuf_subs.induct)
  case (1 code nm v vs an as sn subs b)
  let ?n = "Ndxml nm v vs an as sn subs" and ?as = "concat (map (attr_text code) as)"
  let ?val = "case v of None \<Rightarrow> [] | Some blk \<Rightarrow> c_text blk"
  have nm: "c_string (name_block ?n) = Some nm" using "1.prems"(1) by (intro c_string_name) auto
  have at: "\<forall>a \<in> set as. write_attr code a = Some (attr_text code a)" using write_attrs_text [of as code] "1.prems"(1) by simp
  define bd where "bd = (if ?val \<noteq> [] then 0x3E # escape code ?val @ 0x3C # 0x2F # nm @ [0x3E, 0x20]
      else if subs \<noteq> [] then 0x3E # 0x20 # concat (map (\<lambda>c. buf_text code c (deep + 1) @ [0x20]) subs) @ 0x3C # 0x2F # nm @ [0x3E, 0x20] else [0x2F, 0x3E, 0x20])"
  have shape: "buf_text code ?n deep @ [0x20] = (0x3C # nm) @ ?as @ bd" by (simp add: bd_def Let_def)
  obtain b1 where b1: "print_at (0x3C # nm) b = Some b1" "printed b (0x3C # nm) b1" "fits b1 (?as @ bd @ t)"
    by (rule print_step [of b "0x3C # nm" "?as @ bd @ t"]) (use "1.prems"(3) in \<open>simp add: shape del: xml_text.simps\<close>)
  obtain b2 where b2: "tobuf_attrs code as b1 = Some b2" "printed b1 ?as b2" "fits b2 (bd @ t)" using tobuf_attrs_text [OF at b1(3)] by auto
  have "\<exists>b'. (if has_value ?n then do { t \<leftarrow> out_replace_text code (the v) 4096; print_at (lit ''>'' @ t @ lit ''</'' @ nm @ lit ''> '') b2 }
      else if sn > 0 then do { b \<leftarrow> print_at (lit ''> '') b2; b \<leftarrow> xml_tobuf_subs code subs b; print_at (lit ''</'' @ nm @ lit ''> '') b }
      else print_at (lit ''/> '') b2) = Some b' \<and> printed b2 bd b' \<and> ended b' \<and> fits b' t"
  proof (cases "?val \<noteq> []")
    case True
    then have "out_replace_text code (the v) 4096 = Some (escape code ?val)" using "1.prems"(1) out_replace_value by (auto split: option.splits)
    moreover obtain b3 where "print_at bd b2 = Some b3" "printed b2 bd b3" "ended b3" "fits b3 t" by (rule print_step [OF b2(3)])
    ultimately show ?thesis using True by (intro exI [of _ b3]) (simp add: has_value_iff bd_def lit_def)
  next
    case False
    show ?thesis
    proof (cases "subs = []")
      case True
      obtain b3 where "print_at bd b2 = Some b3" "printed b2 bd b3" "ended b3" "fits b3 t" by (rule print_step [OF b2(3)])
      then show ?thesis using True False "1.prems"(2) by (intro exI [of _ b3]) (simp add: has_value_iff bd_def lit_def)
    next
      case ne: False
      let ?cs = "concat (map (\<lambda>c. buf_text code c (deep + 1) @ [0x20]) subs)" and ?e = "0x3C # 0x2F # nm @ [0x3E, 0x20]"
      have bd: "bd = [0x3E, 0x20] @ ?cs @ ?e" using False ne by (simp add: bd_def)
      obtain b3 where b3: "print_at [0x3E, 0x20] b2 = Some b3" "printed b2 [0x3E, 0x20] b3" "fits b3 (?cs @ ?e @ t)"
        by (rule print_step [of b2 "[0x3E, 0x20]" "?cs @ ?e @ t"]) (use b2(3) in \<open>simp add: bd\<close>)
      have sn: "sn > 0" using ne "1.prems"(2) by simp
      have nv: "\<not> has_value ?n" using False by (simp add: has_value_iff)
      have l: "lit ''<'' @ nm = 0x3C # nm" "lit ''> '' = [0x3E, 0x20]" by (simp_all add: lit_def)
      obtain b4 where b4: "xml_tobuf_subs code subs b3 = Some b4" "printed b3 ?cs b4" "fits b4 (?e @ t)"
        using "1.IH" [OF refl nm _ b2(1) nv sn _, of b3 "deep + 1" "?e @ t"] b1(1) b3 "1.prems"(1,2) unfolding l by auto
      obtain b5 where b5: "print_at ?e b4 = Some b5" "printed b4 ?e b5" "ended b5" "fits b5 t" using print_step [OF b4(3)] by blast
      have "printed b2 bd b5" unfolding bd using b3(2) b4(2) b5(2) printed_append by blast
      then show ?thesis using False ne sn nv b3(1) b4(1) b5 by (simp add: lit_def)
    qed
  qed
  then obtain b3 where b3: "xml_tobuf code ?n b = Some b3" "printed b2 bd b3" "ended b3" "fits b3 t"
    using nm b1(1) b2(1) by (auto simp: Let_def lit_def)
  moreover have "printed b ((0x3C # nm) @ ?as @ bd) b3" using b1(2) b2(2) b3(2) printed_append by blast
  ultimately show ?case unfolding shape by blast
next
  case (2 code b)
  then show ?case by (simp add: printed_Nil)
next
  case (3 code n ns b)
  let ?r = "concat (map (\<lambda>c. buf_text code c deep @ [0x20]) ns)"
  obtain b1 where b1: "xml_tobuf code n b = Some b1" "printed b (buf_text code n deep @ [0x20]) b1" "fits b1 (?r @ t)"
    using "3.IH"(1) [of deep "?r @ t"] "3.prems" by auto
  obtain b2 where b2: "xml_tobuf_subs code ns b1 = Some b2" "printed b1 ?r b2" "fits b2 t"
    using "3.IH"(2) [OF b1(1) _ b1(3)] "3.prems"(1) by auto
  have "printed b ((buf_text code n deep @ [0x20]) @ ?r) b2" using b1(2) b2(2) printed_append by blast
  then show ?case using b1(1) b2 by simp
qed

section \<open>Fuel\<close>

lemma parse_marked_shorter: "parse_marked L sz p err = Some (Some q, err') \<Longrightarrow> length q \<le> length p \<and> (\<exists>b r. q = 0x3C # b # r)"
proof (induction p arbitrary: err rule: measure_induct_rule [of length])
  case (less p)
  have ih: "length q \<le> length p \<and> (\<exists>b r. q = 0x3C # b # r)"
    if "parse_marked L sz (drop k x) e = Some (Some q, err')" "length x < length p" for k x e
    using less.IH [OF _ that(1)] that(2) by force
  from less.prems show ?case
    by (subst (asm) parse_marked.simps)
      (auto split: if_splits bind_splits option.splits list.splits dest!: first_valid_shorter ndstrstr_shorter dest: ih)
qed

lemma parse_attribs_shorter:
  "parse_attribs code p node err = Some a \<Longrightarrow> (case a of AEnd q _ _ \<Rightarrow> length q \<le> length p | AOpen q _ _ \<Rightarrow> length q \<le> length p | AFail pe _ \<Rightarrow> \<forall>q. pe \<noteq> At q)"
proof (induction p arbitrary: node err rule: measure_induct_rule [of length])
  case (less p)
  have ih: "case a of AEnd q _ _ \<Rightarrow> length q \<le> length p | AOpen q _ _ \<Rightarrow> length q \<le> length p | AFail pe _ \<Rightarrow> \<forall>q. pe \<noteq> At q"
    if "parse_attribs code q n e = Some a" "length q < length p" for q n e
    using less.IH [OF that(2,1)] that(2) by (auto split: attribs_result.splits)
  have sh: "length q < length p" if "ndstr_first_valid p = Some (Some r)" "ndstrchr (drop k r) c = Some (Some s)" "xml_read_attrval code s n = Some (Some (q, v))" "0 < k" for r k c s n q v
    using first_valid_shorter [OF that(1)] ndstrchr_shorter [OF that(2)] read_attrval_shorter [OF that(3)] that(4) by (cases r) auto
  show ?case
  proof (cases p)
    case Nil
    then show ?thesis using less.prems by (simp add: parse_attribs.simps)
  next
    case (Cons x21 x22)
    have step: "case a of AEnd q _ _ \<Rightarrow> length q \<le> length (x21 # x22) | AOpen q _ _ \<Rightarrow> length q \<le> length (x21 # x22) | AFail pe _ \<Rightarrow> \<forall>q. pe \<noteq> At q"
      if "ndstr_first_valid (x21 # x22) = Some (Some r)" "ndstrchr (drop (nat k) r) c = Some (Some s)" "xml_read_attrval code s m = Some (Some (q, v))"
        "parse_attribs code q n e = Some a" "\<not> k \<le> 0" for r k c s m q v n e
      using ih [OF that(4)] sh [OF _ that(2,3)] that(1,5) unfolding Cons by auto
    from less.prems show ?thesis unfolding Cons
      by (subst (asm) parse_attribs.simps)
        (auto simp: Let_def simp del: ndstr_first_valid.simps split: if_splits bind_splits option.splits dest: first_valid_shorter elim: step)
  qed
qed

lemma read_value_shorter: "xml_read_value code p = Some (q, out) \<Longrightarrow> length q \<le> length p"
proof (induction p arbitrary: out rule: measure_induct_rule [of length])
  case (less p)
  from less.prems show ?case
    by (subst (asm) xml_read_value.simps)
      (auto simp: Let_def split: list.splits if_splits bind_splits dest!: less.IH [rotated] read_replace_Cons)
qed

lemma parse_close_shorter:
  assumes "parse_close code node p err = Some (r, pe, e)"
  shows "(r = None \<longrightarrow> pe = Null) \<and> (\<forall>n. r = Some n \<longrightarrow> (\<exists>q. pe = At q \<and> length q \<le> length p))"
proof -
  have sh: "length (tl t) \<le> length p" if "ndstr_first_valid (drop 2 p) = Some (Some q)" "ndstr_parse_word code q = Some (Some r, nm)" "ndstrchr r c = Some (Some t)" for q r nm t c
    using first_valid_shorter [OF that(1)] parse_word_shorter [OF that(2)] ndstrchr_shorter [OF that(3)] by (auto)
  show ?thesis using assms unfolding parse_close_def
    by (auto split: if_splits bind_splits option.splits simp del: length_tl) (rule sh)
qed

text \<open>What an element parsed from \<open>X\<close> leaves: less text, or an end mark.\<close>

definition consumes :: "byte list \<Rightarrow> parse_result \<Rightarrow> bool" where
  "consumes X x \<longleftrightarrow> (case x of (r, pe, e) \<Rightarrow> (r \<noteq> None \<longrightarrow> (\<exists>q. pe = At q \<and> length q + 2 \<le> length X)) \<and>
     (r = None \<longrightarrow> (\<forall>q. pe = At q \<longrightarrow> is_mark_start q = Some True \<and> length q \<le> length X)))"

lemma parse_body_shorter:
  assumes "parse_body code a = Some h" "length p + 2 \<le> length X"
    "case a of AEnd q _ _ \<Rightarrow> length q \<le> length p | AOpen q _ _ \<Rightarrow> length q \<le> length p | AFail pe _ \<Rightarrow> \<forall>q. pe \<noteq> At q"
  shows "case h of HDone x \<Rightarrow> consumes X x | HSub q _ _ \<Rightarrow> length q + 2 \<le> length X"
proof (cases a)
  case (AOpen q n e)
  have c: "consumes X x" if "parse_close code n' r e' = Some x" "length r \<le> length q" for n' r e' x
    using parse_close_shorter [of code n' r e'] that assms(2,3) AOpen by (cases x) (fastforce simp: consumes_def)
  have v: "consumes X x" if "parse_value code n r e = Some x" "length r \<le> length q" for r x
    using that by (auto simp: parse_value_def Let_def split: bind_splits dest!: read_value_shorter) (erule c, linarith)
  show ?thesis using assms AOpen c v by (auto simp: parse_body_def split: bind_splits if_splits dest!: first_valid_shorter)
qed (use assms in \<open>auto simp: parse_body_def consumes_def\<close>)

lemma parse_head_shorter:
  assumes "parse_head code X sz err = Some h"
  shows "case h of HDone x \<Rightarrow> consumes X x | HSub q _ _ \<Rightarrow> length q + 2 \<le> length X"
proof -
  have b: "case h of HDone x \<Rightarrow> consumes X x | HSub q _ _ \<Rightarrow> length q + 2 \<le> length X"
    if "parse_marked (length X) sz X err = Some (Some m, e)" "ndstr_first_valid (tl m) = Some (Some p)" "\<not> k \<le> 0" "parse_attribs code (drop (nat k) p) n e' = Some a" "parse_body code a = Some h"
    for m e p k n e' a
  proof (rule parse_body_shorter [OF that(5)])
    show "length (drop (nat k) p) + 2 \<le> length X"
      using parse_marked_shorter [OF that(1)] first_valid_shorter [OF that(2)] that(3) by (cases p) auto
  qed (rule parse_attribs_shorter [OF that(4)])
  show ?thesis using assms unfolding parse_head_def
    by (auto simp: consumes_def split: bind_splits if_splits option.splits) ((rule b; assumption) | (drule parse_marked_shorter, simp))+
qed

lemma after_child_shorter:
  assumes "after_child code node x = Some h" "consumes p x" "length p + 2 \<le> length X"
  shows "case h of HDone y \<Rightarrow> consumes X y | HSub q _ _ \<Rightarrow> length q < length p"
proof -
  obtain r pe e where x: "x = (r, pe, e)" by (cases x) auto
  have c: "consumes X y" if "parse_close code n q e' = Some y" "length q \<le> length p" for n q e' y
    using parse_close_shorter [of code n q e'] that assms(3) by (cases y) (fastforce simp: consumes_def)
  show ?thesis
  proof (cases pe)
    case (At q)
    show ?thesis
    proof (cases r)
      case None
      then have "is_mark_start q = Some True" "length q \<le> length p" using assms(2) At by (auto simp: consumes_def x)
      moreover from this(1) have "ndstr_first_valid q = Some (Some q)" by (auto simp: is_mark_start_def split: list.splits if_splits)
      ultimately show ?thesis using assms(1) None At c by (auto simp: after_child_def x split: bind_splits)
    next
      case (Some n)
      then have "length q + 2 \<le> length p" using assms(2) At by (auto simp: consumes_def x)
      then show ?thesis using assms(1) Some At c by (auto simp: after_child_def x Let_def split: bind_splits if_splits dest!: first_valid_shorter)
    qed
  qed (use assms(1) in \<open>auto simp: after_child_def x consumes_def split: if_splits\<close>)
qed

lemma parse_consumes:
  "parse_xmlbuf fuel code X sz err = Some x \<Longrightarrow> consumes X x"
  "parse_children fuel code X sz p node err = Some x \<Longrightarrow> length p + 2 \<le> length X \<Longrightarrow> consumes X x"
proof (induction fuel arbitrary: X sz err x p node)
  case (Suc fuel)
  { case 1
    then obtain h where h: "parse_head code X sz err = Some h" by (auto split: bind_splits)
    show ?case using 1 h parse_head_shorter [OF h] Suc(2) by (cases h) auto }
  { case 2
    then obtain y where y: "parse_xmlbuf fuel code p (sz - (int (length X) - int (length p))) err = Some y" by (auto split: bind_splits)
    then obtain h where h: "after_child code node y = Some h" using 2 by (auto split: bind_splits)
    have "consumes p y" using Suc(1) [OF y] .
    note sh = after_child_shorter [OF h this 2(2)]
    show ?case
    proof (cases h)
      case (HDone r)
      then show ?thesis using 2 y h sh by auto
    next
      case (HSub q n e)
      then show ?thesis using 2 y h sh Suc(2) [of X sz q n e x] by auto
    qed }
qed simp_all

text \<open>More fuel does not change the result.\<close>

lemma parse_fuel:
  "(\<forall>code sz err f g. length X < f \<longrightarrow> length X < g \<longrightarrow> parse_xmlbuf f code X sz err = parse_xmlbuf g code X sz err) \<and>
   (\<forall>code Y sz node err f g. length X + 1 < f \<longrightarrow> length X + 1 < g \<longrightarrow> length X + 2 \<le> length Y \<longrightarrow>
     parse_children f code Y sz X node err = parse_children g code Y sz X node err)"
proof (induction X rule: measure_induct_rule [of length])
  case (less X)
  have A: "parse_xmlbuf f code X sz err = parse_xmlbuf g code X sz err" if "length X < f" "length X < g" for code sz err f g
  proof -
    obtain f' g' where fg: "f = Suc f'" "g = Suc g'" using \<open>length X < f\<close> \<open>length X < g\<close> by (cases f; cases g) auto
    show ?thesis
    proof (cases "parse_head code X sz err")
      case (Some h)
      show ?thesis
      proof (cases h)
        case (HSub q n e)
        then have q: "length q + 2 \<le> length X" using parse_head_shorter [OF Some] by simp
        then have "parse_children f' code X sz q n e = parse_children g' code X sz q n e" using less.IH [of q] that fg by simp
        then show ?thesis using Some HSub by (simp add: fg)
      qed (simp add: fg Some)
    qed (simp add: fg)
  qed
  have B: "parse_children f code Y sz X node err = parse_children g code Y sz X node err"
    if l: "length X + 1 < f" "length X + 1 < g" "length X + 2 \<le> length Y" for code Y sz node err f g
  proof -
    obtain f' g' where fg: "f = Suc f'" "g = Suc g'" using l by (cases f; cases g) auto
    let ?s = "sz - (int (length Y) - int (length X))"
    have a: "parse_xmlbuf f' code X ?s err = parse_xmlbuf g' code X ?s err" by (rule A) (use l fg in auto)
    show ?thesis
    proof (cases "parse_xmlbuf g' code X ?s err")
      case (Some x)
      show ?thesis
      proof (cases "after_child code node x")
        case h: (Some h)
        note sh = after_child_shorter [OF h parse_consumes(1) [OF Some] l(3)]
        show ?thesis
        proof (cases h)
          case (HSub q n e)
          then have q: "length q < length X" using sh by simp
          then have "parse_children f' code Y sz q n e = parse_children g' code Y sz q n e" using less.IH [of q] l fg by simp
          then show ?thesis using HSub a Some h by (simp add: fg)
        qed (use a Some h in \<open>simp add: fg\<close>)
      qed (use a Some in \<open>simp add: fg\<close>)
    qed (use a in \<open>simp add: fg\<close>)
  qed
  show ?case by (intro conjI allI impI; (rule A | rule B); assumption)
qed

text \<open>When parsing faults. An element is parsed by its head and, when it has children, by the rounds of the loop over them; a round parses a
  child and looks at what follows. \<open>xml_faults\<close> holds of the calls that reach a step which reads or writes outside its memory, after finitely
  many steps: it is a least predicate, so that a loop which goes on for ever does not fault.\<close>

datatype xml_call = Element "byte list" int "byte list option" | Round "byte list" int "byte list" ndxml "byte list option"

inductive xml_faults :: "nat \<Rightarrow> xml_call \<Rightarrow> bool" for code where
  head_faults: "parse_head code X sz err = None \<Longrightarrow> xml_faults code (Element X sz err)"
| children_fault: "parse_head code X sz err = Some (HSub p node e) \<Longrightarrow> xml_faults code (Round X sz p node e) \<Longrightarrow> xml_faults code (Element X sz err)"
| child_faults: "xml_faults code (Element p (sz - (int (length Y) - int (length p))) err) \<Longrightarrow> xml_faults code (Round Y sz p node err)"
| after_faults: "parse_xmlbuf (length p + 1) code p (sz - (int (length Y) - int (length p))) err = Some x \<Longrightarrow> after_child code node x = None \<Longrightarrow>
    xml_faults code (Round Y sz p node err)"
| next_faults: "parse_xmlbuf (length p + 1) code p (sz - (int (length Y) - int (length p))) err = Some x \<Longrightarrow> after_child code node x = Some (HSub q n e) \<Longrightarrow>
    xml_faults code (Round Y sz q n e) \<Longrightarrow> xml_faults code (Round Y sz p node err)"

lemma parse_fuel_enough: "length X < f \<Longrightarrow> parse_xmlbuf f code X sz err = parse_xmlbuf (length X + 1) code X sz err"
  by (rule parse_fuel [of X, THEN conjunct1, rule_format]) simp_all

lemma xml_faults_none:
  assumes "xml_faults code c"
  shows "case c of Element X sz err \<Rightarrow> \<forall>f > length X. parse_xmlbuf f code X sz err = None
    | Round Y sz p node err \<Rightarrow> length p + 2 \<le> length Y \<longrightarrow> (\<forall>f > length p + 1. parse_children f code Y sz p node err = None)"
  using assms
proof induction
  case (children_fault X sz err p node e)
  have "parse_xmlbuf f code X sz err = None" if "length X < f" for f
    using children_fault(1,3) parse_head_shorter [OF children_fault(1)] that by (cases f) auto
  then show ?case by simp
next
  case (child_faults p sz Y err node)
  have "parse_children f code Y sz p node err = None" if "length p + 1 < f" for f using child_faults(2) that by (cases f) auto
  then show ?case by simp
next
  case (after_faults p sz Y err x node)
  have "parse_children f code Y sz p node err = None" if "length p + 1 < f" for f
    using after_faults that parse_fuel_enough [of p "f - 1"] by (cases f) (auto simp del: parse_xmlbuf.simps)
  then show ?case by simp
next
  case (next_faults p sz Y err x node q n e)
  have "parse_children f code Y sz p node err = None" if l: "length p + 1 < f" "length p + 2 \<le> length Y" for f
  proof -
    have "length q < length p" using after_child_shorter [OF next_faults(2) parse_consumes(1) [OF next_faults(1)] l(2)] by simp
    then show ?thesis using next_faults(1,2,4) l parse_fuel_enough [of p "f - 1"] by (cases f) (auto simp del: parse_xmlbuf.simps)
  qed
  then show ?case by simp
qed (auto elim: less_natE)

lemma none_xml_faults:
  "(\<forall>sz err. parse_xmlbuf (length X + 1) code X sz err = None \<longrightarrow> xml_faults code (Element X sz err)) \<and>
   (\<forall>Y sz node err. length X + 2 \<le> length Y \<longrightarrow> parse_children (length X + 2) code Y sz X node err = None \<longrightarrow> xml_faults code (Round Y sz X node err))"
proof (induction X rule: measure_induct_rule [of length])
  case (less X)
  have A: "xml_faults code (Element X sz err)" if n: "parse_xmlbuf (length X + 1) code X sz err = None" for sz err
  proof (cases "parse_head code X sz err")
    case (Some h)
    then obtain p node e where h: "h = HSub p node e" using n by (cases h) auto
    have l: "length p + 2 \<le> length X" using parse_head_shorter [OF Some] h by simp
    have "parse_children (length X) code X sz p node e = None" using n Some h by simp
    then have "parse_children (length p + 2) code X sz p node e = None"
      using parse_fuel [of p, THEN conjunct2, rule_format, of "length p + 2" "length X" X] l by simp
    then show ?thesis using less.IH [of p] l Some h by (auto intro: children_fault)
  qed (rule head_faults)
  have B: "xml_faults code (Round Y sz X node err)" if l: "length X + 2 \<le> length Y" and n: "parse_children (length X + 2) code Y sz X node err = None" for Y sz node err
  proof (cases "parse_xmlbuf (length X + 1) code X (sz - (int (length Y) - int (length X))) err")
    case None
    then show ?thesis by (intro child_faults A)
  next
    case x: (Some x)
    show ?thesis
    proof (cases "after_child code node x")
      case (Some h)
      then obtain q n' e where h: "h = HSub q n' e" using n x by (cases h) (auto simp del: parse_xmlbuf.simps)
      have q: "length q < length X" using after_child_shorter [OF Some parse_consumes(1) [OF x] l] h by simp
      have "parse_children (length X + 1) code Y sz q n' e = None" using n x Some h by (simp del: parse_xmlbuf.simps)
      then have "parse_children (length q + 2) code Y sz q n' e = None"
        using parse_fuel [of q, THEN conjunct2, rule_format, of "length q + 2" "length X + 1" Y] l q by simp
      then show ?thesis using less.IH [of q] q l x Some h by (auto intro: next_faults simp del: parse_xmlbuf.simps)
    qed (rule after_faults [OF x])
  qed
  show ?case using A B by blast
qed

section \<open>Properties\<close>

lemma attr_text_nonzero: "name_ok (attr_name a) \<Longrightarrow> text_ok code (attr_value a) \<Longrightarrow> 0 \<notin> set (attr_text code a)"
  using name_okD escape_nonzero c_text_nonzero by (auto simp: attr_text_def text_ok_def attr_value_def)

lemma buf_text_nonzero: "xml_printable code n \<Longrightarrow> 0 \<notin> set (buf_text code n deep)"
proof (induction n arbitrary: deep)
  case (Ndxml nm v vs an as sn subs)
  let ?val = "case v of None \<Rightarrow> [] | Some blk \<Rightarrow> c_text blk"
  have "0 \<notin> set nm" "\<forall>a \<in> set as. 0 \<notin> set (attr_text code a)" using Ndxml.prems name_okD attr_text_nonzero by auto
  moreover have "0 \<notin> set (escape code ?val)" using Ndxml.prems escape_nonzero c_text_nonzero by (auto simp: text_ok_def split: option.splits)
  moreover have "\<forall>c \<in> set subs. 0 \<notin> set (buf_text code c (deep + 1))" using Ndxml by auto
  ultimately show ?case by (auto simp: Let_def)
qed

text \<open>C31. A tree in memory. When a printable tree and its terminator fit the buffer, \<open>ndxml_to_buf\<close> writes its text there and returns the
  length, and \<open>ndxml_from_text\<close> reads that buffer as a tree with the same names, values, attributes and children in the same order.\<close>

theorem xml_buffer_round_trip:
  assumes "xml_printable code n" "xml_wf n" "length (buf_text code n 0) + 1 < sz" "sz \<le> length buf"
  shows "\<exists>buf' n'. ndxml_to_buf code n buf sz = Some (length (buf_text code n 0) + 1, buf') \<and> length buf' = length buf \<and>
    ndxml_from_text code buf' = Some (Some n') \<and> xml_abs n' = xml_abs n \<and> xml_wf n'"
proof -
  let ?T = "buf_text code n 0 @ [0x20]"
  have f: "fits (buf, 0, sz) (?T @ [])" using assms(3,4) by (simp add: fits_def)
  obtain b where b: "xml_tobuf code n (buf, 0, sz) = Some b" "printed (buf, 0, sz) ?T b" "ended b" using xml_tobuf_text(1) [OF assms(1,2) f] by auto
  obtain buf' p sz' where e: "b = (buf', p, sz')" by (cases b) auto
  have p: "p = length ?T" "length buf' = length buf" "take p buf' = ?T" "p < length buf'" "buf' ! p = 0" using b(2,3) by (auto simp: e printed_def ended_def)
  have "buf' = take p buf' @ buf' ! p # drop (Suc p) buf'" using id_take_nth_drop [OF p(4)] .
  then obtain r where r: "buf' = ?T @ 0 # r" using p(3,5) by metis
  have z: "0 \<notin> set ?T" using buf_text_nonzero [OF assms(1)] by simp
  have cs: "c_string buf' = Some ?T" unfolding r using c_text_append [OF z, of r] by (simp add: c_string_def)
  have "int (length ([] @ buf_text code n 0)) \<le> int (length ?T)" "length (buf_text code n 0) \<le> length buf' + 2" using p by auto
  moreover have w: "white []" "white [0x20]" by (simp_all add: white_def)
  ultimately obtain n' e' where n': "parse_xmlbuf (length buf' + 2) code ([] @ buf_text code n 0 @ 0x20 # 0 # r) (int (length ?T)) None = Some (Some n', At (0x20 # 0 # r), e')"
      "xml_abs n' = xml_abs n" "xml_wf n'"
    using parse_xml_text [of code n "[]" "[0x20]" "\<lambda>_. []", OF assms(1) w w(1)] by blast
  have "xname n \<noteq> []" using assms(1) by (cases n) (auto simp: name_ok_def)
  then have "ndxml_to_buf code n buf sz = Some (length (buf_text code n 0) + 1, buf')" using b(1) p(1) by (simp add: ndxml_to_buf_def e)
  moreover have "ndxml_from_text code buf' = Some (Some n')" using n'(1) cs by (simp add: ndxml_from_text_def r del: parse_xmlbuf.simps)
  ultimately show ?thesis using n'(2,3) p(2) by blast
qed

text \<open>A small tree for the witnesses.\<close>

definition sample_xml :: ndxml where
  "sample_xml = Ndxml (lit ''a'') None 0 1 [alloc_attrib_node (lit ''k'') (lit ''x<y'')] 1 [Ndxml (lit ''b'') (Some (lit ''hi'' @ [0, 0])) 4 0 [] 0 []]"

lemmas sample_xml_defs = sample_xml_def alloc_attrib_node_def attr_name_def c_text_def lit_def ROUND4_def

theorem xml_buffer_round_trip_witness:
  "\<exists>buf' n'. ndxml_to_buf 0 sample_xml (replicate 64 7) 64 = Some (30, buf') \<and> length buf' = 64 \<and>
    ndxml_from_text 0 buf' = Some (Some n') \<and> xml_abs n' = xml_abs sample_xml \<and> xml_wf n'"
proof -
  have "xml_printable 0 sample_xml" by code_simp
  moreover have "xml_wf sample_xml" by code_simp
  moreover have "length (buf_text 0 sample_xml 0) + 1 = 30" by code_simp
  ultimately show ?thesis using xml_buffer_round_trip [of 0 sample_xml 64 "replicate 64 7"] by simp
qed

text \<open>C33. Parsing ends. For every text, \<open>parse_xmlbuf\<close> either returns a result or reaches, after finitely many elements and rounds of the loop
  over the children, a step that leaves its memory (\<open>xml_faults\<close>, a least predicate that no endless loop satisfies): each element and each round
  consumes text. The result is the same for every bound above the length of the text.\<close>

theorem xml_parse_fuel:
  assumes "length X < fuel"
  shows "(case parse_xmlbuf fuel code X sz err of None \<Rightarrow> xml_faults code (Element X sz err) | Some r \<Rightarrow> \<not> xml_faults code (Element X sz err)) \<and>
    parse_xmlbuf fuel code X sz err = parse_xmlbuf (length X + 1) code X sz err"
  using parse_fuel_enough [OF assms, of code sz err] none_xml_faults [of X code] xml_faults_none [of code "Element X sz err"]
  by (auto split: option.split simp del: parse_xmlbuf.simps)

theorem xml_parse_fuel_witness:
  "(case parse_xmlbuf 100 0 (lit ''<a/>'' @ [0]) 4 None of None \<Rightarrow> xml_faults 0 (Element (lit ''<a/>'' @ [0]) 4 None)
      | Some r \<Rightarrow> \<not> xml_faults 0 (Element (lit ''<a/>'' @ [0]) 4 None)) \<and>
    parse_xmlbuf 100 0 (lit ''<a/>'' @ [0]) 4 None = parse_xmlbuf 6 0 (lit ''<a/>'' @ [0]) 4 None"
proof -
  have l: "length (lit ''<a/>'' @ [0]) < 100" "length (lit ''<a/>'' @ [0]) + 1 = 6" by (simp_all add: lit_def)
  show ?thesis using xml_parse_fuel [OF l(1), of 0 4 None] unfolding l(2) .
qed

end
