(* ===== verification/Xml_Tree.thy ===== *)
theory Xml_Tree
  imports Xml_Print
begin

text \<open>
  The operations on XML trees of \<^verbatim>\<open>src/nd_common/src/nd_xml.c\<close>. An operation on a node takes the node and returns it changed. A
  pointer to a node of a tree is its path from the root, the list of the positions in \<open>lst_sub\<close>; the empty path is the root, and the parent of a node is the node at the path without its last position. Names and
  values passed in are C strings without their terminator.
\<close>

section \<open>Nodes\<close>

definition set_subs :: "int \<Rightarrow> ndxml list \<Rightarrow> ndxml \<Rightarrow> ndxml" where
  "set_subs k subs n = Ndxml (xname n) (xvalue n) (val_size n) (attr_num n) (lst_attr n) k subs"

definition set_attrs :: "int \<Rightarrow> ndxml_attr list \<Rightarrow> ndxml \<Rightarrow> ndxml" where
  "set_attrs k as n = Ndxml (xname n) (xvalue n) (val_size n) k as (sub_num n) (lst_sub n)"

text \<open>\<open>ndstrncpy\<close> stores no terminator when the name fills the array.\<close>

definition create_xmlnode :: "byte list \<Rightarrow> byte list option \<Rightarrow> ndxml" where
  "create_xmlnode name v =
     (let n = Ndxml (take MAX_XMLNAME_SIZE name) None 0 0 [] 0 [] in
      case v of
        None \<Rightarrow> n
      | Some s \<Rightarrow> if length s > 0 then
          let len = ROUND4 (length s + 4) in set_value (Some (s @ replicate (len - length s) 0)) len n
        else n)"

definition ndxml_is_empty :: "ndxml \<Rightarrow> bool" where
  "ndxml_is_empty n \<longleftrightarrow> xname n = [] \<and> lst_sub n = [] \<and> lst_attr n = []"

definition delete_at :: "nat \<Rightarrow> 'a list \<Rightarrow> 'a list" where
  "delete_at i xs = take i xs @ drop (Suc i) xs"

text \<open>The position of the first child with a name, up to the case of letters.\<close>

fun find_sub :: "byte list \<Rightarrow> ndxml list \<Rightarrow> nat \<Rightarrow> nat option option" where
  "find_sub name [] i = Some None"
| "find_sub name (c # cs) i = do {
     r \<leftarrow> ndstricmp (cstr name) (name_block c);
     if r = 0 then Some (Some i) else find_sub name cs (i + 1)
   }"

definition ndxml_refsub :: "ndxml \<Rightarrow> byte list \<Rightarrow> nat option option" where
  "ndxml_refsub n name = find_sub name (lst_sub n) 0"

definition ndxml_getnode :: "ndxml \<Rightarrow> byte list \<Rightarrow> nat option option" where
  "ndxml_getnode n name = find_sub name (lst_sub n) 0"

definition ndxml_refsubi :: "ndxml \<Rightarrow> int \<Rightarrow> nat option" where
  "ndxml_refsubi n index = (if 0 \<le> index \<and> index < int (length (lst_sub n)) then Some (nat index) else None)"

definition ndxml_getnodei :: "ndxml \<Rightarrow> int \<Rightarrow> nat option" where
  "ndxml_getnodei n index = (if 0 \<le> index \<and> index < int (length (lst_sub n)) then Some (nat index) else None)"

definition ndxml_insert :: "ndxml \<Rightarrow> ndxml \<Rightarrow> int \<times> ndxml" where
  "ndxml_insert n child = (0, add_sub child n)"

definition ndxml_addnode :: "ndxml \<Rightarrow> byte list \<Rightarrow> byte list option \<Rightarrow> ndxml" where
  "ndxml_addnode n name v = add_sub (create_xmlnode name v) n"

definition ndxml_addsubnode :: "ndxml \<Rightarrow> byte list \<Rightarrow> byte list option \<Rightarrow> ndxml" where
  "ndxml_addsubnode n name v = add_sub (create_xmlnode name v) n"

text \<open>The insertion at an index goes behind the child at this index. It does not set the parent of the child, which the model does not show.\<close>

definition ndxml_insert_ex :: "ndxml \<Rightarrow> ndxml \<Rightarrow> int \<Rightarrow> int \<times> ndxml" where
  "ndxml_insert_ex n child index =
     (if index \<noteq> -1 \<and> nat (max 0 index) < length (lst_sub n) then
        (let i = nat (max 0 index) in (0, set_subs (sub_num n + 1) (take (Suc i) (lst_sub n) @ child # drop (Suc i) (lst_sub n)) n))
      else (0, add_sub child n))"

definition ndxml_merge :: "ndxml \<Rightarrow> ndxml \<Rightarrow> ndxml \<times> ndxml" where
  "ndxml_merge host merged =
     (if sub_num merged > 0 then (set_subs (sub_num host + sub_num merged) (lst_sub merged @ lst_sub host) host, init_xml_node)
      else (host, merged))"

definition del_sub :: "nat option \<Rightarrow> ndxml \<Rightarrow> int \<times> ndxml" where
  "del_sub i n = (case i of None \<Rightarrow> (-1, n) | Some i \<Rightarrow> (0, set_subs (sub_num n - 1) (delete_at i (lst_sub n)) n))"

definition ndxml_delnode :: "ndxml \<Rightarrow> byte list \<Rightarrow> (int \<times> ndxml) option" where
  "ndxml_delnode n name = do { i \<leftarrow> ndxml_getnode n name; Some (del_sub i n) }"

definition ndxml_delnodei :: "ndxml \<Rightarrow> int \<Rightarrow> int \<times> ndxml" where
  "ndxml_delnodei n index = del_sub (ndxml_getnodei n index) n"

definition ndxml_delsubnode :: "ndxml \<Rightarrow> byte list \<Rightarrow> (int \<times> ndxml) option" where
  "ndxml_delsubnode n name = do { i \<leftarrow> ndxml_refsub n name; Some (del_sub i n) }"

definition ndxml_delsubnodei :: "ndxml \<Rightarrow> int \<Rightarrow> int \<times> ndxml" where
  "ndxml_delsubnodei n index = del_sub (ndxml_refsubi n index) n"

definition ndxml_del_all_children :: "ndxml \<Rightarrow> int \<times> ndxml" where
  "ndxml_del_all_children n = (sub_num n, set_subs 0 [] n)"

text \<open>The lists are unlinked before the loops over them, which then free nothing. The second one clears the wrong counter.\<close>

definition ndxml_delall_children :: "ndxml \<Rightarrow> ndxml" where
  "ndxml_delall_children n = set_subs 0 [] n"

definition ndxml_delall_attrib :: "ndxml \<Rightarrow> ndxml" where
  "ndxml_delall_attrib n = set_subs 0 (lst_sub n) (set_attrs (attr_num n) [] n)"

section \<open>Values\<close>

definition ndxml_getval :: "ndxml \<Rightarrow> byte list option" where
  "ndxml_getval n = (if has_value n then map_option c_text (xvalue n) else None)"

definition ndxml_getval_int :: "ndxml \<Rightarrow> int option" where
  "ndxml_getval_int n = (if has_value n then map_option (\<lambda>w. sint (ucast w :: u32)) (ndstr_atoi_hex (the (xvalue n))) else Some 0)"

text \<open>A larger block is not recorded in \<open>val_size\<close>.\<close>

definition ndxml_setval :: "ndxml \<Rightarrow> byte list option \<Rightarrow> (int \<times> ndxml) option" where
  "ndxml_setval n v = (case v of
     None \<Rightarrow> Some (-1, n)
   | Some s \<Rightarrow>
       if s = [] then Some (-1, n)
       else do {
         let len = length s + 1;
         let blk = (case xvalue n of
           Some blk \<Rightarrow> if len > val_size n then replicate (ROUND4 (len + 4)) 0 else blk
         | None \<Rightarrow> replicate (ROUND4 (len + 4)) 0);
         blk \<leftarrow> mem_write blk 0 (cstr s);
         Some (0, set_value (Some blk) (val_size n) n)
       })"

section \<open>Attributes\<close>

fun find_attr :: "byte list \<Rightarrow> ndxml_attr list \<Rightarrow> nat \<Rightarrow> nat option option" where
  "find_attr name [] i = Some None"
| "find_attr name (a # as) i = do {
     r \<leftarrow> ndstricmp (cstr name) (cstr (attr_name a));
     if r = 0 then Some (Some i) else find_attr name as (i + 1)
   }"

definition ndxml_getattrib :: "ndxml \<Rightarrow> byte list \<Rightarrow> nat option option" where
  "ndxml_getattrib n name = find_attr name (lst_attr n) 0"

definition ndxml_getattribi :: "ndxml \<Rightarrow> int \<Rightarrow> nat option" where
  "ndxml_getattribi n index = (if 0 \<le> index \<and> index < int (length (lst_attr n)) then Some (nat index) else None)"

definition null_if_empty :: "byte list \<Rightarrow> byte list option" where
  "null_if_empty s = (if s = [] then None else Some s)"

definition ndxml_getattr_val :: "ndxml \<Rightarrow> byte list \<Rightarrow> byte list option option" where
  "ndxml_getattr_val n name = do {
     i \<leftarrow> ndxml_getattrib n name;
     Some (case i of None \<Rightarrow> None | Some i \<Rightarrow> null_if_empty (attr_value (lst_attr n ! i)))
   }"

definition ndxml_getattr_name :: "ndxml \<Rightarrow> int \<Rightarrow> byte list option" where
  "ndxml_getattr_name n index = (case ndxml_getattribi n index of None \<Rightarrow> None | Some i \<Rightarrow> null_if_empty (attr_name (lst_attr n ! i)))"

definition ndxml_getattr_vali :: "ndxml \<Rightarrow> int \<Rightarrow> byte list option" where
  "ndxml_getattr_vali n index = (case ndxml_getattribi n index of None \<Rightarrow> None | Some i \<Rightarrow> null_if_empty (attr_value (lst_attr n ! i)))"

definition ndxml_addattrib :: "ndxml \<Rightarrow> byte list option \<Rightarrow> byte list option \<Rightarrow> ndxml" where
  "ndxml_addattrib n name v = (case (name, v) of (Some nm, Some s) \<Rightarrow> add_attr (alloc_attrib_node nm s) n | _ \<Rightarrow> n)"

definition del_attr :: "nat option \<Rightarrow> ndxml \<Rightarrow> int \<times> ndxml" where
  "del_attr i n = (case i of None \<Rightarrow> (-1, n) | Some i \<Rightarrow> (0, set_attrs (attr_num n - 1) (delete_at i (lst_attr n)) n))"

definition ndxml_delattrib :: "ndxml \<Rightarrow> byte list \<Rightarrow> (int \<times> ndxml) option" where
  "ndxml_delattrib n name = do { i \<leftarrow> ndxml_getattrib n name; Some (del_attr i n) }"

definition ndxml_delattribi :: "ndxml \<Rightarrow> int \<Rightarrow> int \<times> ndxml" where
  "ndxml_delattribi n index = del_attr (ndxml_getattribi n index) n"

text \<open>Storing a new value: in place when it fits, otherwise in a new attribute at the same position.\<close>

definition store_attr :: "ndxml_attr \<Rightarrow> byte list \<Rightarrow> ndxml_attr option" where
  "store_attr a s =
     (if length s + 1 > unat (value_size a) then Some (alloc_attrib_node (attr_name a) s)
      else do { blk \<leftarrow> mem_write (attr_block a) (unat (name_size a)) (cstr s); Some (a\<lparr>attr_block := blk\<rparr>) })"

definition ndxml_setattrval :: "ndxml \<Rightarrow> byte list \<Rightarrow> byte list option \<Rightarrow> (int \<times> ndxml) option" where
  "ndxml_setattrval n name v =
     (if v = None \<or> v = Some [] then ndxml_delattrib n name
      else do {
        i \<leftarrow> ndxml_getattrib n name;
        (case i of
           None \<Rightarrow> Some (0, ndxml_addattrib n (Some name) v)
         | Some i \<Rightarrow> do { a \<leftarrow> store_attr (lst_attr n ! i) (the v); Some (0, set_attrs (attr_num n) ((lst_attr n)[i := a]) n) })
      })"

definition ndxml_setattrvali :: "ndxml \<Rightarrow> int \<Rightarrow> byte list option \<Rightarrow> (int \<times> ndxml) option" where
  "ndxml_setattrvali n index v =
     (if index < 0 \<or> index \<ge> attr_num n then Some (-1, n)
      else if v = None \<or> v = Some [] then Some (ndxml_delattribi n index)
      else (case ndxml_getattribi n index of
         None \<Rightarrow> Some (-1, n)
       | Some i \<Rightarrow> do { a \<leftarrow> store_attr (lst_attr n ! i) (the v); Some (0, set_attrs (attr_num n) ((lst_attr n)[i := a]) n) }))"

section \<open>Copies\<close>

fun copy_attrs :: "ndxml \<Rightarrow> nat \<Rightarrow> ndxml \<Rightarrow> ndxml" where
  "copy_attrs n 0 new = new"
| "copy_attrs n (Suc k) new = ndxml_addattrib (copy_attrs n k new) (ndxml_getattr_name n (int k)) (ndxml_getattr_vali n (int k))"

text \<open>For a tree whose counters agree with its lists the two loops go over the lists.\<close>

fun ndxml_copy :: "ndxml \<Rightarrow> ndxml" where
  "ndxml_copy (Ndxml nm v vs an as sn subs) =
     (let n = Ndxml nm v vs an as sn subs;
          new = create_xmlnode nm (map_option c_text v);
          new = copy_attrs n (nat an) new in
      fold add_sub (take (nat sn) (map ndxml_copy subs)) new)"

section \<open>Paths\<close>

fun node_at :: "ndxml \<Rightarrow> nat list \<Rightarrow> ndxml option" where
  "node_at n [] = Some n"
| "node_at n (i # p) = (if i < length (lst_sub n) then node_at (lst_sub n ! i) p else None)"

fun replace_at :: "ndxml \<Rightarrow> nat list \<Rightarrow> ndxml \<Rightarrow> ndxml" where
  "replace_at n [] m = m"
| "replace_at n (i # p) m = set_subs (sub_num n) ((lst_sub n)[i := replace_at (lst_sub n ! i) p m]) n"

definition ndxml_get_parent :: "nat list \<Rightarrow> nat list option" where
  "ndxml_get_parent p = (if p = [] then None else Some (butlast p))"

definition child_of :: "ndxml \<Rightarrow> nat list \<Rightarrow> byte list \<Rightarrow> nat list option option" where
  "child_of t p name = do {
     n \<leftarrow> node_at t p;
     i \<leftarrow> ndxml_getnode n name;
     Some (map_option (\<lambda>i. p @ [i]) i)
   }"

text \<open>The loop of \<open>ndxml_recursive_ref\<close>: \<open>p\<close> is the rest of the path text, \<open>node\<close> and \<open>ret\<close> the variables \<open>node\<close> and \<open>retXml\<close>. A name has 64 bytes, but up to
  128 are copied.\<close>

lemma nstr_ansi_shorter: "ndstr_nstr_ansi p e n = Some (r, name) \<Longrightarrow> length p = length name + length r"
  by (auto simp: ndstr_nstr_ansi_def split: bind_splits dest!: copy_words_split)

function ref_loop :: "ndxml \<Rightarrow> byte list \<Rightarrow> nat list option \<Rightarrow> nat list option \<Rightarrow> nat list option option" where
  "ref_loop t p node ret = (case p of
     [] \<Rightarrow> None
   | a # q \<Rightarrow>
       (case node of
          None \<Rightarrow> Some ret
        | Some nd \<Rightarrow>
            if a = 0 then Some ret
            else do {
              (r, name) \<leftarrow> ndstr_nstr_ansi (if a = 0x2F then q else p) 0x2F 128;
              if length name < MAX_XMLNAME_SIZE then
                (if name = lit ''..'' then ref_loop t r (ndxml_get_parent nd) (ndxml_get_parent nd)
                 else if name = [] then Some ret
                 else if 0x2E \<in> set name then
                   (let nm = takeWhile (\<lambda>b. b \<noteq> 0x2E) name in if nm = [] then Some (Some nd) else child_of t nd nm)
                 else do { c \<leftarrow> child_of t nd name; ref_loop t r c c })
              else None
            }))"
  by pat_completeness auto
termination
  by (relation "measure (\<lambda>(t, p, node, ret). length p)")
    (auto simp: lit_def split: if_splits dest!: nstr_ansi_shorter)

declare ref_loop.simps [simp del]

definition ndxml_recursive_ref :: "ndxml \<Rightarrow> nat list \<Rightarrow> byte list \<Rightarrow> nat list option option" where
  "ndxml_recursive_ref t node path =
     (if path = [] then Some None
      else if hd path = 0x2F then ref_loop t (cstr path) (Some []) None
      else if take 2 path = lit ''./'' then ref_loop t (cstr (drop 2 path)) (Some node) (Some node)
      else ref_loop t (cstr path) (Some node) None)"

definition ndxml_recursive_getval :: "ndxml \<Rightarrow> nat list \<Rightarrow> byte list \<Rightarrow> byte list option option" where
  "ndxml_recursive_getval t node path = do {
     r \<leftarrow> ndxml_recursive_ref t node path;
     (case r of None \<Rightarrow> Some None | Some p \<Rightarrow> do { n \<leftarrow> node_at t p; Some (ndxml_getval n) })
   }"

definition ndxml_recursive_setval :: "ndxml \<Rightarrow> nat list \<Rightarrow> byte list \<Rightarrow> byte list option \<Rightarrow> (int \<times> ndxml) option" where
  "ndxml_recursive_setval t node path v = do {
     r \<leftarrow> ndxml_recursive_ref t node path;
     (case r of
        None \<Rightarrow> Some (-1, t)
      | Some p \<Rightarrow> do { n \<leftarrow> node_at t p; (c, m) \<leftarrow> ndxml_setval n v; Some (c, replace_at t p m) })
   }"

text \<open>The text behind the last dot, unless a slash follows it.\<close>

definition get_attrname_from_path :: "byte list \<Rightarrow> byte list option" where
  "get_attrname_from_path path =
     (case dropWhile (\<lambda>b. b \<noteq> 0x2E \<and> b \<noteq> 0x2F) (rev path) of
        [] \<Rightarrow> None
      | b # _ \<Rightarrow> if b = 0x2E then Some (rev (takeWhile (\<lambda>b. b \<noteq> 0x2E \<and> b \<noteq> 0x2F) (rev path))) else None)"

definition ndxml_recursive_getattr :: "ndxml \<Rightarrow> nat list \<Rightarrow> byte list \<Rightarrow> byte list option option" where
  "ndxml_recursive_getattr t node path = (case get_attrname_from_path path of
     None \<Rightarrow> Some None
   | Some a \<Rightarrow> do {
       r \<leftarrow> ndxml_recursive_ref t node path;
       (case r of None \<Rightarrow> Some None | Some p \<Rightarrow> do { n \<leftarrow> node_at t p; ndxml_getattr_val n a })
     })"

definition ndxml_recursive_setattr :: "ndxml \<Rightarrow> nat list \<Rightarrow> byte list \<Rightarrow> byte list option \<Rightarrow> (int \<times> ndxml) option" where
  "ndxml_recursive_setattr t node path v = (case get_attrname_from_path path of
     None \<Rightarrow> Some (-1, t)
   | Some a \<Rightarrow> do {
       r \<leftarrow> ndxml_recursive_ref t node path;
       (case r of
          None \<Rightarrow> Some (-1, t)
        | Some p \<Rightarrow> do { n \<leftarrow> node_at t p; (c, m) \<leftarrow> ndxml_setattrval n a v; Some (c, replace_at t p m) })
     })"

section \<open>Brothers\<close>

text \<open>The operations below take pointers to nodes of one tree \<open>t\<close>; a pointer compares equal to another one iff the paths are equal.\<close>

definition ndxml_get_index :: "nat list \<Rightarrow> nat list \<Rightarrow> int" where
  "ndxml_get_index parent child = (if child \<noteq> [] \<and> butlast child = parent then int (last child) else -1)"

definition ndxml_get_myindex :: "nat list \<Rightarrow> int" where
  "ndxml_get_myindex p = (case ndxml_get_parent p of None \<Rightarrow> -1 | Some parent \<Rightarrow> ndxml_get_index parent p)"

definition ndxml_big_brother :: "nat list \<Rightarrow> nat list option" where
  "ndxml_big_brother p = (case ndxml_get_parent p of
     None \<Rightarrow> None
   | Some parent \<Rightarrow> if last p \<noteq> 0 then Some (parent @ [last p - 1]) else None)"

definition ndxml_little_brother :: "ndxml \<Rightarrow> nat list \<Rightarrow> nat list option option" where
  "ndxml_little_brother t p = (case ndxml_get_parent p of
     None \<Rightarrow> Some None
   | Some parent \<Rightarrow> do {
       n \<leftarrow> node_at t parent;
       Some (if last p + 1 < length (lst_sub n) then Some (parent @ [last p + 1]) else None)
     })"

definition insert_at :: "nat \<Rightarrow> 'a \<Rightarrow> 'a list \<Rightarrow> 'a list" where
  "insert_at i x xs = take i xs @ x # drop i xs"

text \<open>A new child at a position of the node at a path.\<close>

definition put_child :: "ndxml \<Rightarrow> nat list \<Rightarrow> ndxml \<Rightarrow> (nat \<Rightarrow> nat) \<Rightarrow> (int \<times> ndxml) option" where
  "put_child t parent new i = do {
     n \<leftarrow> node_at t parent;
     Some (0, replace_at t parent (set_subs (sub_num n + 1) (insert_at (i (length (lst_sub n))) new (lst_sub n)) n))
   }"

definition ndxml_insert_after :: "ndxml \<Rightarrow> nat list \<Rightarrow> ndxml \<Rightarrow> nat list \<Rightarrow> (int \<times> ndxml) option" where
  "ndxml_insert_after t parent new brother =
     (if brother = parent then put_child t parent new (\<lambda>_. 0)
      else if ndxml_get_parent brother \<noteq> Some parent then Some (-1, t)
      else put_child t parent new (\<lambda>_. last brother + 1))"

definition ndxml_insert_before :: "ndxml \<Rightarrow> nat list \<Rightarrow> ndxml \<Rightarrow> nat list \<Rightarrow> (int \<times> ndxml) option" where
  "ndxml_insert_before t parent new brother =
     (if brother = parent then put_child t parent new (\<lambda>k. k)
      else if ndxml_get_parent brother \<noteq> Some parent then Some (-1, t)
      else put_child t parent new (\<lambda>_. last brother))"

text \<open>A root has no parent and is in no list, so unlinking it changes nothing.\<close>

definition ndxml_unlink :: "ndxml \<Rightarrow> nat list \<Rightarrow> nat list option \<Rightarrow> (int \<times> ndxml) option" where
  "ndxml_unlink t p xmlParent =
     (case (if xmlParent = None then ndxml_get_parent p else xmlParent) of
        None \<Rightarrow> Some (0, t)
      | Some parent \<Rightarrow> do {
          n \<leftarrow> node_at t parent;
          if ndxml_get_parent p = Some parent \<and> last p < length (lst_sub n) then
            Some (0, replace_at t parent (set_subs (sub_num n - 1) (delete_at (last p) (lst_sub n)) n))
          else Some (-1, t)
        })"

text \<open>Without a parent the node itself is freed (no tree is left), and yet the result is -1.\<close>

definition ndxml_delxml :: "ndxml \<Rightarrow> nat list \<Rightarrow> nat list option \<Rightarrow> (int \<times> ndxml option) option" where
  "ndxml_delxml t p xmlParent =
     (case (if xmlParent = None then ndxml_get_parent p else xmlParent) of
        None \<Rightarrow> Some (-1, None)
      | Some parent \<Rightarrow> do { (r, t) \<leftarrow> ndxml_unlink t p (Some parent); Some (if r = 0 then 0 else -1, Some t) })"

section \<open>Well-formed trees\<close>

text \<open>The blocks of a node are as large as the node says, and names and texts are strings.\<close>

definition attr_wf :: "ndxml_attr \<Rightarrow> bool" where
  "attr_wf a \<longleftrightarrow> 0 \<in> set (take (unat (name_size a)) (attr_block a)) \<and> unat (name_size a) + unat (value_size a) \<le> length (attr_block a)"

definition node_wf :: "ndxml \<Rightarrow> bool" where
  "node_wf n \<longleftrightarrow> (case xvalue n of None \<Rightarrow> True | Some blk \<Rightarrow> val_size n \<le> length blk) \<and> (\<forall>a \<in> set (lst_attr n). attr_wf a)"

lemma alloc_attr_wf:
  assumes "0 \<notin> set name" "length name < 65532" "length v < 65532"
  shows "attr_wf (alloc_attrib_node name v)"
proof -
  let ?l = "ROUND4 (length name + 4)" and ?v = "ROUND4 (length v + 4)"
  have l: "length name < ?l" "?l < 2 ^ 16" "length v < ?v" "?v < 2 ^ 16"
    using ROUND4_more [of "length name"] ROUND4_more [of "length v"] assms(2,3) by auto
  have "unat (of_nat ?l :: u16) = ?l" "unat (of_nat ?v :: u16) = ?v" using l by (auto intro: unat_of_nat_eq)
  then show ?thesis using l by (simp add: attr_wf_def alloc_attrib_node_def Let_def)
qed

text \<open>Storing a value in an attribute keeps its name and gives the value back.\<close>

lemma store_attr_ok:
  assumes "attr_wf a" "0 \<notin> set s" "length (attr_name a) < 65532" "length s < 65532"
  shows "\<exists>a'. store_attr a s = Some a' \<and> attr_wf a' \<and> attr_name a' = attr_name a \<and> attr_value a' = s"
proof (cases "length s + 1 > unat (value_size a)")
  case True
  have "0 \<notin> set (attr_name a)" by (simp add: attr_name_def c_text_nonzero)
  then show ?thesis using True alloc_attr_wf [of "attr_name a" s] alloc_attrib_sel [of "attr_name a" s] assms by (simp add: store_attr_def)
next
  case False
  let ?k = "unat (name_size a)" and ?b = "attr_block a"
  let ?nb = "take ?k ?b @ cstr s @ drop (?k + length (cstr s)) ?b"
  have fit: "?k + length (cstr s) \<le> length ?b" using False assms(1) by (simp add: attr_wf_def)
  then have "store_attr a s = Some (a\<lparr>attr_block := ?nb\<rparr>)" using False by (simp add: store_attr_def mem_write_def)
  moreover have "attr_name (a\<lparr>attr_block := ?nb\<rparr>) = attr_name a"
  proof -
    have z: "0 \<in> set (take ?k ?b)" using assms(1) by (simp add: attr_wf_def)
    have c: "c_text (take ?k ?b @ x) = c_text (take ?k ?b)" for x unfolding c_text_def by (rule takeWhile_append1 [OF z]) simp
    have "attr_name a = c_text (take ?k ?b @ drop ?k ?b)" by (simp add: attr_name_def)
    then show ?thesis unfolding c by (simp add: attr_name_def c)
  qed
  moreover have "attr_value (a\<lparr>attr_block := ?nb\<rparr>) = s" using fit assms(2) by (simp add: attr_value_def c_text_append)
  moreover have "attr_wf (a\<lparr>attr_block := ?nb\<rparr>)" using assms(1) fit by (auto simp: attr_wf_def)
  ultimately show ?thesis by blast
qed

section \<open>Attributes are a map\<close>

definition same_name :: "byte list \<Rightarrow> byte list \<Rightarrow> bool" where
  "same_name s t \<longleftrightarrow> map to_big s = map to_big t"

lemma stricmp_same:
  assumes "0 \<notin> set s" "0 \<notin> set t"
  shows "\<exists>r. ndstricmp (cstr s) (cstr t) = Some r \<and> (r = 0 \<longleftrightarrow> same_name s t)"
  using ndstricmp_correct [OF assms, of "[]" "[]"] by (simp add: same_name_def)

lemma attr_name_nonzero: "0 \<notin> set (attr_name a)"
  by (simp add: attr_name_def c_text_nonzero)

lemma find_attr_names: "map attr_name as = map attr_name bs \<Longrightarrow> find_attr name as i = find_attr name bs i"
proof (induction as arbitrary: bs i)
  case (Cons a as)
  then obtain b bs' where "bs = b # bs'" "attr_name a = attr_name b" "map attr_name as = map attr_name bs'" by (cases bs) auto
  moreover have "find_attr name as (i + 1) = find_attr name bs' (i + 1)" using Cons.IH calculation(3) by blast
  ultimately show ?case by (simp only: find_attr.simps)
qed simp

lemma find_attr_same:
  assumes "0 \<notin> set m" "0 \<notin> set name" "same_name m name"
  shows "find_attr m as i = find_attr name as i"
proof (induction as arbitrary: i)
  case (Cons a as)
  obtain r s where "ndstricmp (cstr m) (cstr (attr_name a)) = Some r" "r = 0 \<longleftrightarrow> same_name m (attr_name a)"
    "ndstricmp (cstr name) (cstr (attr_name a)) = Some s" "s = 0 \<longleftrightarrow> same_name name (attr_name a)"
    using stricmp_same [OF assms(1) attr_name_nonzero] stricmp_same [OF assms(2) attr_name_nonzero] by blast
  moreover have "same_name m (attr_name a) \<longleftrightarrow> same_name name (attr_name a)" using assms(3) by (simp add: same_name_def)
  ultimately show ?case using Cons.IH by simp
qed simp

lemma find_attr_spec:
  assumes "0 \<notin> set name"
  shows "\<exists>r. find_attr name as i = Some r \<and> (case r of
    None \<Rightarrow> \<forall>a \<in> set as. \<not> same_name name (attr_name a)
  | Some j \<Rightarrow> i \<le> j \<and> j - i < length as \<and> same_name name (attr_name (as ! (j - i))))"
proof (induction as arbitrary: i)
  case (Cons a as)
  obtain r where r: "ndstricmp (cstr name) (cstr (attr_name a)) = Some r" "r = 0 \<longleftrightarrow> same_name name (attr_name a)"
    using stricmp_same [OF assms attr_name_nonzero] by blast
  obtain x where x: "find_attr name as (i + 1) = Some x" "case x of
    None \<Rightarrow> \<forall>a \<in> set as. \<not> same_name name (attr_name a)
  | Some j \<Rightarrow> i + 1 \<le> j \<and> j - (i + 1) < length as \<and> same_name name (attr_name (as ! (j - (i + 1))))" using Cons.IH by blast
  show ?case
  proof (cases "r = 0")
    case False
    have "(a # as) ! (j - i) = as ! (j - (i + 1))" if "i + 1 \<le> j" for j
    proof -
      have "j - i = Suc (j - (i + 1))" using that by simp
      then show ?thesis by (simp only: nth_Cons_Suc)
    qed
    then show ?thesis using False r x by (auto split: option.splits)
  qed (use r in auto)
qed simp

lemma find_attr_append:
  assumes "0 \<notin> set name"
  shows "find_attr name (as @ [a]) i = (case find_attr name as i of Some None \<Rightarrow> (if same_name name (attr_name a) then Some (Some (i + length as)) else Some None) | r \<Rightarrow> r)"
proof (induction as arbitrary: i)
  case Nil
  then show ?case using stricmp_same [OF assms attr_name_nonzero [of a]] by auto
next
  case (Cons b as)
  obtain r where "ndstricmp (cstr name) (cstr (attr_name b)) = Some r" using stricmp_same [OF assms attr_name_nonzero [of b]] by blast
  then show ?case using Cons.IH by (auto split: option.splits)
qed

lemma find_attr_spec0:
  assumes "0 \<notin> set name"
  obtains r where "find_attr name as 0 = Some r" "case r of
    None \<Rightarrow> \<forall>a \<in> set as. \<not> same_name name (attr_name a)
  | Some j \<Rightarrow> j < length as \<and> same_name name (attr_name (as ! j))"
proof -
  obtain r where "find_attr name as 0 = Some r" "case r of None \<Rightarrow> \<forall>a \<in> set as. \<not> same_name name (attr_name a)
    | Some j \<Rightarrow> 0 \<le> j \<and> j - 0 < length as \<and> same_name name (attr_name (as ! (j - 0)))" using find_attr_spec [OF assms, of as 0] by blast
  then show thesis using that by (cases r) auto
qed

text \<open>The value of an attribute by its position.\<close>

definition val_at :: "ndxml_attr list \<Rightarrow> nat option option \<Rightarrow> byte list option option" where
  "val_at as r = map_option (\<lambda>i. case i of None \<Rightarrow> None | Some i \<Rightarrow> null_if_empty (attr_value (as ! i))) r"

lemma getattr_val_at: "ndxml_getattr_val n name = val_at (lst_attr n) (find_attr name (lst_attr n) 0)"
  by (cases "find_attr name (lst_attr n) 0") (simp_all add: ndxml_getattr_val_def ndxml_getattrib_def val_at_def)

text \<open>C34. Attributes are a map. Setting an attribute to a text that is not empty succeeds inside the memory of the node; reading the attribute
  then gives the text, whatever the case of the letters of the name, and every other attribute keeps its value.\<close>

theorem xml_attr_set_get:
  assumes "node_wf n" "0 \<notin> set name" "length name < 65532" "v \<noteq> []" "0 \<notin> set v" "length v < 65532"
    "\<forall>a \<in> set (lst_attr n). length (attr_name a) < 65532"
  shows "\<exists>n'. ndxml_setattrval n name (Some v) = Some (0, n') \<and> node_wf n' \<and>
    (\<forall>m. 0 \<notin> set m \<longrightarrow> ndxml_getattr_val n' m = (if same_name m name then Some (Some v) else ndxml_getattr_val n m))"
proof -
  obtain r where r: "find_attr name (lst_attr n) 0 = Some r" "case r of
      None \<Rightarrow> \<forall>a \<in> set (lst_attr n). \<not> same_name name (attr_name a)
    | Some j \<Rightarrow> j < length (lst_attr n) \<and> same_name name (attr_name (lst_attr n ! j))" by (rule find_attr_spec0 [OF assms(2)])
  have tr: "same_name m a \<longleftrightarrow> same_name m b" if "same_name a b" for m a b using that by (auto simp: same_name_def)
  show ?thesis
  proof (cases r)
    case None
    let ?a = "alloc_attrib_node name v"
    have a: "attr_name ?a = name" "attr_value ?a = v" "attr_wf ?a" using alloc_attrib_sel alloc_attr_wf assms by auto
    have "ndxml_setattrval n name (Some v) = Some (0, add_attr ?a n)"
      using r(1) None assms(4) by (simp add: ndxml_setattrval_def ndxml_getattrib_def ndxml_addattrib_def)
    moreover have "node_wf (add_attr ?a n)" using assms(1) a(3) by (auto simp: node_wf_def add_attr_def split: option.splits)
    moreover have "ndxml_getattr_val (add_attr ?a n) m = (if same_name m name then Some (Some v) else ndxml_getattr_val n m)" if m: "0 \<notin> set m" for m
    proof -
      obtain x where x: "find_attr m (lst_attr n) 0 = Some x" "case x of
          None \<Rightarrow> \<forall>a \<in> set (lst_attr n). \<not> same_name m (attr_name a)
        | Some j \<Rightarrow> j < length (lst_attr n) \<and> same_name m (attr_name (lst_attr n ! j))" by (rule find_attr_spec0 [OF m])
      have "x = None" if "same_name m name" using x(2) r(2) None tr that by (auto simp: same_name_def split: option.splits)
      then show ?thesis using x a(1,2) assms(4)
        by (auto simp: getattr_val_at add_attr_def val_at_def find_attr_append [OF m] nth_append null_if_empty_def split: option.splits)
    qed
    ultimately show ?thesis by blast
  next
    case (Some j)
    then have j: "j < length (lst_attr n)" "same_name name (attr_name (lst_attr n ! j))" using r(2) by auto
    obtain a' where a': "store_attr (lst_attr n ! j) v = Some a'" "attr_wf a'" "attr_name a' = attr_name (lst_attr n ! j)" "attr_value a' = v"
      using store_attr_ok [of "lst_attr n ! j" v] assms j(1) by (auto simp: node_wf_def)
    let ?n = "set_attrs (attr_num n) ((lst_attr n)[j := a']) n"
    have "ndxml_setattrval n name (Some v) = Some (0, ?n)" using r(1) Some assms(4) a'(1) by (simp add: ndxml_setattrval_def ndxml_getattrib_def)
    moreover have "node_wf ?n" using assms(1) a'(2) by (auto simp: node_wf_def set_attrs_def dest: set_update_subset_insert [THEN subsetD] split: option.splits)
    moreover have "ndxml_getattr_val ?n m = (if same_name m name then Some (Some v) else ndxml_getattr_val n m)" if m: "0 \<notin> set m" for m
    proof -
      have "map attr_name ((lst_attr n)[j := a']) = map attr_name (lst_attr n)" using a'(3) by (simp add: map_update) (metis list_update_id map_update)
      then have f: "find_attr m ((lst_attr n)[j := a']) 0 = find_attr m (lst_attr n) 0" by (rule find_attr_names)
      have f': "find_attr m (lst_attr n) 0 = find_attr name (lst_attr n) 0" if "same_name m name" by (rule find_attr_same [OF m assms(2) that])
      obtain x where x: "find_attr m (lst_attr n) 0 = Some x" "case x of
          None \<Rightarrow> \<forall>a \<in> set (lst_attr n). \<not> same_name m (attr_name a)
        | Some j \<Rightarrow> j < length (lst_attr n) \<and> same_name m (attr_name (lst_attr n ! j))" by (rule find_attr_spec0 [OF m])
      have nj: "x \<noteq> Some j" if "\<not> same_name m name" using x(2) j(2) that by (auto simp: same_name_def)
      show ?thesis
      proof (cases "same_name m name")
        case True
        then show ?thesis using f f' r(1) Some j(1) a'(4) assms(4) by (simp add: getattr_val_at set_attrs_def val_at_def null_if_empty_def)
      next
        case False
        then show ?thesis using f x(1) nj by (cases x) (auto simp: getattr_val_at set_attrs_def val_at_def nth_list_update)
      qed
    qed
    ultimately show ?thesis by blast
  qed
qed

theorem xml_attr_set_get_witness:
  "\<exists>n'. ndxml_setattrval sample_xml (lit ''k'') (Some (lit ''new'')) = Some (0, n') \<and> node_wf n' \<and>
    (\<forall>m. 0 \<notin> set m \<longrightarrow> ndxml_getattr_val n' m = (if same_name m (lit ''k'') then Some (Some (lit ''new'')) else ndxml_getattr_val sample_xml m))"
proof -
  have "node_wf sample_xml" by (simp add: sample_xml_defs node_wf_def attr_wf_def)
  moreover have "\<forall>a \<in> set (lst_attr sample_xml). length (attr_name a) < 65532" by (simp add: sample_xml_defs)
  ultimately show ?thesis by (intro xml_attr_set_get) (simp_all add: lit_def)
qed

section \<open>Paths\<close>

text \<open>What a path text depends on: the names of the nodes and their places.\<close>

datatype skeleton = Sk "byte list" "skeleton list"

fun skel :: "ndxml \<Rightarrow> skeleton" where
  "skel (Ndxml nm v vs an as sn subs) = Sk nm (map skel subs)"

lemma skel_sel: "skel n = Sk (xname n) (map skel (lst_sub n))"
  by (cases n) simp

lemma skel_eqD: "skel n = skel m \<Longrightarrow> xname n = xname m \<and> length (lst_sub n) = length (lst_sub m) \<and> (\<forall>i < length (lst_sub n). skel (lst_sub n ! i) = skel (lst_sub m ! i))"
  unfolding skel_sel [of n] skel_sel [of m] by (auto simp: list_eq_iff_nth_eq)

lemma node_at_skel: "skel t = skel u \<Longrightarrow> rel_option (\<lambda>n m. skel n = skel m) (node_at t p) (node_at u p)"
proof (induction p arbitrary: t u)
  case (Cons i p)
  then show ?case using skel_eqD [OF Cons.prems] by auto
qed simp

lemma find_sub_skel: "map skel cs = map skel ds \<Longrightarrow> find_sub name cs i = find_sub name ds i"
proof (induction cs arbitrary: ds i)
  case (Cons c cs)
  then obtain d ds' where d: "ds = d # ds'" "skel c = skel d" "map skel cs = map skel ds'" by (cases ds) auto
  have "name_block c = name_block d" using skel_eqD [OF d(2)] by (simp add: name_block_def)
  moreover have "find_sub name cs (i + 1) = find_sub name ds' (i + 1)" using Cons.IH d(3) by blast
  ultimately show ?case by (simp only: d(1) find_sub.simps)
qed simp

lemma child_of_skel:
  assumes "skel t = skel u"
  shows "child_of t p name = child_of u p name"
proof (cases "node_at t p")
  case None
  then show ?thesis using node_at_skel [OF assms, of p] by (cases "node_at u p") (auto simp: child_of_def)
next
  case (Some n)
  then obtain m where m: "node_at u p = Some m" "skel n = skel m" using node_at_skel [OF assms, of p] by (cases "node_at u p") auto
  have "map skel (lst_sub n) = map skel (lst_sub m)" using m(2) unfolding skel_sel [of n] skel_sel [of m] by simp
  from find_sub_skel [OF this, of name 0] show ?thesis using Some m(1) by (simp add: child_of_def ndxml_getnode_def)
qed

lemma ref_loop_skel:
  assumes "skel t = skel u"
  shows "ref_loop t p node ret = ref_loop u p node ret"
proof (induction p arbitrary: node ret rule: measure_induct_rule [of length])
  case (less p)
  show ?case
  proof (cases p)
    case Nil
    then show ?thesis by (simp add: ref_loop.simps)
  next
    case (Cons a q)
    have ih: "ref_loop t r nd x = ref_loop u r nd x"
      if "ndstr_nstr_ansi (if a = 0x2F then q else a # q) 0x2F 128 = Some (r, name)" "name \<noteq> []" for r name nd x
      using less.IH [of r] nstr_ansi_shorter [OF that(1)] that(2) by (cases name) (auto simp: Cons split: if_splits)
    show ?thesis unfolding Cons
      by (subst (1 2) ref_loop.simps)
        (auto simp: lit_def child_of_skel [OF assms] Let_def ih split: option.splits intro!: Option.bind_cong)
  qed
qed

lemma ref_skel:
  assumes "skel t = skel u"
  shows "ndxml_recursive_ref t node path = ndxml_recursive_ref u node path"
  by (simp add: ndxml_recursive_ref_def ref_loop_skel [OF assms])

lemma replace_at_ok:
  "node_at t p = Some n \<Longrightarrow> skel m = skel n \<Longrightarrow> skel (replace_at t p m) = skel t \<and> node_at (replace_at t p m) p = Some m"
proof (induction p arbitrary: t)
  case (Cons i p)
  then have i: "i < length (lst_sub t)" "node_at (lst_sub t ! i) p = Some n" by (auto split: if_splits)
  have ih: "skel (replace_at (lst_sub t ! i) p m) = skel (lst_sub t ! i)" "node_at (replace_at (lst_sub t ! i) p m) p = Some m" using Cons.IH [OF i(2) Cons.prems(2)] by auto
  have "map skel ((lst_sub t)[i := replace_at (lst_sub t ! i) p m]) = map skel (lst_sub t)" using ih(1) i(1) by (simp add: map_update list_update_same_conv)
  then show ?case using ih(2) i(1) by (simp add: skel_sel [of t] set_subs_def)
qed simp

text \<open>C35. A value set by a path is what the same path reads. When setting the value of the node a path leads to succeeds, the same path leads to the
  same node of the changed tree and gives the new value.\<close>

theorem xml_path_set_get:
  assumes "ndxml_recursive_setval t node path (Some v) = Some (0, t')" "0 \<notin> set v"
  shows "ndxml_recursive_getval t' node path = Some (Some v) \<and> ndxml_recursive_ref t' node path = ndxml_recursive_ref t node path"
proof -
  obtain p n m where r: "ndxml_recursive_ref t node path = Some (Some p)" "node_at t p = Some n" "ndxml_setval n (Some v) = Some (0, m)" "t' = replace_at t p m"
    using assms(1) by (auto simp: ndxml_recursive_setval_def split: bind_splits option.splits)
  obtain blk where blk: "m = set_value (Some blk) (val_size n) n" "c_text blk = v" "v \<noteq> []"
    using r(3) assms(2) by (auto simp: ndxml_setval_def Let_def mem_write_def c_text_append split: if_splits bind_splits)
  have "skel m = skel n" by (simp add: blk(1) skel_sel [of n] set_value_def)
  then have t': "skel t' = skel t" "node_at t' p = Some m" using replace_at_ok [OF r(2)] r(4) by auto
  have "ndxml_getval m = Some v" using blk by (simp add: ndxml_getval_def has_value_def set_value_def)
  then show ?thesis using ref_skel [OF t'(1)] r(1) t'(2) by (simp add: ndxml_recursive_getval_def)
qed

theorem xml_path_set_get_witness:
  "\<exists>t'. ndxml_recursive_setval sample_xml [] (lit ''b'') (Some (lit ''ho'')) = Some (0, t') \<and> 
    ndxml_recursive_getval t' [] (lit ''b'') = Some (Some (lit ''ho'')) \<and>
    ndxml_recursive_ref t' [] (lit ''b'') = ndxml_recursive_ref sample_xml [] (lit ''b'')"
proof -
  have "ndxml_recursive_setval sample_xml [] (lit ''b'') (Some (lit ''ho'')) =
    Some (0, Ndxml (lit ''a'') None 0 1 [alloc_attrib_node (lit ''k'') (lit ''x<y'')] 1 [Ndxml (lit ''b'') (Some (lit ''ho'' @ [0, 0])) 4 0 [] 0 []])"
    by code_simp
  then show ?thesis using xml_path_set_get [of sample_xml "[]" "lit ''b''" "lit ''ho''"] by (simp add: lit_def)
qed

text \<open>A node put behind or before a brother is found at that place, and unlinking it again restores the tree.\<close>

lemma delete_insert: "i \<le> length xs \<Longrightarrow> delete_at i (insert_at i x xs) = xs"
  by (simp add: delete_at_def insert_at_def)

lemma replace_at_twice: "node_at t p = Some n \<Longrightarrow> replace_at (replace_at t p m) p m' = replace_at t p m'"
  by (induction p arbitrary: t) (auto simp: set_subs_def split: if_splits)

lemma replace_at_same: "node_at t p = Some n \<Longrightarrow> replace_at t p n = t"
proof (induction p arbitrary: t)
  case (Cons i p)
  then have "(lst_sub t)[i := replace_at (lst_sub t ! i) p n] = lst_sub t" by (auto split: if_splits)
  then show ?case by (cases t) (simp add: set_subs_def)
qed simp

lemma unlink_put_child:
  assumes "put_child t parent new i = Some (0, t')" "i (length (lst_sub n)) \<le> length (lst_sub n)" "node_at t parent = Some n"
  shows "node_at t' (parent @ [i (length (lst_sub n))]) = Some new \<and>
    ndxml_unlink t' (parent @ [i (length (lst_sub n))]) None = Some (0, t)"
proof -
  let ?i = "i (length (lst_sub n))" and ?m = "set_subs (sub_num n + 1) (insert_at (i (length (lst_sub n))) new (lst_sub n)) n"
  have t': "t' = replace_at t parent ?m" using assms(1,3) by (simp add: put_child_def)
  have m: "node_at t' parent = Some ?m" unfolding t' using assms(3)
    by (induction parent arbitrary: t) (auto simp: set_subs_def split: if_splits)
  have sub: "lst_sub ?m ! ?i = new" "?i < length (lst_sub ?m)" using assms(2) by (simp_all add: set_subs_def insert_at_def nth_append)
  have "node_at t' (parent @ [?i]) = Some new" using m sub
    by (induction parent arbitrary: t') (auto split: if_splits)
  moreover have "set_subs (sub_num ?m - 1) (delete_at ?i (lst_sub ?m)) ?m = n" using assms(2) by (cases n) (simp add: set_subs_def delete_insert)
  then have "ndxml_unlink t' (parent @ [?i]) None = Some (0, t)"
    using m sub(2) replace_at_twice [OF assms(3)] replace_at_same [OF assms(3)] by (simp add: ndxml_unlink_def ndxml_get_parent_def t')
  ultimately show ?thesis ..
qed

section \<open>Copies\<close>

fun strip_empty :: "xtree \<Rightarrow> xtree" where
  "strip_empty (XT nm v as subs) = XT nm v (filter (\<lambda>(a, b). b \<noteq> []) as) (map strip_empty subs)"

text \<open>Names fit their arrays and sizes.\<close>

fun names_fit :: "ndxml \<Rightarrow> bool" where
  "names_fit (Ndxml nm v vs an as sn subs) \<longleftrightarrow> length nm \<le> MAX_XMLNAME_SIZE \<and> (\<forall>a \<in> set as. attr_name a \<noteq> [] \<and> length (attr_name a) < 65532) \<and> (\<forall>c \<in> set subs. names_fit c)"

lemma c_text_pad: "0 \<notin> set s \<Longrightarrow> 0 < k \<Longrightarrow> c_text (s @ replicate k 0) = s"
  by (cases k) (simp_all add: c_text_append)

lemma copy_attrs_ok:
  assumes "k \<le> length (lst_attr n)" "\<forall>a \<in> set (lst_attr n). attr_name a \<noteq> [] \<and> length (attr_name a) < 65532"
  shows "xname (copy_attrs n k new) = xname new \<and> xvalue (copy_attrs n k new) = xvalue new \<and> lst_sub (copy_attrs n k new) = lst_sub new \<and>
    map (\<lambda>a. (attr_name a, attr_value a)) (lst_attr (copy_attrs n k new)) = map (\<lambda>a. (attr_name a, attr_value a)) (lst_attr new) @
      filter (\<lambda>(a, b). b \<noteq> []) (map (\<lambda>a. (attr_name a, attr_value a)) (take k (lst_attr n)))"
  using assms(1)
proof (induction k)
  case (Suc k)
  let ?a = "lst_attr n ! k"
  have a: "attr_name ?a \<noteq> []" "length (attr_name ?a) < 65532" using assms(2) Suc.prems by auto
  have z: "0 \<notin> set (attr_value ?a)" by (simp add: attr_value_def c_text_nonzero)
  have "take (Suc k) (lst_attr n) = take k (lst_attr n) @ [?a]" using Suc.prems by (simp add: take_Suc_conv_app_nth)
  moreover have "ndxml_getattr_name n (int k) = Some (attr_name ?a)" "ndxml_getattr_vali n (int k) = null_if_empty (attr_value ?a)"
    using Suc.prems a(1) by (simp_all add: ndxml_getattr_name_def ndxml_getattr_vali_def ndxml_getattribi_def null_if_empty_def)
  ultimately show ?case using Suc alloc_attrib_sel [OF attr_name_nonzero z a(2)]
    by (auto simp: ndxml_addattrib_def null_if_empty_def add_attr_def)
qed simp

text \<open>A copy of a tree means the same as the tree except that it lacks the attributes with an empty value, at every level.\<close>

theorem xml_copy_meaning:
  assumes "xml_wf n" "names_fit n"
  shows "xml_abs (ndxml_copy n) = strip_empty (xml_abs n)"
  using assms
proof (induction n)
  case (Ndxml nm v vs an as sn subs)
  let ?n = "Ndxml nm v vs an as sn subs" and ?c = "create_xmlnode nm (map_option c_text v)"
  have c: "xname ?c = nm" "value_text ?c = (case v of None \<Rightarrow> [] | Some blk \<Rightarrow> c_text blk)" "lst_attr ?c = []" "lst_sub ?c = []"
    using Ndxml.prems(2) ROUND4_more(1) by (auto simp: create_xmlnode_def set_value_def value_text_def Let_def c_text_pad c_text_nonzero split: option.splits)
  have k: "nat an = length as" "nat sn = length subs" using Ndxml.prems(1) by auto
  have "\<forall>a \<in> set (lst_attr ?n). attr_name a \<noteq> [] \<and> length (attr_name a) < 65532" using Ndxml.prems(2) by auto
  note cp = copy_attrs_ok [of "nat an" ?n ?c, OF _ this]
  have "map xml_abs (map ndxml_copy subs) = map strip_empty (map xml_abs subs)" using Ndxml.IH Ndxml.prems by auto
  then show ?case using cp c k by (simp add: xml_abs_sel [of "fold _ _ _"] fold_add_sub value_text_def Let_def)
qed

theorem xml_copy_meaning_witness: "xml_abs (ndxml_copy sample_xml) = strip_empty (xml_abs sample_xml)"
proof -
  have "xml_wf sample_xml" "names_fit sample_xml" by (simp_all add: sample_xml_defs)
  then show ?thesis by (rule xml_copy_meaning)
qed

end
