(* ===== verification/Xml_File.thy ===== *)
theory Xml_File
  imports Xml_Tree
begin

text \<open>
  Loading of XML files (\<^verbatim>\<open>src/nd_common/src/nd_xml.c\<close>). What \<open>ndxml_save\<close> writes is loaded back; and texts on which loading goes wrong.
  \<open>gbk_to_utf8\<close> and \<open>utf8_to_gbk\<close> are the conversions of the system's library that \<open>nd_iconv.c\<close> calls (\<open>iconv\<close>); \<open>None\<close> is a failure.
\<close>

section \<open>Loading\<close>

definition xml_set_code_type :: "nat \<Rightarrow> ndxml \<Rightarrow> (int \<times> nat) option" where
  "xml_set_code_type code root = do {
     p \<leftarrow> ndxml_getattr_val root (lit ''encoding'');
     (case p of
        None \<Rightarrow> Some (-1, code)
      | Some p \<Rightarrow> do {
          t \<leftarrow> nd_get_encode_val (cstr p);
          let (old, new) = ndstr_set_code code t;
          Some (int old, new)
        })
   }"

text \<open>The part behind the choice of the encoding: the text is parsed and the old encoding set again. Results: the return value, the root
  and the encoding.\<close>

definition load_with :: "int \<Rightarrow> nat \<Rightarrow> byte list \<Rightarrow> int \<Rightarrow> ndxml \<Rightarrow> (int \<times> ndxml \<times> nat) option" where
  "load_with codeType code buf sz root = do {
     (r, root) \<leftarrow> xml_load_from_buf code buf sz root;
     Some (r, root, if codeType \<noteq> -1 then snd (ndstr_set_code code (nat codeType)) else code)
   }"

text \<open>The conversion between two encodings, if there is one.\<close>

type_synonym convert = "byte list \<Rightarrow> byte list option"

definition nd_get_code_convert :: "convert \<Rightarrow> convert \<Rightarrow> nat \<Rightarrow> nat \<Rightarrow> convert option" where
  "nd_get_code_convert gbk_to_utf8 utf8_to_gbk fromType toType =
     (if toType = E_SRC_CODE_UTF_8 \<and> fromType \<noteq> E_SRC_CODE_UTF_8 then Some gbk_to_utf8
      else if toType \<noteq> E_SRC_CODE_UTF_8 \<and> fromType = E_SRC_CODE_UTF_8 then Some utf8_to_gbk
      else None)"

definition ndxml_load_from_buf ::
  "convert \<Rightarrow> convert \<Rightarrow> nat \<Rightarrow> byte list \<Rightarrow> int \<Rightarrow> byte list option \<Rightarrow> (int \<times> ndxml \<times> nat) option" where
  "ndxml_load_from_buf gbk_to_utf8 utf8_to_gbk code buf sz toEnc = do {
     (r, root) \<leftarrow> xml_parse_fileinfo code init_xml_node buf;
     if r = -1 then Some (-1, init_xml_node, code)
     else do {
       enc \<leftarrow> ndxml_getattr_val root (lit ''encoding'');
       (case enc of
          None \<Rightarrow> load_with (-1) code buf sz root
        | Some e \<Rightarrow>
            if toEnc \<noteq> None \<and> toEnc \<noteq> Some [] then do {
              nText \<leftarrow> nd_get_encode_val (cstr e);
              nNeed \<leftarrow> nd_get_encode_val (cstr (the toEnc));
              (case nd_get_code_convert gbk_to_utf8 utf8_to_gbk nText nNeed of
                 None \<Rightarrow> load_with (int code) nNeed buf sz root
               | Some f \<Rightarrow> (case f buf of
                   None \<Rightarrow> Some (-1, root, code)
                 | Some b \<Rightarrow> do {
                     s \<leftarrow> c_string b;
                     (_, root) \<leftarrow> ndxml_setattrval root (lit ''encoding'') toEnc;
                     load_with (int code) nNeed b (int (length s)) root
                   }))
            }
            else do {
              (old, new) \<leftarrow> xml_set_code_type code root;
              load_with old new buf sz root
            })
     }
   }"

section \<open>Headers\<close>

lemma ndstrstr_skip:
  "pat = a # r \<Longrightarrow> a \<notin> set s \<Longrightarrow> 0 \<notin> set s \<Longrightarrow> ndstrstr (s @ pat @ x) pat = Some (Some (pat @ x))"
  by (induction s) auto

lemma ndstrchr_skip: "c \<notin> set s \<Longrightarrow> 0 \<notin> set s \<Longrightarrow> ndstrchr (s @ c # x) c = Some (Some (c # x))"
  by (induction s) auto

text \<open>Texts of single-byte characters that can stand between quotes in a header.\<close>

definition header_text :: "byte list \<Rightarrow> bool" where
  "header_text s \<longleftrightarrow> (\<forall>b \<in> set s. b \<noteq> 0 \<and> b < 0x80 \<and> b \<noteq> 0x22 \<and> b \<noteq> 0x3F)"

text \<open>The attributes of a header, as names and values, and their text.\<close>

definition hdr_pairs :: "(byte list \<times> byte list) list \<Rightarrow> byte list" where
  "hdr_pairs ps = concat (map (\<lambda>(n, v). 0x20 # n @ 0x3D # 0x22 # v @ [0x22]) ps)"

definition pairs_ok :: "(byte list \<times> byte list) list \<Rightarrow> bool" where
  "pairs_ok ps \<longleftrightarrow> (\<forall>(n, v) \<in> set ps. name_ok n \<and> header_text v \<and> length v < 1024)"

definition attr_pairs :: "ndxml \<Rightarrow> (byte list \<times> byte list) list" where
  "attr_pairs n = map (\<lambda>a. (attr_name a, attr_value a)) (lst_attr n)"

definition add_pairs :: "(byte list \<times> byte list) list \<Rightarrow> ndxml \<Rightarrow> ndxml" where
  "add_pairs ps root = fold (\<lambda>(n, v). add_attr (alloc_attrib_node n v)) ps root"

lemma hdr_pairs_Cons [simp]: "hdr_pairs ((n, v) # ps) = 0x20 # n @ 0x3D # 0x22 # v @ 0x22 # hdr_pairs ps" "hdr_pairs [] = []"
  by (simp_all add: hdr_pairs_def)

lemma hdr_pairs_plain: "pairs_ok ps \<Longrightarrow> 0x3F \<notin> set (hdr_pairs ps) \<and> 0 \<notin> set (hdr_pairs ps)"
  using name_charD(1,9) by (induction ps) (fastforce simp: pairs_ok_def header_text_def name_ok_def)+

lemma add_pairs_sel:
  "lst_attr (add_pairs ps root) = lst_attr root @ map (\<lambda>(n, v). alloc_attrib_node n v) ps" "lst_sub (add_pairs ps root) = lst_sub root"
  by (induction ps arbitrary: root) (auto simp: add_pairs_def add_attr_def)

lemma add_pairs_init: "pairs_ok ps \<Longrightarrow> attr_pairs (add_pairs ps init_xml_node) = ps"
proof -
  assume p: "pairs_ok ps"
  have "attr_name (alloc_attrib_node n v) = n \<and> attr_value (alloc_attrib_node n v) = v" if "(n, v) \<in> set ps" for n v
  proof -
    have "name_ok n" "0 \<notin> set v" using p that by (auto simp: pairs_ok_def header_text_def)
    then show ?thesis using name_okD [of n] alloc_attrib_sel [of n v] by simp
  qed
  then show ?thesis by (auto simp: attr_pairs_def add_pairs_sel init_xml_node_def intro!: map_idI)
qed

text \<open>Reading an attribute depends on the names and values only.\<close>

lemma getattr_val_pairs:
  assumes "attr_pairs m = attr_pairs n" "0 \<notin> set name"
  shows "ndxml_getattr_val m name = ndxml_getattr_val n name"
proof -
  have l: "map attr_name (lst_attr m) = map attr_name (lst_attr n)" "map attr_value (lst_attr m) = map attr_value (lst_attr n)" "length (lst_attr m) = length (lst_attr n)"
    using arg_cong [OF assms(1), of "map fst"] arg_cong [OF assms(1), of "map snd"] arg_cong [OF assms(1), of length] by (simp_all add: attr_pairs_def comp_def)
  obtain r where r: "find_attr name (lst_attr n) 0 = Some r" "case r of None \<Rightarrow> True | Some j \<Rightarrow> j < length (lst_attr n)"
    by (rule find_attr_spec0 [OF assms(2), of "lst_attr n"]) (auto split: option.splits)
  moreover have "attr_value (lst_attr m ! j) = attr_value (lst_attr n ! j)" if "j < length (lst_attr n)" for j
    using arg_cong [OF l(2), of "\<lambda>xs. xs ! j"] that l(3) by simp
  ultimately show ?thesis by (auto simp: getattr_val_at find_attr_names [OF l(1)] val_at_def split: option.splits)
qed

lemma ascii_len: "b < 0x80 \<Longrightarrow> word_len code b = 1"
  by (auto simp: word_len_def)

lemma header_attrib:
  assumes "name_ok nm" "header_text v" "length v < 1024" "length x > length pEnd" "white w"
  shows "fileinfo_attribs code (w @ nm @ 0x3D # 0x22 # v @ 0x22 # x) pEnd root = fileinfo_attribs code x pEnd (add_attr (alloc_attrib_node nm v) root)"
proof -
  let ?p = "nm @ 0x3D # 0x22 # v @ 0x22 # x"
  obtain b t where b: "nm = b # t" "name_char b" using assms(1) by (cases nm) (auto simp: name_ok_def)
  have fv: "ndstr_first_valid (w @ ?p) = Some (Some ?p)"
    using white_skip [of w ?p] first_valid_here [OF name_charD(2) [OF b(2)]] assms(5) by (simp add: b(1) white_def del: ndstr_first_valid.simps)
  have w: "ndstr_parse_word code ?p = Some (Some (0x3D # 0x22 # v @ 0x22 # x), nm)"
    using parse_word_name [OF assms(1), of "0x3D" code "0x22 # v @ 0x22 # x"] by (simp add: tag_stop_def)
  have "copy_words code (\<lambda>a. a = 0x22) None (v @ 0x22 # x) = Some (v, 0x22 # x)"
    using assms(2) by (intro copy_words_plain) (auto simp: header_text_def ascii_len)
  then have "ndstr_str_end code (v @ 0x22 # x) 0x22 = Some (0x22 # x, v)" by (simp add: ndstr_str_end_def)
  moreover have "c_text v = v" using assms(2) by (intro c_text_id) (auto simp: header_text_def)
  ultimately show ?thesis using fv w assms(3,4) name_okD [OF assms(1)] by (subst fileinfo_attribs.simps) (simp add: c_text_id)
qed

lemma header_attribs:
  assumes "pairs_ok ps" "white w" "e = 0x3F # 0x3E # x"
  shows "fileinfo_attribs code (w @ hdr_pairs ps @ 0x20 # e) e root = Some (0, add_pairs ps root)"
  using assms(1,2)
proof (induction ps arbitrary: w root)
  case Nil
  have "ndstr_first_valid (w @ 0x20 # e) = Some (Some e)" using white_skip [of w "0x20 # e"] Nil.prems by (simp add: white_def assms(3))
  then show ?case
    by (subst fileinfo_attribs.simps)
      (simp add: add_pairs_def ndstr_parse_word_def latin_or_digit_def IS_NUMERALS_def IS_BIG_LATIN_def IS_LITTLE_LATIN_def ptr_or_null_def assms(3) del: ndstr_first_valid.simps)
next
  case (Cons a ps)
  obtain n v where a: "a = (n, v)" by (cases a) auto
  have ok: "name_ok n" "header_text v" "length v < 1024" "pairs_ok ps" using Cons.prems(1) by (auto simp: a pairs_ok_def)
  have "white (w @ [0x20])" "white []" using Cons.prems(2) by (auto simp: white_def)
  then show ?case
    using header_attrib [OF ok(1,2,3), of e "hdr_pairs ps @ 0x20 # e" "w @ [0x20]" code root] Cons.IH [OF ok(4), of "[]"] by (simp add: a add_pairs_def)
qed

lemma fileinfo_header:
  assumes "pairs_ok ps" "white w"
  shows "xml_parse_fileinfo code root (lit ''<?xml'' @ w @ hdr_pairs ps @ lit '' ?>'' @ x) = Some (0, add_pairs ps root)"
proof -
  have lits: "lit ''<?xml'' = [0x3C, 0x3F, 0x78, 0x6D, 0x6C]" "lit '' ?>'' = [0x20, 0x3F, 0x3E]" "lit ''<?'' = [0x3C, 0x3F]" "lit ''xml'' = [0x78, 0x6D, 0x6C]" "lit ''?>'' = [0x3F, 0x3E]"
    by (simp_all add: lit_def)
  let ?e = "0x3F # 0x3E # x"
  have "0x3F \<notin> set (w @ hdr_pairs ps @ [0x20])" "0 \<notin> set (w @ hdr_pairs ps @ [0x20])" using hdr_pairs_plain [OF assms(1)] assms(2) by (auto simp: white_def)
  then have "ndstrstr (w @ hdr_pairs ps @ 0x20 # ?e) [0x3F, 0x3E] = Some (Some ?e)" using ndstrstr_skip [OF refl, of "0x3F" "w @ hdr_pairs ps @ [0x20]" "[0x3E]" x] by simp
  then show ?thesis unfolding lits by (simp add: xml_parse_fileinfo_def lits header_attribs [OF assms refl])
qed

section \<open>A header in front of an element\<close>

lemma parse_children_shift:
  "length X = length Y + k \<Longrightarrow> parse_children fuel code X sz p node err = parse_children fuel code Y (sz - int k) p node err"
proof (induction fuel arbitrary: p node err)
  case (Suc fuel)
  have "sz - (int (length X) - int (length p)) = sz - int k - (int (length Y) - int (length p))" using Suc.prems by simp
  moreover have "parse_children fuel code X sz = parse_children fuel code Y (sz - int k)" by (intro ext) (rule Suc.IH [OF Suc.prems])
  ultimately show ?case unfolding parse_children.simps by (simp only:)
qed simp

text \<open>An element behind a header is parsed as if it started the text.\<close>

lemma parse_behind_header:
  assumes "0x3F \<notin> set h" "0 \<notin> set h" "white w" "b \<noteq> 0x3F" "b \<noteq> 0x21" "int (length h + 4 + length w) < sz" and Y: "Y = w @ 0x3C # b # p"
  shows "parse_xmlbuf (Suc fuel) code (0x3C # 0x3F # h @ 0x3F # 0x3E # Y) sz err = parse_xmlbuf (Suc fuel) code Y (sz - int (length h + 4)) None"
proof -
  let ?X = "0x3C # 0x3F # h @ 0x3F # 0x3E # Y" and ?k = "length h + 4"
  have "lit ''?>'' = [0x3F, 0x3E]" by (simp add: lit_def)
  then have "ndstrstr (h @ 0x3F # 0x3E # Y) (lit ''?>'') = Some (Some (0x3F # 0x3E # Y))" using ndstrstr_skip [OF refl assms(1,2), of "[0x3E]" Y] by simp
  then have "parse_marked (length ?X) sz ?X err = parse_marked (length ?X) sz Y (Some ?X)" using assms(6) by (subst parse_marked.simps) auto
  also have "\<dots> = Some (Some (0x3C # b # p), None)"
    unfolding Y using assms(3,4,5,6) by (intro parse_marked_at) (auto simp: white_def)
  finally have m: "parse_marked (length ?X) sz ?X err = Some (Some (0x3C # b # p), None)" .
  have m2: "parse_marked (length Y) (sz - int ?k) Y None = Some (Some (0x3C # b # p), None)"
    unfolding Y using assms(3,4,5,6) by (intro parse_marked_at) (auto simp: white_def)
  have l: "length ?X = length Y + ?k" by simp
  have "parse_head code ?X sz err = parse_head code Y (sz - int ?k) None" using m m2 by (simp only: parse_head_def bind.bind_lunit prod.case option.case)
  moreover have "parse_children fuel code ?X sz = parse_children fuel code Y (sz - int ?k)" by (intro ext) (rule parse_children_shift [OF l])
  ultimately show ?thesis by (simp only: parse_xmlbuf.simps)
qed

section \<open>Files\<close>

abbreviation file_text :: "nat \<Rightarrow> ndxml list \<Rightarrow> byte list" where
  "file_text code cs \<equiv> concat (map (\<lambda>c. xml_text code indent [10] c 0 @ [10]) cs)"

lemma indent_white: "white (indent d)"
  by (auto simp: white_def indent_def)

lemma load_elements:
  assumes "\<forall>c \<in> set cs. xml_printable code c" "white w" "int (length (w @ file_text code cs)) \<le> sz" "length cs < fuel"
  shows "\<exists>ns. xml_load_loop fuel code sz (w @ file_text code cs @ [0]) err root = Some (0, fold add_sub ns root) \<and> map xml_abs ns = map xml_abs cs \<and> (\<forall>n \<in> set ns. xml_wf n)"
  using assms
proof (induction cs arbitrary: w fuel err root)
  case Nil
  obtain k where k: "fuel = Suc k" using Nil.prems(4) by (cases fuel) auto
  have "ndstr_first_valid (w @ [0]) = Some None" using white_skip [of w "[0]"] Nil.prems(2) by (simp add: white_def)
  then show ?case by (intro exI [of _ "[]"]) (simp add: k xml_load_round_def)
next
  case (Cons c cs)
  let ?t = "xml_text code indent [10] c 0" and ?r = "[10] @ file_text code cs @ [0]"
  obtain k where k: "fuel = Suc k" using Cons.prems(4) by (cases fuel) auto
  obtain b r where br: "?t = 0x3C # b # r" using text_not_mark Cons.prems(1) by fastforce
  have fv: "ndstr_first_valid (w @ ?t @ ?r) = Some (Some (?t @ ?r))" using white_skip [of w "?t @ ?r"] Cons.prems(2) by (simp add: white_def br)
  obtain n e where n: "parse_xmlbuf (length (?t @ ?r) + 2) code ([] @ ?t @ ?r) sz err = Some (Some n, At ?r, e)" "xml_abs n = xml_abs c" "xml_wf n"
    using parse_xml_text [of code c "[]" "[10]" indent 0 sz "length (?t @ ?r) + 2" ?r err] Cons.prems(1,3) indent_white by (auto simp: white_def)
  obtain ns where ns: "xml_load_loop k code sz ?r e (add_sub n root) = Some (0, fold add_sub ns (add_sub n root))" "map xml_abs ns = map xml_abs cs" "\<forall>n \<in> set ns. xml_wf n"
    using Cons.IH [of "[10]" k e "add_sub n root"] Cons.prems k by (auto simp: white_def)
  then show ?case using fv n by (intro exI [of _ "n # ns"]) (simp add: k xml_load_round_def del: ndstr_first_valid.simps parse_xmlbuf.simps)
qed

definition build_encoding :: "nat \<Rightarrow> byte list" where
  "build_encoding code = (if code = E_SRC_CODE_GBK then lit ''GBK'' else if code = E_SRC_CODE_UTF_8 then lit ''utf-8'' else lit ''ANSI'')"

lemma build_encoding_ok:
  assumes "code \<le> 2"
  shows "header_text (build_encoding code)" "build_encoding code \<noteq> []" "length (build_encoding code) < 1024" "nd_get_encode_val (cstr (build_encoding code)) = Some code"
proof -
  have "code = 0 \<or> code = 1 \<or> code = 2" using assms by auto
  then show "header_text (build_encoding code)" "build_encoding code \<noteq> []" "length (build_encoding code) < 1024" "nd_get_encode_val (cstr (build_encoding code)) = Some code"
    by (auto simp: build_encoding_def header_text_def lit_def nd_get_encode_val_def cstring_def to_big_def IS_LITTLE_LATIN_def LITTLE_2_BIG_def Let_def)
qed

text \<open>What \<open>ndxml_save\<close> stores as the attributes of the file: those of the root, or version and encoding when it has none.\<close>

definition saved_attrs :: "nat \<Rightarrow> ndxml \<Rightarrow> (byte list \<times> byte list) list" where
  "saved_attrs code root = (if lst_attr root = [] then [(lit ''version'', lit ''1.0''), (lit ''encoding'', build_encoding code)] else attr_pairs root)"

text \<open>Roots whose attributes can stand in a header, which is written without escapes: names of the parser, values of single-byte characters without
  quotes and question marks, below the sizes of the arrays, and an encoding, if there is one, that is the one in use.\<close>

definition root_savable :: "nat \<Rightarrow> ndxml \<Rightarrow> bool" where
  "root_savable code root \<longleftrightarrow> pairs_ok (attr_pairs root) \<and> length (hdr_pairs (attr_pairs root)) < 4096 \<and>
     (case ndxml_getattr_val root (lit ''encoding'') of Some (Some e) \<Rightarrow> nd_get_encode_val (cstr e) = Some code | _ \<Rightarrow> True)"

lemma save_attrs_text:
  "fits b (hdr_pairs (map (\<lambda>a. (attr_name a, attr_value a)) as)) \<Longrightarrow> ended b \<Longrightarrow>
    \<exists>b'. save_attrs as b = Some b' \<and> printed b (hdr_pairs (map (\<lambda>a. (attr_name a, attr_value a)) as)) b' \<and> ended b'"
proof (induction as arbitrary: b)
  case Nil
  then show ?case by (simp add: printed_Nil)
next
  case (Cons a as)
  let ?t = "lit '' '' @ attr_name a @ lit ''=\"'' @ attr_value a @ lit ''\"''" and ?r = "hdr_pairs (map (\<lambda>a. (attr_name a, attr_value a)) as)"
  have e: "hdr_pairs (map (\<lambda>a. (attr_name a, attr_value a)) (a # as)) = ?t @ ?r" by (simp add: lit_def)
  obtain b1 where b1: "print_at ?t b = Some b1" "printed b ?t b1" "ended b1" "fits b1 ?r" using print_step [OF Cons.prems(1) [unfolded e]] by blast
  obtain b2 where b2: "save_attrs as b1 = Some b2" "printed b1 ?r b2" "ended b2" using Cons.IH [OF b1(4,3)] by blast
  show ?case unfolding e using b1(1) b2 printed_append [OF b1(2) b2(2)] by simp
qed

lemma saved_header:
  assumes "\<forall>c \<in> set (lst_sub root). xml_printable code c \<and> xml_wf c" "0 \<notin> set h" "h \<noteq> []"
  shows "ndxml_save_ex code root h = Some (lit ''<?xml '' @ h @ lit '' ?>'' @ [10] @ file_text code (lst_sub root))"
proof -
  have "xml_write_subs code (lst_sub root) 0 = Some (file_text code (lst_sub root))" using xml_write_text(2) [OF assms(1), of 0] by (simp add: indent_def)
  moreover have "lit '' ?>\<newline>'' = lit '' ?>'' @ [10]" by (simp add: lit_def)
  ultimately show ?thesis using assms(3) by (simp add: ndxml_save_ex_def)
qed

lemma save_text:
  assumes "code \<le> 2" "root_savable code root" "\<forall>c \<in> set (lst_sub root). xml_printable code c \<and> xml_wf c"
  shows "\<exists>w. white w \<and> ndxml_save (build_encoding code) code root =
    Some (lit ''<?xml'' @ w @ hdr_pairs (saved_attrs code root) @ lit '' ?>'' @ [10] @ file_text code (lst_sub root))"
proof -
  have cs: "c_string buf = Some h" if "take p buf = h" "p < length buf" "buf ! p = 0" "0 \<notin> set h" for buf h p
  proof -
    have "buf = h @ 0 # drop (Suc p) buf" using id_take_nth_drop [OF that(2)] that(1,3) by simp
    moreover have "c_string (h @ 0 # x) = Some h" for x using c_text_append [OF that(4), of x] by (simp add: c_string_def)
    ultimately show ?thesis by metis
  qed
  have lx: "lit ''<?xml '' = lit ''<?xml'' @ [0x20]" by (simp add: lit_def)
  let ?b = "(replicate 4096 0, 0, 4096) :: out_buf"
  have wn: "white []" "white [0x20]" by (simp_all add: white_def)
  show ?thesis
  proof (cases "lst_attr root = []")
    case True
    let ?h = "lit ''version=\"1.0\" encoding=\"'' @ build_encoding code @ lit ''\"''"
    note enc = build_encoding_ok [OF assms(1)]
    have z: "0 \<notin> set ?h" "?h \<noteq> []" using enc(1) by (auto simp: lit_def header_text_def)
    have f: "fits ?b (?h @ [])" using enc(3) by (simp add: fits_def lit_def)
    obtain b where b': "print_at ?h ?b = Some b" "printed ?b ?h b" "ended b" using print_step [OF f] by blast
    obtain buf p sz where e: "b = (buf, p, sz)" by (cases b) auto
    note b = b' [unfolded e]
    have "c_string buf = Some ?h" by (rule cs [of p]) (use b(2,3) z in \<open>auto simp: printed_def ended_def\<close>)
    moreover have "hd (replicate 4096 (0 :: byte)) = 0" by simp
    ultimately have "ndxml_save (build_encoding code) code root = Some (lit ''<?xml '' @ ?h @ lit '' ?>'' @ [10] @ file_text code (lst_sub root))"
      using True b(1) saved_header [OF assms(3) z] by (simp add: ndxml_save_def)
    moreover have "lit ''<?xml '' @ ?h = lit ''<?xml'' @ [] @ hdr_pairs (saved_attrs code root)" using True by (simp add: saved_attrs_def lit_def)
    ultimately show ?thesis using wn(1) append_assoc by metis
  next
    case False
    let ?h = "hdr_pairs (attr_pairs root)"
    have p: "pairs_ok (attr_pairs root)" "length ?h < 4096" using assms(2) by (auto simp: root_savable_def)
    obtain a as where a: "lst_attr root = a # as" using False by (cases "lst_attr root") auto
    then obtain t where t: "?h = 0x20 # t" by (simp add: attr_pairs_def)
    have f: "fits ?b ?h" "ended ?b" using p(2) by (simp_all add: fits_def ended_def)
    obtain b where b': "save_attrs (lst_attr root) ?b = Some b" "printed ?b ?h b" "ended b"
      using save_attrs_text [OF f(1) [unfolded attr_pairs_def] f(2)] unfolding attr_pairs_def by blast
    obtain buf q sz where e: "b = (buf, q, sz)" by (cases b) auto
    note b = b' [unfolded e]
    have q: "take q buf = ?h" using b(2) by (auto simp: printed_def)
    have "c_string buf = Some ?h" by (rule cs [OF q]) (use b(3) hdr_pairs_plain [OF p(1)] in \<open>auto simp: ended_def\<close>)
    moreover have "hd buf \<noteq> 0" using q t by (cases buf; cases q) auto
    ultimately have "ndxml_save (build_encoding code) code root = Some (lit ''<?xml '' @ ?h @ lit '' ?>'' @ [10] @ file_text code (lst_sub root))"
      using b(1) saved_header [OF assms(3), of ?h] hdr_pairs_plain [OF p(1)] t by (simp add: ndxml_save_def)
    moreover have "lit ''<?xml '' @ ?h = lit ''<?xml'' @ [0x20] @ hdr_pairs (saved_attrs code root)" using False by (simp add: saved_attrs_def lx)
    ultimately show ?thesis using wn(2) append_assoc by metis
  qed
qed

lemma saved_attrs_ok:
  assumes "code \<le> 2" "root_savable code root"
  shows "pairs_ok (saved_attrs code root)"
proof -
  have "name_ok (lit ''version'')" "name_ok (lit ''encoding'')" "header_text (lit ''1.0'')" "length (lit ''1.0'') < 1024"
    by (simp_all add: name_ok_def name_char_def latin_or_digit_def IS_LITTLE_LATIN_def lit_def header_text_def)
  then show ?thesis using build_encoding_ok [OF assms(1)] assms(2) by (auto simp: saved_attrs_def root_savable_def pairs_ok_def)
qed

text \<open>The loaded root names no encoding or the one in use.\<close>

lemma load_encoding:
  assumes "code \<le> 2" "root_savable code root" "attr_pairs r = saved_attrs code root"
  shows "\<exists>enc. ndxml_getattr_val r (lit ''encoding'') = Some enc \<and> (\<forall>e. enc = Some e \<longrightarrow> nd_get_encode_val (cstr e) = Some code)"
proof (cases "lst_attr root = []")
  case True
  let ?r = "add_pairs (saved_attrs code root) init_xml_node"
  note enc = build_encoding_ok [OF assms(1)]
  have "attr_pairs r = attr_pairs ?r" using add_pairs_init [OF saved_attrs_ok [OF assms(1,2)]] assms(3) by simp
  moreover have z: "0 \<notin> set (lit ''encoding'')" by (simp add: lit_def)
  moreover have "ndxml_getattr_val ?r (lit ''encoding'') = Some (Some (build_encoding code))"
  proof -
    have "0 \<notin> set (build_encoding code)" using enc(1) by (auto simp: header_text_def)
    then have "attr_name (alloc_attrib_node (lit ''version'') (lit ''1.0'')) = lit ''version''" "attr_name (alloc_attrib_node (lit ''encoding'') (build_encoding code)) = lit ''encoding''"
      "attr_value (alloc_attrib_node (lit ''encoding'') (build_encoding code)) = build_encoding code" using alloc_attrib_sel by (simp_all add: lit_def)
    then show ?thesis using enc(2) True
      by (simp add: saved_attrs_def add_pairs_def ndxml_getattr_val_def ndxml_getattrib_def add_attr_def init_xml_node_def null_if_empty_def lit_def to_big_def IS_LITTLE_LATIN_def LITTLE_2_BIG_def Let_def)
  qed
  ultimately show ?thesis using getattr_val_pairs [of r ?r "lit ''encoding''"] enc(4) by simp
next
  case False
  then have "ndxml_getattr_val r (lit ''encoding'') = ndxml_getattr_val root (lit ''encoding'')"
    using getattr_val_pairs [of r root "lit ''encoding''"] assms(3) by (simp add: saved_attrs_def lit_def)
  moreover have "0 \<notin> set (lit ''encoding'')" by (simp add: lit_def)
  then obtain i where "find_attr (lit ''encoding'') (lst_attr root) 0 = Some i" using find_attr_spec0 by blast
  then have "ndxml_getattr_val root (lit ''encoding'') = Some (case i of None \<Rightarrow> None | Some i \<Rightarrow> null_if_empty (attr_value (lst_attr root ! i)))" by (simp add: getattr_val_at val_at_def)
  ultimately show ?thesis using assms(2) by (auto simp: root_savable_def split: option.splits)
qed

lemma load_with_encoding:
  assumes "xml_parse_fileinfo code init_xml_node buf = Some (0, r)" "ndxml_getattr_val r (lit ''encoding'') = Some enc"
    "\<forall>e. enc = Some e \<longrightarrow> nd_get_encode_val (cstr e) = Some code" "xml_load_from_buf code buf sz r = Some (res, root')"
  shows "ndxml_load_from_buf gbk_to_utf8 utf8_to_gbk code buf sz None = Some (res, root', code)"
  using assms by (cases enc) (simp_all add: ndxml_load_from_buf_def xml_set_code_type_def load_with_def ndstr_set_code_def)

lemma file_text_length: "length cs \<le> length (file_text code cs)"
  by (induction cs) auto

text \<open>The elements behind a header, and a header with nothing behind it.\<close>

lemma load_behind_header:
  assumes "0x3F \<notin> set h" "0 \<notin> set h" "\<forall>c \<in> set (d # cs). xml_printable code c" and X: "X = 0x3C # 0x3F # h @ 0x3F # 0x3E # [10] @ file_text code (d # cs) @ [0]"
  shows "\<exists>ns. xml_load_from_buf code X (int (length X) - 1) r = Some (0, fold add_sub ns r) \<and> map xml_abs ns = map xml_abs (d # cs)"
proof -
  define rest where "rest = [10] @ file_text code cs @ [0]"
  define Y where "Y = [10] @ xml_text code indent [10] d 0 @ rest"
  have X': "X = 0x3C # 0x3F # h @ 0x3F # 0x3E # Y" by (simp add: X Y_def rest_def)
  have pc: "xml_printable code d" "\<forall>c \<in> set cs. xml_printable code c" using assms(3) by auto
  obtain b q where bq: "xml_text code indent [10] d 0 = 0x3C # b # q" "name_char b" using text_not_mark [OF pc(1)] by blast
  let ?sz = "int (length X) - 1" and ?f = "length X + 1"
  have lt: "length X = length h + 5 + length (xml_text code indent [10] d 0) + length rest" using arg_cong [OF X', of length] by (simp add: Y_def)
  have pw: "white [10]" by (simp add: white_def)
  have lY: "int (length ([10] @ xml_text code indent [10] d 0)) \<le> ?sz - int (length h + 4)" "length (xml_text code indent [10] d 0) \<le> Suc ?f"
    using lt by (simp_all add: rest_def)
  obtain n e where n: "parse_xmlbuf (Suc ?f) code Y (?sz - int (length h + 4)) None = Some (Some n, At rest, e)" "xml_abs n = xml_abs d"
    unfolding Y_def using parse_xml_text [of code d "[10]" "[10]" indent, OF pc(1) pw pw indent_white lY] by blast
  have "parse_xmlbuf (Suc ?f) code X ?sz None = parse_xmlbuf (Suc ?f) code Y (?sz - int (length h + 4)) None"
    unfolding X' by (rule parse_behind_header [OF assms(1,2) pw name_charD(9,8) [OF bq(2)]]) (use lt X' bq(1) in \<open>simp_all add: Y_def\<close>)
  then have px: "parse_xmlbuf (length X + 2) code X ?sz None = Some (Some n, At rest, e)" using n(1) by (simp del: parse_xmlbuf.simps)
  have fv: "ndstr_first_valid X = Some (Some X)" unfolding X' by simp
  obtain ns where ns: "xml_load_loop (length X) code ?sz rest e (add_sub n r) = Some (0, fold add_sub ns (add_sub n r))" "map xml_abs ns = map xml_abs cs"
    using load_elements [OF pc(2) pw, of ?sz "length X" e "add_sub n r"] lt file_text_length [of cs code] by (auto simp: rest_def)
  have "xml_load_from_buf code X ?sz r = Some (0, fold add_sub (n # ns) r)"
    using fv px ns(1) by (simp add: xml_load_from_buf_def xml_load_round_def rest_def del: parse_xmlbuf.simps ndstr_first_valid.simps)
  then show ?thesis using ns(2) n(2) by (intro exI [of _ "n # ns"]) simp
qed

lemma load_header_only:
  assumes "0x3F \<notin> set h" "0 \<notin> set h" and X: "X = 0x3C # 0x3F # h @ [0x3F, 0x3E, 10, 0]"
  shows "xml_load_from_buf code X (int (length X) - 1) r = Some (-1, init_xml_node)"
proof -
  let ?sz = "int (length X) - 1"
  have "lit ''?>'' = [0x3F, 0x3E]" by (simp add: lit_def)
  then have "ndstrstr (h @ [0x3F, 0x3E, 10, 0]) (lit ''?>'') = Some (Some [0x3F, 0x3E, 10, 0])" using ndstrstr_skip [OF refl assms(1,2), of "[0x3E]" "[10, 0]"] by simp
  then have "parse_marked (length X) ?sz X None = parse_marked (length X) ?sz [10, 0] (Some X)" unfolding X by (subst parse_marked.simps) auto
  also have "\<dots> = Some (None, Some [10, 0])" unfolding X by (subst parse_marked.simps) simp
  finally have "parse_head code X ?sz None = Some (HDone (None, Null, Some [10, 0]))" by (simp add: parse_head_def)
  moreover have "ndstr_first_valid X = Some (Some X)" unfolding X by simp
  ultimately show ?thesis by (simp add: xml_load_from_buf_def xml_load_round_def del: ndstr_first_valid.simps)
qed

text \<open>C32. What is saved is loaded. Let the elements of a root be printable and its attributes such that they can stand in a header, which is
  written without escapes (\<open>root_savable\<close>: names of the parser; values of single-byte characters without quotes and question marks, shorter than
  1024 bytes, together below 4096; an encoding, if there is one, that is the one in use), and let the encoding in use be that of the build. Then
  \<open>ndxml_save\<close> writes a text. When the root has an element, loading the text succeeds and gives a root with elements of the same meaning, with
  the attributes that were saved (version and encoding for a root without any), and the encoding as before. When it has no element, loading
  fails.\<close>

theorem xml_file_round_trip:
  assumes "code \<le> 2" "root_savable code root" "\<forall>c \<in> set (lst_sub root). xml_printable code c \<and> xml_wf c"
  shows "\<exists>saved root' r. ndxml_save (build_encoding code) code root = Some saved \<and>
    ndxml_load_from_buf gbk_to_utf8 utf8_to_gbk code (cstr saved) (int (length saved)) None = Some (r, root', code) \<and>
    (if lst_sub root = [] then r = -1 \<and> root' = init_xml_node
     else r = 0 \<and> map xml_abs (lst_sub root') = map xml_abs (lst_sub root) \<and> attr_pairs root' = saved_attrs code root)"
proof -
  let ?ps = "saved_attrs code root"
  note ok = saved_attrs_ok [OF assms(1,2)]
  obtain w where w: "white w" and sv: "ndxml_save (build_encoding code) code root =
      Some (lit ''<?xml'' @ w @ hdr_pairs ?ps @ lit '' ?>'' @ [10] @ file_text code (lst_sub root))" using save_text [OF assms] by blast
  define saved where "saved = lit ''<?xml'' @ w @ hdr_pairs ?ps @ lit '' ?>'' @ [10] @ file_text code (lst_sub root)"
  define h where "h = lit ''xml'' @ w @ hdr_pairs ?ps @ [0x20]"
  define r1 where "r1 = add_pairs ?ps init_xml_node"
  have h: "0x3F \<notin> set h" "0 \<notin> set h" using hdr_pairs_plain [OF ok] w by (auto simp: h_def lit_def white_def)
  have X: "cstr saved = 0x3C # 0x3F # h @ 0x3F # 0x3E # [10] @ file_text code (lst_sub root) @ [0]" by (simp add: saved_def h_def lit_def)
  have l: "int (length saved) = int (length (cstr saved)) - 1" by simp
  have fi: "xml_parse_fileinfo code init_xml_node (cstr saved) = Some (0, r1)"
    using fileinfo_header [OF ok w, of code init_xml_node "[10] @ file_text code (lst_sub root) @ [0]"] by (simp add: saved_def r1_def)
  have ap: "attr_pairs r1 = ?ps" unfolding r1_def by (rule add_pairs_init [OF ok])
  obtain enc where enc: "ndxml_getattr_val r1 (lit ''encoding'') = Some enc" "\<forall>e. enc = Some e \<longrightarrow> nd_get_encode_val (cstr e) = Some code"
    using load_encoding [OF assms(1,2) ap] by blast
  note load = load_with_encoding [OF fi enc, unfolded l]
  show ?thesis
  proof (cases "lst_sub root")
    case Nil
    then have "cstr saved = 0x3C # 0x3F # h @ [0x3F, 0x3E, 10, 0]" using X by simp
    from load [OF load_header_only [OF h this]] show ?thesis using sv Nil unfolding saved_def [symmetric] l by auto
  next
    case (Cons c cs)
    have pc: "\<forall>x \<in> set (c # cs). xml_printable code x" using assms(3) Cons by simp
    obtain ns where ns: "xml_load_from_buf code (cstr saved) (int (length (cstr saved)) - 1) r1 = Some (0, fold add_sub ns r1)" "map xml_abs ns = map xml_abs (c # cs)"
      using load_behind_header [OF h pc X [unfolded Cons], of r1] by blast
    have "attr_pairs (fold add_sub ns r1) = ?ps" using ap by (simp add: attr_pairs_def fold_add_sub)
    moreover have "lst_sub (fold add_sub ns r1) = ns" by (simp add: fold_add_sub r1_def add_pairs_sel init_xml_node_def)
    ultimately show ?thesis using load [OF ns(1)] ns(2) sv Cons unfolding saved_def [symmetric] l by auto
  qed
qed

theorem xml_file_round_trip_witness:
  "\<exists>saved root' r. ndxml_save (build_encoding 0) 0 (add_attr (alloc_attrib_node (lit ''k'') (lit ''v'')) (add_sub sample_xml init_xml_node)) = Some saved \<and>
    ndxml_load_from_buf (\<lambda>_. None) (\<lambda>_. None) 0 (cstr saved) (int (length saved)) None = Some (r, root', 0) \<and>
    r = 0 \<and> map xml_abs (lst_sub root') = [xml_abs sample_xml] \<and> attr_pairs root' = [(lit ''k'', lit ''v'')]"
proof -
  let ?root = "add_attr (alloc_attrib_node (lit ''k'') (lit ''v'')) (add_sub sample_xml init_xml_node)"
  have "root_savable 0 ?root" by code_simp
  moreover have "xml_printable 0 sample_xml" "xml_wf sample_xml" by code_simp+
  moreover have "lst_sub ?root = [sample_xml]" by (simp add: add_sub_def add_attr_def init_xml_node_def)
  moreover have "saved_attrs 0 ?root = [(lit ''k'', lit ''v'')]" by code_simp
  ultimately show ?thesis using xml_file_round_trip [of 0 ?root "\<lambda>_. None" "\<lambda>_. None"] by simp
qed

text \<open>C36. A stray end mark. On a text that goes on with an end mark outside of every element every round of the loop of \<open>xml_load_from_buf\<close>
  is done without a fault and leaves the place in the text and the root as they are: after any number of rounds the loop goes on where it
  was, and no number of them ends it.\<close>

theorem xml_load_stuck_at_end_mark:
  assumes "0 < sz"
  shows "xml_load_round code sz (0x3C # 0x2F # p) err root = Some (LGo (0x3C # 0x2F # p) None root) \<and>
    xml_load_rounds (Suc k) code sz (LGo (0x3C # 0x2F # p) err root) = Some (LGo (0x3C # 0x2F # p) None root) \<and>
    xml_load_loop fuel code sz (0x3C # 0x2F # p) err root = None"
proof -
  have "parse_marked (length (0x3C # 0x2F # p)) sz (0x3C # 0x2F # p) err = Some (Some (0x3C # 0x2F # p), None)" for err
    using parse_marked_here [of "[]" "0x2F" sz p err] assms by simp
  then have h: "parse_head code (0x3C # 0x2F # p) sz err = Some (HDone (None, At (0x3C # 0x2F # p), None))" for err
    by (simp add: parse_head_def is_mark_start_def)
  have step: "xml_load_round code sz (0x3C # 0x2F # p) err root = Some (LGo (0x3C # 0x2F # p) None root)" for err
    by (simp add: xml_load_round_def h)
  have "xml_load_rounds (Suc k) code sz (LGo (0x3C # 0x2F # p) err root) = Some (LGo (0x3C # 0x2F # p) None root)" for err
    by (induction k arbitrary: err) (simp_all add: step)
  moreover have "xml_load_loop fuel code sz (0x3C # 0x2F # p) err root = None" for err
    by (induction fuel arbitrary: err) (simp_all add: step)
  ultimately show ?thesis using step by blast
qed

theorem xml_load_stuck_at_end_mark_witness:
  "xml_load_round 0 4 (lit ''</a>'' @ [0]) None init_xml_node = Some (LGo (lit ''</a>'' @ [0]) None init_xml_node) \<and>
    xml_load_rounds (Suc 7) 0 4 (LGo (lit ''</a>'' @ [0]) None init_xml_node) = Some (LGo (lit ''</a>'' @ [0]) None init_xml_node) \<and>
    xml_load_loop 100 0 4 (lit ''</a>'' @ [0]) None init_xml_node = None"
proof -
  have e: "lit ''</a>'' @ [0] = 0x3C # 0x2F # lit ''a>'' @ [0]" by (simp add: lit_def)
  show ?thesis unfolding e by (rule xml_load_stuck_at_end_mark) simp
qed

text \<open>A comment at the end. When a comment and white space are all that is left of a text, loading fails and throws away what it has loaded.\<close>

theorem xml_load_trailing_comment:
  assumes "0x2D \<notin> set c" "0 \<notin> set c" "white w" "int (length c + length w + 7) \<le> sz"
  shows "xml_load_loop (Suc fuel) code sz (lit ''<!--'' @ c @ lit ''-->'' @ w @ [0]) err root = Some (-1, init_xml_node)"
proof -
  let ?p = "lit ''<!--'' @ c @ lit ''-->'' @ w @ [0]"
  have l: "lit ''<!--'' = [0x3C, 0x21, 0x2D, 0x2D]" "lit ''-->'' = [0x2D, 0x2D, 0x3E]" by (simp_all add: lit_def)
  have s: "ndstrstr (c @ lit ''-->'' @ w @ [0]) (lit ''-->'') = Some (Some (lit ''-->'' @ w @ [0]))"
    using ndstrstr_skip [OF l(2) assms(1,2)] .
  have fv: "ndstr_first_valid (w @ [0]) = Some None" using white_skip [of w "[0]"] assms(3) by (simp add: white_def)
  have "parse_marked (length ?p) sz (w @ [0]) e = Some (None, if int (length ?p) - int (length (w @ [0])) < sz then Some (w @ [0]) else e)" for e
    using fv by (subst parse_marked.simps) simp
  then have "\<exists>e. parse_marked (length ?p) sz ?p err = Some (None, Some e)"
    using s assms(4) by (subst parse_marked.simps) (auto simp: l)
  then obtain e where "parse_marked (length ?p) sz ?p err = Some (None, Some e)" ..
  then have "parse_head code ?p sz err = Some (HDone (None, Null, Some e))" by (simp only: parse_head_def bind.bind_lunit prod.case option.case) simp
  moreover have "ndstr_first_valid ?p = Some (Some ?p)" by (simp add: l)
  ultimately show ?thesis by (simp add: xml_load_round_def)
qed

end
