(* ===== verification/Proto_Stream.thy ===== *)
theory Proto_Stream
  imports Net_Packet
begin

text \<open>
  The typed streams of \<^verbatim>\<open>src/ndapplib/nd_protoStream.cpp\<close>, in which the messages of the application library are packed and read, with the
  byte order of \<^verbatim>\<open>include/nd_net/nd_netbyte.h\<close> and the message classes of \<^verbatim>\<open>src/ndapplib/nd_msgpack.cpp\<close>. A value is a marker byte
  with its type and size, followed by its bytes; integers drop their leading zero bytes. A writing stream is a block of memory with a
  position; a reading stream is the bytes between the start and the end of the data with a position. The overloads of \<open>Write\<close> and
  \<open>Read\<close> have the type in their name. A \<open>float\<close> or \<open>double\<close> is its bit pattern.
\<close>

type_synonym u64 = "64 word"

section \<open>Byte order\<close>

definition nd_short_to_netstream :: "u16 \<Rightarrow> byte list" where
  "nd_short_to_netstream w = [ucast (drop_bit 8 w), ucast w]"

definition nd_long_to_netstream :: "u32 \<Rightarrow> byte list" where
  "nd_long_to_netstream w = [ucast (drop_bit 24 w), ucast (drop_bit 16 w), ucast (drop_bit 8 w), ucast w]"

definition nd_longlong_to_netstream :: "u64 \<Rightarrow> byte list" where
  "nd_longlong_to_netstream w = map (\<lambda>k. ucast (drop_bit k w)) [56, 48, 40, 32, 24, 16, 8, 0]"

text \<open>\<open>bytes_val\<close> puts bytes together, the most significant one first.\<close>

fun bytes_val :: "byte list \<Rightarrow> 'a::len word" where
  "bytes_val [] = 0"
| "bytes_val (b # bs) = push_bit (8 * length bs) (ucast b) OR bytes_val bs"

definition nd_netstream_to_short :: "byte list \<Rightarrow> u16" where
  "nd_netstream_to_short bs = bytes_val bs"

definition nd_netstream_to_long :: "byte list \<Rightarrow> u32" where
  "nd_netstream_to_long bs = bytes_val bs"

definition nd_netstream_to_longlong :: "byte list \<Rightarrow> u64" where
  "nd_netstream_to_longlong bs = bytes_val bs"

text \<open>The bytes of a \<open>float\<close> and of a \<open>double\<close> in memory; the host is little-endian.\<close>

definition float_bytes :: "u32 \<Rightarrow> byte list" where
  "float_bytes f = rev (nd_long_to_netstream f)"

definition double_bytes :: "u64 \<Rightarrow> byte list" where
  "double_bytes d = rev (nd_longlong_to_netstream d)"

definition bytes_float :: "byte list \<Rightarrow> u32" where
  "bytes_float bs = bytes_val (rev bs)"

definition bytes_double :: "byte list \<Rightarrow> u64" where
  "bytes_double bs = bytes_val (rev bs)"

text \<open>Positive and negative zero.\<close>

definition float_zero :: "u32 \<Rightarrow> bool" where
  "float_zero f \<longleftrightarrow> f = 0 \<or> f = 0x80000000"

definition double_zero :: "u64 \<Rightarrow> bool" where
  "double_zero d \<longleftrightarrow> d = 0 \<or> d = 0x8000000000000000"

section \<open>Markers\<close>

abbreviation (input) ENDSTREAM_MARKER_INT8 :: byte where "ENDSTREAM_MARKER_INT8 \<equiv> 1"
abbreviation (input) ENDSTREAM_MARKER_INT16 :: byte where "ENDSTREAM_MARKER_INT16 \<equiv> 2"
abbreviation (input) ENDSTREAM_MARKER_INT32 :: byte where "ENDSTREAM_MARKER_INT32 \<equiv> 3"
abbreviation (input) ENDSTREAM_MARKER_INT64 :: byte where "ENDSTREAM_MARKER_INT64 \<equiv> 4"
abbreviation (input) ENDSTREAM_MARKER_FLOAT :: byte where "ENDSTREAM_MARKER_FLOAT \<equiv> 5"
abbreviation (input) ENDSTREAM_MARKER_DOUBLE :: byte where "ENDSTREAM_MARKER_DOUBLE \<equiv> 6"
abbreviation (input) ENDSTREAM_MARKER_TEXT :: byte where "ENDSTREAM_MARKER_TEXT \<equiv> 7"
abbreviation (input) ENDSTREAM_MARKER_BIN :: byte where "ENDSTREAM_MARKER_BIN \<equiv> 8"
abbreviation (input) ENDSTREAM_MARKER_IP :: byte where "ENDSTREAM_MARKER_IP \<equiv> 9"
abbreviation (input) ENDSTREAM_MARKER_IP6 :: byte where "ENDSTREAM_MARKER_IP6 \<equiv> 10"
abbreviation (input) ENDSTREAM_CMD_SKIP_STRUCT_MARK :: byte where "ENDSTREAM_CMD_SKIP_STRUCT_MARK \<equiv> 11"
abbreviation (input) ENDSTREAM_CMD_ENABLE_STRUCT_MARK :: byte where "ENDSTREAM_CMD_ENABLE_STRUCT_MARK \<equiv> 12"

definition NET_STREAM_STRUCT_END_MARK :: byte where "NET_STREAM_STRUCT_END_MARK = 0xff"

section \<open>The writing stream\<close>

text \<open>The block reaches from \<open>_org_start_addr\<close> to \<open>_end\<close>, and \<open>wop\<close> is the offset of \<open>_op_addr\<close>. The stream of a message
  (\<open>NDSendMsg\<close>) overrides \<open>onWriteStream\<close> and counts the bytes in the length field of the header, \<open>msg_length\<close>.\<close>

record wstream =
  wblock :: "byte list"
  wop :: nat
  msg_length :: "u16 option"

definition write_init :: "byte list \<Rightarrow> wstream" where
  "write_init blk = \<lparr>wblock = blk, wop = 0, msg_length = None\<rparr>"

definition write_reset :: "wstream \<Rightarrow> wstream" where
  "write_reset s = s\<lparr>wop := 0\<rparr>"

definition GetFreeLen :: "wstream \<Rightarrow> nat" where
  "GetFreeLen s = length (wblock s) - wop s"

definition GetStreamData :: "wstream \<Rightarrow> nat" where
  "GetStreamData s = wop s"

definition onWriteStream :: "nat \<Rightarrow> wstream \<Rightarrow> wstream" where
  "onWriteStream n s = s\<lparr>msg_length := map_option (\<lambda>l. l + of_nat n) (msg_length s)\<rparr>"

text \<open>The bytes are copied to the position, counted, and the position moves behind them.\<close>

definition put_bytes :: "byte list \<Rightarrow> wstream \<Rightarrow> wstream option" where
  "put_bytes bs s = do {
     blk \<leftarrow> mem_write (wblock s) (wop s) bs;
     Some (onWriteStream (length bs) (s\<lparr>wblock := blk, wop := wop s + length bs\<rparr>))
   }"

definition WriteOrg :: "byte list \<Rightarrow> wstream \<Rightarrow> (int \<times> wstream) option" where
  "WriteOrg bs s =
     (if wop s + length bs \<le> length (wblock s) then do { s \<leftarrow> put_bytes bs s; Some (0, s) } else Some (-1, s))"

definition WriteOrg_u8 :: "byte \<Rightarrow> wstream \<Rightarrow> (int \<times> wstream) option" where
  "WriteOrg_u8 a = WriteOrg [a]"

definition WriteOrg_u16 :: "u16 \<Rightarrow> wstream \<Rightarrow> (int \<times> wstream) option" where
  "WriteOrg_u16 a = WriteOrg (nd_short_to_netstream a)"

definition WriteOrg_u32 :: "u32 \<Rightarrow> wstream \<Rightarrow> (int \<times> wstream) option" where
  "WriteOrg_u32 a = WriteOrg (nd_long_to_netstream a)"

definition WriteOrg_u64 :: "u64 \<Rightarrow> wstream \<Rightarrow> (int \<times> wstream) option" where
  "WriteOrg_u64 a = WriteOrg (nd_longlong_to_netstream a)"

definition WriteOrg_float :: "u32 \<Rightarrow> wstream \<Rightarrow> (int \<times> wstream) option" where
  "WriteOrg_float a = WriteOrg (float_bytes a)"

definition WriteOrg_double :: "u64 \<Rightarrow> wstream \<Rightarrow> (int \<times> wstream) option" where
  "WriteOrg_double a = WriteOrg (double_bytes a)"

definition marker_byte :: "byte \<Rightarrow> nat \<Rightarrow> byte" where
  "marker_byte marker sizebytes = push_bit 4 marker OR (of_nat sizebytes AND 0xf)"

definition writeMarker :: "byte \<Rightarrow> nat \<Rightarrow> wstream \<Rightarrow> (int \<times> wstream) option" where
  "writeMarker marker sizebytes = WriteOrg_u8 (marker_byte marker sizebytes)"

text \<open>A marker and, if it could be written, what follows.\<close>

definition marked :: "byte \<Rightarrow> nat \<Rightarrow> (wstream \<Rightarrow> (int \<times> wstream) option) \<Rightarrow> wstream \<Rightarrow> (int \<times> wstream) option" where
  "marked marker sizebytes w s = do {
     (r, s) \<leftarrow> writeMarker marker sizebytes s;
     if r = -1 then Some (-1, s) else w s
   }"

definition WriteForce_u32 :: "u32 \<Rightarrow> wstream \<Rightarrow> (int \<times> wstream) option" where
  "WriteForce_u32 a = marked ENDSTREAM_MARKER_INT32 4 (WriteOrg_u32 a)"

definition WriteForce_u16 :: "u16 \<Rightarrow> wstream \<Rightarrow> (int \<times> wstream) option" where
  "WriteForce_u16 a = marked ENDSTREAM_MARKER_INT16 2 (WriteOrg_u16 a)"

definition Write_u32 :: "u32 \<Rightarrow> wstream \<Rightarrow> (int \<times> wstream) option" where
  "Write_u32 a =
     (if a = 0 then writeMarker ENDSTREAM_MARKER_INT32 0
      else if a \<le> 0xff then marked ENDSTREAM_MARKER_INT32 1 (WriteOrg_u8 (ucast a))
      else if a \<le> 0xffff then marked ENDSTREAM_MARKER_INT32 2 (WriteOrg_u16 (ucast a))
      else marked ENDSTREAM_MARKER_INT32 4 (WriteOrg_u32 a))"

definition Write_u16 :: "u16 \<Rightarrow> wstream \<Rightarrow> (int \<times> wstream) option" where
  "Write_u16 a =
     (if a = 0 then writeMarker ENDSTREAM_MARKER_INT16 0
      else if a \<le> 0xff then marked ENDSTREAM_MARKER_INT16 1 (WriteOrg_u8 (ucast a))
      else marked ENDSTREAM_MARKER_INT16 2 (WriteOrg_u16 a))"

definition Write_u64 :: "u64 \<Rightarrow> wstream \<Rightarrow> (int \<times> wstream) option" where
  "Write_u64 a =
     (if a = 0 then writeMarker ENDSTREAM_MARKER_INT64 0
      else if a \<le> 0xff then marked ENDSTREAM_MARKER_INT64 1 (WriteOrg_u8 (ucast a))
      else if a \<le> 0xffff then marked ENDSTREAM_MARKER_INT64 2 (WriteOrg_u16 (ucast a))
      else if a \<le> 0xffffffff then marked ENDSTREAM_MARKER_INT64 4 (WriteOrg_u32 (ucast a))
      else marked ENDSTREAM_MARKER_INT64 8 (WriteOrg_u64 a))"

definition Write_float :: "u32 \<Rightarrow> wstream \<Rightarrow> (int \<times> wstream) option" where
  "Write_float a =
     (if float_zero a then writeMarker ENDSTREAM_MARKER_FLOAT 0 else marked ENDSTREAM_MARKER_FLOAT 4 (WriteOrg_float a))"

definition Write_double :: "u64 \<Rightarrow> wstream \<Rightarrow> (int \<times> wstream) option" where
  "Write_double a =
     (if double_zero a then writeMarker ENDSTREAM_MARKER_DOUBLE 0 else marked ENDSTREAM_MARKER_DOUBLE 8 (WriteOrg_double a))"

definition Write_u8 :: "byte \<Rightarrow> wstream \<Rightarrow> (int \<times> wstream) option" where
  "Write_u8 a =
     (if a = 0 then writeMarker ENDSTREAM_MARKER_INT8 0 else marked ENDSTREAM_MARKER_INT8 1 (WriteOrg_u8 a))"

definition SetStructEnd :: "wstream \<Rightarrow> (int \<times> wstream) option" where
  "SetStructEnd = WriteOrg_u8 NET_STREAM_STRUCT_END_MARK"

definition SkipStructEndMark :: "wstream \<Rightarrow> wstream option" where
  "SkipStructEndMark s = do { (_, s) \<leftarrow> writeMarker ENDSTREAM_CMD_SKIP_STRUCT_MARK 0 s; Some s }"

definition EnableStructEndMark :: "wstream \<Rightarrow> wstream option" where
  "EnableStructEndMark s = do { (_, s) \<leftarrow> writeMarker ENDSTREAM_CMD_ENABLE_STRUCT_MARK 0 s; Some s }"

text \<open>A text is a C string without its terminator, or a null pointer. It is copied with its terminator, which 0x7f replaces.\<close>

definition write_text_body :: "byte list \<Rightarrow> wstream \<Rightarrow> (int \<times> wstream) option" where
  "write_text_body t s =
     (let n = length t; free_size = length (wblock s) - wop s in
      if n + 3 \<le> free_size then do {
        (_, s) \<leftarrow> WriteOrg_u16 (of_nat n) s;
        blk \<leftarrow> mem_write (wblock s) (wop s) (t @ [0]);
        blk \<leftarrow> mem_write blk (wop s + n) [0x7f];
        let s = onWriteStream (n + 1) (s\<lparr>wblock := blk\<rparr>);
        Some (0, s\<lparr>wop := wop s + (n + 1)\<rparr>)
      }
      else Some (-1, s))"

definition Write_text :: "byte list option \<Rightarrow> wstream \<Rightarrow> (int \<times> wstream) option" where
  "Write_text text s =
     (if length (wblock s) \<le> wop s then Some (-1, s)
      else if text = None \<or> text = Some [] then writeMarker ENDSTREAM_MARKER_TEXT 0 s
      else marked ENDSTREAM_MARKER_TEXT 1 (write_text_body (the text)) s)"

definition write_bin_body :: "byte list \<Rightarrow> wstream \<Rightarrow> (int \<times> wstream) option" where
  "write_bin_body bs s =
     (if length bs + 2 \<le> length (wblock s) - wop s then do {
        (_, s) \<leftarrow> WriteOrg_u16 (of_nat (length bs)) s;
        s \<leftarrow> put_bytes bs s;
        Some (0, s)
      }
      else Some (-1, s))"

definition WriteBin :: "byte list \<Rightarrow> wstream \<Rightarrow> (int \<times> wstream) option" where
  "WriteBin bs s =
     (if length (wblock s) \<le> wop s \<or> length bs \<ge> GetFreeLen s then Some (-1, s)
      else if length bs = 0 then writeMarker ENDSTREAM_MARKER_BIN 0 s
      else marked ENDSTREAM_MARKER_BIN 1 (write_bin_body bs) s)"

definition WriteStream :: "byte list \<Rightarrow> wstream \<Rightarrow> (int \<times> wstream) option" where
  "WriteStream bs s =
     (if length (wblock s) \<le> wop s \<or> length (wblock s) - wop s < length bs then Some (-1, s)
      else if length bs > 0 then do { s \<leftarrow> put_bytes bs s; Some (0, s) }
      else Some (0, s))"

text \<open>An address: the family and the union, 16 bytes of which an IPv4 address uses four.\<close>

record ndip =
  af_inet :: bool
  ip6 :: "byte list"

definition WriteIp :: "ndip \<Rightarrow> wstream \<Rightarrow> (int \<times> wstream) option" where
  "WriteIp a =
     (if af_inet a then marked ENDSTREAM_MARKER_IP 4 (WriteStream (take 4 (ip6 a)))
      else marked ENDSTREAM_MARKER_IP6 0xf (WriteStream (ip6 a)))"

text \<open>A variant value; a string or binary value may be empty.\<close>

datatype NDVarType =
    ND_VT_INT u32
  | ND_VT_FLOAT u32
  | ND_VT_STRING "byte list"
  | ND_VT_INT8 byte
  | ND_VT_INT16 u16
  | ND_VT_INT64 u64
  | ND_VT_BINARY "byte list"

definition WriteVar :: "NDVarType \<Rightarrow> wstream \<Rightarrow> (int \<times> wstream) option" where
  "WriteVar v = (case v of
     ND_VT_INT a \<Rightarrow> Write_u32 a
   | ND_VT_FLOAT a \<Rightarrow> Write_float a
   | ND_VT_STRING t \<Rightarrow> Write_text (Some t)
   | ND_VT_INT8 a \<Rightarrow> Write_u8 a
   | ND_VT_INT16 a \<Rightarrow> Write_u16 a
   | ND_VT_INT64 a \<Rightarrow> Write_u64 a
   | ND_VT_BINARY bs \<Rightarrow> WriteBin bs)"

section \<open>The reading stream\<close>

record rstream =
  rblock :: "byte list"
  rop :: nat
  struct_end :: bool
  skip_end :: bool
  skip_all :: bool

definition read_init :: "byte list \<Rightarrow> rstream" where
  "read_init blk = \<lparr>rblock = blk, rop = 0, struct_end = False, skip_end = False, skip_all = False\<rparr>"

definition read_reset :: "rstream \<Rightarrow> rstream" where
  "read_reset s = s\<lparr>rop := 0\<rparr>"

definition LeftData :: "rstream \<Rightarrow> int" where
  "LeftData s = int (length (rblock s)) - int (rop s)"

definition CheckStructEnd :: "rstream \<Rightarrow> bool" where
  "CheckStructEnd s \<longleftrightarrow> struct_end s \<or> LeftData s = 0"

definition SetSkipMarker :: "bool \<Rightarrow> rstream \<Rightarrow> bool \<times> rstream" where
  "SetSkipMarker b s = (skip_all s, s\<lparr>skip_all := b\<rparr>)"

definition ReadOrg :: "nat \<Rightarrow> rstream \<Rightarrow> byte list option \<times> rstream" where
  "ReadOrg n s =
     (if rop s + n \<le> length (rblock s) then (Some (take n (drop (rop s) (rblock s))), s\<lparr>rop := rop s + n\<rparr>) else (None, s))"

definition ReadOrg_u8 :: "rstream \<Rightarrow> byte option \<times> rstream" where
  "ReadOrg_u8 s = (let (b, s) = ReadOrg 1 s in (map_option hd b, s))"

definition ReadOrg_u16 :: "rstream \<Rightarrow> u16 option \<times> rstream" where
  "ReadOrg_u16 s = (let (b, s) = ReadOrg 2 s in (map_option nd_netstream_to_short b, s))"

definition ReadOrg_u32 :: "rstream \<Rightarrow> u32 option \<times> rstream" where
  "ReadOrg_u32 s = (let (b, s) = ReadOrg 4 s in (map_option nd_netstream_to_long b, s))"

definition ReadOrg_u64 :: "rstream \<Rightarrow> u64 option \<times> rstream" where
  "ReadOrg_u64 s = (let (b, s) = ReadOrg 8 s in (map_option nd_netstream_to_longlong b, s))"

definition ReadOrg_float :: "rstream \<Rightarrow> u32 option \<times> rstream" where
  "ReadOrg_float s = (let (b, s) = ReadOrg 4 s in (map_option bytes_float b, s))"

definition ReadOrg_double :: "rstream \<Rightarrow> u64 option \<times> rstream" where
  "ReadOrg_double s = (let (b, s) = ReadOrg 8 s in (map_option bytes_double b, s))"

text \<open>What \<open>_ReadTypeSize\<close> finds: nothing (-1), the end of a structure (the type stays unset), or a type and a size.\<close>

datatype type_size = TFail | TEnd | TType byte byte

lemma ReadOrg_u8_moves: "ReadOrg_u8 s = (Some m, s') \<Longrightarrow> rop s < length (rblock s) \<and> s' = s\<lparr>rop := rop s + 1\<rparr>"
  by (auto simp: ReadOrg_u8_def ReadOrg_def split: if_splits)

function ReadTypeSize :: "rstream \<Rightarrow> type_size \<times> rstream" where
  "ReadTypeSize s = (case ReadOrg_u8 s of
     (None, s) \<Rightarrow> (TFail, s)
   | (Some marker, s) \<Rightarrow>
       if marker = NET_STREAM_STRUCT_END_MARK then
         (if skip_end s \<or> skip_all s then ReadTypeSize s else (TEnd, s\<lparr>struct_end := True\<rparr>))
       else
         (let type = drop_bit 4 (marker AND 0xf0); sz = marker AND 0xf in
          if type = ENDSTREAM_CMD_SKIP_STRUCT_MARK then ReadTypeSize (s\<lparr>skip_end := True\<rparr>)
          else if type = ENDSTREAM_CMD_ENABLE_STRUCT_MARK then ReadTypeSize (s\<lparr>skip_end := False\<rparr>)
          else (TType type sz, s)))"
  by pat_completeness auto
termination
  by (relation "measure (\<lambda>s. length (rblock s) - rop s)") (force dest!: ReadOrg_u8_moves [OF sym])+

declare ReadTypeSize.simps [simp del]

text \<open>The result of a read: the return value, the variable and the stream. The variable is cleared before its bytes are read.\<close>

definition read_val :: "('b \<Rightarrow> 'a::zero) \<Rightarrow> 'b option \<times> rstream \<Rightarrow> int \<times> 'a \<times> rstream" where
  "read_val f x = (case x of (None, s) \<Rightarrow> (-1, 0, s) | (Some b, s) \<Rightarrow> (0, f b, s))"

definition begin_read :: "rstream \<Rightarrow> type_size \<times> rstream" where
  "begin_read s = ReadTypeSize (s\<lparr>struct_end := False\<rparr>)"

definition Read_u32 :: "rstream \<Rightarrow> u32 \<Rightarrow> int \<times> u32 \<times> rstream" where
  "Read_u32 s a = (case begin_read s of
     (TType type sz, s) \<Rightarrow>
       if type \<noteq> ENDSTREAM_MARKER_INT32 then (-1, a, s)
       else if sz = 0 then (0, 0, s)
       else if sz = 1 then read_val ucast (ReadOrg_u8 s)
       else if sz = 2 then read_val ucast (ReadOrg_u16 s)
       else if sz = 4 then read_val id (ReadOrg_u32 s)
       else (-1, 0, s)
   | (_, s) \<Rightarrow> (-1, a, s))"

definition Read_u16 :: "rstream \<Rightarrow> u16 \<Rightarrow> int \<times> u16 \<times> rstream" where
  "Read_u16 s a = (case begin_read s of
     (TType type sz, s) \<Rightarrow>
       if type \<noteq> ENDSTREAM_MARKER_INT16 then (-1, a, s)
       else if sz = 0 then (0, 0, s)
       else if sz = 1 then read_val ucast (ReadOrg_u8 s)
       else if sz = 2 then read_val id (ReadOrg_u16 s)
       else (-1, 0, s)
   | (_, s) \<Rightarrow> (-1, a, s))"

definition Read_u8 :: "rstream \<Rightarrow> byte \<Rightarrow> int \<times> byte \<times> rstream" where
  "Read_u8 s a = (case begin_read s of
     (TType type sz, s) \<Rightarrow>
       if type \<noteq> ENDSTREAM_MARKER_INT8 then (-1, a, s)
       else if sz = 0 then (0, 0, s)
       else if sz = 1 then read_val id (ReadOrg_u8 s)
       else (-1, 0, s)
   | (_, s) \<Rightarrow> (-1, a, s))"

definition Read_u64 :: "rstream \<Rightarrow> u64 \<Rightarrow> int \<times> u64 \<times> rstream" where
  "Read_u64 s a = (case begin_read s of
     (TType type sz, s) \<Rightarrow>
       if type \<noteq> ENDSTREAM_MARKER_INT64 then (-1, a, s)
       else if sz = 0 then (0, 0, s)
       else if sz = 1 then read_val ucast (ReadOrg_u8 s)
       else if sz = 2 then read_val ucast (ReadOrg_u16 s)
       else if sz = 4 then read_val ucast (ReadOrg_u32 s)
       else if sz = 8 then read_val id (ReadOrg_u64 s)
       else (-1, 0, s)
   | (_, s) \<Rightarrow> (-1, a, s))"

definition Read_float :: "rstream \<Rightarrow> u32 \<Rightarrow> int \<times> u32 \<times> rstream" where
  "Read_float s a = (case begin_read s of
     (TType type sz, s) \<Rightarrow>
       if type \<noteq> ENDSTREAM_MARKER_FLOAT then (-1, a, s)
       else if sz = 0 then (0, 0, s)
       else if sz = 4 then read_val id (ReadOrg_float s)
       else (-1, 0, s)
   | (_, s) \<Rightarrow> (-1, a, s))"

definition Read_double :: "rstream \<Rightarrow> u64 \<Rightarrow> int \<times> u64 \<times> rstream" where
  "Read_double s a = (case begin_read s of
     (TType type sz, s) \<Rightarrow>
       if type \<noteq> ENDSTREAM_MARKER_DOUBLE then (-1, a, s)
       else if sz = 0 then (0, 0, s)
       else if sz = 8 then read_val id (ReadOrg_double s)
       else (-1, 0, s)
   | (_, s) \<Rightarrow> (-1, a, s))"

text \<open>\<open>buf\<close> is the memory at the caller's buffer and \<open>size_buf\<close> the size it says.\<close>

definition Read_text :: "rstream \<Rightarrow> byte list \<Rightarrow> nat \<Rightarrow> (nat \<times> byte list \<times> rstream) option" where
  "Read_text s buf size_buf = (case begin_read s of
     (TType type sz, s) \<Rightarrow>
       if type \<noteq> ENDSTREAM_MARKER_TEXT then Some (0, buf, s)
       else if sz = 0 then do { buf \<leftarrow> mem_write buf 0 [0]; Some (0, buf, s) }
       else (case ReadOrg_u16 s of
           (None, s) \<Rightarrow> Some (0, buf, s)
         | (Some data_size, s) \<Rightarrow>
             (let n = unat data_size in
              if n > 0 \<and> rop s + n < length (rblock s) \<and> rblock s ! (rop s + n) = 0x7f \<and> size_buf > n then do {
                buf \<leftarrow> mem_write buf 0 (take n (drop (rop s) (rblock s)));
                buf \<leftarrow> mem_write buf n [0];
                Some (n, buf, s\<lparr>rop := rop s + (n + 1)\<rparr>)
              }
              else Some (0, buf, s)))
   | (_, s) \<Rightarrow> Some (0, buf, s))"

definition ReadBin :: "rstream \<Rightarrow> byte list \<Rightarrow> nat \<Rightarrow> (nat \<times> byte list \<times> rstream) option" where
  "ReadBin s buf size_buf = (case begin_read s of
     (TType type sz, s) \<Rightarrow>
       if type \<noteq> ENDSTREAM_MARKER_BIN then Some (0, buf, s)
       else if sz = 0 then Some (0, buf, s)
       else (case ReadOrg_u16 s of
           (None, s) \<Rightarrow> Some (0, buf, s)
         | (Some data_size, s) \<Rightarrow>
             (let n = unat data_size in
              if n > 0 \<and> rop s + n \<le> length (rblock s) \<and> size_buf \<ge> n then do {
                buf \<leftarrow> mem_write buf 0 (take n (drop (rop s) (rblock s)));
                Some (n, buf, s\<lparr>rop := rop s + n\<rparr>)
              }
              else Some (0, buf, s)))
   | (_, s) \<Rightarrow> Some (0, buf, s))"

text \<open>A failure is -1 as a \<open>size_t\<close>.\<close>

definition ReadStream :: "rstream \<Rightarrow> byte list \<Rightarrow> nat \<Rightarrow> (u64 \<times> byte list \<times> rstream) option" where
  "ReadStream s buf readlen =
     (if int readlen > LeftData s then Some (-1, buf, s)
      else do {
        buf \<leftarrow> mem_write buf 0 (take readlen (drop (rop s) (rblock s)));
        Some (of_nat readlen, buf, s\<lparr>rop := rop s + readlen\<rparr>)
      })"

definition ReadIp :: "rstream \<Rightarrow> ndip \<Rightarrow> (int \<times> ndip \<times> rstream) option" where
  "ReadIp s a = (case begin_read s of
     (TType type sz, s) \<Rightarrow>
       if type = ENDSTREAM_MARKER_IP \<or> type = ENDSTREAM_MARKER_IP6 then do {
         let v4 = (type = ENDSTREAM_MARKER_IP);
         (r, buf, s) \<leftarrow> ReadStream s (ip6 a) (if v4 then 4 else 16);
         Some (if r > 0 then 0 else -1, \<lparr>af_inet = v4, ip6 = buf\<rparr>, s)
       }
       else Some (-1, a, s)
   | (_, s) \<Rightarrow> Some (-1, a, s))"

definition ReadLeftStream :: "rstream \<Rightarrow> byte list \<Rightarrow> nat \<Rightarrow> (nat \<times> byte list \<times> rstream) option" where
  "ReadLeftStream s buf buf_size =
     (let data_size = length (rblock s) - rop s in
      if data_size = 0 \<or> buf_size < data_size then Some (0, buf, s)
      else do {
        buf \<leftarrow> mem_write buf 0 (drop (rop s) (rblock s));
        Some (data_size, buf, s\<lparr>rop := length (rblock s)\<rparr>)
      })"

text \<open>\<open>Read(NDProtoWriteStream \&)\<close>: everything that is left goes to another stream.\<close>

definition Read_wstream :: "rstream \<Rightarrow> wstream \<Rightarrow> (int \<times> rstream \<times> wstream) option" where
  "Read_wstream s out =
     (let data_size = length (rblock s) - rop s; free_size = GetFreeLen out in
      if data_size = 0 then Some (0, s, out)
      else if free_size = 0 \<or> free_size < data_size then Some (-1, s, out)
      else do {
        out \<leftarrow> put_bytes (drop (rop s) (rblock s)) out;
        Some (int data_size, s\<lparr>rop := length (rblock s)\<rparr>, out)
      })"

definition PeekBinSize :: "rstream \<Rightarrow> int \<times> rstream" where
  "PeekBinSize s = (case begin_read s of
     (TType type sz, s') \<Rightarrow>
       if sz = 0 then (0, s'\<lparr>rop := rop s\<rparr>)
       else (case ReadOrg_u16 s' of
           (None, s') \<Rightarrow> (0, s'\<lparr>rop := rop s\<rparr>)
         | (Some n, s') \<Rightarrow> (uint n, s'\<lparr>rop := rop s\<rparr>))
   | (_, s') \<Rightarrow> (0, s'\<lparr>rop := rop s\<rparr>))"

text \<open>The type of the next value, 0 at the end of the data. At the end of a structure the variable is returned unset: no value.\<close>

definition PeekDataType :: "rstream \<Rightarrow> (byte \<times> rstream) option" where
  "PeekDataType s = (case begin_read s of
     (TFail, s') \<Rightarrow> Some (0, s'\<lparr>rop := rop s\<rparr>)
   | (TEnd, s') \<Rightarrow> None
   | (TType type sz, s') \<Rightarrow> Some (type, s'\<lparr>rop := rop s\<rparr>))"

text \<open>Skipping one value. \<open>None\<close> for a value that can not be skipped. The position may move behind the end.\<close>

definition skip_value :: "byte \<Rightarrow> byte \<Rightarrow> rstream \<Rightarrow> rstream option" where
  "skip_value type sz s =
     (if type \<in> {ENDSTREAM_MARKER_INT8, ENDSTREAM_MARKER_INT16, ENDSTREAM_MARKER_INT32, ENDSTREAM_MARKER_INT64,
        ENDSTREAM_MARKER_FLOAT, ENDSTREAM_MARKER_DOUBLE, ENDSTREAM_MARKER_IP} then Some (s\<lparr>rop := rop s + unat sz\<rparr>)
      else if type = ENDSTREAM_MARKER_IP6 then Some (s\<lparr>rop := rop s + 16\<rparr>)
      else if type = ENDSTREAM_MARKER_TEXT then
        (if sz = 0 then Some s
         else case ReadOrg_u16 s of (None, _) \<Rightarrow> None | (Some n, s) \<Rightarrow> Some (s\<lparr>rop := rop s + (unat n + 1)\<rparr>))
      else if type = ENDSTREAM_MARKER_BIN then
        (if sz = 0 then Some s
         else case ReadOrg_u16 s of (None, _) \<Rightarrow> None | (Some n, s) \<Rightarrow> Some (s\<lparr>rop := rop s + unat n\<rparr>))
      else None)"

lemma ReadTypeSize_moves:
  "ReadTypeSize s = (r, s') \<Longrightarrow> rblock s' = rblock s \<and> rop s \<le> rop s' \<and> (rop s \<le> length (rblock s) \<longrightarrow> rop s' \<le> length (rblock s)) \<and>
    (r \<noteq> TFail \<longrightarrow> rop s < rop s' \<and> rop s' \<le> length (rblock s))"
proof (induction s arbitrary: r s' rule: ReadTypeSize.induct)
  case (1 s)
  show ?case
  proof (cases "ReadOrg_u8 s")
    case (Pair m s1)
    show ?thesis
    proof (cases m)
      case None
      then show ?thesis using 1(4) Pair by (auto simp: ReadTypeSize.simps [of s] ReadOrg_u8_def ReadOrg_def split: if_splits)
    next
      case (Some b)
      note m = ReadOrg_u8_moves [OF Pair [unfolded Some]]
      have p: "(Some b, s1) = ReadOrg_u8 s" using Pair Some by simp
      consider "b = NET_STREAM_STRUCT_END_MARK" "skip_end s1 \<or> skip_all s1" "ReadTypeSize s1 = (r, s')"
        | "r = TEnd" "s' = s1\<lparr>struct_end := True\<rparr>"
        | "b \<noteq> NET_STREAM_STRUCT_END_MARK" "drop_bit 4 (b AND 0xf0) = ENDSTREAM_CMD_SKIP_STRUCT_MARK" "ReadTypeSize (s1\<lparr>skip_end := True\<rparr>) = (r, s')"
        | "b \<noteq> NET_STREAM_STRUCT_END_MARK" "drop_bit 4 (b AND 0xf0) \<noteq> ENDSTREAM_CMD_SKIP_STRUCT_MARK" "drop_bit 4 (b AND 0xf0) = ENDSTREAM_CMD_ENABLE_STRUCT_MARK"
            "ReadTypeSize (s1\<lparr>skip_end := False\<rparr>) = (r, s')"
        | "s' = s1" "r \<noteq> TFail"
        using 1(4) Pair Some by (auto simp: ReadTypeSize.simps [of s] Let_def split: if_splits)
      then show ?thesis
      proof cases
        case 1
        then show ?thesis using "1.IH"(1) [OF p [symmetric, THEN sym] refl] m by force
      next
        case 3
        then show ?thesis using "1.IH"(2) [OF p refl _ refl refl] m by force
      next
        case 4
        then show ?thesis using "1.IH"(3) [OF p refl _ refl refl] m by force
      qed (use m in auto)
    qed
  qed
qed

lemma ReadOrg_u16_moves: "ReadOrg_u16 s = (x, s') \<Longrightarrow> rblock s' = rblock s \<and> rop s \<le> rop s' \<and> (rop s \<le> length (rblock s) \<longrightarrow> rop s' \<le> length (rblock s))"
  by (auto simp: ReadOrg_u16_def ReadOrg_def split: if_splits)

lemma skip_value_moves: "skip_value type sz s = Some s' \<Longrightarrow> rblock s' = rblock s \<and> rop s \<le> rop s'"
  by (auto simp: skip_value_def split: if_splits prod.splits option.splits dest!: ReadOrg_u16_moves)

text \<open>The loop of \<open>TrytoMoveStructEnd\<close>; its result says whether the mark was found.\<close>

function move_end_loop :: "rstream \<Rightarrow> bool \<times> rstream" where
  "move_end_loop s = (case begin_read s of
     (TFail, s') \<Rightarrow> (False, s')
   | (TEnd, s') \<Rightarrow> (True, s')
   | (TType type sz, s') \<Rightarrow> (case skip_value type sz s' of
       None \<Rightarrow> (False, s')
     | Some s'' \<Rightarrow> if LeftData s'' > 0 then move_end_loop s'' else (False, s'')))"
  by pat_completeness auto

termination
proof (relation "measure (\<lambda>s. length (rblock s) - rop s)", goal_cases)
  case (2 s x s' type sz s'')
  have "rblock s' = rblock s" "rop s < rop s'" using ReadTypeSize_moves [of "s\<lparr>struct_end := False\<rparr>" "TType type sz" s'] 2(1,2) by (auto simp: begin_read_def)
  moreover have "rblock s'' = rblock s'" "rop s' \<le> rop s''" using skip_value_moves [OF 2(3)] by auto
  ultimately show ?case using 2(4) by (simp add: LeftData_def)
qed simp

declare move_end_loop.simps [simp del]

definition TrytoMoveStructEnd :: "rstream \<Rightarrow> bool \<times> rstream" where
  "TrytoMoveStructEnd s =
     (if struct_end s \<or> skip_end s \<or> skip_all s then (True, s)
      else (let (found, s') = move_end_loop s in if found then (True, s') else (False, s'\<lparr>rop := rop s\<rparr>)))"

text \<open>A variant value of the type that comes next. A \<open>double\<close> is left alone, and an empty text or block of bytes counts as a failure.\<close>

definition read_var_num :: "('a \<Rightarrow> NDVarType) \<Rightarrow> NDVarType \<Rightarrow> int \<times> 'a \<times> rstream \<Rightarrow> int \<times> NDVarType \<times> rstream" where
  "read_var_num f var x = (case x of (r, a, s) \<Rightarrow> if r = 0 then (0, f a, s) else (-1, var, s))"

definition ReadVar :: "rstream \<Rightarrow> NDVarType \<Rightarrow> (int \<times> NDVarType \<times> rstream) option" where
  "ReadVar s var = do {
     (marker, s) \<leftarrow> PeekDataType s;
     if marker = ENDSTREAM_MARKER_INT8 then Some (read_var_num ND_VT_INT8 var (Read_u8 s 0))
     else if marker = ENDSTREAM_MARKER_INT16 then Some (read_var_num ND_VT_INT16 var (Read_u16 s 0))
     else if marker = ENDSTREAM_MARKER_INT32 then Some (read_var_num ND_VT_INT var (Read_u32 s 0))
     else if marker = ENDSTREAM_MARKER_INT64 then Some (read_var_num ND_VT_INT64 var (Read_u64 s 0))
     else if marker = ENDSTREAM_MARKER_FLOAT then Some (read_var_num ND_VT_FLOAT var (Read_float s 0))
     else if marker = ENDSTREAM_MARKER_TEXT then do {
       (len, buffer, s) \<leftarrow> Read_text s (replicate 0x10000 0) 0x10000;
       Some (if len > 0 then (0, ND_VT_STRING (takeWhile (\<lambda>b. b \<noteq> 0) buffer), s) else (-1, var, s))
     }
     else if marker = ENDSTREAM_MARKER_BIN then do {
       (len, buffer, s) \<leftarrow> ReadBin s (replicate 0x10000 0) 0x10000;
       Some (if len > 0 then (0, ND_VT_BINARY (take len buffer), s) else (-1, var, s))
     }
     else Some (-1, var, s)
   }"

section \<open>Messages\<close>

definition ND_USERMSG_DATA_CAPACITY :: nat where
  "ND_USERMSG_DATA_CAPACITY = ND_PACKET_SIZE - ND_USERMSG_HDRLEN"

text \<open>A message to send: the two halves of its id and the stream over its data, with the length field of its header.\<close>

record NDSendMsg =
  maxid :: byte
  minid :: byte
  stream :: wstream

definition NDSendMsg_create :: NDSendMsg where
  "NDSendMsg_create = \<lparr>maxid = 0, minid = 0,
     stream = \<lparr>wblock = replicate ND_USERMSG_DATA_CAPACITY 0, wop = 0, msg_length = Some (of_nat ND_USERMSG_HDRLEN)\<rparr>\<rparr>"

definition NDSendMsg_new :: "u16 \<Rightarrow> NDSendMsg" where
  "NDSendMsg_new msgID = NDSendMsg_create\<lparr>maxid := ucast (drop_bit 8 msgID), minid := ucast msgID\<rparr>"

definition NDSendMsg_Reset :: "NDSendMsg \<Rightarrow> NDSendMsg" where
  "NDSendMsg_Reset m = m\<lparr>stream := write_reset (stream m\<lparr>msg_length := Some (of_nat ND_USERMSG_HDRLEN)\<rparr>)\<rparr>"

definition NDSendMsg_Init :: "byte \<Rightarrow> byte \<Rightarrow> NDSendMsg \<Rightarrow> NDSendMsg" where
  "NDSendMsg_Init mx mn m = (NDSendMsg_Reset m)\<lparr>maxid := mx, minid := mn\<rparr>"

definition MsgLength :: "NDSendMsg \<Rightarrow> u16" where
  "MsgLength m = the (msg_length (stream m))"

text \<open>The reading stream of a message buffer with the given length field and data. A length below that of the header would put the end of the
  data before its start.\<close>

definition NDRecvMsg_Init :: "u16 \<Rightarrow> byte list \<Rightarrow> rstream option" where
  "NDRecvMsg_Init len dat =
     (if ND_USERMSG_HDRLEN \<le> unat len \<and> unat len - ND_USERMSG_HDRLEN \<le> length dat
      then Some (read_init (take (unat len - ND_USERMSG_HDRLEN) dat)) else None)"

end
