(* ===== verification/Proto_Codec.thy ===== *)
theory Proto_Codec
  imports Proto_Stream
begin

text \<open>
  What is written to a stream of \<open>Proto_Stream\<close> is read back. The locale \<open>item_codec\<close> is the contract of a kind of values that are written and read:
  a write appends the encoding or fails, a read in front of an encoding returns the value. Sequences of values are treated once in the locale; the
  typed values and the variant values interpret it. Also the structure marks, and what the reader does to a caller's memory on any input.
\<close>

section \<open>Bytes\<close>

lemma join_byte:
  "push_bit n (ucast (ucast (drop_bit n (w :: 'a::len word)) :: byte)) OR take_bit n w = take_bit (n + 8) w"
proof (rule bit_word_eqI)
  fix k assume "k < LENGTH('a)"
  then show "bit (push_bit n (ucast (ucast (drop_bit n w) :: byte)) OR take_bit n w) k = bit (take_bit (n + 8) w) k"
    by (cases "k < n") (auto simp: bit_simps)
qed

lemma bytes_val_Cons:
  assumes "bytes_val bs = take_bit (8 * length bs) (w :: 'a::len word)" "n = 8 * length bs"
  shows "bytes_val (ucast (drop_bit n w) # bs) = take_bit (8 * length (ucast (drop_bit n w) # bs)) w"
  using join_byte [of n w] assms by (simp add: add.commute)

lemma bytes_longlong [simp]: "bytes_val (nd_longlong_to_netstream w) = w"
proof -
  have "bytes_val (nd_longlong_to_netstream w) = take_bit (8 * length (nd_longlong_to_netstream w)) w"
    unfolding nd_longlong_to_netstream_def list.map by (intro bytes_val_Cons) simp_all
  then show ?thesis by (simp add: nd_longlong_to_netstream_def take_bit_word_eq_self)
qed

lemma bytes_long [simp]: "bytes_val (nd_long_to_netstream w) = w"
  using u32_of_le_bytes [of w] by (simp add: nd_long_to_netstream_def u32_of_le_def ac_simps)

lemma bytes_short [simp]: "bytes_val (nd_short_to_netstream w) = w"
  using u16_of_le_bytes [of w] by (simp add: nd_short_to_netstream_def u16_of_le_def ac_simps)

lemma net_bytes [simp]:
  "nd_netstream_to_short (nd_short_to_netstream a) = a" "nd_netstream_to_long (nd_long_to_netstream b) = b"
  "nd_netstream_to_longlong (nd_longlong_to_netstream c) = c" "bytes_float (float_bytes b) = b" "bytes_double (double_bytes c) = c"
  by (simp_all add: nd_netstream_to_short_def nd_netstream_to_long_def nd_netstream_to_longlong_def bytes_float_def float_bytes_def bytes_double_def double_bytes_def)

lemma net_lengths [simp]:
  "length (nd_short_to_netstream a) = 2" "length (nd_long_to_netstream b) = 4" "length (nd_longlong_to_netstream c) = 8"
  "length (float_bytes b) = 4" "length (double_bytes c) = 8"
  by (simp_all add: nd_short_to_netstream_def nd_long_to_netstream_def nd_longlong_to_netstream_def float_bytes_def double_bytes_def)

text \<open>A number without leading zero bytes is the same number.\<close>

lemma narrow [simp]:
  "(a :: u16) \<le> 0xff \<Longrightarrow> ucast (ucast a :: byte) = a" "(b :: u32) \<le> 0xff \<Longrightarrow> ucast (ucast b :: byte) = b"
  "b \<le> 0xffff \<Longrightarrow> ucast (ucast b :: u16) = b" "(c :: u64) \<le> 0xff \<Longrightarrow> ucast (ucast c :: byte) = c"
  "c \<le> 0xffff \<Longrightarrow> ucast (ucast c :: u16) = c" "c \<le> 0xffffffff \<Longrightarrow> ucast (ucast c :: u32) = c"
  by (simp_all add: word_le_nat_alt word_unat_eq_iff unsigned_ucast_eq take_bit_nat_eq_self unsigned_take_bit_eq)

section \<open>Writing\<close>

text \<open>The bytes written so far, and that a stream is another one with bytes appended.\<close>

definition stored :: "wstream \<Rightarrow> byte list" where
  "stored s = take (wop s) (wblock s)"

definition appended :: "wstream \<Rightarrow> byte list \<Rightarrow> wstream \<Rightarrow> bool" where
  "appended s bs s' \<longleftrightarrow> stored s' = stored s @ bs \<and> wop s' = wop s + length bs \<and> length (wblock s') = length (wblock s) \<and>
     wop s' \<le> length (wblock s) \<and> msg_length s' = map_option (\<lambda>l. l + of_nat (length bs)) (msg_length s)"

text \<open>A write either appends all of its bytes, or fails when they do not fit and then leaves at most \<open>k\<close> of them behind.\<close>

definition writes :: "nat \<Rightarrow> byte list \<Rightarrow> wstream \<Rightarrow> (int \<times> wstream) option \<Rightarrow> bool" where
  "writes k bs s r \<longleftrightarrow>
     (if wop s + length bs \<le> length (wblock s) then \<exists>s'. r = Some (0, s') \<and> appended s bs s'
      else \<exists>j s'. r = Some (-1, s') \<and> j \<le> k \<and> j < length bs \<and> appended s (take j bs) s')"

lemma stream_refl: "wop s \<le> length (wblock s) \<Longrightarrow> appended s [] s"
  by (cases "msg_length s") (simp_all add: appended_def)

lemma stream_trans: "appended s xs t \<Longrightarrow> appended t ys u \<Longrightarrow> appended s (xs @ ys) u"
  by (cases "msg_length s") (auto simp: appended_def)

lemma stream_room: "appended s bs s' \<Longrightarrow> wop s' \<le> length (wblock s')"
  by (simp add: appended_def)

lemma put_bytes_ok: "wop s + length bs \<le> length (wblock s) \<Longrightarrow> \<exists>s'. put_bytes bs s = Some s' \<and> appended s bs s'"
  by (auto simp: put_bytes_def mem_simps appended_def stored_def onWriteStream_def)

lemma writes_none: "wop s \<le> length (wblock s) \<Longrightarrow> \<not> wop s + length bs \<le> length (wblock s) \<Longrightarrow> writes k bs s (Some (-1, s))"
  using stream_refl [of s] by (cases bs) (auto simp: writes_def intro!: exI [of _ 0])

lemma WriteOrg_writes: "wop s \<le> length (wblock s) \<Longrightarrow> writes 0 bs s (WriteOrg bs s)"
  using put_bytes_ok [of s bs] stream_refl [of s] by (auto simp: WriteOrg_def writes_def)

lemma marked_writes:
  assumes "wop s \<le> length (wblock s)" "\<And>t. wop t \<le> length (wblock t) \<Longrightarrow> writes 0 bs t (w t)"
  shows "writes 1 (marker_byte m k # bs) s (marked m k w s)"
proof (cases "wop s < length (wblock s)")
  case True
  obtain t where t: "writeMarker m k s = Some (0, t)" "appended s [marker_byte m k] t"
    using WriteOrg_writes [OF assms(1), of "[marker_byte m k]"] True by (auto simp: writes_def writeMarker_def WriteOrg_u8_def)
  have wt: "writes 0 bs t (w t)" by (rule assms(2) [OF stream_room [OF t(2)]])
  have len: "wop t = wop s + 1" "length (wblock t) = length (wblock s)" using t(2) by (auto simp: appended_def)
  show ?thesis
  proof (cases "wop s + 1 + length bs \<le> length (wblock s)")
    case True
    then obtain u where "w t = Some (0, u)" "appended t bs u" using wt len by (auto simp: writes_def)
    then show ?thesis using t stream_trans [OF t(2)] True by (simp add: writes_def marked_def)
  next
    case False
    then obtain u where u: "w t = Some (-1, u)" "appended t [] u" using wt len by (auto simp: writes_def)
    then have "appended s [marker_byte m k] u" using stream_trans [OF t(2) u(2)] by simp
    moreover have "bs \<noteq> []" using False \<open>wop s < length (wblock s)\<close> by auto
    ultimately show ?thesis using t u False by (auto simp: writes_def marked_def intro!: exI [of _ "Suc 0"])
  qed
next
  case False
  then show ?thesis using assms(1) stream_refl [of s]
    by (auto simp: writes_def marked_def writeMarker_def WriteOrg_u8_def WriteOrg_def intro!: exI [of _ 0])
qed

lemma writeMarker_writes: "wop s \<le> length (wblock s) \<Longrightarrow> writes k [marker_byte m n] s (writeMarker m n s)"
  using WriteOrg_writes [of s "[marker_byte m n]"] by (auto simp: writes_def writeMarker_def WriteOrg_u8_def)

lemma WriteOrg_then:
  assumes "wop s + (length xs + length ys) \<le> length (wblock s)"
  obtains t where "WriteOrg xs s = Some (0, t)" "appended s xs t" "wop t + length ys \<le> length (wblock t)"
  using WriteOrg_writes [of s xs] assms by (auto simp: writes_def appended_def)

lemma text_body_writes:
  assumes "wop s \<le> length (wblock s)"
  shows "writes 0 (nd_short_to_netstream (of_nat (length t)) @ t @ [0x7f]) s (write_text_body t s)"
proof (cases "wop s + (2 + (length t + 1)) \<le> length (wblock s)")
  case True
  obtain u where u: "WriteOrg (nd_short_to_netstream (of_nat (length t))) s = Some (0, u)"
      "appended s (nd_short_to_netstream (of_nat (length t))) u" "wop u + length (t @ [0x7f]) \<le> length (wblock u)"
    by (rule WriteOrg_then [of s "nd_short_to_netstream (of_nat (length t))" "t @ [0x7f]"]) (use True in auto)
  have "\<exists>v. write_text_body t s = Some (0, v) \<and> appended u (t @ [0x7f]) v"
    using u(1,3) True by (auto simp: write_text_body_def WriteOrg_u16_def mem_simps Let_def appended_def stored_def onWriteStream_def)
  then obtain v where "write_text_body t s = Some (0, v)" "appended u (t @ [0x7f]) v" by blast
  then show ?thesis using stream_trans [OF u(2)] True by (auto simp: writes_def)
next
  case False
  then show ?thesis using assms stream_refl [of s] by (auto simp: writes_def write_text_body_def Let_def)
qed

lemma bin_body_writes:
  assumes "wop s \<le> length (wblock s)"
  shows "writes 0 (nd_short_to_netstream (of_nat (length bs)) @ bs) s (write_bin_body bs s)"
proof (cases "wop s + (2 + length bs) \<le> length (wblock s)")
  case True
  obtain u where u: "WriteOrg (nd_short_to_netstream (of_nat (length bs))) s = Some (0, u)"
      "appended s (nd_short_to_netstream (of_nat (length bs))) u" "wop u + length bs \<le> length (wblock u)"
    by (rule WriteOrg_then [of s "nd_short_to_netstream (of_nat (length bs))" bs]) (use True in auto)
  obtain v where "put_bytes bs u = Some v" "appended u bs v" using put_bytes_ok [OF u(3)] by blast
  then show ?thesis using u stream_trans [OF u(2)] True by (auto simp: writes_def write_bin_body_def WriteOrg_u16_def)
next
  case False
  then show ?thesis using assms stream_refl [of s] by (auto simp: writes_def write_bin_body_def)
qed

lemma WriteStream_writes:
  assumes "wop s \<le> length (wblock s)" "bs \<noteq> []"
  shows "writes 0 bs s (WriteStream bs s)"
  using put_bytes_ok [of s bs] stream_refl [of s] assms by (auto simp: writes_def WriteStream_def)

section \<open>Values and their encoding\<close>

datatype pvalue = PU8 byte | PU16 u16 | PU32 u32 | PU64 u64 | PFloat u32 | PDouble u64 | PText "byte list" | PBin "byte list" | PIp ndip

definition write_value :: "pvalue \<Rightarrow> wstream \<Rightarrow> (int \<times> wstream) option" where
  "write_value v = (case v of
     PU8 a \<Rightarrow> Write_u8 a | PU16 a \<Rightarrow> Write_u16 a | PU32 a \<Rightarrow> Write_u32 a | PU64 a \<Rightarrow> Write_u64 a
   | PFloat a \<Rightarrow> Write_float a | PDouble a \<Rightarrow> Write_double a | PText t \<Rightarrow> Write_text (Some t) | PBin bs \<Rightarrow> WriteBin bs
   | PIp a \<Rightarrow> WriteIp a)"

definition enc :: "pvalue \<Rightarrow> byte list" where
  "enc v = (case v of
     PU8 a \<Rightarrow> if a = 0 then [0x10] else [0x11, a]
   | PU16 a \<Rightarrow> if a = 0 then [0x20] else if a \<le> 0xff then [0x21, ucast a] else 0x22 # nd_short_to_netstream a
   | PU32 a \<Rightarrow> if a = 0 then [0x30] else if a \<le> 0xff then [0x31, ucast a] else if a \<le> 0xffff then 0x32 # nd_short_to_netstream (ucast a)
       else 0x34 # nd_long_to_netstream a
   | PU64 a \<Rightarrow> if a = 0 then [0x40] else if a \<le> 0xff then [0x41, ucast a] else if a \<le> 0xffff then 0x42 # nd_short_to_netstream (ucast a)
       else if a \<le> 0xffffffff then 0x44 # nd_long_to_netstream (ucast a) else 0x48 # nd_longlong_to_netstream a
   | PFloat a \<Rightarrow> if float_zero a then [0x50] else 0x54 # float_bytes a
   | PDouble a \<Rightarrow> if double_zero a then [0x60] else 0x68 # double_bytes a
   | PText t \<Rightarrow> if t = [] then [0x70] else 0x71 # nd_short_to_netstream (of_nat (length t)) @ t @ [0x7f]
   | PBin bs \<Rightarrow> if bs = [] then [0x80] else 0x81 # nd_short_to_netstream (of_nat (length bs)) @ bs
   | PIp a \<Rightarrow> if af_inet a then 0x94 # take 4 (ip6 a) else 0xaf # ip6 a)"

text \<open>Lengths are kept in 16 bits, and an address has 16 bytes.\<close>

definition value_ok :: "pvalue \<Rightarrow> bool" where
  "value_ok v = (case v of PText t \<Rightarrow> length t < 65536 | PBin bs \<Rightarrow> length bs < 65536 | PIp a \<Rightarrow> length (ip6 a) = 16 | _ \<Rightarrow> True)"

lemma marker_bytes [simp]:
  "marker_byte 1 0 = 0x10" "marker_byte 1 1 = 0x11" "marker_byte 2 0 = 0x20" "marker_byte 2 1 = 0x21" "marker_byte 2 2 = 0x22"
  "marker_byte 3 0 = 0x30" "marker_byte 3 1 = 0x31" "marker_byte 3 2 = 0x32" "marker_byte 3 4 = 0x34"
  "marker_byte 4 0 = 0x40" "marker_byte 4 1 = 0x41" "marker_byte 4 2 = 0x42" "marker_byte 4 4 = 0x44" "marker_byte 4 8 = 0x48"
  "marker_byte 5 0 = 0x50" "marker_byte 5 4 = 0x54" "marker_byte 6 0 = 0x60" "marker_byte 6 8 = 0x68" "marker_byte 7 0 = 0x70"
  "marker_byte 7 1 = 0x71" "marker_byte 8 0 = 0x80" "marker_byte 8 1 = 0x81" "marker_byte 9 4 = 0x94" "marker_byte 10 15 = 0xaf"
  "marker_byte 11 0 = 0xb0" "marker_byte 12 0 = 0xc0"
  by (simp_all add: marker_byte_def)

lemmas marker_bytes_1 [simp] = marker_bytes(2,4,7,11,20,22) [unfolded One_nat_def]

lemma marked_org: "wop s \<le> length (wblock s) \<Longrightarrow> writes 1 (marker_byte m k # bs) s (marked m k (WriteOrg bs) s)"
  by (rule marked_writes [OF _ WriteOrg_writes])

lemmas org_defs = WriteOrg_u8_def WriteOrg_u16_def WriteOrg_u32_def WriteOrg_u64_def WriteOrg_float_def WriteOrg_double_def

lemma write_text_writes:
  assumes "wop s \<le> length (wblock s)"
  shows "writes 1 (enc (PText t)) s (Write_text (Some t) s)"
proof (cases "wop s < length (wblock s)")
  case True
  have "t \<noteq> [] \<Longrightarrow> writes 1 (marker_byte 7 1 # nd_short_to_netstream (of_nat (length t)) @ t @ [0x7f]) s (marked 7 1 (write_text_body t) s)"
    by (rule marked_writes [OF assms]) (rule text_body_writes)
  then show ?thesis using True writeMarker_writes [OF assms, of 1 7 0] by (auto simp: Write_text_def enc_def)
next
  case False
  then show ?thesis using assms stream_refl [of s] by (auto simp: writes_def Write_text_def enc_def intro!: exI [of _ 0])
qed

lemma write_bin_writes:
  assumes "wop s \<le> length (wblock s)"
  shows "writes 1 (enc (PBin bs)) s (WriteBin bs s)"
proof (cases "wop s < length (wblock s) \<and> length bs < GetFreeLen s")
  case True
  have "bs \<noteq> [] \<Longrightarrow> writes 1 (marker_byte 8 1 # nd_short_to_netstream (of_nat (length bs)) @ bs) s (marked 8 1 (write_bin_body bs) s)"
    by (rule marked_writes [OF assms]) (rule bin_body_writes)
  then show ?thesis using True writeMarker_writes [OF assms, of 1 8 0] by (auto simp: WriteBin_def enc_def)
next
  case False
  then have "WriteBin bs s = Some (-1, s)" by (auto simp: WriteBin_def not_less)
  moreover have "\<not> wop s + length (enc (PBin bs)) \<le> length (wblock s)" using False by (cases "bs = []") (auto simp: enc_def GetFreeLen_def)
  ultimately show ?thesis by (simp add: writes_none [OF assms])
qed

lemma write_ip_writes:
  assumes "wop s \<le> length (wblock s)" "length (ip6 a) = 16"
  shows "writes 1 (enc (PIp a)) s (WriteIp a s)"
proof -
  have ne: "take 4 (ip6 a) \<noteq> []" "ip6 a \<noteq> []" using assms(2) by auto
  have "writes 1 (marker_byte 9 4 # take 4 (ip6 a)) s (marked 9 4 (WriteStream (take 4 (ip6 a))) s)"
    by (rule marked_writes [OF assms(1)]) (rule WriteStream_writes [OF _ ne(1)])
  moreover have "writes 1 (marker_byte 10 15 # ip6 a) s (marked 10 15 (WriteStream (ip6 a)) s)"
    by (rule marked_writes [OF assms(1)]) (rule WriteStream_writes [OF _ ne(2)])
  ultimately show ?thesis by (simp add: WriteIp_def enc_def)
qed

lemma write_value_writes:
  assumes "value_ok v" "wop s \<le> length (wblock s)"
  shows "writes 1 (enc v) s (write_value v s)"
proof -
  note mo = marked_org [OF assms(2)] and wm = writeMarker_writes [OF assms(2), of 1]
  have n: "writes 1 (enc v) s (write_value v s)" if "case v of PText _ \<Rightarrow> False | PBin _ \<Rightarrow> False | PIp _ \<Rightarrow> False | _ \<Rightarrow> True"
    using that mo [of 1 1] mo [of 2 1] mo [of 2 2] mo [of 3 1] mo [of 3 2] mo [of 3 4] mo [of 4 1] mo [of 4 2] mo [of 4 4] mo [of 4 8] mo [of 5 4] mo [of 6 8]
      wm [of 1 0] wm [of 2 0] wm [of 3 0] wm [of 4 0] wm [of 5 0] wm [of 6 0]
    by (cases v) (simp_all add: write_value_def enc_def Write_u8_def Write_u16_def Write_u32_def Write_u64_def Write_float_def Write_double_def org_defs)
  show ?thesis using n write_text_writes [OF assms(2)] write_bin_writes [OF assms(2)] write_ip_writes [OF assms(2)] assms(1)
    by (cases v) (simp_all add: write_value_def value_ok_def)
qed

section \<open>Reading\<close>

text \<open>The bytes from the position to the end.\<close>

definition ahead :: "rstream \<Rightarrow> byte list \<Rightarrow> bool" where
  "ahead s xs \<longleftrightarrow> rop s \<le> length (rblock s) \<and> drop (rop s) (rblock s) = xs"

definition adv :: "nat \<Rightarrow> rstream \<Rightarrow> rstream" where
  "adv n s = s\<lparr>rop := rop s + n, struct_end := False\<rparr>"

lemma ahead_adv:
  assumes "ahead s (xs @ ys)" "n = length xs"
  shows "ahead (adv n s) ys"
proof -
  have d: "drop (rop s) (rblock s) = xs @ ys" using assms(1) by (simp add: ahead_def)
  have "drop (rop s + n) (rblock s) = drop n (drop (rop s) (rblock s))" by (simp add: add.commute)
  also have "\<dots> = ys" unfolding d assms(2) by simp
  finally show ?thesis using arg_cong [OF d, of length] assms by (auto simp: ahead_def adv_def)
qed

lemma adv_adv [simp]: "adv m (adv n s) = adv (n + m) s"
  by (simp add: adv_def add.assoc)

lemma adv_sel [simp]: "struct_end (adv n s) = False" "skip_end (adv n s) = skip_end s" "skip_all (adv n s) = skip_all s" "rblock (adv n s) = rblock s"
    "rop (adv n s) = rop s + n" "(adv n s)\<lparr>rop := rop s + n + k\<rparr> = adv (n + k) s"
  by (simp_all add: adv_def add.assoc)

lemma ReadOrg_ahead:
  assumes "ahead (adv k s) (bs @ rest)" "length bs = n"
  shows "ReadOrg n (adv k s) = (Some bs, adv (k + n) s)"
proof -
  have "length (rblock s) - (rop s + k) = length bs + length rest" using assms(1) by (metis ahead_def length_append length_drop adv_sel(4,5))
  moreover have "rop s + k \<le> length (rblock s)" "drop (rop s + k) (rblock s) = bs @ rest" using assms(1) by (simp_all add: ahead_def)
  ultimately show ?thesis using assms(2) by (simp add: ReadOrg_def adv_def add.assoc)
qed

lemma begin_read_adv: "begin_read s = ReadTypeSize (adv 0 s)"
  by (simp add: begin_read_def adv_def)

lemma ahead_0: "ahead s xs \<Longrightarrow> ahead (adv 0 s) xs"
  by (simp add: ahead_def adv_def)

text \<open>Reading the marker of a value.\<close>

lemma begin_read_type:
  assumes "ahead s (m # rest)" "m \<noteq> 0xff" "drop_bit 4 (m AND 0xf0) \<noteq> 11" "drop_bit 4 (m AND 0xf0) \<noteq> 12"
  shows "begin_read s = (TType (drop_bit 4 (m AND 0xf0)) (m AND 0xf), adv 1 s)"
proof -
  have "ReadOrg_u8 (adv 0 s) = (Some m, adv 1 s)" using ReadOrg_ahead [of 0 s "[m]" rest 1] ahead_0 [OF assms(1)] by (simp add: ReadOrg_u8_def)
  then show ?thesis unfolding begin_read_adv using assms(2-4) by (subst ReadTypeSize.simps) (simp add: NET_STREAM_STRUCT_END_MARK_def Let_def)
qed

lemma ReadOrg_vals:
  "ahead (adv k s) (b # rest) \<Longrightarrow> ReadOrg_u8 (adv k s) = (Some b, adv (k + 1) s)"
  "ahead (adv k s) (nd_short_to_netstream h @ rest) \<Longrightarrow> ReadOrg_u16 (adv k s) = (Some h, adv (k + 2) s)"
  "ahead (adv k s) (nd_long_to_netstream w @ rest) \<Longrightarrow> ReadOrg_u32 (adv k s) = (Some w, adv (k + 4) s)"
  "ahead (adv k s) (nd_longlong_to_netstream d @ rest) \<Longrightarrow> ReadOrg_u64 (adv k s) = (Some d, adv (k + 8) s)"
  "ahead (adv k s) (float_bytes w @ rest) \<Longrightarrow> ReadOrg_float (adv k s) = (Some w, adv (k + 4) s)"
  "ahead (adv k s) (double_bytes d @ rest) \<Longrightarrow> ReadOrg_double (adv k s) = (Some d, adv (k + 8) s)"
  using ReadOrg_ahead [of k s "[b]" rest 1] ReadOrg_ahead [of k s "nd_short_to_netstream h" rest 2] ReadOrg_ahead [of k s "nd_long_to_netstream w" rest 4]
    ReadOrg_ahead [of k s "nd_longlong_to_netstream d" rest 8] ReadOrg_ahead [of k s "float_bytes w" rest 4] ReadOrg_ahead [of k s "double_bytes d" rest 8]
  by (simp_all add: ReadOrg_u8_def ReadOrg_u16_def ReadOrg_u32_def ReadOrg_u64_def ReadOrg_float_def ReadOrg_double_def)

datatype pkind = KU8 | KU16 | KU32 | KU64 | KFloat | KDouble | KText | KBin | KIp

fun kind_of :: "pvalue \<Rightarrow> pkind" where
  "kind_of (PU8 _) = KU8" | "kind_of (PU16 _) = KU16" | "kind_of (PU32 _) = KU32" | "kind_of (PU64 _) = KU64"
| "kind_of (PFloat _) = KFloat" | "kind_of (PDouble _) = KDouble" | "kind_of (PText _) = KText" | "kind_of (PBin _) = KBin" | "kind_of (PIp _) = KIp"

text \<open>Reading a value of a kind. A text or block of bytes goes to a buffer of 65536 bytes, which every one fits.\<close>

definition got :: "('a \<Rightarrow> pvalue) \<Rightarrow> int \<times> 'a \<times> rstream \<Rightarrow> pvalue option \<times> rstream" where
  "got f x = (case x of (r, a, s) \<Rightarrow> (if r = 0 then Some (f a) else None, s))"

definition got_bytes :: "(byte list \<Rightarrow> pvalue) \<Rightarrow> nat \<times> byte list \<times> rstream \<Rightarrow> pvalue option \<times> rstream" where
  "got_bytes f x = (case x of (n, buf, s) \<Rightarrow> (Some (f (take n buf)), s))"

definition read_value :: "pkind \<Rightarrow> rstream \<Rightarrow> (pvalue option \<times> rstream) option" where
  "read_value k s = (case k of
     KU8 \<Rightarrow> Some (got PU8 (Read_u8 s 0)) | KU16 \<Rightarrow> Some (got PU16 (Read_u16 s 0)) | KU32 \<Rightarrow> Some (got PU32 (Read_u32 s 0))
   | KU64 \<Rightarrow> Some (got PU64 (Read_u64 s 0)) | KFloat \<Rightarrow> Some (got PFloat (Read_float s 0)) | KDouble \<Rightarrow> Some (got PDouble (Read_double s 0))
   | KText \<Rightarrow> map_option (got_bytes PText) (Read_text s (replicate 0x10000 0) 0x10000)
   | KBin \<Rightarrow> map_option (got_bytes PBin) (ReadBin s (replicate 0x10000 0) 0x10000)
   | KIp \<Rightarrow> map_option (got PIp) (ReadIp s \<lparr>af_inet = True, ip6 = replicate 16 0\<rparr>))"

text \<open>What comes back: zeros lose their sign, and an IPv4 address does not fill the union.\<close>

definition norm :: "pvalue \<Rightarrow> pvalue" where
  "norm v = (case v of PFloat a \<Rightarrow> PFloat (if float_zero a then 0 else a) | PDouble a \<Rightarrow> PDouble (if double_zero a then 0 else a)
   | PIp a \<Rightarrow> if af_inet a then PIp (a\<lparr>ip6 := take 4 (ip6 a) @ replicate 12 0\<rparr>) else v | _ \<Rightarrow> v)"

lemma enc_not_Nil: "enc v \<noteq> []"
  by (cases v) (auto simp: enc_def)

lemma read_number:
  assumes "ahead s (enc v @ rest)" "case v of PText _ \<Rightarrow> False | PBin _ \<Rightarrow> False | PIp _ \<Rightarrow> False | _ \<Rightarrow> True"
  shows "read_value (kind_of v) s = Some (Some (norm v), adv (length (enc v)) s)"
proof -
  obtain m bs where e: "enc v = m # bs" using enc_not_Nil [of v] by (cases "enc v") auto
  have h: "ahead s (m # bs @ rest)" "ahead (adv 1 s) (bs @ rest)" using assms(1) ahead_adv [of s "[m]"] by (simp_all add: e)
  note b = begin_read_type [OF h(1)] and r = ReadOrg_vals [of 1 s, where rest = rest]
  show ?thesis
  proof (cases v)
    case (PU8 a)
    then show ?thesis using e b h(2) r(1) by (auto simp: enc_def read_value_def Read_u8_def read_val_def got_def norm_def split: if_splits)
  next
    case (PU16 a)
    then show ?thesis using e b h(2) r(1,2) by (auto simp: enc_def read_value_def Read_u16_def read_val_def got_def norm_def split: if_splits)
  next
    case (PU32 a)
    then show ?thesis using e b h(2) r(1,2,3) by (auto simp: enc_def read_value_def Read_u32_def read_val_def got_def norm_def split: if_splits)
  next
    case (PU64 a)
    then show ?thesis using e b h(2) r(1,2,3,4) by (auto simp: enc_def read_value_def Read_u64_def read_val_def got_def norm_def split: if_splits)
  next
    case (PFloat a)
    then show ?thesis using e b h(2) r(5) by (auto simp: enc_def read_value_def Read_float_def read_val_def got_def norm_def split: if_splits)
  next
    case (PDouble a)
    then show ?thesis using e b h(2) r(6) by (auto simp: enc_def read_value_def Read_double_def read_val_def got_def norm_def split: if_splits)
  qed (use assms(2) in auto)
qed

lemma ahead_length: "ahead s xs \<Longrightarrow> length (rblock s) = rop s + length xs"
  by (auto simp: ahead_def)

lemma ahead_take:
  assumes "ahead s (xs @ ys)"
  shows "rop s + length xs \<le> length (rblock s) \<and> take (length xs) (drop (rop s) (rblock s)) = xs"
proof -
  have "drop (rop s) (rblock s) = xs @ ys" using assms by (simp add: ahead_def)
  then have "take (length xs) (drop (rop s) (rblock s)) = xs" by (simp only:) simp
  moreover have "rop s + length xs \<le> length (rblock s)" using ahead_length [OF assms] by (simp only: length_append)
  ultimately show ?thesis by blast
qed

lemma ahead_nth:
  assumes "ahead s (xs @ y # ys)"
  shows "rop s + length xs < length (rblock s) \<and> rblock s ! (rop s + length xs) = y"
proof -
  have l: "rop s + length xs < length (rblock s)" using ahead_length [OF assms] by (simp only: length_append list.size)
  have "drop (rop s) (rblock s) = xs @ y # ys" "rop s \<le> length (rblock s)" using assms by (simp_all add: ahead_def)
  then have "drop (rop s) (rblock s) ! length xs = y" by (simp only: nth_append_length)
  then show ?thesis using l \<open>rop s \<le> length (rblock s)\<close> by (simp only: nth_drop)
qed

lemma read_text:
  assumes "ahead s (enc (PText t) @ rest)" "length t < size_buf" "length t < 65536" "size_buf \<le> length buf"
  shows "\<exists>buf'. Read_text s buf size_buf = Some (length t, buf', adv (length (enc (PText t))) s) \<and> take (length t) buf' = t \<and>
    buf' ! length t = 0 \<and> length buf' = length buf"
proof (cases "t = []")
  case True
  then show ?thesis using begin_read_type [of s "0x70" rest] assms(1,2,4) by (auto simp: Read_text_def enc_def mem_simps nth_append)
next
  case False
  let ?n = "length t"
  have a: "ahead s (0x71 # nd_short_to_netstream (of_nat ?n) @ t @ 0x7f # rest)" using assms(1) False by (simp add: enc_def)
  have a1: "ahead (adv 1 s) (nd_short_to_netstream (of_nat ?n) @ t @ 0x7f # rest)" using ahead_adv [of s "[0x71]"] a by simp
  have a3: "ahead (adv 3 s) (t @ 0x7f # rest)" using ahead_adv [OF a1, of 2] by (simp add: numeral_3_eq_3)
  have b: "begin_read s = (TType 7 1, adv 1 s)" using begin_read_type [OF a] by simp
  have r: "ReadOrg_u16 (adv 1 s) = (Some (of_nat ?n), adv 3 s)" using ReadOrg_vals(2) [OF a1] by simp
  have n: "unat (of_nat ?n :: u16) = ?n" using assms(3) by (simp add: unat_of_nat_eq)
  have u: "(adv 3 s)\<lparr>rop := rop s + 3 + (?n + 1)\<rparr> = adv (length (enc (PText t))) s" using False by (simp add: enc_def adv_def)
  show ?thesis using b r n u ahead_nth [OF a3] ahead_take [OF a3] False assms(2,4)
    by (simp add: Read_text_def Let_def mem_simps nth_append min_absorb2)
qed

lemma read_bin:
  assumes "ahead s (enc (PBin t) @ rest)" "length t \<le> size_buf" "length t < 65536" "size_buf \<le> length buf"
  shows "\<exists>buf'. ReadBin s buf size_buf = Some (length t, buf', adv (length (enc (PBin t))) s) \<and> take (length t) buf' = t \<and> length buf' = length buf"
proof (cases "t = []")
  case True
  then show ?thesis using begin_read_type [of s "0x80" rest] assms(1) by (simp add: ReadBin_def enc_def)
next
  case False
  let ?n = "length t"
  have a: "ahead s (0x81 # nd_short_to_netstream (of_nat ?n) @ t @ rest)" using assms(1) False by (simp add: enc_def)
  have a1: "ahead (adv 1 s) (nd_short_to_netstream (of_nat ?n) @ t @ rest)" using ahead_adv [of s "[0x81]"] a by simp
  have a3: "ahead (adv 3 s) (t @ rest)" using ahead_adv [OF a1, of 2] by (simp add: numeral_3_eq_3)
  have b: "begin_read s = (TType 8 1, adv 1 s)" using begin_read_type [OF a] by simp
  have r: "ReadOrg_u16 (adv 1 s) = (Some (of_nat ?n), adv 3 s)" using ReadOrg_vals(2) [OF a1] by simp
  have n: "unat (of_nat ?n :: u16) = ?n" using assms(3) by (simp add: unat_of_nat_eq)
  have u: "(adv 3 s)\<lparr>rop := rop s + 3 + ?n\<rparr> = adv (length (enc (PBin t))) s" using False by (simp add: enc_def adv_def)
  show ?thesis using b r n u ahead_take [OF a3] False assms(2,4) by (simp add: ReadBin_def Let_def mem_simps)
qed

lemma read_ip:
  assumes "ahead s (enc (PIp a) @ rest)" "length (ip6 a) = 16"
  shows "ReadIp s \<lparr>af_inet = True, ip6 = replicate 16 0\<rparr> =
    Some (0, if af_inet a then a\<lparr>ip6 := take 4 (ip6 a) @ replicate 12 0\<rparr> else a, adv (length (enc (PIp a))) s)"
proof -
  define bs where "bs = (if af_inet a then take 4 (ip6 a) else ip6 a)"
  have e: "enc (PIp a) = (if af_inet a then 0x94 else 0xaf) # bs" "length bs = (if af_inet a then 4 else 16)" using assms(2) by (auto simp: enc_def bs_def)
  have a1: "ahead (adv 1 s) (bs @ rest)" using assms(1) ahead_adv [of s "[if af_inet a then 0x94 else 0xaf]" "bs @ rest" 1] e(1) by simp
  have b: "begin_read s = (TType (if af_inet a then 9 else 10) (if af_inet a then 4 else 15), adv 1 s)"
    using assms(1) begin_read_type [of s _ "bs @ rest"] e(1) by (cases "af_inet a") simp_all
  have u: "(adv 1 s)\<lparr>rop := rop s + 1 + length bs\<rparr> = adv (length (enc (PIp a))) s" by (simp add: e adv_def)
  show ?thesis using b u ahead_take [OF a1] e(2) assms(2)
    by (cases a; cases "af_inet a") (simp_all add: ReadIp_def ReadStream_def LeftData_def mem_simps bs_def)
qed

lemma read_value_enc:
  assumes "value_ok v" "ahead s (enc v @ rest)"
  shows "read_value (kind_of v) s = Some (Some (norm v), adv (length (enc v)) s)"
proof (cases v)
  case (PText t)
  then show ?thesis using read_text [of s t rest "0x10000" "replicate 0x10000 0"] assms by (auto simp: read_value_def got_bytes_def norm_def value_ok_def)
next
  case (PBin t)
  then show ?thesis using read_bin [of s t rest "0x10000" "replicate 0x10000 0"] assms by (auto simp: read_value_def got_bytes_def norm_def value_ok_def)
next
  case (PIp a)
  then show ?thesis using read_ip [of s a rest] assms by (auto simp: read_value_def got_def norm_def value_ok_def)
qed (use read_number [OF assms(2)] in simp_all)

section \<open>Sequences of values\<close>

text \<open>Values are written or read until one fails.\<close>

fun put_all :: "('v \<Rightarrow> wstream \<Rightarrow> (int \<times> wstream) option) \<Rightarrow> 'v list \<Rightarrow> wstream \<Rightarrow> (int \<times> wstream) option" where
  "put_all wr [] s = Some (0, s)"
| "put_all wr (v # vs) s = do { (r, s) \<leftarrow> wr v s; if r = 0 then put_all wr vs s else Some (r, s) }"

fun get_all :: "('k \<Rightarrow> rstream \<Rightarrow> ('v option \<times> rstream) option) \<Rightarrow> 'k list \<Rightarrow> rstream \<Rightarrow> ('v list option \<times> rstream) option" where
  "get_all rd [] r = Some (Some [], r)"
| "get_all rd (k # ks) r = do {
     (x, r) \<leftarrow> rd k r;
     (case x of None \<Rightarrow> Some (None, r) | Some v \<Rightarrow> do { (y, r) \<leftarrow> get_all rd ks r; Some (map_option ((#) v) y, r) })
   }"

text \<open>Reading values keeps the modes for end marks and never leaves the flag for an end mark set.\<close>

definition same_modes :: "rstream \<Rightarrow> rstream \<Rightarrow> bool" where
  "same_modes r r' \<longleftrightarrow> skip_end r' = skip_end r \<and> skip_all r' = skip_all r \<and> (struct_end r' \<longrightarrow> struct_end r)"

locale item_codec =
  fixes wr :: "'v \<Rightarrow> wstream \<Rightarrow> (int \<times> wstream) option" and rd :: "'k \<Rightarrow> rstream \<Rightarrow> ('v option \<times> rstream) option"
    and tag :: "'v \<Rightarrow> 'k" and bytes_of :: "'v \<Rightarrow> byte list" and res :: "'v \<Rightarrow> 'v" and okv :: "'v \<Rightarrow> bool"
  assumes wr_code: "okv v \<Longrightarrow> wop s \<le> length (wblock s) \<Longrightarrow> writes 1 (bytes_of v) s (wr v s)"
    and rd_code: "okv v \<Longrightarrow> ahead r (bytes_of v @ rest) \<Longrightarrow> rd (tag v) r = Some (Some (res v), adv (length (bytes_of v)) r)"
begin

lemma put_all_total:
  "\<forall>v \<in> set vs. okv v \<Longrightarrow> wop s \<le> length (wblock s) \<Longrightarrow>
    \<exists>r s'. put_all wr vs s = Some (r, s') \<and> (r = 0 \<longleftrightarrow> wop s + length (concat (map bytes_of vs)) \<le> length (wblock s)) \<and>
      (r = 0 \<longrightarrow> appended s (concat (map bytes_of vs)) s') \<and> wop s' \<le> length (wblock s')"
proof (induction vs arbitrary: s)
  case Nil
  then show ?case by (simp add: stream_refl)
next
  case (Cons v vs)
  have w: "writes 1 (bytes_of v) s (wr v s)" using wr_code Cons.prems by simp
  show ?case
  proof (cases "wop s + length (bytes_of v) \<le> length (wblock s)")
    case True
    then obtain t where t: "wr v s = Some (0, t)" "appended s (bytes_of v) t" using w by (auto simp: writes_def)
    have l: "wop t = wop s + length (bytes_of v)" "length (wblock t) = length (wblock s)" "wop t \<le> length (wblock t)" using t(2) by (auto simp: appended_def)
    obtain r u where u: "put_all wr vs t = Some (r, u)" "r = 0 \<longleftrightarrow> wop t + length (concat (map bytes_of vs)) \<le> length (wblock t)"
        "r = 0 \<longrightarrow> appended t (concat (map bytes_of vs)) u" "wop u \<le> length (wblock u)"
      using Cons.IH [of t] Cons.prems(1) l(3) by auto
    show ?thesis using t(1) u l stream_trans [OF t(2)] by auto
  next
    case False
    then obtain j t where "wr v s = Some (-1, t)" "appended s (take j (bytes_of v)) t" using w by (auto simp: writes_def)
    then show ?thesis using False stream_room by auto
  qed
qed

lemma get_all_codes:
  "\<forall>v \<in> set vs. okv v \<Longrightarrow> ahead r (concat (map bytes_of vs) @ rest) \<Longrightarrow>
    \<exists>r'. get_all rd (map tag vs) r = Some (Some (map res vs), r') \<and> ahead r' rest \<and> same_modes r r'"
proof (induction vs arbitrary: r)
  case (Cons v vs)
  have a: "ahead r (bytes_of v @ concat (map bytes_of vs) @ rest)" using Cons.prems(2) by simp
  obtain r' where r': "get_all rd (map tag vs) (adv (length (bytes_of v)) r) = Some (Some (map res vs), r')" "ahead r' rest"
      "same_modes (adv (length (bytes_of v)) r) r'"
    using Cons.IH [of "adv (length (bytes_of v)) r"] ahead_adv [OF a refl] Cons.prems(1) by auto
  then have "same_modes r r'" by (simp add: same_modes_def)
  then show ?case using r' rd_code [OF _ a] Cons.prems(1) by simp
qed (simp add: same_modes_def)

lemma all_round_trip:
  assumes "\<forall>v \<in> set vs. okv v" "wop s = 0" "put_all wr vs s = Some (0, s')"
  shows "\<exists>r. get_all rd (map tag vs) (read_init (stored s')) = Some (Some (map res vs), r) \<and> LeftData r = 0"
proof -
  have "appended s (concat (map bytes_of vs)) s'" using put_all_total [OF assms(1), of s] assms(2,3) by auto
  then have "stored s' = concat (map bytes_of vs)" using assms(2) unfolding appended_def by (simp add: stored_def [of s])
  then have "ahead (read_init (stored s')) (concat (map bytes_of vs) @ [])" by (simp add: ahead_def read_init_def)
  then obtain r where "get_all rd (map tag vs) (read_init (stored s')) = Some (Some (map res vs), r)" "ahead r []"
    using get_all_codes [OF assms(1)] by blast
  then show ?thesis using ahead_length [of r "[]"] by (simp add: LeftData_def)
qed

end

interpretation typed: item_codec write_value read_value kind_of enc norm value_ok
  by unfold_locales (fact write_value_writes, fact read_value_enc)

section \<open>Variant values\<close>

fun val_of :: "NDVarType \<Rightarrow> pvalue" where
  "val_of (ND_VT_INT a) = PU32 a" | "val_of (ND_VT_FLOAT a) = PFloat a" | "val_of (ND_VT_STRING t) = PText t" | "val_of (ND_VT_INT8 a) = PU8 a"
| "val_of (ND_VT_INT16 a) = PU16 a" | "val_of (ND_VT_INT64 a) = PU64 a" | "val_of (ND_VT_BINARY bs) = PBin bs"

text \<open>The variant values that come back: texts and blocks of bytes must not be empty.\<close>

definition var_ok :: "NDVarType \<Rightarrow> bool" where
  "var_ok v = (case v of ND_VT_STRING t \<Rightarrow> t \<noteq> [] \<and> 0 \<notin> set t \<and> length t < 65536 | ND_VT_BINARY bs \<Rightarrow> bs \<noteq> [] \<and> length bs < 65536 | _ \<Rightarrow> True)"

definition var_norm :: "NDVarType \<Rightarrow> NDVarType" where
  "var_norm v = (case v of ND_VT_FLOAT a \<Rightarrow> ND_VT_FLOAT (if float_zero a then 0 else a) | _ \<Rightarrow> v)"

definition read_var :: "unit \<Rightarrow> rstream \<Rightarrow> (NDVarType option \<times> rstream) option" where
  "read_var _ s = do { (r, v, s) \<leftarrow> ReadVar s (ND_VT_INT 0); Some (if r = 0 then Some v else None, s) }"

lemma peek_type:
  assumes "ahead s (m # rest)" "m \<noteq> 0xff" "drop_bit 4 (m AND 0xf0) \<noteq> 11" "drop_bit 4 (m AND 0xf0) \<noteq> 12"
  shows "PeekDataType s = Some (drop_bit 4 (m AND 0xf0), adv 0 s)"
  using begin_read_type [OF assms] by (simp add: PeekDataType_def adv_def)

lemma got_eq: "got f x = (Some y, s) \<Longrightarrow> \<exists>a. y = f a \<and> x = (0, a, s)"
  by (auto simp: got_def split: if_splits prod.splits)

lemma takeWhile_string: "take n buf = t \<Longrightarrow> 0 \<notin> set t \<Longrightarrow> length t = n \<Longrightarrow> n < length buf \<Longrightarrow> buf ! n = 0 \<Longrightarrow> takeWhile (\<lambda>b. b \<noteq> (0 :: byte)) buf = t"
proof -
  assume a: "take n buf = t" "0 \<notin> set t" "length t = n" "n < length buf" "buf ! n = 0"
  have "buf = t @ 0 # drop (Suc n) buf" using id_take_nth_drop [OF a(4)] a(1,5) by simp
  then show ?thesis using a(2) by (metis (mono_tags, lifting) takeWhile_append2 takeWhile.simps(2) append_Nil2)
qed

lemma var_enc: "var_ok v \<Longrightarrow> \<exists>m bs. enc (val_of v) = m # bs \<and> m \<noteq> 0xff \<and> drop_bit 4 (m AND 0xf0) =
    (case v of ND_VT_INT8 _ \<Rightarrow> 1 | ND_VT_INT16 _ \<Rightarrow> 2 | ND_VT_INT _ \<Rightarrow> 3 | ND_VT_INT64 _ \<Rightarrow> 4 | ND_VT_FLOAT _ \<Rightarrow> 5 | ND_VT_STRING _ \<Rightarrow> 7 | ND_VT_BINARY _ \<Rightarrow> 8)"
  by (cases v) (auto simp: enc_def)

lemma read_var_enc:
  assumes "var_ok v" "ahead s (enc (val_of v) @ rest)"
  shows "read_var () s = Some (Some (var_norm v), adv (length (enc (val_of v))) s)"
proof -
  obtain m bs where m: "enc (val_of v) = m # bs" "m \<noteq> 0xff" "drop_bit 4 (m AND 0xf0) =
    (case v of ND_VT_INT8 _ \<Rightarrow> 1 | ND_VT_INT16 _ \<Rightarrow> 2 | ND_VT_INT _ \<Rightarrow> 3 | ND_VT_INT64 _ \<Rightarrow> 4 | ND_VT_FLOAT _ \<Rightarrow> 5 | ND_VT_STRING _ \<Rightarrow> 7 | ND_VT_BINARY _ \<Rightarrow> 8)"
    using var_enc [OF assms(1)] by blast
  have "PeekDataType s = Some (drop_bit 4 (m AND 0xf0), adv 0 s)"
    by (rule peek_type [of s m "bs @ rest"]) (use assms(2) m in \<open>auto split: NDVarType.splits\<close>)
  note pk = this [unfolded m(3)]
  have a: "ahead (adv 0 s) (enc (val_of v) @ rest)" by (rule ahead_0 [OF assms(2)])
  have vo: "value_ok (val_of v)" using assms(1) by (cases v) (auto simp: var_ok_def value_ok_def)
  note rv = read_value_enc [OF vo a]
  show ?thesis
  proof (cases v)
    case (ND_VT_STRING t)
    then obtain buf where b: "Read_text (adv 0 s) (replicate 0x10000 0) 0x10000 = Some (length t, buf, adv (length (enc (PText t))) (adv 0 s))"
        "take (length t) buf = t" "buf ! length t = 0" "length buf = 0x10000"
      using read_text [of "adv 0 s" t rest "0x10000" "replicate 0x10000 0"] a assms(1) by (auto simp: var_ok_def)
    have "takeWhile (\<lambda>b. b \<noteq> 0) buf = t" by (rule takeWhile_string [OF b(2) _ refl _ b(3)]) (use ND_VT_STRING assms(1) b(4) in \<open>auto simp: var_ok_def\<close>)
    then show ?thesis using ND_VT_STRING pk b(1) assms(1) by (simp add: read_var_def ReadVar_def var_norm_def var_ok_def)
  next
    case (ND_VT_BINARY t)
    then obtain buf where b: "ReadBin (adv 0 s) (replicate 0x10000 0) 0x10000 = Some (length t, buf, adv (length (enc (PBin t))) (adv 0 s))"
        "take (length t) buf = t"
      using read_bin [of "adv 0 s" t rest "0x10000" "replicate 0x10000 0"] a assms(1) by (auto simp: var_ok_def)
    then show ?thesis using ND_VT_BINARY pk assms(1) by (simp add: read_var_def ReadVar_def var_norm_def var_ok_def)
  qed (use rv pk in \<open>auto simp: read_value_def norm_def var_norm_def read_var_def ReadVar_def read_var_num_def dest!: got_eq\<close>)
qed

lemma WriteVar_value: "WriteVar v = write_value (val_of v)"
  by (cases v) (simp_all add: WriteVar_def write_value_def)

interpretation variant: item_codec WriteVar read_var "\<lambda>_. ()" "\<lambda>v. enc (val_of v)" var_norm var_ok
proof unfold_locales
  fix v and s :: wstream assume "var_ok v" "wop s \<le> length (wblock s)"
  then show "writes 1 (enc (val_of v)) s (WriteVar v s)"
    unfolding WriteVar_value by (intro write_value_writes) (cases v; simp add: var_ok_def value_ok_def)+
qed (fact read_var_enc)

section \<open>Structure marks\<close>

lemma begin_read_end:
  assumes "ahead s (0xff # rest)" "\<not> skip_end s" "\<not> skip_all s"
  shows "begin_read s = (TEnd, (adv 1 s)\<lparr>struct_end := True\<rparr>)"
proof -
  have "ReadOrg_u8 (adv 0 s) = (Some 0xff, adv 1 s)" using ReadOrg_ahead [of 0 s "[0xff]" rest 1] ahead_0 [OF assms(1)] by (simp add: ReadOrg_u8_def)
  then show ?thesis unfolding begin_read_adv using assms(2,3) by (subst ReadTypeSize.simps) (simp add: NET_STREAM_STRUCT_END_MARK_def)
qed

text \<open>A value is skipped by its marker.\<close>

lemma skip_value_enc:
  assumes "value_ok v" "ahead s (enc v @ rest)"
  shows "\<exists>type sz. begin_read s = (TType type sz, adv 1 s) \<and> skip_value type sz (adv 1 s) = Some (adv (length (enc v)) s)"
proof -
  obtain m bs where e: "enc v = m # bs" using enc_not_Nil [of v] by (cases "enc v") auto
  have h: "ahead s (m # bs @ rest)" "ahead (adv 1 s) (bs @ rest)" using assms(2) ahead_adv [of s "[m]"] by (simp_all add: e)
  note b = begin_read_type [OF h(1)]
  have u: "unat (of_nat k :: u16) = k" if "k < 65536" for k using that by (simp add: unat_of_nat_eq)
  have adv_rop: "(adv 1 s)\<lparr>rop := rop s + 1 + k\<rparr> = adv (1 + k) s" "(adv 3 s)\<lparr>rop := rop s + 3 + k\<rparr> = adv (3 + k) s" for k
    by (simp_all add: adv_def add.assoc)
  let ?t = "drop_bit 4 (m AND 0xf0)" and ?z = "m AND 0xf"
  have "begin_read s = (TType ?t ?z, adv 1 s) \<and> skip_value ?t ?z (adv 1 s) = Some (adv (length (enc v)) s)"
  proof (cases v)
    case (PText t)
    show ?thesis
    proof (cases "t = []")
      case False
      then have "bs = nd_short_to_netstream (of_nat (length t)) @ t @ [0x7f]" "m = 0x71" using PText e by (simp_all add: enc_def)
      then show ?thesis using b ReadOrg_vals(2) [of 1 s "of_nat (length t)" "t @ [0x7f] @ rest"] h(2) u [of "length t"] assms(1) PText adv_rop(2) [of "length t + 1"] e
        by (simp add: skip_value_def value_ok_def adv_def add.assoc)
    qed (use PText e b in \<open>simp add: enc_def skip_value_def\<close>)
  next
    case (PBin t)
    show ?thesis
    proof (cases "t = []")
      case False
      then have "bs = nd_short_to_netstream (of_nat (length t)) @ t" "m = 0x81" using PBin e by (simp_all add: enc_def)
      then show ?thesis using b ReadOrg_vals(2) [of 1 s "of_nat (length t)" "t @ rest"] h(2) u [of "length t"] assms(1) PBin adv_rop(2) [of "length t"] e
        by (simp add: skip_value_def value_ok_def adv_def add.assoc)
    qed (use PBin e b in \<open>simp add: enc_def skip_value_def\<close>)
  qed (use e b assms(1) in \<open>auto simp: enc_def skip_value_def value_ok_def adv_def split: if_splits\<close>)
  then show ?thesis by blast
qed

lemma move_end_values:
  "\<forall>v \<in> set vs. value_ok v \<Longrightarrow> ahead s (concat (map enc vs) @ 0xff # rest) \<Longrightarrow> \<not> skip_end s \<Longrightarrow> \<not> skip_all s \<Longrightarrow>
    move_end_loop s = (True, (adv (length (concat (map enc vs)) + 1) s)\<lparr>struct_end := True\<rparr>)"
proof (induction vs arbitrary: s)
  case Nil
  then show ?case using begin_read_end [of s rest] by (subst move_end_loop.simps) simp
next
  case (Cons v vs)
  have a: "ahead s (enc v @ concat (map enc vs) @ 0xff # rest)" using Cons.prems(2) by simp
  let ?s = "adv (length (enc v)) s"
  have a': "ahead ?s (concat (map enc vs) @ 0xff # rest)" using ahead_adv [OF a refl] .
  have "LeftData ?s > 0" using ahead_length [OF a'] by (simp add: LeftData_def)
  moreover obtain type sz where "begin_read s = (TType type sz, adv 1 s)" "skip_value type sz (adv 1 s) = Some ?s"
    using skip_value_enc [OF _ a] Cons.prems(1) by auto
  moreover have "move_end_loop ?s = (True, (adv (length (concat (map enc vs)) + 1) ?s)\<lparr>struct_end := True\<rparr>)"
    using Cons.IH [OF _ a'] Cons.prems by simp
  ultimately show ?case by (subst move_end_loop.simps) (simp add: add.assoc)
qed

lemma move_struct_end:
  assumes "\<forall>v \<in> set vs. value_ok v" "ahead s (concat (map enc vs) @ 0xff # rest)" "\<not> skip_end s" "\<not> skip_all s" "\<not> struct_end s"
  obtains s' where "TrytoMoveStructEnd s = (True, s')" "ahead s' rest" "struct_end s'" "\<not> skip_end s'" "\<not> skip_all s'"
proof -
  let ?n = "length (concat (map enc vs)) + 1"
  have "ahead (adv ?n s) rest" using ahead_adv [of s "concat (map enc vs) @ [0xff]" rest ?n] assms(2) by simp
  then have "ahead ((adv ?n s)\<lparr>struct_end := True\<rparr>) rest" by (simp add: ahead_def)
  moreover have "TrytoMoveStructEnd s = (True, (adv ?n s)\<lparr>struct_end := True\<rparr>)"
    using move_end_values [OF assms(1-4)] assms(3-5) by (simp add: TrytoMoveStructEnd_def)
  ultimately show ?thesis using that assms(3,4) by auto
qed

text \<open>A read in front of an end mark fails and leaves the stream behind the mark.\<close>

lemma read_value_at_end:
  assumes "ahead s (0xff # rest)" "\<not> skip_end s" "\<not> skip_all s"
  shows "\<exists>x. read_value k s = Some (x, (adv 1 s)\<lparr>struct_end := True\<rparr>) \<and> (k \<noteq> KText \<longrightarrow> k \<noteq> KBin \<longrightarrow> x = None)"
  using begin_read_end [OF assms]
  by (cases k) (simp_all add: read_value_def Read_u8_def Read_u16_def Read_u32_def Read_u64_def Read_float_def Read_double_def Read_text_def ReadBin_def ReadIp_def
    got_def got_bytes_def)

section \<open>Any input\<close>

lemma begin_read_in: "begin_read s = (x, s') \<Longrightarrow> rop s \<le> length (rblock s) \<Longrightarrow> rblock s' = rblock s \<and> rop s \<le> rop s' \<and> rop s' \<le> length (rblock s)"
  using ReadTypeSize_moves [of "s\<lparr>struct_end := False\<rparr>" x s'] by (simp add: begin_read_def)

lemma write_string:
  assumes "length bs = n" "n < sz" "sz \<le> length buf"
  shows "\<exists>b1 b2. mem_write buf 0 bs = Some b1 \<and> mem_write b1 n [0] = Some b2 \<and> length b2 = length buf \<and> drop sz b2 = drop sz buf \<and> b2 ! n = 0"
proof -
  have "mem_write buf 0 bs = Some (bs @ drop n buf)" using assms by (simp add: mem_simps)
  moreover have "mem_write (bs @ drop n buf) n [0] = Some (bs @ 0 # drop (Suc n) buf)" using assms by (simp add: mem_simps)
  moreover have "drop sz (bs @ 0 # drop (Suc n) buf) = drop sz buf" using assms by (simp add: drop_Cons')
  ultimately show ?thesis using assms by (auto simp: nth_append)
qed

lemma Read_text_any:
  assumes "rop s \<le> length (rblock s)" "0 < size_buf" "size_buf \<le> length buf"
  shows "\<exists>n buf' s'. Read_text s buf size_buf = Some (n, buf', s') \<and> n < size_buf \<and> length buf' = length buf \<and> drop size_buf buf' = drop size_buf buf \<and>
    (n > 0 \<longrightarrow> buf' ! n = 0) \<and> rblock s' = rblock s \<and> rop s \<le> rop s' \<and> rop s' \<le> length (rblock s)"
proof (cases "begin_read s")
  case (Pair x s1)
  note b = begin_read_in [OF Pair assms(1)]
  show ?thesis
  proof (cases "\<exists>sz. x = TType 7 sz \<and> sz \<noteq> 0")
    case True
    obtain y s2 where r: "ReadOrg_u16 s1 = (y, s2)" by (cases "ReadOrg_u16 s1") auto
    note m = ReadOrg_u16_moves [OF r]
    show ?thesis
    proof (cases "\<exists>a. y = Some a \<and> unat a > 0 \<and> rop s2 + unat a < length (rblock s2) \<and> rblock s2 ! (rop s2 + unat a) = 0x7f \<and> unat a < size_buf")
      case c: True
      then obtain a where a: "y = Some a" "unat a > 0" "rop s2 + unat a < length (rblock s2)" "rblock s2 ! (rop s2 + unat a) = 0x7f" "unat a < size_buf" by blast
      then obtain b1 b2 where "mem_write buf 0 (take (unat a) (drop (rop s2) (rblock s2))) = Some b1" "mem_write b1 (unat a) [0] = Some b2"
          "length b2 = length buf" "drop size_buf b2 = drop size_buf buf" "b2 ! unat a = 0"
        using write_string [of "take (unat a) (drop (rop s2) (rblock s2))" "unat a" size_buf buf] assms(3) by auto
      then show ?thesis using True Pair r m b a by (auto simp: Read_text_def Let_def)
    next
      case c: False
      then have "Read_text s buf size_buf = Some (0, buf, s2)" using True Pair r by (cases y) (auto simp: Read_text_def Let_def)
      then show ?thesis using m b assms(2) by auto
    qed
  next
    case False
    then show ?thesis using Pair b assms(2,3) by (cases x) (auto simp: Read_text_def mem_simps drop_Cons')
  qed
qed

lemma ReadBin_any:
  assumes "rop s \<le> length (rblock s)" "size_buf \<le> length buf"
  shows "\<exists>n buf' s'. ReadBin s buf size_buf = Some (n, buf', s') \<and> n \<le> size_buf \<and> length buf' = length buf \<and> drop size_buf buf' = drop size_buf buf \<and>
    rblock s' = rblock s \<and> rop s \<le> rop s' \<and> rop s' \<le> length (rblock s)"
proof (cases "begin_read s")
  case (Pair x s1)
  note b = begin_read_in [OF Pair assms(1)]
  show ?thesis
  proof (cases "\<exists>sz. x = TType 8 sz \<and> sz \<noteq> 0")
    case True
    obtain y s2 where r: "ReadOrg_u16 s1 = (y, s2)" by (cases "ReadOrg_u16 s1") auto
    note m = ReadOrg_u16_moves [OF r]
    show ?thesis using True Pair r m b assms(2) by (cases y) (auto simp: ReadBin_def Let_def mem_simps)
  next
    case False
    then show ?thesis using Pair b by (cases x) (auto simp: ReadBin_def)
  qed
qed

section \<open>Properties\<close>

text \<open>C37. A message. Values of any types written to a new message without a failure are what the receiver of the message reads, in order and up to the end of the
  data, unless they fill the message to its last byte: then the length field wraps around to 0. (Zeros come back without their sign.)\<close>

theorem message_round_trip:
  assumes "\<forall>v \<in> set vs. value_ok v" "put_all write_value vs (stream (NDSendMsg_new msgID)) = Some (0, s)"
  shows "if GetFreeLen s = 0 then msg_length s = Some 0
    else \<exists>r r'. NDRecvMsg_Init (the (msg_length s)) (wblock s) = Some r \<and>
      get_all read_value (map kind_of vs) r = Some (Some (map norm vs), r') \<and> LeftData r' = 0"
proof -
  let ?s = "stream (NDSendMsg_new msgID)" and ?bs = "concat (map enc vs)"
  have s0: "wop ?s = 0" "length (wblock ?s) = 65530" "msg_length ?s = Some 6"
    by (simp_all add: NDSendMsg_new_def NDSendMsg_create_def ND_USERMSG_DATA_CAPACITY_def ND_PACKET_SIZE_def ND_USERMSG_HDRLEN_def)
  have ap: "appended ?s ?bs s" using typed.put_all_total [OF assms(1), of ?s] assms(2) s0(1) by auto
  then have "stored s = ?bs" "wop s = length ?bs" using s0(1) by (simp_all add: appended_def stored_def [of ?s])
  moreover from this have "take (length ?bs) (wblock s) = ?bs" by (simp only: stored_def)
  ultimately have s: "take (length ?bs) (wblock s) = ?bs" "wop s = length ?bs" "length (wblock s) = 65530" "length ?bs \<le> 65530"
      "msg_length s = Some (6 + of_nat (length ?bs))"
    using ap s0 by (simp_all add: appended_def)
  show ?thesis
  proof (cases "length ?bs = 65530")
    case True
    then show ?thesis using s(2,3,5) by (simp add: GetFreeLen_def)
  next
    case False
    have u: "unat (6 + of_nat (length ?bs) :: u16) = 6 + length ?bs" using s(4) False unat_of_nat_eq [of "6 + length ?bs", where 'a = 16] by simp
    have "NDRecvMsg_Init (the (msg_length s)) (wblock s) = Some (read_init ?bs)"
      unfolding NDRecvMsg_Init_def s(5) option.sel u using s(1,3,4) by (simp add: ND_USERMSG_HDRLEN_def)
    moreover have "wop (write_init [] :: wstream) = 0" by (simp add: write_init_def)
    moreover have "ahead (read_init ?bs) (?bs @ [])" by (simp add: ahead_def read_init_def)
    then obtain r' where "get_all read_value (map kind_of vs) (read_init ?bs) = Some (Some (map norm vs), r')" "ahead r' []"
      using typed.get_all_codes [OF assms(1)] by blast
    moreover have "LeftData r' = 0" using ahead_length [OF \<open>ahead r' []\<close>] by (simp add: LeftData_def)
    ultimately show ?thesis using s(2,3) False s(4) by (simp add: GetFreeLen_def)
  qed
qed

theorem message_round_trip_witness:
  "\<exists>s r r'. put_all write_value [PU32 5, PText [0x68, 0x69], PFloat 0x80000000] (stream (NDSendMsg_new 0x0102)) = Some (0, s) \<and>
    NDRecvMsg_Init (the (msg_length s)) (wblock s) = Some r \<and>
    get_all read_value [KU32, KText, KFloat] r = Some (Some [PU32 5, PText [0x68, 0x69], PFloat 0], r') \<and> LeftData r' = 0"
proof -
  let ?vs = "[PU32 5, PText [0x68, 0x69], PFloat 0x80000000]" and ?s = "stream (NDSendMsg_new 0x0102)"
  have s0: "wop ?s = 0" "length (wblock ?s) = 65530"
    by (simp_all add: NDSendMsg_new_def NDSendMsg_create_def ND_USERMSG_DATA_CAPACITY_def ND_PACKET_SIZE_def ND_USERMSG_HDRLEN_def)
  have ok: "\<forall>v \<in> set ?vs. value_ok v" by (simp add: value_ok_def)
  have len: "length (concat (map enc ?vs)) = 9" by code_simp
  obtain s where s: "put_all write_value ?vs ?s = Some (0, s)" "appended ?s (concat (map enc ?vs)) s"
    using typed.put_all_total [OF ok, of ?s] s0 len by auto
  have "GetFreeLen s \<noteq> 0" using s(2) s0 len by (simp add: appended_def GetFreeLen_def)
  then show ?thesis using message_round_trip [OF ok s(1)] s(1) by (simp add: norm_def float_zero_def)
qed

text \<open>Variant values. What \<open>WriteVar\<close> writes is what \<open>ReadVar\<close> reads, with the same types and in the same order, for values whose texts and blocks of bytes are not
  empty.\<close>

theorem variant_round_trip:
  assumes "\<forall>v \<in> set vs. var_ok v" "put_all WriteVar vs (write_init blk) = Some (0, s)"
  shows "\<exists>r. get_all read_var (map (\<lambda>_. ()) vs) (read_init (stored s)) = Some (Some (map var_norm vs), r) \<and> LeftData r = 0"
  using variant.all_round_trip [OF assms(1) _ assms(2)] by (simp add: write_init_def)

theorem variant_round_trip_witness:
  "\<exists>s r. put_all WriteVar [ND_VT_INT 7, ND_VT_STRING [0x61], ND_VT_BINARY [0, 1]] (write_init (replicate 32 0)) = Some (0, s) \<and>
    get_all read_var [(), (), ()] (read_init (stored s)) = Some (Some [ND_VT_INT 7, ND_VT_STRING [0x61], ND_VT_BINARY [0, 1]], r) \<and> LeftData r = 0"
proof -
  let ?vs = "[ND_VT_INT 7, ND_VT_STRING [0x61], ND_VT_BINARY [0, 1]]"
  have ok: "\<forall>v \<in> set ?vs. var_ok v" by (simp add: var_ok_def)
  have "length (concat (map (\<lambda>v. enc (val_of v)) ?vs)) = 12" by code_simp
  then obtain s where s: "put_all WriteVar ?vs (write_init (replicate 32 0)) = Some (0, s)"
    using variant.put_all_total [OF ok, of "write_init (replicate 32 0)"] by (auto simp: write_init_def)
  show ?thesis using variant_round_trip [OF ok s] s by (simp add: var_norm_def)
qed

text \<open>C38. Structures grow. A reader that knows only the first fields of a structure reads these, moves to the end of the structure over the fields it does not know,
  and goes on with what follows.\<close>

theorem struct_unknown_fields:
  assumes "\<forall>v \<in> set (us @ xs @ ws). value_ok v" "put_all write_value (us @ xs) (write_init blk) = Some (0, s1)" "SetStructEnd s1 = Some (0, s2)"
    "put_all write_value ws s2 = Some (0, s)"
  shows "\<exists>r1 r2 r3. get_all read_value (map kind_of us) (read_init (stored s)) = Some (Some (map norm us), r1) \<and> TrytoMoveStructEnd r1 = (True, r2) \<and>
    get_all read_value (map kind_of ws) r2 = Some (Some (map norm ws), r3) \<and> LeftData r3 = 0"
proof -
  let ?c = "\<lambda>vs. concat (map enc vs)"
  have "appended (write_init blk) (?c (us @ xs)) s1"
    using typed.put_all_total [of "us @ xs" "write_init blk"] assms(1,2) by (auto simp: write_init_def)
  moreover have "appended s1 [0xff] s2"
    using WriteOrg_writes [of s1 "[0xff]"] stream_room [OF calculation] assms(3)
    by (auto simp: SetStructEnd_def WriteOrg_u8_def NET_STREAM_STRUCT_END_MARK_def writes_def split: if_splits)
  moreover have "appended s2 (?c ws) s" using typed.put_all_total [of ws s2] assms(1,4) stream_room [OF calculation(2)] by auto
  ultimately have "stored s = stored (write_init blk) @ ?c (us @ xs) @ [0xff] @ ?c ws" by (simp add: appended_def)
  then have st: "stored s = ?c us @ ?c xs @ 0xff # ?c ws" by (simp add: stored_def write_init_def)
  have a: "ahead (read_init (stored s)) (?c us @ ?c xs @ 0xff # ?c ws)" unfolding st by (simp add: ahead_def read_init_def)
  obtain r1 where r1: "get_all read_value (map kind_of us) (read_init (stored s)) = Some (Some (map norm us), r1)"
      "ahead r1 (?c xs @ 0xff # ?c ws)" "same_modes (read_init (stored s)) r1"
    using typed.get_all_codes [OF _ a] assms(1) by auto
  have "\<not> skip_end r1" "\<not> skip_all r1" "\<not> struct_end r1" using r1(3) by (auto simp: same_modes_def read_init_def)
  moreover have "\<forall>v \<in> set xs. value_ok v" using assms(1) by simp
  ultimately obtain r2 where r2: "TrytoMoveStructEnd r1 = (True, r2)" "ahead r2 (?c ws @ [])" using move_struct_end [OF _ r1(2)] by auto
  obtain r3 where "get_all read_value (map kind_of ws) r2 = Some (Some (map norm ws), r3)" "ahead r3 []"
    using typed.get_all_codes [OF _ r2(2)] assms(1) by auto
  then show ?thesis using r1(1) r2(1) ahead_length [of r3 "[]"] by (auto simp: LeftData_def)
qed

theorem struct_unknown_fields_witness:
  "\<exists>s1 s2 s r1 r2 r3. put_all write_value [PU8 1, PU16 7] (write_init (replicate 16 0)) = Some (0, s1) \<and> SetStructEnd s1 = Some (0, s2) \<and>
    put_all write_value [PU32 9] s2 = Some (0, s) \<and> get_all read_value [KU8] (read_init (stored s)) = Some (Some [PU8 1], r1) \<and>
    TrytoMoveStructEnd r1 = (True, r2) \<and> get_all read_value [KU32] r2 = Some (Some [PU32 9], r3) \<and> LeftData r3 = 0"
proof -
  let ?w = "\<lambda>bs. \<lparr>wblock = bs @ replicate (16 - length bs) 0, wop = length bs, msg_length = None\<rparr>"
  have "put_all write_value ([PU8 1] @ [PU16 7]) (write_init (replicate 16 0)) = Some (0, ?w [0x11, 1, 0x21, 7])"
      "SetStructEnd (?w [0x11, 1, 0x21, 7]) = Some (0, ?w [0x11, 1, 0x21, 7, 0xff])"
      "put_all write_value [PU32 9] (?w [0x11, 1, 0x21, 7, 0xff]) = Some (0, ?w [0x11, 1, 0x21, 7, 0xff, 0x31, 9])"
    by code_simp+
  then obtain s1 s2 s where w: "put_all write_value ([PU8 1] @ [PU16 7]) (write_init (replicate 16 0)) = Some (0, s1)" "SetStructEnd s1 = Some (0, s2)"
      "put_all write_value [PU32 9] s2 = Some (0, s)" by blast
  have "\<forall>v \<in> set ([PU8 1] @ [PU16 7] @ [PU32 9]). value_ok v" by (simp add: value_ok_def)
  from struct_unknown_fields [OF this w] w show ?thesis by (simp add: norm_def del: put_all.simps get_all.simps)
qed

text \<open>C39. Structures in structures. When the last field of a structure is a structure, both end marks follow each other. Moving to the end of the inner one leaves the flag set, so
  that moving to the end of the outer one does nothing, and the next number is not read.\<close>

theorem struct_nested_end_lost:
  assumes "\<forall>v \<in> set vs. value_ok v" "ahead s (concat (map enc vs) @ 0xff # 0xff # rest)" "\<not> skip_end s" "\<not> skip_all s" "\<not> struct_end s"
  shows "\<exists>r. TrytoMoveStructEnd s = (True, r) \<and> TrytoMoveStructEnd r = (True, r) \<and> (\<exists>r' a. Read_u32 r 0 = (-1, a, r'))"
proof -
  obtain r where r: "TrytoMoveStructEnd s = (True, r)" "ahead r (0xff # rest)" "struct_end r" "\<not> skip_end r" "\<not> skip_all r"
    by (rule move_struct_end [OF assms])
  moreover have "TrytoMoveStructEnd r = (True, r)" using r(3) by (simp add: TrytoMoveStructEnd_def)
  moreover have "\<exists>r' a. Read_u32 r 0 = (-1, a, r')" using begin_read_end [OF r(2,4,5)] by (simp add: Read_u32_def)
  ultimately show ?thesis by blast
qed

theorem struct_nested_end_lost_witness:
  "\<exists>r. TrytoMoveStructEnd (read_init [0x11, 5, 0xff, 0xff, 0x31, 9]) = (True, r) \<and> TrytoMoveStructEnd r = (True, r) \<and> (\<exists>r' a. Read_u32 r 0 = (-1, a, r'))"
  using struct_nested_end_lost [of "[PU8 5]" "read_init [0x11, 5, 0xff, 0xff, 0x31, 9]" "[0x31, 9]"]
  by (simp add: value_ok_def ahead_def read_init_def enc_def)

text \<open>C40. Any input. Whatever bytes arrive, reading a text or a block of bytes neither reads behind the data nor writes behind the caller's buffer, a text is terminated, and the position
  only moves forward.\<close>

theorem read_any_input:
  assumes "rop s \<le> length (rblock s)" "0 < size_buf" "size_buf \<le> length buf"
  shows "(\<exists>n buf' s'. Read_text s buf size_buf = Some (n, buf', s') \<and> n < size_buf \<and> drop size_buf buf' = drop size_buf buf \<and> (n > 0 \<longrightarrow> buf' ! n = 0) \<and>
      rop s \<le> rop s' \<and> rop s' \<le> length (rblock s)) \<and>
    (\<exists>n buf' s'. ReadBin s buf size_buf = Some (n, buf', s') \<and> n \<le> size_buf \<and> drop size_buf buf' = drop size_buf buf \<and>
      rop s \<le> rop s' \<and> rop s' \<le> length (rblock s))"
  using Read_text_any [OF assms] ReadBin_any [OF assms(1,3)] by blast

theorem read_any_input_witness:
  "(\<exists>n buf' s'. Read_text (read_init [0x71, 0xff, 0xff, 1]) [9, 9, 9, 9] 3 = Some (n, buf', s') \<and> n < 3 \<and> drop 3 buf' = [9]) \<and>
   (\<exists>n buf' s'. ReadBin (read_init [0x71, 0xff, 0xff, 1]) [9, 9, 9, 9] 3 = Some (n, buf', s') \<and> n \<le> 3 \<and> drop 3 buf' = [9])"
proof -
  have "rop (read_init [0x71, 0xff, 0xff, 1]) \<le> length (rblock (read_init [0x71, 0xff, 0xff, 1]))" "0 < (3 :: nat)" "3 \<le> length [9 :: byte, 9, 9, 9]"
    by (simp_all add: read_init_def)
  from read_any_input [OF this] show ?thesis by (elim conjE exE) (intro conjI exI; simp)
qed

text \<open>A peek changes the mode for end marks but not the position: with end marks skipped, a value behind an end mark and the command that enables them is read, but not after a
  peek.\<close>

lemma peek_changes_read:
  assumes "ahead s (0xff # 0xc0 # enc (PU32 a) @ rest)" "skip_end s" "\<not> skip_all s"
  shows "\<exists>r r' x. Read_u32 s 0 = (0, a, r) \<and> PeekDataType s = Some (3, r') \<and> Read_u32 r' 0 = (-1, x, (adv 1 s)\<lparr>skip_end := False, struct_end := True\<rparr>)"
proof -
  let ?t = "(adv 2 s)\<lparr>skip_end := False\<rparr>" and ?E = "enc (PU32 a) @ rest"
  obtain m bs where e: "enc (PU32 a) = m # bs" using enc_not_Nil by (cases "enc (PU32 a)") auto
  have m: "m \<noteq> 0xff" "drop_bit 4 (m AND 0xf0) = 3" using e by (auto simp: enc_def split: if_splits)
  have a2: "ahead ?t ?E" using ahead_adv [of s "[0xff, 0xc0]" ?E 2] assms(1) by (simp add: ahead_def)
  have b: "begin_read ?t = (TType 3 (m AND 0xf), adv 1 ?t)" using begin_read_type [of ?t m "bs @ rest"] a2 m e by simp
  have o1: "ReadOrg_u8 (adv 0 s) = (Some 0xff, adv 1 s)" using ReadOrg_vals(1) [of 0 s "0xff"] ahead_0 [OF assms(1)] by simp
  have o2: "ReadOrg_u8 (adv 1 s) = (Some 0xc0, adv 2 s)"
    using ReadOrg_vals(1) [of 1 s "0xc0" ?E] ahead_adv [of s "[0xff]" "0xc0 # ?E" 1] assms(1) by (simp add: numeral_2_eq_2)
  have "begin_read s = ReadTypeSize ?t"
    unfolding begin_read_adv using o1 o2 assms(2) by (subst ReadTypeSize.simps, simp add: NET_STREAM_STRUCT_END_MARK_def)
      (subst ReadTypeSize.simps, simp add: NET_STREAM_STRUCT_END_MARK_def Let_def)
  then have bs: "begin_read s = begin_read ?t" by (cases s) (simp add: begin_read_def adv_def)
  then have "Read_u32 s 0 = Read_u32 ?t 0" by (simp add: Read_u32_def)
  then obtain r where "Read_u32 s 0 = (0, a, r)" using read_number [OF a2] by (auto simp: read_value_def norm_def dest!: got_eq)
  moreover have "PeekDataType s = Some (3, (adv 0 s)\<lparr>skip_end := False\<rparr>)" unfolding PeekDataType_def bs b by (simp add: adv_def)
  moreover have "begin_read ((adv 0 s)\<lparr>skip_end := False\<rparr>) = (TEnd, (adv 1 s)\<lparr>skip_end := False, struct_end := True\<rparr>)"
    using begin_read_end [of "(adv 0 s)\<lparr>skip_end := False\<rparr>"] assms(1,3) by (simp add: ahead_def adv_def)
  ultimately show ?thesis by (auto simp: Read_u32_def)
qed

text \<open>An address that is cut off is reported as read, with the bytes the caller had.\<close>

lemma read_ip_cut_off:
  assumes "ahead s (0x94 # bs)" "length bs < 4"
  shows "ReadIp s a = Some (0, \<lparr>af_inet = True, ip6 = ip6 a\<rparr>, adv 1 s)"
  using begin_read_type [OF assms(1)] ahead_length [OF assms(1)] assms(2) by (simp add: ReadIp_def ReadStream_def LeftData_def word_gt_0)

end
