(* ===== verification/Spec2Isabelle.thy ===== *)
theory Spec2Isabelle
  imports Ring_Buffer Line_Buffer Tea Net_Packet Net_Node Tcp Net_Connector Nd_Str Msg_Entry Udt_Stream Formula Base64 Node_Mgr Timer Xml_File Proto_Codec
begin

text \<open>
  \<^bold>\<open>ndnetsdk\<close> is a C library for network clients and servers. A program opens a connection (\<open>nd_netui.c\<close>), which is a
  TCP connection (\<open>nd_tcp.c\<close>) or a connection of the library's own reliable protocol over UDP (\<open>udt_socket.c\<close>,
  \<open>udt_net.c\<close>). Both keep their incoming and outgoing bytes in linear buffers (\<open>recbuf.c\<close>). On a TCP connection the bytes
  are framed as packets with a header of four bytes (\<open>nd_netpack.h\<close>) whose payload may be encrypted with TEA (\<open>tea.c\<close>,
  \<open>ndcrypt.c\<close>); a receive loop cuts the stream into packets, handles system packets itself and passes user packets
  to the message tables (\<open>nd_msgentry.c\<close>), which call the handler registered for the message id if the level of the
  connection allows it. A server keeps its sessions in a table (\<open>node_mgr.c\<close>) over an allocator of equal nodes
  (\<open>nd_static_alloc.c\<close>), runs timers (\<open>nd_timer.c\<close>) and links its objects in lists (\<open>list.h\<close>). Beside the network stand the string routines (\<open>nd_str.c\<close>), the XML files of the
  configuration (\<open>nd_xml.c\<close>) and a small virtual machine with an
  assembler and a compiler for arithmetic formulas (\<open>nd_vm.c\<close>, \<open>nd_asm.c\<close>, \<open>nd_formula.c\<close>). All paths are below
  \<^verbatim>\<open>src/src\<close> and \<^verbatim>\<open>src/include\<close>.

  \<^bold>\<open>Conventions.\<close> Machine integers are words of their width where they wrap (\<open>u32\<close>, \<open>u16\<close>, \<open>byte\<close>) and \<open>int\<close> or
  \<open>nat\<close> where the code bounds them. A block of memory is a list of bytes; an operation that would read or write outside
  its block, dereference a null pointer or run out of fuel has the value \<open>None\<close>, so that a result \<open>Some\<close> says that
  none of this happens. Error returns are the results -1 and the like, with the error number in the node. The host is
  little-endian with 64-bit \<open>size_t\<close>. The kernel is an explicit state: the records \<open>net_os\<close> and \<open>udp_os\<close> hold a script
  of what each \<open>send\<close>, \<open>recv\<close> and \<open>select\<close> will do, the bytes sent so far and the clock; theorems quantify over it.

  \<^bold>\<open>Theories.\<close>
  \<^item> \<open>Nd_Prelude\<close>: machine types, error numbers, memory blocks, byte order; the lemmas on them.
  \<^item> \<open>Byte_Fifo\<close>: the locale \<open>byte_fifo\<close>, the contract of a byte queue, with the stream lemma proved once.
  \<^item> \<open>Ring_Buffer\<close>, \<open>Line_Buffer\<close>: the two buffers of \<open>recbuf.c\<close>, each an interpretation of \<open>byte_fifo\<close>. The
    linear buffer refines the queue only while no data has to move over a gap of one to seven bytes; then it
    writes past its block, and the theory says exactly when.
  \<^item> \<open>Tea\<close>: the cipher and the padded encryption of buffers, with their round trips.
  \<^item> \<open>Net_Packet\<close>: packet headers as bytes, checksum, keep-alive packet, and packet encryption over the locale
    \<open>net_cipher\<close>, which TEA interprets.
  \<^item> \<open>Net_Node\<close>, \<open>Tcp\<close>: the state of a connection and every operation of \<open>nd_tcp.c\<close>. The invariant
    \<open>node_ok\<close> is kept; any sequence of operations that finds room in the send buffer puts whole frames on the stream; reading loses nothing;
    forced flushing terminates; the send that overflows its buffer is characterised.
  \<^item> \<open>Net_Connector\<close>: sending, fetching, the receive loop, system messages, opening and closing (\<open>nd_netui.c\<close>,
    \<open>nd_netobj.c\<close>). Fetching returns exactly the messages whose frames are buffered.
  \<^item> \<open>Nd_Str\<close>: the string routines over C strings, in the three source encodings.
  \<^item> \<open>Msg_Entry\<close>: message tables and dispatch. The locale \<open>entry_table\<close> is a map that the tables implement; the only user code
    that runs is that of the entry of the message, for connections of sufficient level.
  \<^item> \<open>Udt_Packet\<close>, \<open>Udt\<close>: the packets and all operations of the UDP protocol. \<open>Udt_Receiver\<close> and \<open>Udt_Sender\<close> state
    the invariants of the two halves of a connection against one stream, \<open>Udt_Stream\<close> the step relation of sender,
    receiver and a network that loses, repeats and reorders datagrams: what is delivered is a prefix of what was sent,
    as long as data flows one way, the connection is not closed and fewer than 2^31 bytes are sent; what goes wrong
    otherwise is the subject of theorems of their own.
  \<^item> \<open>Vm\<close>, \<open>Vm_Asm\<close>, \<open>Formula\<close>: the virtual machine, its assembler and the formula compiler, with floating-point
    arithmetic as a parameter. Byte code round trip, a static check that keeps a program inside the machine,
    and what compiled formulas compute.
  \<^item> \<open>Base64\<close>: encoding and decoding, their round trip and the exact size of the encoding.
  \<^item> \<open>Nd_List\<close>: linked lists over an explicit memory of \<open>next\<close> and \<open>prev\<close> fields; each operation does to the list
    what its name says and leaves other lists alone.
  \<^item> \<open>Static_Alloc\<close>: the free list of the allocator, an interpretation of the locale \<open>node_pool\<close>: nodes inside its block
    that nobody holds, along every sequence of calls.
  \<^item> \<open>Node_Mgr\<close>: the session table, an interpretation of the locale \<open>node_table\<close>, the contract of a map from ids to nodes;
    iteration; how a stale reference makes the table lose a slot.
  \<^item> \<open>Timer\<close>: timers in a linked list with callbacks that may add and delete timers; an update runs exactly the due ones.
  \<^item> \<open>Xml_Text\<close>, \<open>Xml\<close>: entities, the XML parser and the two printers. \<open>Xml_Print\<close>: what the printers write is parsed back
    to the same tree, and parsing ends. \<open>Xml_Tree\<close>: the operations on nodes, attributes and paths. \<open>Xml_File\<close>: loading;
    what is saved is loaded, elements and attributes, and the texts on which loading goes wrong.
  \<^item> \<open>Proto_Stream\<close>: the typed streams in which the application library packs messages. \<open>Proto_Codec\<close>: the locale \<open>item_codec\<close>, the contract of
    values that are written and read, with sequences of values treated once; typed and variant values interpret it. Messages
    come back as they were written, structures may grow, and no input makes the reader leave its data or the caller's buffer.
  \<^item> This theory joins sender and receiver of an encrypted packet.

  \<^bold>\<open>Fuel.\<close> The receive loops have the buffered bytes as measure, the flush loops the script of the kernel. Fuel
  remains where the code has no bound of its own: \<open>vm_run_loop\<close> gets the program's size, which is enough since every
  instruction has a byte; \<open>parse_express_2node\<close> and \<open>run_experssion\<close> take theirs as an argument, with theorems that say
  how much is enough. Walks over linked lists take the length of the list. The XML parser takes
  the length of the text as recursion depth, and a theorem says that this is enough: without a result a step outside the
  memory was reached. Its loading loop may not end, and then has no value for any fuel while every single round has one.

  \<^bold>\<open>Not modelled.\<close> Thin wrappers of system calls (\<open>nd_unix.c\<close>, \<open>nd_win.c\<close>, \<open>nd_socket.c\<close> but for the checksum, the
  proxies), logging, third-party code (RSAREF, cJSON), the C++ application library but for its message
  streams, demos and tools. Of the connector,
  \<open>nd_net_ioctl\<close>; of UDP servers, the acceptance and release of sessions. Next in the plan: these sessions, the
  red-black tree of \<open>bintree.c\<close>.
\<close>

section \<open>From one connection to the other\<close>

lemma fetch_encrypted:
  assumes ok: "node_ok b" and v: "nd_connector_valid b" and ud: "\<not> user_define_packet b"
    and cfg: "crypt_cfg g = tea_net_crypt" and room: "length (data pb) = ND_PACKET_DATA_SIZE"
    and hs: "hlength hs = of_nat (4 + R)" "R \<le> 65520" "encrypt hs" "\<not> ndsys_msg hs" "version hs = NDNETMSG_VERSION"
    and mn: "min_packet_len g \<le> 4 + int R" and ld: "length d' = ND_PACKET_DATA_SIZE" and m: "m < 65532"
    and stored: "lbuf_data (recv_buffer b) = wire_frame hs d' @ rest"
    and dec: "\<And>ys. R + length ys = ND_PACKET_DATA_SIZE \<Longrightarrow>
      \<exists>d2. nd_packet_decrypt_key tea_net_crypt (crypt_key b) \<lparr>hdr = hs, data = take R d' @ ys\<rparr> =
        Some (int (4 + m), \<lparr>hdr = hs\<lparr>encrypt := False\<rparr>, data = d2\<rparr>) \<and> take m d2 = x"
  shows "\<exists>q b'. nd_net_fetch_msg g b (Some pb) os = Some ((int (4 + m), Some q), b', os) \<and>
    hlength (hdr q) = of_nat (4 + m) \<and> take m (data q) = x \<and> lbuf_data (recv_buffer b') = rest \<and> node_ok b'"
proof -
  have len: "unat (hlength hs) = 4 + R" using hs(1,2) by (simp add: unat_of_nat_eq del: of_nat_add)
  have fr: "wire_frame hs d' = hdr_bytes (wire_hdr hs) @ take R d'" by (simp add: wire_frame_def len)
  have tR: "length (take R d') = R" using hs(2) ld packet_sizes by simp
  have nt: "nd_packet_ntoh (wire_hdr hs) = hs" 
  proof -
    have "nd_packet_ntoh (wire_hdr hs) = hs\<lparr>version := NDNETMSG_VERSION\<rparr>" by (rule wire_hdr_sel)
    also have "\<dots> = hs" using hs(5) by (cases hs) simp
    finally show ?thesis .
  qed
  let ?ys = "drop R (data pb)"
  have "R + length ?ys = ND_PACKET_DATA_SIZE" using room hs(2) packet_sizes by simp
  from dec [OF this] obtain d2 where d2: "nd_packet_decrypt_key tea_net_crypt (crypt_key b) \<lparr>hdr = hs, data = take R d' @ ?ys\<rparr> =
        Some (int (4 + m), \<lparr>hdr = hs\<lparr>encrypt := False\<rparr>, data = d2\<rparr>)" "take m d2 = x" by blast
  have up: "user_packet (wire_hdr hs) (take R d') pb = \<lparr>hdr = hs, data = take R d' @ ?ys\<rparr>"
    by (simp only: user_packet_def nt tR)
  have a: "lbuf_data (recv_buffer b) = hdr_bytes (wire_hdr hs) @ take R d' @ rest"
    "nd_net_getpack_size (wire_hdr hs) = 4 + length (take R d')" "min_packet_len g \<le> 4 + int (length (take R d'))"
    "\<not> ndsys_msg (wire_hdr hs)" "length (take R d') \<le> length (data pb)"
    using stored fr len tR mn hs room packet_sizes by (simp_all del: length_take)
  let ?q = "\<lparr>hdr = nd_set_pack_len (hs\<lparr>encrypt := False\<rparr>) (word_of_int (int (4 + m))), data = d2\<rparr>"
  from fetch_user_frame [OF ok ud a(1,2,3,4,5), where os = os] obtain b' where b': "lbuf_ok b'" "lbuf_data b' = rest"
    "same_frame (recv_buffer b) b'" and fo: "fetch_once g b (Some pb) os = Some (FDone (int (4 + m)) (Some ?q),
       b\<lparr>recv_buffer := b', is_crypt_packet := True, recv_pack_times := recv_pack_times b + 1\<rparr>, os)"
    using hs(3) d2(1) by (auto simp: Let_def nd_packet_decrypt_def cfg up)
  let ?b = "b\<lparr>recv_buffer := b', is_crypt_packet := True, recv_pack_times := recv_pack_times b + 1\<rparr>"
  have "\<exists>q. nd_net_fetch_msg g b (Some pb) os = Some ((int (4 + m), Some q), ?b, os) \<and>
      hlength (hdr q) = of_nat (4 + m) \<and> data q = d2"
    using v fo by (simp add: nd_net_fetch_msg_def fetch_loop.simps Let_def nd_set_pack_len_def)
  then obtain q where q: "nd_net_fetch_msg g b (Some pb) os = Some ((int (4 + m), Some q), ?b, os)"
    and qs: "hlength (hdr q) = of_nat (4 + m)" "data q = d2" by blast
  have "node_ok ?b" "lbuf_data (recv_buffer ?b) = rest"
    using b' ok by (simp_all add: node_ok_def same_frame_def)
  with q qs d2(2) show ?thesis by blast
qed

text \<open>C1. End to end. A packet sent with encryption over one TCP connection is what the peer's fetch
  hands out: when the bytes the sender's send added to its outgoing stream stand at the front of the
  peer's receive buffer and both ends hold the same key, the peer gets the original length and payload,
  and its buffer then holds what followed.\<close>

theorem encrypted_end_to_end:
  assumes a: "node_ok a" "65535 \<le> buf_capacity (send_buffer a)" "nd_connector_valid a"
    and g: "crypt_cfg g = tea_net_crypt" "min_packet_len g \<le> 6"
    and k: "is_valid_crypt (crypt_key a)" "length (key (crypt_key a)) = 16" "crypt_key b = crypt_key a"
    and p: "\<not> encrypt (hdr p)" "\<not> stuff (hdr p)" "\<not> ndsys_msg (hdr p)" "hlength (hdr p) = of_nat (4 + m)"
      "0 < m" "m \<le> 65520" "m \<le> length (data p)"
    and flag: "ESF_ENCRYPT \<in> flag" and junk: "length (stack_junk os) = ND_PACKET_SIZE"
    and send: "nd_connector_send g a p flag os = Some ((r, p'), a', os')" "0 < r"
    and b: "node_ok b" "nd_connector_valid b" "\<not> user_define_packet b" "length (data pb) = ND_PACKET_DATA_SIZE"
    and wire: "out_stream a' os' @ rest = out_stream a os @ lbuf_data (recv_buffer b)"
  shows "\<exists>q b'. nd_net_fetch_msg g b (Some pb) os2 = Some ((int (4 + m), Some q), b', os2) \<and>
    hlength (hdr q) = of_nat (4 + m) \<and> take m (data q) = take m (data p) \<and>
    lbuf_data (recv_buffer b') = rest \<and> node_ok b'"
proof -
  let ?hs = "tea.stuffed ((hdr p)\<lparr>version := NDNETMSG_VERSION\<rparr>) m" and ?R = "ND_ROUNDUP8 m"
  obtain d' where ld: "length d' = ND_PACKET_DATA_SIZE" and st: "streamed a os (wire_frame ?hs d') a' os'"
    and dec: "\<And>ys. ?R + length ys = ND_PACKET_DATA_SIZE \<Longrightarrow>
      \<exists>d2. nd_packet_decrypt_key tea_net_crypt (crypt_key b) \<lparr>hdr = ?hs, data = take ?R d' @ ys\<rparr> =
        Some (int (4 + m), \<lparr>hdr = ?hs\<lparr>encrypt := False\<rparr>, data = d2\<rparr>) \<and> take m d2 = take m (data p)"
    using connector_send_crypt [OF a flag g(1) k(1,2) p(1,2,4,5,6,7) junk send(1)] send(2) k(3) by auto
  have R: "?R \<le> 65520" "0 < ?R" using ROUNDUP8_bounds [of m] p(5,6) by presburger+
  have hl: "hlength ?hs = of_nat (4 + ?R)" by (rule tea.stuffed_len) (simp add: p(4))
  have hs: "encrypt ?hs" "\<not> ndsys_msg ?hs" "version ?hs = NDNETMSG_VERSION" using p(3) by (simp_all add: tea.stuffed_def)
  have "8 \<le> ?R" using ROUNDUP8_bounds(3) [of m] R(2) by presburger
  then have mn: "min_packet_len g \<le> 4 + int ?R" using g(2) by linarith
  have "lbuf_data (recv_buffer b) = wire_frame ?hs d' @ rest"
    using wire st by (simp add: streamed_def)
  moreover have "m < 65532" using p(6) by linarith
  ultimately show ?thesis
    using fetch_encrypted [OF b(1-3) g(1) b(4) hl R(1) hs mn ld, where x = "take m (data p)"] dec by blast
qed

definition sender_node :: nd_tcp_node where
  "sender_node = (sample_node 65536 [])\<lparr>crypt_key := sample_key\<rparr>"

definition peer_node :: "byte list \<Rightarrow> nd_tcp_node" where
  "peer_node xs = (recv_node 64 xs)\<lparr>crypt_key := sample_key\<rparr>"

lemma sender_node_ok:
  "node_ok sender_node" "buf_capacity (send_buffer sender_node) = 65536" "nd_connector_valid sender_node"
  "crypt_key sender_node = sample_key" "lbuf_datalen (send_buffer sender_node) = 0" "packet_write sender_node = PW_tcpnode_send"
  "lbuf_data (send_buffer sender_node) = []"
  using sample_node_ok [of 65536 "[]"] recv_node_ok(2) [of 65536 "[]"] sample_buf_ok [of 65536 "[]"]
  by (simp_all add: sender_node_def recv_node_def)
    (simp_all add: sample_node_def sample_buf_def zero_tcp_node_def lbuf_datalen_def size_sub_def)

lemma peer_node_ok:
  assumes "length xs \<le> 64"
  shows "node_ok (peer_node xs)" "nd_connector_valid (peer_node xs)" "\<not> user_define_packet (peer_node xs)"
    "lbuf_data (recv_buffer (peer_node xs)) = xs" "crypt_key (peer_node xs) = sample_key"
  using recv_node_ok [of 64 xs] assms
  by (simp_all add: peer_node_def)

lemma sample_os_junk: "length (stack_junk (sample_os s)) = ND_PACKET_SIZE"
  by (simp add: sample_os_def)

lemma ROUNDUP8_3: "ND_ROUNDUP8 3 = 8" by (simp add: ND_ROUNDUP8_def)

lemma sample_send:
  "\<exists>q a' os'. nd_connector_send sample_globals sender_node (sample_packet 3) {ESF_ENCRYPT} (sample_os [SendOk 100]) =
    Some ((12, q), a', os')"
proof -
  let ?a = "sender_node" and ?os = "sample_os [SendOk 100]" and ?p = "sample_packet 3"
  have cfg: "crypt_cfg sample_globals = tea_net_crypt" by (simp add: sample_globals_def)
  have k: "is_valid_crypt (crypt_key ?a)" "length (key (crypt_key ?a)) = 16"
    using sample_key_ok sender_node_ok(4) by (simp_all add: CRYPT_KEK_SIZE_def)
  have p: "\<not> encrypt (hdr ?p)" "\<not> stuff (hdr ?p)" "hlength (hdr ?p) = of_nat (4 + 3)" "(0::nat) < 3" "(3::nat) \<le> 65520"
      "3 \<le> length (data ?p)"
    using packet_sizes(2) by simp_all
  obtain d' q where ld: "length d' = ND_PACKET_DATA_SIZE"
    and w: "nd_connector_send sample_globals ?a ?p {ESF_ENCRYPT} ?os = do {
      (ret, n', os') \<leftarrow> do_packet_write (?a\<lparr>myerrno := 0, send_pack_times := send_pack_times ?a + 1\<rparr>)
         (hdr_bytes (wire_hdr (tea.stuffed ((hdr ?p)\<lparr>version := NDNETMSG_VERSION\<rparr>) 3)) @ d') {ESF_ENCRYPT} ?os;
      Some ((ret, q), n', os') }"
    using connector_send_crypt_write [OF sender_node_ok(3) _ cfg k p sample_os_junk, of "{ESF_ENCRYPT}"] by blast
  have len: "length (wire_frame (tea.stuffed ((hdr ?p)\<lparr>version := NDNETMSG_VERSION\<rparr>) 3) d') = 12"
    using crypt_frame(2) [OF p(3,5) ld] ROUNDUP8_3 by simp
  have "send_script ?os = SendOk 100 # []" by (simp add: sample_os_def)
  from nd_tcpnode_send_full [OF _ this _ _ bytes_hdr_of_hdr crypt_frame(3) [OF p(3,5) ld],
      of "?a\<lparr>myerrno := 0, send_pack_times := send_pack_times ?a + 1\<rparr>" "{ESF_ENCRYPT}"] len sender_node_ok(5,6)
  show ?thesis unfolding w by (auto simp: do_packet_write_def)
qed

theorem encrypted_end_to_end_witness:
  "\<exists>p' a' os' b q b'.
    nd_connector_send sample_globals sender_node (sample_packet 3) {ESF_ENCRYPT} (sample_os [SendOk 100]) = Some ((12, p'), a', os') \<and>
    out_stream a' os' @ [1] = lbuf_data (recv_buffer b) \<and>
    nd_net_fetch_msg sample_globals b (Some (sample_packet 0)) (sample_os []) = Some ((7, Some q), b', sample_os []) \<and>
    take 3 (data q) = take 3 (data (sample_packet 3)) \<and> lbuf_data (recv_buffer b') = [1]"
proof -
  let ?a = "sender_node" and ?os = "sample_os [SendOk 100]" and ?p = "sample_packet 3"
  obtain p' a' os' where s: "nd_connector_send sample_globals ?a ?p {ESF_ENCRYPT} ?os = Some ((12, p'), a', os')"
    using sample_send by blast
  have cfg: "crypt_cfg sample_globals = tea_net_crypt" "min_packet_len sample_globals \<le> 6"
    by (simp_all add: sample_globals_def)
  have k: "is_valid_crypt (crypt_key ?a)" "length (key (crypt_key ?a)) = 16"
    using sample_key_ok sender_node_ok(4) by (simp_all add: CRYPT_KEK_SIZE_def)
  have p: "\<not> encrypt (hdr ?p)" "\<not> stuff (hdr ?p)" "hlength (hdr ?p) = of_nat (4 + 3)" "(0::nat) < 3" "(3::nat) \<le> 65520"
      "3 \<le> length (data ?p)" "\<not> ndsys_msg (hdr ?p)"
    using packet_sizes(2) by (simp_all add: sample_packet_def nd_hdr_init_def)
  have cap: "65535 \<le> buf_capacity (send_buffer ?a)" using sender_node_ok(2) by simp
  have out0: "out_stream ?a ?os = []" using sender_node_ok(7) by (simp add: out_stream_def sample_os_def)
  have "\<exists>d'. length d' = ND_PACKET_DATA_SIZE \<and>
      out_stream a' os' = wire_frame (tea.stuffed ((hdr ?p)\<lparr>version := NDNETMSG_VERSION\<rparr>) 3) d'"
    using connector_send_crypt [OF sender_node_ok(1) cap sender_node_ok(3) _ cfg(1) k p(1-6) sample_os_junk s] out0
    by (auto simp: streamed_def)
  then have "length (out_stream a' os') = 12" using crypt_frame(2) [OF p(3,5)] ROUNDUP8_3 by auto
  then have b: "length (out_stream a' os' @ [1]) \<le> 64" by simp
  let ?b = "peer_node (out_stream a' os' @ [1])"
  have kb: "crypt_key ?b = crypt_key ?a" using peer_node_ok(5) [OF b] sender_node_ok(4) by simp
  have wire: "out_stream a' os' @ [1] = out_stream ?a ?os @ lbuf_data (recv_buffer ?b)"
    using peer_node_ok(4) [OF b] out0 by simp
  have pb: "length (data (sample_packet 0)) = ND_PACKET_DATA_SIZE" by simp
  from encrypted_end_to_end [OF sender_node_ok(1) cap sender_node_ok(3) cfg k kb p(1,2,7,3,4,5,6) _ sample_os_junk s _
      peer_node_ok(1-3) [OF b] pb wire, of "sample_os []"] s wire out0
  show ?thesis by (simp del: of_nat_add) blast
qed

end
